(* ===== verification/Prelude.thy ===== *)
theory Prelude
  imports Main "HOL-Library.Word"
begin

text \<open>
  Shared material of the development: error codes and undefined behaviour as values, the
  machine-integer types of the C code, the malloc model, and generic lemmas on lists and
  words that the components use. Nothing here models a line of the program itself.
\<close>

unbundle bit_operations_syntax

section \<open>Machine integers\<close>

type_synonym u8 = "8 word"
type_synonym u16 = "16 word"
type_synonym u32 = "32 word"
type_synonym u64 = "64 word"

text \<open>\<open>size_t\<close> is 64 bits wide; counts are naturals with the wrap-around written out.\<close>

definition wrap64 :: "nat \<Rightarrow> nat" where
  "wrap64 n = n mod 2 ^ 64"

definition sub64 :: "nat \<Rightarrow> nat \<Rightarrow> nat" where
  "sub64 a b = (a + 2 ^ 64 - b) mod 2 ^ 64"

lemma wrap64_id [simp]: "n < 2 ^ 64 \<Longrightarrow> wrap64 n = n"
  by (simp add: wrap64_def)

lemma sub64_id [simp]:
  assumes "b \<le> a" and "a < 2 ^ 64"
  shows "sub64 a b = a - b"
proof -
  have "a + 2 ^ 64 - b = (a - b) + 2 ^ 64"
    using assms(1) by (rule Nat.diff_add_assoc2)
  moreover have "a - b < 2 ^ 64"
    using assms(2) by (rule le_less_trans [OF diff_le_self])
  ultimately show ?thesis
    unfolding sub64_def by (simp only: mod_add_self2 mod_less)
qed

section \<open>Errors and undefined behaviour\<close>

text \<open>The \<open>errno\<close> values the modelled code returns; \<open>Sys_err n\<close> is one a system call set.\<close>

datatype errno =
    EINVAL | ENOMEM | ENOENT | EOVERFLOW | EBADMSG | ERANGE | EALREADY | EPROTO
  | ETIMEDOUT | ENOSYS | EPIPE | EDESTADDRREQ | ENOTSUP | EAFNOSUPPORT | ENODATA
  | EPROTONOSUPPORT | ENOTCONN | ECONNABORTED | Sys_err int

text \<open>
  A C function that returns 0 or an error code and changes a state is modelled by the pair of
  an \<open>errno option\<close> (\<open>None\<close> for 0) and the new state, since the state can have changed on
  the error path too; one that also yields a value returns \<open>errno + 'a\<close> instead.
  \<open>err |= e\<close> is \<open>err_or\<close>: where the code ors two results, both come from allocation
  failures, so the first error is also the ored value.
\<close>

definition err_or :: "errno option \<Rightarrow> errno option \<Rightarrow> errno option" where
  "err_or a b = (case a of None \<Rightarrow> b | Some e \<Rightarrow> Some e)"

lemma err_or_None [simp]: "err_or None b = b" "err_or a None = a"
  by (simp_all add: err_or_def split: option.splits)

lemma err_or_eq_None [simp]: "err_or a b = None \<longleftrightarrow> a = None \<and> b = None"
  by (simp add: err_or_def split: option.splits)

text \<open>What C leaves undefined is a value as well, so that a model can neither hide nor skip it.\<close>

datatype ub = Null_deref | Use_after_free | Out_of_bounds | Uninitialised | Shift_overflow

fun obind :: "(ub + 'a) \<Rightarrow> ('a \<Rightarrow> ub + 'b) \<Rightarrow> ub + 'b" where
  "obind (Inl e) f = Inl e"
| "obind (Inr a) f = f a"

lemma obind_Inr_iff: "obind m f = Inr b \<longleftrightarrow> (\<exists>a. m = Inr a \<and> f a = Inr b)"
  by (cases m) auto

lemma obind_InrE:
  assumes "obind m f = Inr b"
  obtains a where "m = Inr a" "f a = Inr b"
  using assms by (auto simp: obind_Inr_iff)

lemma obind_Inl_iff: "obind m f = Inl e \<longleftrightarrow> m = Inl e \<or> (\<exists>a. m = Inr a \<and> f a = Inl e)"
  by (cases m) auto

lemma obind_cong [fundef_cong]:
  "m = m' \<Longrightarrow> (\<And>a. m' = Inr a \<Longrightarrow> f a = f' a) \<Longrightarrow> obind m f = obind m' f'"
  by (cases m') auto

text \<open>Dereferencing a pointer that can be NULL.\<close>

definition deref :: "'a option \<Rightarrow> ub + 'a" where
  "deref p = (case p of None \<Rightarrow> Inl Null_deref | Some a \<Rightarrow> Inr a)"

lemma deref_simps [simp]: "deref None = Inl Null_deref" "deref (Some a) = Inr a"
  by (simp_all add: deref_def)

lemma deref_Inr_iff [simp]: "deref p = Inr a \<longleftrightarrow> p = Some a"
  by (simp add: deref_def split: option.splits)

section \<open>The allocator\<close>

text \<open>
  \<open>malloc\<close> may fail and leaves fresh memory unset: \<open>al_ok n\<close> says whether a request for \<open>n\<close>
  bytes succeeds, \<open>al_byte i\<close> is the unspecified content of byte \<open>i\<close> of a fresh block.
  Both are parameters of every function that allocates a buffer.
\<close>

record allocator =
  al_ok :: "nat \<Rightarrow> bool"
  al_byte :: "nat \<Rightarrow> u8"

section \<open>Hint collections\<close>

named_theorems heap_frame "updates that leave a list segment alone"
named_theorems app_defs "unfolding the handlers of the application"

section \<open>Texts\<close>

text \<open>The end of a line in the text protocols.\<close>

definition crlf :: string where
  "crlf = [CHR 0x0D, CHR 0x0A]"

section \<open>Lists\<close>

text \<open>First and last element with a default, as the head and tail pointers of a list hold them.\<close>

definition hd_or :: "'a option \<Rightarrow> 'a list \<Rightarrow> 'a option" where
  "hd_or d xs = (case xs of [] \<Rightarrow> d | x # _ \<Rightarrow> Some x)"

definition last_or :: "'a option \<Rightarrow> 'a list \<Rightarrow> 'a option" where
  "last_or d xs = (if xs = [] then d else Some (last xs))"

lemma hd_or_simps [simp]: "hd_or d [] = d" "hd_or d (x # xs) = Some x"
  by (simp_all add: hd_or_def)

lemma last_or_simps [simp]: "last_or d [] = d" "last_or d (x # xs) = last_or (Some x) xs"
  "last_or d (xs @ [x]) = Some x"
  by (simp_all add: last_or_def)

lemma hd_or_append [simp]: "hd_or d (xs @ ys) = hd_or (hd_or d ys) xs"
  by (cases xs) simp_all

lemma last_or_append [simp]: "last_or d (xs @ ys) = last_or (last_or d xs) ys"
  by (simp add: last_or_def)

lemma hd_or_None [simp]: "hd_or d xs = None \<longleftrightarrow> d = None \<and> xs = []"
  by (cases xs) auto

lemma last_or_None [simp]: "last_or d xs = None \<longleftrightarrow> d = None \<and> xs = []"
  by (simp add: last_or_def)

lemma hd_or_Some_ex [simp]: "\<exists>y. hd_or (Some z) xs = Some y"
  by (cases xs) auto

lemma last_or_Some_ex [simp]: "\<exists>y. last_or (Some z) xs = Some y"
  by (simp add: last_or_def)

lemma last_or_Some_iff: "last_or None xs = Some z \<longleftrightarrow> (\<exists>ys. xs = ys @ [z])"
  by (cases xs rule: rev_cases) auto

lemma find_split:
  "List.find P xs = Some x \<longleftrightarrow> (\<exists>ys zs. xs = ys @ x # zs \<and> P x \<and> (\<forall>y\<in>set ys. \<not> P y))"
proof (induction xs)
  case Nil
  then show ?case by simp
next
  case (Cons a xs)
  show ?case
  proof (cases "P a")
    case True
    then show ?thesis by (auto simp: Cons_eq_append_conv)
  next
    case False
    have "(\<exists>ys zs. a # xs = ys @ x # zs \<and> P x \<and> (\<forall>y\<in>set ys. \<not> P y)) \<longleftrightarrow>
        (\<exists>ys zs. xs = ys @ x # zs \<and> P x \<and> (\<forall>y\<in>set ys. \<not> P y))" (is "?l \<longleftrightarrow> ?r")
    proof
      assume ?l
      with False show ?r by (auto simp: Cons_eq_append_conv)
    next
      assume ?r
      then obtain ys zs where "xs = ys @ x # zs" "P x" "\<forall>y\<in>set ys. \<not> P y" by blast
      with False have "a # xs = (a # ys) @ x # zs \<and> P x \<and> (\<forall>y\<in>set (a # ys). \<not> P y)" by simp
      then show ?l by blast
    qed
    with False Cons show ?thesis by simp
  qed
qed

lemma find_None_iff_all: "List.find P xs = None \<longleftrightarrow> (\<forall>x\<in>set xs. \<not> P x)"
  by (induction xs) auto

lemma remove1_append_mid: "x \<notin> set as \<Longrightarrow> remove1 x (as @ x # bs) = as @ bs"
  by (simp add: remove1_append)

text \<open>Writing a block at an offset, as \<open>memcpy\<close> into a buffer does.\<close>

definition splice :: "nat \<Rightarrow> 'a list \<Rightarrow> 'a list \<Rightarrow> 'a list" where
  "splice n ys xs = take n xs @ ys @ drop (n + length ys) xs"

lemma length_splice [simp]: "n + length ys \<le> length xs \<Longrightarrow> length (splice n ys xs) = length xs"
  by (simp add: splice_def)

lemma splice_read [simp]:
  "n \<le> length xs \<Longrightarrow> take (length ys) (drop n (splice n ys xs)) = ys"
  by (simp add: splice_def)

lemma splice_at_end [simp]: "splice (length xs) ys xs = xs @ ys"
  by (simp add: splice_def)

lemma take_splice: "n \<le> length xs \<Longrightarrow> take n (splice n ys xs) = take n xs"
  by (simp add: splice_def)

section \<open>Bytes of a word\<close>

text \<open>
  The bytes of a word in memory, least significant first (the build directory of the repository
  is for x86-64), and the byte swap \<open>htons\<close>, \<open>htonl\<close>, \<open>ntohs\<close> and \<open>ntohl\<close> are on such a machine.
\<close>

fun le_bytes :: "nat \<Rightarrow> 'a::len word \<Rightarrow> u8 list" where
  "le_bytes 0 w = []"
| "le_bytes (Suc n) w = ucast w # le_bytes n (drop_bit 8 w)"

fun of_le_bytes :: "u8 list \<Rightarrow> 'a::len word" where
  "of_le_bytes [] = 0"
| "of_le_bytes (b # bs) = ucast b OR push_bit 8 (of_le_bytes bs)"

definition bswap :: "nat \<Rightarrow> 'a::len word \<Rightarrow> 'a word" where
  "bswap n w = of_le_bytes (rev (le_bytes n w))"

lemma length_le_bytes [simp]: "length (le_bytes n w) = n"
  by (induction n arbitrary: w) simp_all

lemma of_le_le_bytes: "of_le_bytes (le_bytes n w) = take_bit (8 * n) (w :: 'a::len word)"
proof (induction n arbitrary: w)
  case 0
  then show ?case by simp
next
  case (Suc n)
  have "ucast (ucast w :: u8) OR push_bit 8 (take_bit (8 * n) (drop_bit 8 w)) =
      take_bit (8 * Suc n) w"
    by (rule bit_word_eqI) (auto simp: bit_simps)
  with Suc show ?case by simp
qed

lemma of_le_le_bytes_full [simp]:
  "LENGTH('a::len) \<le> 8 * n \<Longrightarrow> of_le_bytes (le_bytes n w) = (w :: 'a word)"
  by (simp add: of_le_le_bytes take_bit_word_eq_self)

lemma le_of_le_bytes:
  "length bs = n \<Longrightarrow> 8 * n \<le> LENGTH('a::len) \<Longrightarrow> le_bytes n (of_le_bytes bs :: 'a word) = bs"
proof (induction bs arbitrary: n)
  case Nil
  then show ?case by simp
next
  case (Cons b bs)
  then obtain m where n: "n = Suc m" "length bs = m" by auto
  have 1: "ucast (ucast b OR push_bit 8 (of_le_bytes bs :: 'a word)) = b"
    using Cons.prems n by (intro bit_word_eqI) (auto simp: bit_simps)
  have 2: "le_bytes m (drop_bit 8 (ucast b OR push_bit 8 (of_le_bytes bs :: 'a word))) =
      le_bytes m (take_bit (LENGTH('a) - 8) (of_le_bytes bs :: 'a word))"
    using Cons.prems n
    by (intro arg_cong [where f = "le_bytes m"] bit_word_eqI)
      (auto simp: bit_simps dest: bit_imp_le_length)
  have 3: "le_bytes k (take_bit j w) = le_bytes k w" if "8 * k \<le> j" for k j and w :: "'a word"
    using that
  proof (induction k arbitrary: j w)
    case (Suc k)
    have "ucast (take_bit j w) = (ucast w :: u8)"
      using Suc.prems by (intro bit_word_eqI) (auto simp: bit_simps)
    moreover have "drop_bit 8 (take_bit j w) = take_bit (j - 8) (drop_bit 8 w)"
      by (intro bit_word_eqI) (auto simp: bit_simps)
    ultimately show ?case using Suc.IH [of "j - 8" "drop_bit 8 w"] Suc.prems by simp
  qed simp
  have "8 * m \<le> LENGTH('a) - 8" using Cons.prems n by simp
  with 1 2 3 Cons.IH [OF n(2)] Cons.prems n show ?case by simp
qed

lemma bswap_bswap: "LENGTH('a::len) = 8 * n \<Longrightarrow> bswap n (bswap n w) = (w :: 'a word)"
  by (simp add: bswap_def le_of_le_bytes of_le_le_bytes)
    (metis bswap_def length_rev le_of_le_bytes length_le_bytes nle_le of_le_le_bytes rev_rev_ident
      take_bit_word_eq_self)

end
