(* ===== verification/Re_Mbuf.thy ===== *)
theory Re_Mbuf
  imports Prelude
begin

text \<open>
  Memory buffers (\<open>src/re/src/mbuf/mbuf.c\<close> and the inline functions of
  \<open>src/re/include/re_mbuf.h\<close>): a growing byte array with a position and an end. The record
  has the fields of \<open>struct mbuf\<close>; a NULL \<open>buf\<close> is the empty list (its size is 0).
  The buffers that \<open>mbuf_alloc_ref\<close> makes share their bytes with another buffer, and are not
  modelled; neither are the checks of the debug build that stop the program at an inconsistent
  position. The formatted printing (\<open>mbuf_printf\<close>) goes through the formatter of \<open>fmt/\<close>.

  The lemmas give each operation in terms of a cursor: the bytes before the position
  (\<open>mb_before\<close>) and those between the position and the end (\<open>mb_rest\<close>).
\<close>

section \<open>State\<close>

record mbuf =
  mb_buf :: "u8 list"
  mb_size :: nat
  mb_pos :: nat
  mb_end :: nat

definition DEFAULT_SIZE :: nat where
  "DEFAULT_SIZE = 512"

section \<open>Operations\<close>

text \<open>\<open>mem_realloc\<close> keeps the common prefix; the bytes it adds are unset.\<close>

definition mem_realloc :: "allocator \<Rightarrow> u8 list \<Rightarrow> nat \<Rightarrow> u8 list option" where
  "mem_realloc A buf n =
    (if al_ok A n then Some (take n buf @ map (al_byte A) [length buf..<n]) else None)"

definition mbuf_init :: mbuf where
  "mbuf_init = \<lparr>mb_buf = [], mb_size = 0, mb_pos = 0, mb_end = 0\<rparr>"

definition mbuf_reset :: "mbuf \<Rightarrow> mbuf" where
  "mbuf_reset mb = mbuf_init"

definition mbuf_resize :: "allocator \<Rightarrow> mbuf \<Rightarrow> nat \<Rightarrow> errno option \<times> mbuf" where
  "mbuf_resize A mb n = (case mem_realloc A (mb_buf mb) n of
      None \<Rightarrow> (Some ENOMEM, mb)
    | Some buf \<Rightarrow> (None, mb\<lparr>mb_buf := buf, mb_size := n\<rparr>))"

text \<open>\<open>mbuf_alloc\<close> asks for the structure (32 bytes) first, then for the bytes.\<close>

definition mbuf_alloc :: "allocator \<Rightarrow> nat \<Rightarrow> mbuf option" where
  "mbuf_alloc A n = (if \<not> al_ok A 32 then None else
     (case mbuf_resize A mbuf_init (if n \<noteq> 0 then n else DEFAULT_SIZE) of
        (Some e, mb) \<Rightarrow> None
      | (None, mb) \<Rightarrow> Some mb))"

definition mbuf_trim :: "allocator \<Rightarrow> mbuf \<Rightarrow> mbuf" where
  "mbuf_trim A mb = (if mb_end mb = 0 \<or> mb_end mb = mb_size mb then mb
     else snd (mbuf_resize A mb (mb_end mb)))"

definition mbuf_write_mem :: "allocator \<Rightarrow> mbuf \<Rightarrow> u8 list option \<Rightarrow> errno option \<times> mbuf" where
  "mbuf_write_mem A mb bufp = (case bufp of None \<Rightarrow> (Some EINVAL, mb) | Some buf \<Rightarrow>
     let size = length buf;
         rsize = wrap64 (mb_pos mb + size);
         dsize = (if mb_size mb \<noteq> 0 then wrap64 (mb_size mb * 2) else DEFAULT_SIZE);
         (err, mb) = (if rsize > mb_size mb then mbuf_resize A mb (max rsize dsize) else (None, mb))
     in case err of Some e \<Rightarrow> (Some e, mb)
        | None \<Rightarrow>
            let pos = wrap64 (mb_pos mb + size)
            in (None, mb\<lparr>mb_buf := splice (mb_pos mb) buf (mb_buf mb), mb_pos := pos,
                         mb_end := max (mb_end mb) pos\<rparr>))"

definition mbuf_write_u8 :: "allocator \<Rightarrow> mbuf \<Rightarrow> u8 \<Rightarrow> errno option \<times> mbuf" where
  "mbuf_write_u8 A mb v = mbuf_write_mem A mb (Some (le_bytes 1 v))"

definition mbuf_write_u16 :: "allocator \<Rightarrow> mbuf \<Rightarrow> u16 \<Rightarrow> errno option \<times> mbuf" where
  "mbuf_write_u16 A mb v = mbuf_write_mem A mb (Some (le_bytes 2 v))"

definition mbuf_write_u32 :: "allocator \<Rightarrow> mbuf \<Rightarrow> u32 \<Rightarrow> errno option \<times> mbuf" where
  "mbuf_write_u32 A mb v = mbuf_write_mem A mb (Some (le_bytes 4 v))"

definition mbuf_write_u64 :: "allocator \<Rightarrow> mbuf \<Rightarrow> u64 \<Rightarrow> errno option \<times> mbuf" where
  "mbuf_write_u64 A mb v = mbuf_write_mem A mb (Some (le_bytes 8 v))"

text \<open>The characters of a string as bytes.\<close>

definition bytes_of :: "string \<Rightarrow> u8 list" where
  "bytes_of s = List.map of_char s"

definition string_of :: "u8 list \<Rightarrow> string" where
  "string_of bs = List.map (\<lambda>b. char_of (unat b)) bs"

definition mbuf_write_str :: "allocator \<Rightarrow> mbuf \<Rightarrow> string option \<Rightarrow> errno option \<times> mbuf" where
  "mbuf_write_str A mb strp = (case strp of None \<Rightarrow> (Some EINVAL, mb)
     | Some str \<Rightarrow> mbuf_write_mem A mb (Some (bytes_of str)))"

text \<open>A \<open>struct pl\<close> is the text it points at, \<open>None\<close> when its pointer is NULL.\<close>

definition mbuf_write_pl :: "allocator \<Rightarrow> mbuf \<Rightarrow> string option \<Rightarrow> errno option \<times> mbuf" where
  "mbuf_write_pl A mb pl = mbuf_write_mem A mb (map_option bytes_of pl)"

text \<open>
  \<open>mbuf_write_pl_skip\<close> compares the pointers of two texts: both are a start and a length in
  one block of memory here.
\<close>

definition mbuf_write_pl_skip ::
  "allocator \<Rightarrow> mbuf \<Rightarrow> u8 list \<Rightarrow> nat \<times> nat \<Rightarrow> nat \<times> nat \<Rightarrow> errno option \<times> mbuf" where
  "mbuf_write_pl_skip A mb mem pl skip =
    (let (p, l) = pl; (sp, sl) = skip in
     if p > sp \<or> sp + sl > p + l then (Some ERANGE, mb)
     else case mbuf_write_mem A mb (Some (take (sp - p) (drop p mem))) of
         (Some e, mb) \<Rightarrow> (Some e, mb)
       | (None, mb) \<Rightarrow>
           let rp = sp + sl in mbuf_write_mem A mb (Some (take (p + l - rp) (drop rp mem))))"

definition mbuf_get_left :: "mbuf \<Rightarrow> nat" where
  "mbuf_get_left mb = sub64 (mb_end mb) (mb_pos mb)"

definition mbuf_get_space :: "mbuf \<Rightarrow> nat" where
  "mbuf_get_space mb = sub64 (mb_size mb) (mb_pos mb)"

definition mbuf_set_pos :: "mbuf \<Rightarrow> nat \<Rightarrow> mbuf" where
  "mbuf_set_pos mb p = mb\<lparr>mb_pos := p\<rparr>"

definition mbuf_set_end :: "mbuf \<Rightarrow> nat \<Rightarrow> mbuf" where
  "mbuf_set_end mb e = mb\<lparr>mb_end := e\<rparr>"

text \<open>The step is signed, and added to an unsigned position.\<close>

definition mbuf_advance :: "mbuf \<Rightarrow> int \<Rightarrow> mbuf" where
  "mbuf_advance mb n = mb\<lparr>mb_pos := nat ((int (mb_pos mb) + n) mod 2 ^ 64)\<rparr>"

definition mbuf_rewind :: "mbuf \<Rightarrow> mbuf" where
  "mbuf_rewind mb = mb\<lparr>mb_pos := 0, mb_end := 0\<rparr>"

definition mbuf_skip_to_end :: "mbuf \<Rightarrow> mbuf" where
  "mbuf_skip_to_end mb = mb\<lparr>mb_pos := mb_end mb\<rparr>"

definition mbuf_read_mem :: "mbuf \<Rightarrow> nat \<Rightarrow> (errno + u8 list) \<times> mbuf" where
  "mbuf_read_mem mb n =
    (if n > mbuf_get_left mb then (Inl EOVERFLOW, mb)
     else (Inr (take n (drop (mb_pos mb) (mb_buf mb))),
           mb\<lparr>mb_pos := wrap64 (mb_pos mb + n)\<rparr>))"

definition mbuf_read_u8 :: "mbuf \<Rightarrow> u8 \<times> mbuf" where
  "mbuf_read_u8 mb = (case mbuf_read_mem mb 1 of
     (Inr v, mb) \<Rightarrow> (of_le_bytes v, mb) | (Inl e, mb) \<Rightarrow> (0, mb))"

definition mbuf_read_u16 :: "mbuf \<Rightarrow> u16 \<times> mbuf" where
  "mbuf_read_u16 mb = (case mbuf_read_mem mb 2 of
     (Inr v, mb) \<Rightarrow> (of_le_bytes v, mb) | (Inl e, mb) \<Rightarrow> (0, mb))"

definition mbuf_read_u32 :: "mbuf \<Rightarrow> u32 \<times> mbuf" where
  "mbuf_read_u32 mb = (case mbuf_read_mem mb 4 of
     (Inr v, mb) \<Rightarrow> (of_le_bytes v, mb) | (Inl e, mb) \<Rightarrow> (0, mb))"

definition mbuf_read_u64 :: "mbuf \<Rightarrow> u64 \<times> mbuf" where
  "mbuf_read_u64 mb = (case mbuf_read_mem mb 8 of
     (Inr v, mb) \<Rightarrow> (of_le_bytes v, mb) | (Inl e, mb) \<Rightarrow> (0, mb))"

text \<open>\<open>mbuf_read_str\<close> fills a buffer of the given size up to a terminating 0; the bytes it
  writes are returned.\<close>

fun mbuf_read_str :: "mbuf \<Rightarrow> nat \<Rightarrow> u8 list \<times> mbuf" where
  "mbuf_read_str mb 0 = ([], mb)"
| "mbuf_read_str mb (Suc n) =
    (let (c, mb) = mbuf_read_u8 mb in
     if c = 0 then ([c], mb)
     else let (cs, mb) = mbuf_read_str mb n in (c # cs, mb))"

definition mbuf_strdup :: "allocator \<Rightarrow> mbuf \<Rightarrow> nat \<Rightarrow> (errno + u8 list) \<times> mbuf" where
  "mbuf_strdup A mb len =
    (if \<not> al_ok A (wrap64 (len + 1)) then (Inl ENOMEM, mb)
     else case mbuf_read_mem mb len of
         (Inl e, mb) \<Rightarrow> (Inl e, mb)
       | (Inr bs, mb) \<Rightarrow> (Inr (bs @ [0]), mb))"

section \<open>The invariant and the cursor\<close>

definition mbuf_ok :: "mbuf \<Rightarrow> bool" where
  "mbuf_ok mb \<longleftrightarrow> length (mb_buf mb) = mb_size mb \<and> mb_pos mb \<le> mb_end mb \<and>
     mb_end mb \<le> mb_size mb \<and> mb_size mb < 2 ^ 64"

definition mb_before :: "mbuf \<Rightarrow> u8 list" where
  "mb_before mb = take (mb_pos mb) (mb_buf mb)"

definition mb_rest :: "mbuf \<Rightarrow> u8 list" where
  "mb_rest mb = take (mb_end mb - mb_pos mb) (drop (mb_pos mb) (mb_buf mb))"

definition mb_content :: "mbuf \<Rightarrow> u8 list" where
  "mb_content mb = take (mb_end mb) (mb_buf mb)"

lemma mb_content_split: "mbuf_ok mb \<Longrightarrow> mb_content mb = mb_before mb @ mb_rest mb"
  by (simp add: mbuf_ok_def mb_content_def mb_before_def mb_rest_def flip: take_add)

lemma length_mb_before: "mbuf_ok mb \<Longrightarrow> length (mb_before mb) = mb_pos mb"
  by (simp add: mbuf_ok_def mb_before_def)

lemma length_mb_rest: "mbuf_ok mb \<Longrightarrow> length (mb_rest mb) = mb_end mb - mb_pos mb"
  by (auto simp: mbuf_ok_def mb_rest_def)

lemma mbuf_get_left_ok: "mbuf_ok mb \<Longrightarrow> mbuf_get_left mb = length (mb_rest mb)"
  unfolding mbuf_get_left_def
  by (subst sub64_id) (auto simp: mbuf_ok_def length_mb_rest)

lemma mbuf_init_ok: "mbuf_ok mbuf_init"
  by (simp add: mbuf_ok_def mbuf_init_def)

lemma mbuf_init_cursor [simp]: "mb_before mbuf_init = []" "mb_rest mbuf_init = []"
  by (simp_all add: mb_before_def mb_rest_def mbuf_init_def)

text \<open>A buffer that holds exactly the given bytes, as a received datagram does.\<close>

definition mbuf_of :: "u8 list \<Rightarrow> mbuf" where
  "mbuf_of bs = \<lparr>mb_buf = bs, mb_size = length bs, mb_pos = 0, mb_end = length bs\<rparr>"

lemma mbuf_of_ok: "length bs < 2 ^ 64 \<Longrightarrow> mbuf_ok (mbuf_of bs)"
  by (simp add: mbuf_ok_def mbuf_of_def)

lemma mbuf_of_cursor [simp]: "mb_before (mbuf_of bs) = []" "mb_rest (mbuf_of bs) = bs"
  by (simp_all add: mb_before_def mb_rest_def mbuf_of_def)

lemma mbuf_rewind_cursor:
  assumes "mbuf_ok mb"
  shows "mbuf_ok (mbuf_rewind mb)" "mb_before (mbuf_rewind mb) = []" "mb_rest (mbuf_rewind mb) = []"
  using assms by (simp_all add: mbuf_ok_def mb_before_def mb_rest_def mbuf_rewind_def)

lemma mbuf_skip_to_end_cursor:
  assumes "mbuf_ok mb"
  shows "mbuf_ok (mbuf_skip_to_end mb)" "mb_before (mbuf_skip_to_end mb) = mb_content mb"
    "mb_rest (mbuf_skip_to_end mb) = []"
  using assms
  by (simp_all add: mbuf_ok_def mb_before_def mb_rest_def mb_content_def mbuf_skip_to_end_def)

lemma mbuf_set_pos_cursor:
  assumes "mbuf_ok mb" and "p \<le> mb_end mb"
  shows "mbuf_ok (mbuf_set_pos mb p)" "mb_before (mbuf_set_pos mb p) = take p (mb_content mb)"
    "mb_rest (mbuf_set_pos mb p) = drop p (mb_content mb)"
  using assms
  by (simp_all add: mbuf_ok_def mb_before_def mb_rest_def mb_content_def mbuf_set_pos_def drop_take)

lemma mbuf_advance_eq:
  assumes "0 \<le> int (mb_pos mb) + n" and "int (mb_pos mb) + n < 2 ^ 64"
  shows "mbuf_advance mb n = mbuf_set_pos mb (nat (int (mb_pos mb) + n))"
  unfolding mbuf_advance_def mbuf_set_pos_def using mod_pos_pos_trivial [OF assms] by simp

section \<open>Resizing and writing\<close>

lemma mbuf_resize_grow:
  assumes "mbuf_ok mb" and "mb_size mb \<le> n" and "n < 2 ^ 64"
  shows "mbuf_resize A mb n = (Some ENOMEM, mb) \<and> \<not> al_ok A n \<or>
    (\<exists>mb'. mbuf_resize A mb n = (None, mb') \<and> mbuf_ok mb' \<and> mb_size mb' = n \<and>
      mb_pos mb' = mb_pos mb \<and> mb_end mb' = mb_end mb \<and> al_ok A n \<and>
      (\<exists>fresh. mb_buf mb' = mb_buf mb @ fresh))"
  using assms by (auto simp: mbuf_resize_def mem_realloc_def mbuf_ok_def)

lemma mbuf_trim_content:
  assumes "mbuf_ok mb"
  shows "mbuf_ok (mbuf_trim A mb)" "mb_before (mbuf_trim A mb) = mb_before mb"
    "mb_rest (mbuf_trim A mb) = mb_rest mb"
  using assms
  by (auto simp: mbuf_trim_def mbuf_resize_def mem_realloc_def mbuf_ok_def mb_before_def mb_rest_def
      min_absorb2 drop_take split: option.splits)

lemma splice_write:
  assumes "p + length ys \<le> length xs"
  shows "take (p + length ys) (splice p ys xs) = take p xs @ ys"
    "drop (p + length ys) (splice p ys xs) = drop (p + length ys) xs"
  using assms by (simp_all add: splice_def)

lemma mbuf_write_in_place:
  assumes "mbuf_ok mb" and "mb_pos mb + length ys \<le> mb_size mb"
  shows "let mb' = mb\<lparr>mb_buf := splice (mb_pos mb) ys (mb_buf mb), mb_pos := mb_pos mb + length ys,
        mb_end := max (mb_end mb) (mb_pos mb + length ys)\<rparr>
    in mbuf_ok mb' \<and> mb_before mb' = mb_before mb @ ys \<and> mb_rest mb' = drop (length ys) (mb_rest mb)"
proof -
  have len: "mb_pos mb + length ys \<le> length (mb_buf mb)"
    using assms by (simp add: mbuf_ok_def)
  have "take (max (mb_end mb) (mb_pos mb + length ys) - (mb_pos mb + length ys))
      (drop (mb_pos mb + length ys) (mb_buf mb)) =
    drop (length ys) (take (mb_end mb - mb_pos mb) (drop (mb_pos mb) (mb_buf mb)))"
    by (simp add: drop_take max_def add.commute)
  with assms show ?thesis
    by (simp add: Let_def mbuf_ok_def mb_before_def mb_rest_def splice_write [OF len])
qed

text \<open>
  Writing overwrites at the position and goes on past the end; it fails only when the buffer
  has to grow and there is no memory, and then changes nothing.
\<close>

lemma mbuf_write_mem_cursor:
  assumes ok: "mbuf_ok mb" and len: "mb_pos mb + length ys < 2 ^ 64"
  shows "(\<exists>mb'. mbuf_write_mem A mb (Some ys) = (None, mb') \<and> mbuf_ok mb' \<and>
        mb_before mb' = mb_before mb @ ys \<and> mb_rest mb' = drop (length ys) (mb_rest mb)) \<or>
      mbuf_write_mem A mb (Some ys) = (Some ENOMEM, mb) \<and> mb_size mb < mb_pos mb + length ys \<and>
        (\<exists>n. \<not> al_ok A n)"
proof (cases "mb_pos mb + length ys \<le> mb_size mb")
  case True
  with mbuf_write_in_place [OF ok True] len show ?thesis
    by (auto simp: mbuf_write_mem_def Let_def)
next
  case False
  define d where "d = (if mb_size mb \<noteq> 0 then wrap64 (mb_size mb * 2) else DEFAULT_SIZE)"
  define n where "n = max (mb_pos mb + length ys) d"
  have "d < 2 ^ 64" by (simp add: d_def wrap64_def DEFAULT_SIZE_def)
  then have n: "mb_size mb \<le> n" "n < 2 ^ 64" using False len by (simp_all add: n_def)
  have w: "mbuf_write_mem A mb (Some ys) = (case mbuf_resize A mb n of (Some e, mb) \<Rightarrow> (Some e, mb)
      | (None, mb) \<Rightarrow> (None, mb\<lparr>mb_buf := splice (mb_pos mb) ys (mb_buf mb),
          mb_pos := wrap64 (mb_pos mb + length ys),
          mb_end := max (mb_end mb) (wrap64 (mb_pos mb + length ys))\<rparr>))"
    unfolding mbuf_write_mem_def n_def d_def using False len
    by (simp add: Let_def split: prod.splits option.splits)
  from mbuf_resize_grow [OF ok n, of A] show ?thesis
  proof (elim disjE exE conjE)
    assume "mbuf_resize A mb n = (Some ENOMEM, mb)" "\<not> al_ok A n"
    with w False show ?thesis by auto
  next
    fix mb' fresh
    assume r: "mbuf_resize A mb n = (None, mb')" "mbuf_ok mb'" "mb_size mb' = n"
      "mb_pos mb' = mb_pos mb" "mb_end mb' = mb_end mb" "mb_buf mb' = mb_buf mb @ fresh"
    have "mb_pos mb' + length ys \<le> mb_size mb'" by (simp add: r n_def)
    from mbuf_write_in_place [OF r(2) this] w len r ok show ?thesis
      by (auto simp: Let_def mb_before_def mb_rest_def mbuf_ok_def)
  qed
qed

lemma mbuf_write_mem_fit:
  assumes "mbuf_ok mb" and "mb_pos mb + length ys \<le> mb_size mb"
  shows "\<exists>mb'. mbuf_write_mem A mb (Some ys) = (None, mb') \<and> mbuf_ok mb' \<and>
    mb_before mb' = mb_before mb @ ys \<and> mb_rest mb' = drop (length ys) (mb_rest mb)"
proof -
  have "mb_pos mb + length ys < 2 ^ 64" using assms by (simp add: mbuf_ok_def)
  from mbuf_write_mem_cursor [OF assms(1) this, of A] assms(2) show ?thesis by auto
qed

lemma mbuf_write_mem_NULL [simp]: "mbuf_write_mem A mb None = (Some EINVAL, mb)"
  by (simp add: mbuf_write_mem_def)

section \<open>Reading\<close>

lemma mbuf_read_mem_cursor:
  assumes ok: "mbuf_ok mb" and n: "n \<le> length (mb_rest mb)"
  shows "\<exists>mb'. mbuf_read_mem mb n = (Inr (take n (mb_rest mb)), mb') \<and> mbuf_ok mb' \<and>
    mb_before mb' = mb_before mb @ take n (mb_rest mb) \<and> mb_rest mb' = drop n (mb_rest mb) \<and>
    mb_end mb' = mb_end mb"
proof -
  have n': "n \<le> mb_end mb - mb_pos mb" using n length_mb_rest [OF ok] by simp
  then have p: "mb_pos mb + n \<le> mb_end mb" using ok unfolding mbuf_ok_def by linarith
  then have lt: "mb_pos mb + n < 2 ^ 64" using ok unfolding mbuf_ok_def by linarith
  have "mbuf_read_mem mb n = (Inr (take n (mb_rest mb)), mbuf_set_pos mb (mb_pos mb + n))"
    using n n' lt ok by (simp add: mbuf_read_mem_def mbuf_get_left_ok mbuf_set_pos_def mb_rest_def
        min_absorb1)
  moreover have "take (mb_pos mb + n) (mb_content mb) = mb_before mb @ take n (mb_rest mb)"
    "drop (mb_pos mb + n) (mb_content mb) = drop n (mb_rest mb)"
    using length_mb_before [OF ok] by (simp_all add: mb_content_split [OF ok])
  ultimately show ?thesis
    using mbuf_set_pos_cursor [OF ok p] by (simp add: mbuf_set_pos_def)
qed

lemma mbuf_read_mem_short:
  "mbuf_ok mb \<Longrightarrow> length (mb_rest mb) < n \<Longrightarrow> mbuf_read_mem mb n = (Inl EOVERFLOW, mb)"
  by (simp add: mbuf_read_mem_def mbuf_get_left_ok)

lemma mbuf_read_int_cursor:
  assumes "mbuf_ok mb" and "mb_rest mb = bs @ bs'"
  shows "length bs = 1 \<Longrightarrow> \<exists>mb'. mbuf_read_u8 mb = (of_le_bytes bs, mb') \<and> mbuf_ok mb' \<and>
      mb_before mb' = mb_before mb @ bs \<and> mb_rest mb' = bs'"
    and "length bs = 2 \<Longrightarrow> \<exists>mb'. mbuf_read_u16 mb = (of_le_bytes bs, mb') \<and> mbuf_ok mb' \<and>
      mb_before mb' = mb_before mb @ bs \<and> mb_rest mb' = bs'"
    and "length bs = 4 \<Longrightarrow> \<exists>mb'. mbuf_read_u32 mb = (of_le_bytes bs, mb') \<and> mbuf_ok mb' \<and>
      mb_before mb' = mb_before mb @ bs \<and> mb_rest mb' = bs'"
    and "length bs = 8 \<Longrightarrow> \<exists>mb'. mbuf_read_u64 mb = (of_le_bytes bs, mb') \<and> mbuf_ok mb' \<and>
      mb_before mb' = mb_before mb @ bs \<and> mb_rest mb' = bs'"
  using mbuf_read_mem_cursor [OF assms(1), of "length bs"] assms(2)
  by (auto simp: mbuf_read_u8_def mbuf_read_u16_def mbuf_read_u32_def mbuf_read_u64_def)

end
