(* ===== verification/Re_Pl.thy ===== *)
theory Re_Pl
  imports Re_Mbuf
begin

text \<open>
  Texts (\<open>src/re/src/fmt/pl.c\<close>, \<open>str.c\<close>, \<open>ch.c\<close> and the number printing of \<open>print.c\<close>):
  pointer-length texts and C strings, their conversion to numbers, comparison and search.

  A \<open>struct pl\<close> is the text it points at, \<open>None\<close> when its pointer is NULL; a C string is its
  characters before the terminating 0, \<open>None\<close> for NULL. The arguments that the C functions
  check against NULL without any caller passing it are not optional. The comparisons return
  whether the result is 0. \<open>pl_float\<close> is not modelled (no modelled code uses floating point).
\<close>

type_synonym pl = "string option"

definition pl_l :: "pl \<Rightarrow> nat" where
  "pl_l pl = (case pl of None \<Rightarrow> 0 | Some s \<Rightarrow> length s)"

definition pl_isset :: "pl \<Rightarrow> bool" where
  "pl_isset pl = (case pl of None \<Rightarrow> False | Some s \<Rightarrow> s \<noteq> [])"

text \<open>\<open>pl_set_str\<close> with a NULL string leaves the text as it was.\<close>

definition pl_set_str :: "pl \<Rightarrow> string option \<Rightarrow> pl" where
  "pl_set_str pl str = (case str of None \<Rightarrow> pl | Some s \<Rightarrow> Some s)"

definition pl_set_mbuf :: "mbuf \<Rightarrow> pl" where
  "pl_set_mbuf mb = Some (string_of (take (mbuf_get_left mb) (drop (mb_pos mb) (mb_buf mb))))"

definition pl_advance :: "string \<Rightarrow> nat \<Rightarrow> string" where
  "pl_advance s n = drop n s"

section \<open>Numbers\<close>

text \<open>The value of a digit, as the \<open>uint8_t\<close> the code computes; above 9 for other characters.\<close>

definition digit_u8 :: "char \<Rightarrow> u8" where
  "digit_u8 ch = of_char ch - 48"

text \<open>The loops run from the last character to the first.\<close>

fun pl_u32_loop :: "string \<Rightarrow> u32 \<Rightarrow> u32 \<Rightarrow> u32" where
  "pl_u32_loop [] v mul = v"
| "pl_u32_loop (ch # p) v mul =
    (let c = digit_u8 ch in
     if c > 9 then 0 else pl_u32_loop p (v + mul * ucast c) (mul * 10))"

definition pl_u32 :: "pl \<Rightarrow> u32" where
  "pl_u32 pl = (case pl of None \<Rightarrow> 0 | Some s \<Rightarrow> pl_u32_loop (rev s) 0 1)"

fun pl_u64_loop :: "string \<Rightarrow> u64 \<Rightarrow> u64 \<Rightarrow> u64" where
  "pl_u64_loop [] v mul = v"
| "pl_u64_loop (ch # p) v mul =
    (let c = digit_u8 ch in
     if c > 9 then 0 else pl_u64_loop p (v + mul * ucast c) (mul * 10))"

definition pl_u64 :: "pl \<Rightarrow> u64" where
  "pl_u64 pl = (case pl of None \<Rightarrow> 0 | Some s \<Rightarrow> pl_u64_loop (rev s) 0 1)"

definition xdigit :: "char \<Rightarrow> u8 option" where
  "xdigit ch =
    (let c = (of_char ch :: u8) in
     if 48 \<le> c \<and> c \<le> 57 then Some (c - 48)
     else if 65 \<le> c \<and> c \<le> 70 then Some (c - 65 + 10)
     else if 97 \<le> c \<and> c \<le> 102 then Some (c - 97 + 10)
     else None)"

fun pl_x32_loop :: "string \<Rightarrow> u32 \<Rightarrow> u32 \<Rightarrow> u32" where
  "pl_x32_loop [] v mul = v"
| "pl_x32_loop (ch # p) v mul = (case xdigit ch of
      None \<Rightarrow> 0
    | Some c \<Rightarrow> pl_x32_loop p (v + mul * ucast c) (mul * 16))"

definition pl_x32 :: "pl \<Rightarrow> u32" where
  "pl_x32 pl = (case pl of None \<Rightarrow> 0 | Some s \<Rightarrow> pl_x32_loop (rev s) 0 1)"

fun pl_x64_loop :: "string \<Rightarrow> u64 \<Rightarrow> u64 \<Rightarrow> u64" where
  "pl_x64_loop [] v mul = v"
| "pl_x64_loop (ch # p) v mul = (case xdigit ch of
      None \<Rightarrow> 0
    | Some c \<Rightarrow> pl_x64_loop p (v + mul * ucast c) (mul * 16))"

definition pl_x64 :: "pl \<Rightarrow> u64" where
  "pl_x64 pl = (case pl of None \<Rightarrow> 0 | Some s \<Rightarrow> pl_x64_loop (rev s) 0 1)"

definition ch_hex :: "char \<Rightarrow> u8" where
  "ch_hex ch =
    (let c = (of_char ch :: u8) in
     if 48 \<le> c \<and> c \<le> 57 then c - 48
     else if 65 \<le> c \<and> c \<le> 70 then c - 65 + 10
     else if 97 \<le> c \<and> c \<le> 102 then c - 97 + 10
     else 0)"

text \<open>\<open>local_itoa\<close> writes the digits of a number from the last to the first into a buffer of
  \<open>NUM_SIZE\<close> (64) bytes.\<close>

definition itoa_digit :: "bool \<Rightarrow> nat \<Rightarrow> char" where
  "itoa_digit uc c = char_of (if c < 10 then 48 + c else (if uc then 65 else 97) + (c - 10))"

lemma word_div_less:
  fixes n base :: u64
  assumes "\<not> base < 2" and "n div base \<noteq> 0"
  shows "unat (n div base) < unat n"
proof -
  have "1 < unat base" using assms(1) by (simp add: word_less_nat_alt not_less)
  moreover have "0 < unat n" using assms(2) by (cases "n = 0") (auto simp: unat_gt_0)
  ultimately show ?thesis unfolding unat_div by (intro div_less_dividend) simp_all
qed

function local_itoa_loop :: "u64 \<Rightarrow> u64 \<Rightarrow> bool \<Rightarrow> string \<Rightarrow> string" where
  "local_itoa_loop n base uc p =
    (let dv = n div base; p = itoa_digit uc (unat (n - dv * base)) # p
     in if base < 2 \<or> dv = 0 then p else local_itoa_loop dv base uc p)"
  by auto
termination
  by (relation "measure (\<lambda>(n, base, uc, p). unat n)") (auto simp: word_div_less)

declare local_itoa_loop.simps [simp del]

definition local_itoa :: "u64 \<Rightarrow> u64 \<Rightarrow> bool \<Rightarrow> string" where
  "local_itoa n base uc = local_itoa_loop n base uc []"

section \<open>Copies\<close>

definition pl_strcpy :: "pl \<Rightarrow> nat \<Rightarrow> errno + string" where
  "pl_strcpy pl sz = (case pl of
      None \<Rightarrow> Inl EINVAL
    | Some s \<Rightarrow> if sz = 0 then Inl EINVAL else Inr (take (min (length s) (sz - 1)) s))"

definition pl_strdup :: "allocator \<Rightarrow> pl \<Rightarrow> errno + string" where
  "pl_strdup A src = (case src of
      None \<Rightarrow> Inl EINVAL
    | Some s \<Rightarrow> if \<not> al_ok A (length s + 1) then Inl ENOMEM else Inr s)"

definition pl_dup :: "allocator \<Rightarrow> pl \<Rightarrow> errno + string" where
  "pl_dup A src = (case src of
      None \<Rightarrow> Inl EINVAL
    | Some s \<Rightarrow> if \<not> al_ok A (length s) then Inl ENOMEM else Inr s)"

definition str_dup :: "allocator \<Rightarrow> string option \<Rightarrow> errno + string" where
  "str_dup A src = (case src of
      None \<Rightarrow> Inl EINVAL
    | Some s \<Rightarrow> if \<not> al_ok A (length s + 1) then Inl ENOMEM else Inr s)"

definition str_len :: "string option \<Rightarrow> nat" where
  "str_len s = (case s of None \<Rightarrow> 0 | Some s \<Rightarrow> length s)"

definition str_ncpy :: "string option \<Rightarrow> nat \<Rightarrow> string option" where
  "str_ncpy src n = (case src of
      None \<Rightarrow> None
    | Some s \<Rightarrow> if n = 0 then None else Some (take (n - 1) s))"

fun str_hex_loop :: "string \<Rightarrow> u8 list" where
  "str_hex_loop (a # b # s) = (push_bit 4 (ch_hex a) + ch_hex b) # str_hex_loop s"
| "str_hex_loop s = []"

definition str_hex :: "nat \<Rightarrow> string option \<Rightarrow> errno + u8 list" where
  "str_hex len str = (case str of
      None \<Rightarrow> Inl EINVAL
    | Some s \<Rightarrow> if length s \<noteq> 2 * len then Inl EINVAL else Inr (str_hex_loop s))"

section \<open>Comparison and search\<close>

definition tolower :: "char \<Rightarrow> char" where
  "tolower c = (let n = (of_char c :: nat) in if 65 \<le> n \<and> n \<le> 90 then char_of (n + 32) else c)"

text \<open>\<open>strncasecmp\<close> of two texts of one length: it stops at a 0 byte in both.\<close>

fun strncasecmp_eq :: "string \<Rightarrow> string \<Rightarrow> bool" where
  "strncasecmp_eq (a # s) (b # t) =
    (tolower a = tolower b \<and> (a = CHR 0x00 \<or> strncasecmp_eq s t))"
| "strncasecmp_eq s t = True"

definition pl_cmp :: "pl \<Rightarrow> pl \<Rightarrow> errno option" where
  "pl_cmp pl1 pl2 =
    (if pl_l pl1 \<noteq> pl_l pl2 then Some EINVAL
     else if pl_l pl1 = 0 then None
     else if pl1 = pl2 then None else Some EINVAL)"

definition pl_casecmp :: "pl \<Rightarrow> pl \<Rightarrow> errno option" where
  "pl_casecmp pl1 pl2 = (case (pl1, pl2) of
      (Some s, Some t) \<Rightarrow>
        if length s \<noteq> length t then Some EINVAL
        else if s = [] then None
        else if strncasecmp_eq s t then None else Some EINVAL
    | _ \<Rightarrow> if pl_l pl1 \<noteq> pl_l pl2 then Some EINVAL else None)"

definition pl_strcmp :: "pl \<Rightarrow> string option \<Rightarrow> errno option" where
  "pl_strcmp pl str = (case str of None \<Rightarrow> Some EINVAL | Some s \<Rightarrow> pl_cmp pl (Some s))"

definition pl_strcasecmp :: "pl \<Rightarrow> string option \<Rightarrow> errno option" where
  "pl_strcasecmp pl str = (case str of None \<Rightarrow> Some EINVAL | Some s \<Rightarrow> pl_casecmp pl (Some s))"

text \<open>\<open>str_casecmp\<close> is 0 for two NULL strings, and for equal ones up to case.\<close>

definition str_casecmp :: "string option \<Rightarrow> string option \<Rightarrow> bool" where
  "str_casecmp s1 s2 = (case (s1, s2) of
      (None, None) \<Rightarrow> False
    | (Some s, Some t) \<Rightarrow> List.map tolower s \<noteq> List.map tolower t
    | _ \<Rightarrow> True)"

fun strchr_loop :: "nat \<Rightarrow> string \<Rightarrow> char \<Rightarrow> nat option" where
  "strchr_loop i [] c = None"
| "strchr_loop i (x # p) c = (if x = c then Some i else strchr_loop (Suc i) p c)"

text \<open>The pointer to the first occurrence, as its offset.\<close>

definition pl_strchr :: "pl \<Rightarrow> char \<Rightarrow> nat option" where
  "pl_strchr pl c = (case pl of None \<Rightarrow> None | Some s \<Rightarrow> strchr_loop 0 s c)"

section \<open>Bounded printing\<close>

text \<open>
  \<open>re_snprintf\<close> writes the pieces of its format one by one while they fit, each whole, and
  stops at the first that does not: the number of bytes left and the pieces to go.
\<close>

fun snprintf_loop :: "nat \<Rightarrow> string list \<Rightarrow> string" where
  "snprintf_loop left [] = []"
| "snprintf_loop left (s # ss) =
    (if length s > left then [] else s @ snprintf_loop (left - length s) ss)"

definition re_snprintf :: "nat \<Rightarrow> string list \<Rightarrow> string" where
  "re_snprintf sz ss = snprintf_loop (sz - 1) ss"

lemma length_re_snprintf: "length (re_snprintf sz ss) \<le> sz - 1"
proof -
  have "length (snprintf_loop n ss) \<le> n" for n
    by (induction n ss rule: snprintf_loop.induct) auto
  then show ?thesis by (simp add: re_snprintf_def)
qed

lemma re_snprintf_fits: "length (concat ss) \<le> sz - 1 \<Longrightarrow> re_snprintf sz ss = concat ss"
proof -
  have "length (concat ss) \<le> n \<Longrightarrow> snprintf_loop n ss = concat ss" for n
    by (induction n ss rule: snprintf_loop.induct) auto
  then show "length (concat ss) \<le> sz - 1 \<Longrightarrow> ?thesis" by (simp add: re_snprintf_def)
qed

section \<open>What the numbers are\<close>

definition is_digit :: "char \<Rightarrow> bool" where
  "is_digit ch \<longleftrightarrow> 48 \<le> (of_char ch :: nat) \<and> (of_char ch :: nat) \<le> 57"

definition dec_val :: "string \<Rightarrow> nat" where
  "dec_val s = foldl (\<lambda>v ch. v * 10 + (of_char ch - 48)) 0 s"

lemma dec_val_snoc [simp]: "dec_val [] = 0" "dec_val (s @ [ch]) = dec_val s * 10 + (of_char ch - 48)"
  by (simp_all add: dec_val_def)

lemma unat_of_char [simp]: "unat (of_char ch :: u8) = of_char ch"
proof -
  have "(of_char ch :: u8) = word_of_nat (of_char ch)" by (rule of_nat_of_char [symmetric])
  moreover have "(of_char ch :: nat) < 256" by (rule nat_of_char_less_256)
  ultimately show ?thesis by (simp only: unat_of_nat) simp
qed

lemma digit_u8_digit: "is_digit ch \<Longrightarrow> unat (digit_u8 ch) = of_char ch - 48"
  unfolding digit_u8_def is_digit_def by (subst unat_sub) (simp_all add: word_le_nat_alt)

lemma digit_u8_le: "digit_u8 ch > 9 \<longleftrightarrow> \<not> is_digit ch"
proof
  assume "digit_u8 ch > 9"
  then have "9 < unat (digit_u8 ch)" by (simp add: word_less_nat_alt)
  then show "\<not> is_digit ch" using digit_u8_digit [of ch] by (auto simp: is_digit_def)
next
  have lt: "(of_char ch :: nat) < 256" by (rule nat_of_char_less_256)
  assume "\<not> is_digit ch"
  then consider "(of_char ch :: nat) < 48" | "57 < (of_char ch :: nat)" by (auto simp: is_digit_def)
  then have "9 < unat (digit_u8 ch)"
  proof cases
    case 1
    then have "(of_char ch :: u8) < 48" by (simp add: word_less_nat_alt)
    then show ?thesis using 1 by (simp add: digit_u8_def unat_sub_if_size word_le_nat_alt word_size)
  next
    case 2
    then have "(48 :: u8) \<le> of_char ch" by (simp add: word_le_nat_alt)
    then show ?thesis using 2 by (simp add: digit_u8_def unat_sub)
  qed
  then show "digit_u8 ch > 9" by (simp add: word_less_nat_alt)
qed

lemma ucast_digit: "is_digit ch \<Longrightarrow> (ucast (digit_u8 ch) :: 'a::len word) = of_nat (of_char ch - 48)"
proof -
  assume d: "is_digit ch"
  have "(ucast (digit_u8 ch) :: 'a word) = of_nat (unat (digit_u8 ch))" by simp
  then show ?thesis using digit_u8_digit [OF d] by simp
qed

text \<open>A text of decimal digits is its value, modulo the width of the result; any other text is 0.\<close>

lemma pl_u32_loop_eq:
  "pl_u32_loop p v mul =
    (if \<forall>ch\<in>set p. is_digit ch then v + mul * of_nat (dec_val (rev p)) else 0)"
proof (induction p arbitrary: v mul)
  case (Cons ch p)
  show ?case
  proof (cases "is_digit ch")
    case True
    then have "\<not> digit_u8 ch > 9" using digit_u8_le by blast
    then show ?thesis
      by (simp only: pl_u32_loop.simps Let_def if_False Cons.IH) (simp add: True ucast_digit algebra_simps)
  next
    case False
    then have "digit_u8 ch > 9" using digit_u8_le by blast
    with False show ?thesis by simp
  qed
qed simp

lemma pl_u64_loop_eq:
  "pl_u64_loop p v mul =
    (if \<forall>ch\<in>set p. is_digit ch then v + mul * of_nat (dec_val (rev p)) else 0)"
proof (induction p arbitrary: v mul)
  case (Cons ch p)
  show ?case
  proof (cases "is_digit ch")
    case True
    then have "\<not> digit_u8 ch > 9" using digit_u8_le by blast
    then show ?thesis
      by (simp only: pl_u64_loop.simps Let_def if_False Cons.IH) (simp add: True ucast_digit algebra_simps)
  next
    case False
    then have "digit_u8 ch > 9" using digit_u8_le by blast
    with False show ?thesis by simp
  qed
qed simp

lemma pl_u32_value:
  "pl_u32 (Some s) = (if \<forall>ch\<in>set s. is_digit ch then of_nat (dec_val s) else 0)"
  by (simp add: pl_u32_def pl_u32_loop_eq)

lemma pl_u64_value:
  "pl_u64 (Some s) = (if \<forall>ch\<in>set s. is_digit ch then of_nat (dec_val s) else 0)"
  by (simp add: pl_u64_def pl_u64_loop_eq)

text \<open>Printing a number in base 10 and reading it back.\<close>

lemma itoa_digit_10:
  assumes "d < 10"
  shows "is_digit (itoa_digit uc d)" "of_char (itoa_digit uc d) - 48 = d"
  using assms by (simp_all add: is_digit_def itoa_digit_def)

lemma local_itoa_loop_10:
  "\<exists>s. local_itoa_loop n 10 uc p = s @ p \<and> s \<noteq> [] \<and> (\<forall>ch\<in>set s. is_digit ch) \<and> dec_val s = unat n"
proof (induction "unat n" arbitrary: n p rule: less_induct)
  case (less n)
  define d where "d = itoa_digit uc (unat (n - n div 10 * 10))"
  have "n - n div 10 * 10 = n mod 10" by (simp add: minus_div_mult_eq_mod)
  then have r: "unat (n - n div 10 * 10) = unat n mod 10" by (simp add: unat_mod)
  have d: "is_digit d" "of_char d - 48 = unat n mod 10"
    unfolding d_def r by (rule itoa_digit_10; simp)+
  have step: "local_itoa_loop n 10 uc p =
      (if n div 10 = 0 then d # p else local_itoa_loop (n div 10) 10 uc (d # p))"
    by (subst local_itoa_loop.simps) (simp add: d_def Let_def)
  have dv: "unat (n div 10) = unat n div 10" by (simp add: unat_div)
  show ?case
  proof (cases "n div 10 = 0")
    case True
    then have "unat n div 10 = 0" using dv by simp
    then have "dec_val [d] = unat n" using dec_val_snoc(2) [of "[]" d] d(2) by simp
    then show ?thesis using True step d by (intro exI [of _ "[d]"]) simp
  next
    case False
    then have "unat n div 10 \<noteq> 0" using dv by (metis unat_eq_zero)
    then have "unat (n div 10) < unat n" unfolding dv by auto
    from less [OF this, of "d # p"] obtain s where
      s: "local_itoa_loop (n div 10) 10 uc (d # p) = s @ d # p" "\<forall>ch\<in>set s. is_digit ch"
      "dec_val s = unat n div 10" unfolding dv by auto
    then have "dec_val (s @ [d]) = unat n" using d(2) by (simp only: dec_val_snoc) simp
    then show ?thesis using s False step d by (intro exI [of _ "s @ [d]"]) auto
  qed
qed

lemma local_itoa_10:
  obtains s where "local_itoa n 10 uc = s" "s \<noteq> []" "\<forall>ch\<in>set s. is_digit ch" "dec_val s = unat n"
  using local_itoa_loop_10 [of n uc "[]"] by (auto simp: local_itoa_def)

lemma local_itoa_loop_length:
  "unat n < 10 ^ Suc k \<Longrightarrow> length (local_itoa_loop n 10 uc p) \<le> Suc k + length p"
proof (induction k arbitrary: n p)
  case 0
  then have "unat (n div 10) = 0" by (simp add: unat_div)
  then have "n div 10 = 0" by (simp add: unat_eq_zero)
  then show ?case by (subst local_itoa_loop.simps) (simp add: Let_def)
next
  case (Suc k)
  have "unat (n div 10) < 10 ^ Suc k" using Suc.prems by (simp add: unat_div less_mult_imp_div_less mult.commute)
  from Suc.IH [OF this, of "itoa_digit uc (unat (n - n div 10 * 10)) # p"] show ?case
    by (subst local_itoa_loop.simps) (auto simp: Let_def)
qed

lemma local_itoa_length: "unat n < 10 ^ Suc k \<Longrightarrow> length (local_itoa n 10 uc) \<le> Suc k"
  using local_itoa_loop_length [of n k uc "[]"] by (simp add: local_itoa_def)

lemma pl_itoa_roundtrip:
  "pl_u64 (Some (local_itoa n 10 uc)) = n" "pl_u32 (Some (local_itoa n 10 uc)) = ucast n"
  by (rule local_itoa_10 [of n uc], simp add: pl_u64_value pl_u32_value)+

section \<open>What search and comparison are\<close>

lemma strchr_loop_Some:
  "strchr_loop i s c = Some k \<longleftrightarrow> (\<exists>a b. s = a @ c # b \<and> c \<notin> set a \<and> k = i + length a)"
proof (induction s arbitrary: i)
  case Nil
  then show ?case by simp
next
  case (Cons x s)
  show ?case
  proof (cases "x = c")
    case True
    then show ?thesis by (auto simp: Cons_eq_append_conv)
  next
    case False
    with Cons [of "Suc i"] show ?thesis by (fastforce simp: Cons_eq_append_conv)
  qed
qed

lemma pl_strchr_Some:
  "pl_strchr (Some s) c = Some k \<longleftrightarrow> (\<exists>a b. s = a @ c # b \<and> c \<notin> set a \<and> k = length a)"
  by (simp add: pl_strchr_def strchr_loop_Some)

lemma strchr_loop_None: "strchr_loop i s c = None \<longleftrightarrow> c \<notin> set s"
  by (induction s arbitrary: i) auto

lemma pl_strchr_None: "pl_strchr (Some s) c = None \<longleftrightarrow> c \<notin> set s"
  by (simp add: pl_strchr_def strchr_loop_None)

lemma pl_cmp_iff: "pl_cmp (Some s) (Some t) = None \<longleftrightarrow> s = t"
  by (auto simp: pl_cmp_def pl_l_def)

lemma pl_strcmp_eq [simp]: "pl_strcmp (Some s) (Some t) = None \<longleftrightarrow> s = t"
  by (simp add: pl_strcmp_def pl_cmp_iff)

lemma pl_casecmp_iff:
  assumes "CHR 0x00 \<notin> set s"
  shows "pl_casecmp (Some s) (Some t) = None \<longleftrightarrow> List.map tolower s = List.map tolower t"
proof -
  have "CHR 0x00 \<notin> set s \<Longrightarrow> length s = length t \<Longrightarrow>
      strncasecmp_eq s t \<longleftrightarrow> List.map tolower s = List.map tolower t" for s t :: string
    by (induction s t rule: strncasecmp_eq.induct) auto
  then show ?thesis using assms by (auto simp: pl_casecmp_def dest: map_eq_imp_length_eq)
qed

end
