(* ===== verification/Re_Regex.thy ===== *)
theory Re_Regex
  imports Re_Pl "HOL-Library.Sublist"
begin

text \<open>
  The regular-expression matcher of the library (\<open>src/re/src/fmt/regex.c\<close>), which decodes
  URIs, configuration files and SIP messages. It tries the expression at each position of the
  text in turn; an attempt walks over the expression and either ends the search or asks to try
  the next position. The variables the loop keeps inside a character class are the record
  \<open>cls\<close>; the captured texts are a map from the number of the class, which keeps what failed
  attempts stored in it, as the caller's variables do.
\<close>

section \<open>Character classes\<close>

record cls =
  cls_chr :: "(char \<times> char) list"
  cls_range :: "char option"
  cls_ec :: bool
  cls_neg :: bool
  cls_qesc :: bool

definition cls_init :: cls where
  "cls_init = \<lparr>cls_chr = [], cls_range = None, cls_ec = False, cls_neg = False, cls_qesc = False\<rparr>"

text \<open>The characters compare as unsigned bytes.\<close>

definition chr_le :: "char \<Rightarrow> char \<Rightarrow> bool" where
  "chr_le a b \<longleftrightarrow> (of_char a :: nat) \<le> of_char b"

definition expr_match :: "(char \<times> char) list \<Rightarrow> char \<Rightarrow> bool \<Rightarrow> bool" where
  "expr_match chrv c neg =
    (let found = (\<exists>r\<in>set chrv. chr_le (fst r) c \<and> chr_le c (snd r)) in if neg then \<not> found else found)"

text \<open>The array of the class holds 64 ranges; writing to a 65th is out of its bounds.\<close>

definition chrv_size :: nat where
  "chrv_size = 64"

text \<open>
  One character of the expression inside a class. A pending range has taken its lower end off
  the array (\<open>cls_range\<close>) until its upper end comes; \<open>None\<close> is the write out of bounds.
\<close>

definition cls_add :: "cls \<Rightarrow> char \<Rightarrow> cls option" where
  "cls_add cl e =
    (if length (cls_chr cl) \<ge> chrv_size then None
     else Some (cl\<lparr>cls_chr := cls_chr cl @
            [(case cls_range cl of Some lo \<Rightarrow> lo | None \<Rightarrow> tolower e, tolower e)],
          cls_range := None\<rparr>))"

definition cls_char :: "cls \<Rightarrow> bool \<Rightarrow> char \<Rightarrow> cls option" where
  "cls_char cl eesc e =
    (if eesc then cls_add cl e
     else if e = CHR '']'' then Some (cl\<lparr>cls_ec := True\<rparr>)
     else if e = CHR ''~'' \<and> cls_chr cl = [] then Some (cl\<lparr>cls_qesc := True, cls_neg := True\<rparr>)
     else if e = CHR ''^'' \<and> cls_chr cl = [] then Some (cl\<lparr>cls_neg := True\<rparr>)
     else if e = CHR ''-'' \<and> cls_chr cl \<noteq> [] \<and> cls_range cl = None then
       Some (cl\<lparr>cls_range := Some (fst (last (cls_chr cl))), cls_chr := butlast (cls_chr cl)\<rparr>)
     else cls_add cl e)"

section \<open>Repetitions\<close>

text \<open>The quantifier after a class: minimum and maximum number of characters, as \<open>uint32_t\<close>.\<close>

definition quantifier :: "char \<Rightarrow> (u32 \<times> u32) option" where
  "quantifier e =
    (if e = CHR ''*'' then Some (0, -1)
     else if e = CHR ''+'' then Some (1, -1)
     else let n = of_char e :: u32 in
       if 49 \<le> n \<and> n \<le> 57 then Some (n - 48, n - 48) else None)"

text \<open>The text a class takes, at most \<open>n\<close> characters of it, and the text after it.\<close>

fun cls_run :: "cls \<Rightarrow> bool \<Rightarrow> bool \<Rightarrow> u32 \<Rightarrow> string \<Rightarrow> string \<times> string" where
  "cls_run cl quote esc n [] = ([], [])"
| "cls_run cl quote esc n (c # p) =
    (if n = 0 then ([], c # p)
     else
       let go = (\<lambda>quote esc. let (m, r) = cls_run cl quote esc (n - 1) p in (c # m, r))
       in if cls_qesc cl \<and> esc then go quote False
          else if cls_qesc cl \<and> c = CHR 0x5C then go quote True
          else if cls_qesc cl \<and> c = CHR 0x22 then go (\<not> quote) esc
          else if cls_qesc cl \<and> quote then go quote esc
          else if \<not> expr_match (cls_chr cl) (tolower c) (cls_neg cl) then ([], c # p)
          else go quote esc)"

text \<open>A quoted text loses its quotes, and the count two characters.\<close>

definition strip_quotes :: "cls \<Rightarrow> string \<Rightarrow> string" where
  "strip_quotes cl m =
    (if cls_qesc cl \<and> length m > 1 \<and> hd m = CHR 0x22 \<and> last m = CHR 0x22
     then butlast (tl m) else m)"

section \<open>The matcher\<close>

type_synonym caps = "nat \<Rightarrow> string option"

datatype re_out = Again caps | Done "errno option" caps | Overflow

fun re_try :: "string \<Rightarrow> string \<Rightarrow> bool \<Rightarrow> cls option \<Rightarrow> nat \<Rightarrow> caps \<Rightarrow> re_out" where
  "re_try [] p eesc fm k caps = Done (if fm \<noteq> None then Some EINVAL else None) caps"
| "re_try (e # ep) p eesc fm k caps =
    (if e = CHR 0x5C \<and> \<not> eesc then re_try ep p True fm k caps
     else case fm of
       None \<Rightarrow>
         if e = CHR ''['' \<and> \<not> eesc then re_try ep p eesc (Some cls_init) k caps
         else (case p of
             [] \<Rightarrow> Done (Some ENOENT) caps
           | c # p' \<Rightarrow> if tolower e \<noteq> tolower c then Again caps
                       else re_try ep p' False None k caps)
     | Some cl \<Rightarrow>
         if cls_ec cl then
           (case quantifier e of
              None \<Rightarrow> Done (Some EINVAL) caps
            | Some (nmin, nmax) \<Rightarrow>
                let (m, p') = cls_run cl False False nmax p; lpl = strip_quotes cl m;
                    nm = of_nat (length lpl)
                in if nm < nmin \<or> nm > nmax then Again caps
                   else re_try ep p' False None (Suc k) (caps(k := Some lpl)))
         else (case cls_char cl eesc e of
             None \<Rightarrow> Overflow
           | Some cl' \<Rightarrow> re_try ep p False (Some cl') k caps))"

fun re_search :: "string \<Rightarrow> string \<Rightarrow> caps \<Rightarrow> re_out" where
  "re_search expr [] caps = Done (if expr \<noteq> [] then Some ENOENT else None) caps"
| "re_search expr (c # p) caps = (case re_try expr (c # p) False None 0 caps of
      Again caps' \<Rightarrow> re_search expr p caps'
    | out \<Rightarrow> out)"

definition re_regex :: "pl \<Rightarrow> string \<Rightarrow> ub + errno option \<times> caps" where
  "re_regex ptr expr = (case ptr of
      None \<Rightarrow> Inr (Some EINVAL, \<lambda>_. None)
    | Some s \<Rightarrow> (case re_search expr s (\<lambda>_. None) of
          Overflow \<Rightarrow> Inl Out_of_bounds
        | Again caps \<Rightarrow> Inr (Some ENOENT, caps)
        | Done err caps \<Rightarrow> Inr (err, caps)))"

section \<open>Captured texts are parts of the subject\<close>

lemma cls_run_split: "cls_run cl quote esc n p = (m, r) \<Longrightarrow> p = m @ r"
  by (induction p arbitrary: quote esc n m r) (auto simp: Let_def split: if_splits prod.splits)

lemma sublist_strip_quotes: "sublist (strip_quotes cl m) m"
proof (cases m)
  case (Cons a m')
  show ?thesis
  proof (cases "m' = []")
    case False
    then have "m = [a] @ butlast m' @ [last m']" using Cons by simp
    then have "sublist (butlast m') m" by (metis sublist_appendI)
    then show ?thesis using Cons by (auto simp: strip_quotes_def)
  qed (simp add: Cons strip_quotes_def)
qed (simp add: strip_quotes_def)

definition caps_in :: "string \<Rightarrow> caps \<Rightarrow> bool" where
  "caps_in s caps \<longleftrightarrow> (\<forall>k t. caps k = Some t \<longrightarrow> sublist t s)"

fun out_ok :: "string \<Rightarrow> re_out \<Rightarrow> bool" where
  "out_ok s (Again caps) \<longleftrightarrow> caps_in s caps"
| "out_ok s (Done err caps) \<longleftrightarrow> caps_in s caps"
| "out_ok s Overflow \<longleftrightarrow> True"

lemma caps_in_upd: "caps_in s caps \<Longrightarrow> sublist t s \<Longrightarrow> caps_in s (caps(k := Some t))"
  by (simp add: caps_in_def)

lemma re_try_ok:
  "suffix p s \<Longrightarrow> caps_in s caps \<Longrightarrow> out_ok s (re_try expr p eesc fm k caps)"
proof (induction expr p eesc fm k caps rule: re_try.induct)
  case (1 p eesc fm k caps)
  then show ?case by simp
next
  case (2 e ep p eesc fm k caps)
  have cap: "suffix r s \<and> sublist (strip_quotes cl m) s"
    if "cls_run cl False False n p = (m, r)" for cl n m r
  proof -
    have p: "p = m @ r" using that by (rule cls_run_split)
    then have "sublist m s" using "2.prems"(1) unfolding suffix_def sublist_def by auto
    moreover have "suffix r s" using p "2.prems"(1) unfolding suffix_def by auto
    ultimately show ?thesis using sublist_strip_quotes sublist_order.order_trans by blast
  qed
  have tl: "suffix p' s" if "p = c # p'" for c p'
    using that "2.prems"(1) unfolding suffix_def by (metis append.assoc append_Cons append_Nil)
  show ?case
  proof (cases "e = CHR 0x5C \<and> \<not> eesc")
    case True
    with "2.IH"(1) "2.prems" show ?thesis by simp
  next
    case esc: False
    show ?thesis
    proof (cases fm)
      case None
      then show ?thesis
        using "2.IH"(2,3) [OF esc None] "2.prems" esc tl by (cases p) auto
    next
      case fm: (Some cl)
      show ?thesis
      proof (cases "cls_ec cl")
        case True
        show ?thesis
        proof (cases "quantifier e")
          case None
          then show ?thesis using "2.prems" esc fm True by auto
        next
          case q: (Some q)
          obtain nmin nmax where nn: "q = (nmin, nmax)" by (cases q)
          obtain m p' where m: "cls_run cl False False nmax p = (m, p')"
            by (cases "cls_run cl False False nmax p")
          note c = cap [OF m]
          let ?again = "of_nat (length (strip_quotes cl m)) < nmin \<or> nmax < of_nat (length (strip_quotes cl m))"
          have "out_ok s (re_try ep p' False None (Suc k) (caps(k := Some (strip_quotes cl m))))"
            if "\<not> ?again"
            using "2.IH"(4) [OF esc fm True q nn [symmetric] m [symmetric] refl refl] that c
              caps_in_upd [OF "2.prems"(2), of _ k] by (simp add: fun_upd_def)
          then show ?thesis using "2.prems" esc fm True q nn m by (auto simp: Let_def)
        qed
      next
        case False
        then show ?thesis
          using "2.IH"(5) [OF esc fm False] "2.prems" esc fm by (auto split: option.splits)
      qed
    qed
  qed
qed

lemma re_search_ok: "suffix p s \<Longrightarrow> caps_in s caps \<Longrightarrow> out_ok s (re_search expr p caps)"
proof (induction p arbitrary: caps)
  case (Cons c p)
  from Cons.prems(1) have "suffix p s" unfolding suffix_def by (metis append.assoc append_Cons append_Nil)
  with Cons re_try_ok [OF Cons.prems, of expr False None 0] show ?case by (auto split: re_out.split)
qed simp

lemma re_regex_captures:
  assumes "re_regex (Some s) expr = Inr (err, caps)" and "caps k = Some t"
  shows "sublist t s"
proof -
  have "out_ok s (re_search expr s (\<lambda>_. None))"
    by (rule re_search_ok) (simp_all add: caps_in_def)
  with assms show ?thesis by (auto simp: re_regex_def caps_in_def split: re_out.splits)
qed

section \<open>Plain texts\<close>

text \<open>
  An expression without special characters is a case-insensitive search for the text, even
  though an attempt that runs out of text ends the search at once: the later positions leave
  even less.
\<close>

definition plain :: "string \<Rightarrow> bool" where
  "plain ep \<longleftrightarrow> CHR ''['' \<notin> set ep \<and> CHR 0x5C \<notin> set ep"

fun ci_prefix :: "string \<Rightarrow> string \<Rightarrow> bool" where
  "ci_prefix [] p = True"
| "ci_prefix (e # ep) (c # p) = (tolower e = tolower c \<and> ci_prefix ep p)"
| "ci_prefix (e # ep) [] = False"

lemma ci_prefix_length: "ci_prefix ep p \<Longrightarrow> length ep \<le> length p"
  by (induction ep p rule: ci_prefix.induct) auto

lemma ci_prefix_iff: "ci_prefix ep p \<longleftrightarrow> (\<exists>a b. p = a @ b \<and> List.map tolower a = List.map tolower ep)"
proof (induction ep p rule: ci_prefix.induct)
  case (2 e ep c p)
  show ?case
  proof
    assume "ci_prefix (e # ep) (c # p)"
    with 2 obtain a b where "p = a @ b" "List.map tolower a = List.map tolower ep" "tolower e = tolower c"
      by auto
    then have "c # p = (c # a) @ b \<and> List.map tolower (c # a) = List.map tolower (e # ep)" by simp
    then show "\<exists>a b. c # p = a @ b \<and> List.map tolower a = List.map tolower (e # ep)" by blast
  next
    assume "\<exists>a b. c # p = a @ b \<and> List.map tolower a = List.map tolower (e # ep)"
    then obtain a b where "c # p = a @ b" "List.map tolower a = List.map tolower (e # ep)" by blast
    with 2 show "ci_prefix (e # ep) (c # p)" by (cases a) auto
  qed
qed auto

lemma re_try_plain:
  assumes "plain ep"
  shows "re_try ep p False None k caps = Done None caps \<and> ci_prefix ep p \<or>
    re_try ep p False None k caps = Done (Some ENOENT) caps \<and> length p < length ep \<or>
    re_try ep p False None k caps = Again caps \<and> \<not> ci_prefix ep p"
  using assms
proof (induction ep arbitrary: p)
  case (Cons e ep)
  then have "plain ep" "e \<noteq> CHR ''[''" "e \<noteq> CHR 0x5C" by (auto simp: plain_def)
  with Cons.IH [of "tl p"] show ?case by (cases p) auto
qed simp

lemma re_search_plain:
  assumes "plain ep" and "ep \<noteq> []"
  shows "re_search ep p caps = Done (if \<exists>q. suffix q p \<and> ci_prefix ep q then None else Some ENOENT) caps"
proof (induction p)
  case Nil
  have "\<not> ci_prefix ep []" using assms(2) by (cases ep) auto
  then show ?case using assms(2) by simp
next
  case (Cons c p)
  have suf: "(\<exists>q. suffix q (c # p) \<and> ci_prefix ep q) \<longleftrightarrow>
      ci_prefix ep (c # p) \<or> (\<exists>q. suffix q p \<and> ci_prefix ep q)"
    by (auto simp: suffix_Cons)
  from re_try_plain [OF assms(1), of "c # p" 0 caps] show ?case
  proof (elim disjE conjE)
    assume "re_try ep (c # p) False None 0 caps = Done None caps" "ci_prefix ep (c # p)"
    with suf show ?case by simp
  next
    assume 1: "re_try ep (c # p) False None 0 caps = Done (Some ENOENT) caps"
      and 2: "length (c # p) < length ep"
    have "\<not> ci_prefix ep q" if "suffix q (c # p)" for q
      using ci_prefix_length [of ep q] suffix_length_le [OF that] 2 by linarith
    with 1 show ?case by auto
  next
    assume "re_try ep (c # p) False None 0 caps = Again caps" "\<not> ci_prefix ep (c # p)"
    with suf Cons show ?case by simp
  qed
qed

lemma re_regex_plain:
  assumes "plain ep" and "ep \<noteq> []"
  shows "re_regex (Some s) ep = Inr (if \<exists>a b c. s = a @ b @ c \<and> List.map tolower b = List.map tolower ep
      then None else Some ENOENT, \<lambda>_. None)"
proof -
  have "(\<exists>q. suffix q s \<and> ci_prefix ep q) \<longleftrightarrow>
      (\<exists>a b c. s = a @ b @ c \<and> List.map tolower b = List.map tolower ep)"
    by (fastforce simp: suffix_def ci_prefix_iff)
  then show ?thesis by (simp add: re_regex_def re_search_plain [OF assms])
qed

end
