(* ===== verification/Re_Uri.thy ===== *)
theory Re_Uri
  imports Re_Regex
begin

text \<open>
  Uniform resource identifiers (\<open>src/re/src/uri/uri.c\<close>, \<open>ucmp.c\<close>, \<open>uric.c\<close>): decoding and
  encoding, parameters and headers, comparison, and the escaping of components. A URI that was
  printed is decoded to itself, and an escaped component is unescaped to itself.

  Parsing an IP address is the C library's: \<open>pton\<close> is the address family of a text that is an
  address (2 for IPv4, 10 for IPv6).
\<close>

section \<open>Decoding and encoding\<close>

definition AF_UNSPEC :: nat where "AF_UNSPEC = 0"
definition AF_INET :: nat where "AF_INET = 2"
definition AF_INET6 :: nat where "AF_INET6 = 10"

record uri =
  uri_scheme :: pl
  uri_user :: pl
  uri_password :: pl
  uri_host :: pl
  uri_af :: nat
  uri_port :: u16
  uri_params :: pl
  uri_headers :: pl

definition uri_zero :: uri where
  "uri_zero = \<lparr>uri_scheme = None, uri_user = None, uri_password = None, uri_host = None,
     uri_af = 0, uri_port = 0, uri_params = None, uri_headers = None\<rparr>"

text \<open>\<open>uri_encode\<close> prints to a handler; the model returns the text it prints.\<close>

definition pl_text :: "pl \<Rightarrow> string" where
  "pl_text pl = (case pl of None \<Rightarrow> [] | Some s \<Rightarrow> s)"

definition uri_encode :: "uri \<Rightarrow> errno + string" where
  "uri_encode uri =
    (if \<not> pl_isset (uri_scheme uri) \<or> \<not> pl_isset (uri_host uri) then Inl EINVAL
     else Inr (pl_text (uri_scheme uri) @ '':'' @
       (if pl_isset (uri_user uri) then pl_text (uri_user uri) @
          (if pl_isset (uri_password uri) then '':'' @ pl_text (uri_password uri) else []) @ ''@''
        else []) @
       (if uri_af uri = AF_INET6 then ''['' @ pl_text (uri_host uri) @ '']''
        else pl_text (uri_host uri)) @
       (if uri_port uri \<noteq> 0 then '':'' @ local_itoa (ucast (uri_port uri)) 10 False else []) @
       pl_text (uri_params uri) @ pl_text (uri_headers uri)))"

text \<open>The value a capture leaves in the variable of the caller.\<close>

definition capture :: "pl \<Rightarrow> string option \<Rightarrow> pl" where
  "capture old new = (case new of None \<Rightarrow> old | Some s \<Rightarrow> Some s)"

definition re_hostport6 :: string where
  "re_hostport6 = CHR 0x5C # ''[[0-9a-f:]+'' @ CHR 0x5C # ''][:]*[0-9]*''"

definition re_hostport :: string where
  "re_hostport = ''[^:]+[:]*[0-9]*''"

text \<open>The host and the port that the two attempts leave, with the error.\<close>

definition decode_hostport :: "pl \<Rightarrow> pl \<Rightarrow> pl \<Rightarrow> ub + errno option \<times> pl \<times> pl" where
  "decode_hostport hostport host port =
    obind (re_regex hostport re_hostport6) (\<lambda>(err, c).
      let host = capture host (c 0); port = capture port (c 2) in
      if err = None then Inr (None, host, port)
      else obind (re_regex hostport re_hostport) (\<lambda>(err, c).
        Inr (err, capture host (c 0), capture port (c 2))))"

definition re_uri_user :: string where
  "re_uri_user = ''[^:]+:[^@:]*[:]*[^@]*@[^;? ]+[^?]*[^]*''"

definition re_uri_nouser :: string where
  "re_uri_nouser = ''[^:]+:[^;? ]+[^?]*[^]*''"

definition uri_finish :: "(string \<Rightarrow> nat option) \<Rightarrow> uri \<Rightarrow> pl \<Rightarrow> uri" where
  "uri_finish pton uri port =
    (let af = (case pl_strcpy (uri_host uri) 64 of
           Inl e \<Rightarrow> AF_UNSPEC
         | Inr h \<Rightarrow> (case pton h of None \<Rightarrow> AF_UNSPEC | Some f \<Rightarrow> f));
         uri = uri\<lparr>uri_af := af\<rparr>
     in if pl_isset port then uri\<lparr>uri_port := ucast (pl_u32 port)\<rparr> else uri)"

definition uri_decode :: "(string \<Rightarrow> nat option) \<Rightarrow> pl \<Rightarrow> ub + errno option \<times> uri" where
  "uri_decode pton pl =
    obind (re_regex pl re_uri_user) (\<lambda>(err, c).
      let u = uri_zero\<lparr>uri_scheme := c 0, uri_user := c 1, uri_password := c 3,
                uri_params := c 5, uri_headers := c 6\<rparr>;
          second = (\<lambda>hostport port. obind (re_regex pl re_uri_nouser) (\<lambda>(err, c).
            let u = uri_zero\<lparr>uri_scheme := c 0, uri_params := c 2, uri_headers := c 3\<rparr>;
                hostport = capture hostport (c 1)
            in if err \<noteq> None then Inr (err, u)
               else obind (decode_hostport hostport None port) (\<lambda>(err, host, port).
                 let u = u\<lparr>uri_host := host\<rparr>
                 in if err \<noteq> None then Inr (err, u) else Inr (None, uri_finish pton u port))))
      in if err = None then
           obind (decode_hostport (c 4) None None) (\<lambda>(err, host, port).
             if err = None then Inr (None, uri_finish pton (u\<lparr>uri_host := host\<rparr>) port)
             else second (c 4) port)
         else second (c 4) None)"

section \<open>Parameters and headers\<close>

definition uri_param_expr :: "string \<Rightarrow> string" where
  "uri_param_expr pname = re_snprintf 128 ['';'', pname, ''[=]*[^;]*'']"

definition uri_param_get :: "pl \<Rightarrow> string \<Rightarrow> pl \<Rightarrow> ub + errno option \<times> pl" where
  "uri_param_get pl pname pvalue =
    obind (re_regex pl (uri_param_expr pname)) (\<lambda>(err, c). Inr (err, capture pvalue (c 1)))"

definition uri_header_expr :: "string \<Rightarrow> string" where
  "uri_header_expr hname = re_snprintf 128 [''[?&]1'', hname, ''=[^&]+'']"

definition uri_header_get :: "pl \<Rightarrow> string \<Rightarrow> pl \<Rightarrow> ub + errno option \<times> pl" where
  "uri_header_get pl hname hvalue =
    obind (re_regex pl (uri_header_expr hname)) (\<lambda>(err, c). Inr (err, capture hvalue (c 1)))"

text \<open>
  The loops over the parameters and the headers. The expressions have no class that strips
  quotes, so the lengths of the captured texts never exceed what is left.
\<close>

function uri_params_apply ::
  "string \<Rightarrow> (string \<Rightarrow> string \<Rightarrow> ub + errno option) \<Rightarrow> ub + errno option" where
  "uri_params_apply plr ah =
    (if plr = [] then Inr None
     else case re_regex (Some plr) '';[^;=]+[=]*[^;]*'' of
         Inl e \<Rightarrow> Inl e
       | Inr (Some err, c) \<Rightarrow> Inr (Some err)
       | Inr (None, c) \<Rightarrow>
           let plr = pl_advance plr (1 + pl_l (c 0) + pl_l (c 1) + pl_l (c 2))
           in case ah (pl_text (c 0)) (pl_text (c 2)) of
               Inl e \<Rightarrow> Inl e
             | Inr (Some err) \<Rightarrow> Inr (Some err)
             | Inr None \<Rightarrow> uri_params_apply plr ah)"
  by pat_completeness auto
termination
  by (relation "measure (\<lambda>(plr, ah). length plr)") (auto simp: pl_advance_def)

function uri_headers_apply ::
  "string \<Rightarrow> (string \<Rightarrow> string \<Rightarrow> ub + errno option) \<Rightarrow> ub + errno option" where
  "uri_headers_apply plr ah =
    (if plr = [] then Inr None
     else case re_regex (Some plr) ''[?&]1[^=]+=[^&]+'' of
         Inl e \<Rightarrow> Inl e
       | Inr (Some err, c) \<Rightarrow> Inr (Some err)
       | Inr (None, c) \<Rightarrow>
           let plr = pl_advance plr (pl_l (c 0) + pl_l (c 1) + 1 + pl_l (c 2))
           in case ah (pl_text (c 1)) (pl_text (c 2)) of
               Inl e \<Rightarrow> Inl e
             | Inr (Some err) \<Rightarrow> Inr (Some err)
             | Inr None \<Rightarrow> uri_headers_apply plr ah)"
  by pat_completeness auto
termination
  by (relation "measure (\<lambda>(plr, ah). length plr)") (auto simp: pl_advance_def)

declare uri_params_apply.simps [simp del] uri_headers_apply.simps [simp del]

section \<open>Comparison\<close>

definition ucmp_param_handler :: "pl \<Rightarrow> string \<Rightarrow> string \<Rightarrow> ub + errno option" where
  "ucmp_param_handler other_params pname pvalue =
    (let both = (pl_strcmp (Some pname) (Some ''user'') = None \<or>
                 pl_strcmp (Some pname) (Some ''ttl'') = None \<or>
                 pl_strcmp (Some pname) (Some ''method'') = None \<or>
                 pl_strcmp (Some pname) (Some ''maddr'') = None \<or>
                 pl_strcmp (Some pname) (Some ''transport'') = None)
     in obind (uri_param_get other_params pname None) (\<lambda>(err, other).
          if err \<noteq> None then Inr (if both then Some ENOENT else None)
          else Inr (pl_casecmp (Some pvalue) other)))"

definition ucmp_header_handler :: "pl \<Rightarrow> string \<Rightarrow> string \<Rightarrow> ub + errno option" where
  "ucmp_header_handler other_headers hname hvalue =
    obind (uri_header_get other_headers hname None) (\<lambda>(err, other).
      if err \<noteq> None then Inr err else Inr (pl_casecmp (Some hvalue) other))"

text \<open>\<open>uri_cmp\<close> of two different structures; a pointer to the same one is equal at once.\<close>

definition uri_cmp :: "uri \<Rightarrow> uri \<Rightarrow> ub + bool" where
  "uri_cmp l r =
    (if pl_casecmp (uri_scheme l) (uri_scheme r) \<noteq> None then Inr False
     else if pl_cmp (uri_user l) (uri_user r) \<noteq> None then Inr False
     else if pl_cmp (uri_password l) (uri_password r) \<noteq> None then Inr False
     else if pl_casecmp (uri_host l) (uri_host r) \<noteq> None then Inr False
     else if uri_af l \<noteq> uri_af r then Inr False
     else if uri_port l \<noteq> uri_port r then Inr False
     else
       obind (uri_params_apply (pl_text (uri_params l)) (ucmp_param_handler (uri_params r))) (\<lambda>e1.
       if e1 \<noteq> None then Inr False else
       obind (uri_params_apply (pl_text (uri_params r)) (ucmp_param_handler (uri_params l))) (\<lambda>e2.
       if e2 \<noteq> None then Inr False else
       obind (uri_headers_apply (pl_text (uri_headers l)) (ucmp_header_handler (uri_headers r))) (\<lambda>e3.
       if e3 \<noteq> None then Inr False else
       obind (uri_headers_apply (pl_text (uri_headers r)) (ucmp_header_handler (uri_headers l))) (\<lambda>e4.
       Inr (e4 = None))))))"

section \<open>Escaping\<close>

definition isalnum :: "char \<Rightarrow> bool" where
  "isalnum c = (let n = (of_char c :: nat) in
     48 \<le> n \<and> n \<le> 57 \<or> 65 \<le> n \<and> n \<le> 90 \<or> 97 \<le> n \<and> n \<le> 122)"

definition is_mark :: "char \<Rightarrow> bool" where
  "is_mark c \<longleftrightarrow> c \<in> set (CHR 0x27 # ''-_.!~*()'')"

definition is_unreserved :: "char \<Rightarrow> bool" where
  "is_unreserved c \<longleftrightarrow> isalnum c \<or> is_mark c"

definition is_user_unreserved :: "char \<Rightarrow> bool" where
  "is_user_unreserved c \<longleftrightarrow> c \<in> set ''&=+$,;?/''"

definition is_hnv_unreserved :: "char \<Rightarrow> bool" where
  "is_hnv_unreserved c \<longleftrightarrow> c \<in> set ''[]/?:+$''"

definition is_user :: "char \<Rightarrow> bool" where
  "is_user c \<longleftrightarrow> is_unreserved c \<or> is_user_unreserved c"

definition is_password :: "char \<Rightarrow> bool" where
  "is_password c \<longleftrightarrow> c \<in> set ''&=+$,'' \<or> is_unreserved c"

definition is_param_unreserved :: "char \<Rightarrow> bool" where
  "is_param_unreserved c \<longleftrightarrow> c \<in> set ''[]/:&+$''"

definition is_paramchar :: "char \<Rightarrow> bool" where
  "is_paramchar c \<longleftrightarrow> is_param_unreserved c \<or> is_unreserved c"

definition is_hvalue :: "char \<Rightarrow> bool" where
  "is_hvalue c \<longleftrightarrow> is_hnv_unreserved c \<or> is_unreserved c"

text \<open>\<open>%02X\<close> of a \<open>char\<close>: the argument is sign-extended to 32 bits and printed unsigned.\<close>

definition hex_arg :: "char \<Rightarrow> u64" where
  "hex_arg c = ucast (scast (of_char c :: u8) :: u32)"

definition pad0 :: "nat \<Rightarrow> string \<Rightarrow> string" where
  "pad0 n s = replicate (n - length s) (CHR ''0'') @ s"

definition comp_escape :: "(char \<Rightarrow> bool) \<Rightarrow> string \<Rightarrow> string" where
  "comp_escape eh s =
    concat (List.map (\<lambda>c. if eh c then [c] else ''%'' @ pad0 2 (local_itoa (hex_arg c) 16 True)) s)"

text \<open>
  The loop compares the index with \<open>pl->l - 2\<close>, an unsigned difference: for a text of one
  character it is huge, and the two digits are read behind the end of the text.
\<close>

fun comp_unescape_loop :: "(char \<Rightarrow> bool) \<Rightarrow> nat \<Rightarrow> string \<Rightarrow> ub + errno option \<times> string" where
  "comp_unescape_loop eh l [] = Inr (None, [])"
| "comp_unescape_loop eh l (c # s) =
    (if eh c then obind (comp_unescape_loop eh l s) (\<lambda>(err, t). Inr (err, c # t))
     else if c = CHR ''%'' then
       if l < 2 then Inl Out_of_bounds
       else (case s of
           hi # lo # s' \<Rightarrow>
             obind (comp_unescape_loop eh l s') (\<lambda>(err, t).
               Inr (err, char_of (unat (push_bit 4 (ch_hex hi) OR ch_hex lo)) # t))
         | _ \<Rightarrow> Inr (Some EBADMSG, []))
     else Inr (Some EINVAL, []))"

definition comp_unescape :: "(char \<Rightarrow> bool) \<Rightarrow> string \<Rightarrow> ub + errno option \<times> string" where
  "comp_unescape eh s = comp_unescape_loop eh (length s) s"

definition uri_user_escape :: "string \<Rightarrow> string" where
  "uri_user_escape = comp_escape is_user"
definition uri_user_unescape :: "string \<Rightarrow> ub + errno option \<times> string" where
  "uri_user_unescape = comp_unescape is_user"
definition uri_password_escape :: "string \<Rightarrow> string" where
  "uri_password_escape = comp_escape is_password"
definition uri_password_unescape :: "string \<Rightarrow> ub + errno option \<times> string" where
  "uri_password_unescape = comp_unescape is_password"
definition uri_param_escape :: "string \<Rightarrow> string" where
  "uri_param_escape = comp_escape is_paramchar"
definition uri_param_unescape :: "string \<Rightarrow> ub + errno option \<times> string" where
  "uri_param_unescape = comp_unescape is_paramchar"
definition uri_header_escape :: "string \<Rightarrow> string" where
  "uri_header_escape = comp_escape is_hvalue"
definition uri_header_unescape :: "string \<Rightarrow> ub + errno option \<times> string" where
  "uri_header_unescape = comp_unescape is_hvalue"

section \<open>Unescaping what was escaped\<close>

definition esc3 :: "char \<Rightarrow> string" where
  "esc3 c = pad0 2 (local_itoa (hex_arg c) 16 True)"

lemma hex_digit_all: "list_all (\<lambda>d. ch_hex (itoa_digit True d) = of_nat d) [0..<16]"
  by code_simp

lemma hex_digit: "d < 16 \<Longrightarrow> ch_hex (itoa_digit True d) = of_nat d"
  using hex_digit_all by (simp add: list_all_iff)

lemma hex_arg_ascii:
  assumes "(of_char c :: nat) < 128"
  shows "hex_arg c = of_nat (of_char c)"
proof -
  define w where "w = (of_char c :: u8)"
  have u: "unat w = of_char c" by (simp add: w_def)
  then have "uint w < 128" using assms by (metis of_nat_less_iff of_nat_numeral uint_nat)
  then have "sint w = uint w"
    unfolding sint_uint by (intro signed_take_bit_int_eq_self) (simp_all add: order_trans [OF _ uint_ge_0])
  then have "(scast w :: u32) = of_nat (unat w)" unfolding scast_eq by simp
  then have "unat (scast w :: u32) = unat w" using u assms by (simp add: unat_of_nat)
  moreover have "hex_arg c = of_nat (unat (scast w :: u32))" by (simp add: hex_arg_def w_def)
  ultimately show ?thesis by (simp only: u)
qed

lemma itoa_hex_2:
  assumes "n < (256 :: nat)"
  shows "pad0 2 (local_itoa (of_nat n) 16 True) = [itoa_digit True (n div 16), itoa_digit True (n mod 16)]"
proof -
  define w where "w = (of_nat n :: u64)"
  have w: "unat w = n" using assms by (simp add: w_def unat_of_nat)
  have dv: "unat (w div 16) = n div 16" by (simp add: unat_div w)
  have md: "unat (w - w div 16 * 16) = n mod 16"
    by (simp add: minus_div_mult_eq_mod unat_mod w)
  have lt: "n div 16 < 16" using assms by auto
  have "unat (w div 16 div 16) = 0" by (simp add: unat_div w lt)
  then have dv2: "w div 16 div 16 = 0" by (simp add: unat_eq_zero)
  then have md2: "unat (w div 16 - w div 16 div 16 * 16) = n div 16" by (simp add: dv)
  have z: "w div 16 = 0 \<longleftrightarrow> n div 16 = 0" using dv by (metis unat_0 unat_eq_zero)
  have 1: "local_itoa w 16 True =
      (if n div 16 = 0 then [itoa_digit True (n mod 16)]
       else local_itoa_loop (w div 16) 16 True [itoa_digit True (n mod 16)])"
    unfolding local_itoa_def by (subst local_itoa_loop.simps) (simp only: Let_def md z, simp)
  have 2: "local_itoa_loop (w div 16) 16 True p = itoa_digit True (n div 16) # p" for p
    by (subst local_itoa_loop.simps) (simp only: Let_def md2 dv2, simp add: dv)
  have "CHR ''0'' = char_of (48 :: nat)" by code_simp
  then show ?thesis
    using 1 2 by (auto simp: pad0_def itoa_digit_def numeral_2_eq_2 simp flip: w_def)
qed

lemma hex_pair:
  assumes "a < 16" and "b < 16"
  shows "unat (push_bit 4 (of_nat a) OR of_nat b :: u8) = 16 * a + b"
proof -
  have b: "take_bit 4 b = b" using assms(2) by (simp add: take_bit_nat_eq_self)
  have "push_bit 4 a + b = push_bit 4 a OR b"
    by (rule disjunctive_add) (use b in \<open>auto simp: bit_simps\<close>, metis bit_take_bit_iff linorder_not_le)
  moreover have "push_bit 4 a = 16 * a" by (simp add: push_bit_eq_mult)
  ultimately have "of_nat (16 * a + b) = (of_nat (push_bit 4 a OR b) :: u8)" by simp
  also have "\<dots> = push_bit 4 (of_nat a) OR of_nat b" by (simp only: of_nat_or_eq of_nat_push_bit)
  finally have "unat (push_bit 4 (of_nat a) OR of_nat b :: u8) = unat (of_nat (16 * a + b) :: u8)"
    by (rule arg_cong [OF sym])
  also have "\<dots> = 16 * a + b" using assms by (subst unat_of_nat) simp
  finally show ?thesis .
qed

lemma esc3_ascii:
  assumes "(of_char c :: nat) < 128"
  obtains hi lo where "esc3 c = [hi, lo]" "char_of (unat (push_bit 4 (ch_hex hi) OR ch_hex lo)) = c"
proof
  define n where "n = (of_char c :: nat)"
  show "esc3 c = [itoa_digit True (n div 16), itoa_digit True (n mod 16)]"
    unfolding esc3_def hex_arg_ascii [OF assms] n_def [symmetric]
    by (rule itoa_hex_2) (use assms in \<open>simp add: n_def\<close>)
  have "n div 16 < 16" using assms by (simp add: n_def)
  then show "char_of (unat (push_bit 4 (ch_hex (itoa_digit True (n div 16))) OR
      ch_hex (itoa_digit True (n mod 16)))) = c"
    by (simp add: hex_digit hex_pair) (simp add: n_def)
qed

lemma comp_escape_Cons:
  "comp_escape eh (c # s) = (if eh c then [c] else CHR ''%'' # esc3 c) @ comp_escape eh s"
  by (simp add: comp_escape_def esc3_def)

lemma comp_unescape_escape_loop:
  assumes "\<not> eh (CHR ''%'')"
  shows "\<forall>c\<in>set s. (of_char c :: nat) < 128 \<Longrightarrow> (\<forall>c\<in>set s. eh c) \<or> 2 \<le> l \<Longrightarrow>
    comp_unescape_loop eh l (comp_escape eh s) = Inr (None, s)"
proof (induction s)
  case Nil
  then show ?case by (simp add: comp_escape_def)
next
  case (Cons c s)
  then have IH: "comp_unescape_loop eh l (comp_escape eh s) = Inr (None, s)" by auto
  show ?case
  proof (cases "eh c")
    case True
    with IH show ?thesis by (simp add: comp_escape_Cons)
  next
    case False
    from Cons.prems(1) have "(of_char c :: nat) < 128" by simp
    then obtain hi lo where "esc3 c = [hi, lo]" "char_of (unat (push_bit 4 (ch_hex hi) OR ch_hex lo)) = c"
      by (rule esc3_ascii)
    with IH False Cons.prems(2) assms show ?thesis by (simp add: comp_escape_Cons)
  qed
qed

lemma comp_unescape_escape:
  assumes "\<not> eh (CHR ''%'')" and "\<forall>c\<in>set s. (of_char c :: nat) < 128"
  shows "comp_unescape eh (comp_escape eh s) = Inr (None, s)"
proof -
  have "2 \<le> length (comp_escape eh s)" if "c \<in> set s" "\<not> eh c" for c
    using that assms(2)
  proof (induction s)
    case (Cons d s)
    then show ?case
      by (cases "eh d") (auto simp: comp_escape_Cons elim: esc3_ascii [of d])
  qed simp
  then show ?thesis
    unfolding comp_unescape_def using assms by (intro comp_unescape_escape_loop) auto
qed

lemma no_percent: "\<not> is_user (CHR ''%'')" "\<not> is_password (CHR ''%'')"
    "\<not> is_paramchar (CHR ''%'')" "\<not> is_hvalue (CHR ''%'')"
  by code_simp+

section \<open>Decoding what was printed\<close>

text \<open>How the classes of the two expressions split a text.\<close>

lemma cls_run_takeWhile:
  assumes "\<not> cls_qesc cl"
  shows "length p \<le> unat n \<Longrightarrow> cls_run cl False False n p =
    (takeWhile (\<lambda>c. expr_match (cls_chr cl) (tolower c) (cls_neg cl)) p,
     dropWhile (\<lambda>c. expr_match (cls_chr cl) (tolower c) (cls_neg cl)) p)"
proof (induction p arbitrary: n)
  case (Cons c p)
  then have "n \<noteq> 0" by auto
  then have "length p \<le> unat (n - 1)" using Cons.prems by (simp add: unat_minus_one)
  with Cons.IH [OF this] assms \<open>n \<noteq> 0\<close> show ?case by (simp add: Let_def)
qed simp

lemma expr_match_singles:
  "expr_match (List.map (\<lambda>x. (tolower x, tolower x)) xs) c neg = (if neg then c \<notin> tolower ` set xs
    else c \<in> tolower ` set xs)"
proof -
  have "chr_le a c \<and> chr_le c a \<longleftrightarrow> c = a" for a
    by (auto simp: chr_le_def intro: of_char_eqI antisym)
  then show ?thesis by (auto simp: expr_match_def)
qed

text \<open>Characters that no letter is folded to or from.\<close>

definition nonletter :: "char \<Rightarrow> bool" where
  "nonletter x \<longleftrightarrow> (let n = (of_char x :: nat) in n < 65 \<or> 90 < n \<and> n < 97 \<or> 122 < n)"

lemma tolower_nonletter:
  assumes "nonletter x"
  shows "tolower x = x" and "tolower c = x \<longleftrightarrow> c = x"
proof -
  show x: "tolower x = x" using assms by (auto simp: tolower_def nonletter_def Let_def)
  show "tolower c = x \<longleftrightarrow> c = x"
  proof
    assume t: "tolower c = x"
    show "c = x"
    proof (cases "65 \<le> (of_char c :: nat) \<and> (of_char c :: nat) \<le> 90")
      case True
      then have "(of_char x :: nat) = of_char c + 32" using t by (auto simp: tolower_def Let_def)
      then show ?thesis using True assms by (auto simp: nonletter_def Let_def)
    next
      case False
      then show ?thesis using t unfolding tolower_def Let_def by (simp split: if_splits)
    qed
  qed (simp add: x)
qed

lemma tolower_image_nonletter:
  assumes "\<forall>x\<in>set xs. nonletter x"
  shows "tolower c \<in> tolower ` set xs \<longleftrightarrow> c \<in> set xs"
proof -
  have "tolower ` set xs = set xs" using assms by (auto simp: tolower_nonletter(1) image_iff)
  then show ?thesis using assms by (metis tolower_nonletter(2))
qed

text \<open>A class of single characters, plain or negated, with one of the two open quantifiers.\<close>

definition class_char :: "char \<Rightarrow> bool" where
  "class_char x \<longleftrightarrow> x \<notin> set '']-^~'' \<and> x \<noteq> CHR 0x5C"

lemma re_try_class_body:
  assumes "\<forall>x\<in>set xs. class_char x"
  shows "length (cls_chr cl) + length xs \<le> chrv_size \<Longrightarrow> cls_range cl = None \<Longrightarrow> \<not> cls_ec cl \<Longrightarrow>
    re_try (xs @ ep) p False (Some cl) k caps =
    re_try ep p False (Some (cl\<lparr>cls_chr := cls_chr cl @ List.map (\<lambda>x. (tolower x, tolower x)) xs\<rparr>)) k caps"
  using assms
proof (induction xs arbitrary: cl)
  case (Cons x xs)
  then have "class_char x" by simp
  then have x: "x \<noteq> CHR 0x5C" "x \<noteq> CHR '']''" "x \<noteq> CHR ''~''" "x \<noteq> CHR ''^''" "x \<noteq> CHR ''-''"
    by (auto simp: class_char_def)
  have "cls_char cl False x = Some (cl\<lparr>cls_chr := cls_chr cl @ [(tolower x, tolower x)]\<rparr>)"
    using Cons.prems x by (simp add: cls_char_def cls_add_def)
  with Cons x show ?case by simp
qed simp

definition open_quant :: "char \<Rightarrow> bool" where
  "open_quant q \<longleftrightarrow> q = CHR ''*'' \<or> q = CHR ''+''"

lemma open_quantifier:
  "open_quant q \<Longrightarrow> quantifier q = Some (if q = CHR ''+'' then 1 else 0, -1)"
  by (auto simp: open_quant_def quantifier_def)

lemma class_step:
  assumes "open_quant q" and "length p < 2 ^ 32" and "cls_run cl False False (-1) p = (m, p')"
    and "cls_ec cl" and "\<not> cls_qesc cl"
  shows "re_try (q # ep) p False (Some cl) k caps =
    (if q = CHR ''+'' \<and> m = [] then Again caps
     else re_try ep p' False None (Suc k) (caps(k := Some m)))"
proof -
  have "length m < 2 ^ 32" using cls_run_split [OF assms(3)] assms(2) by simp
  then have n: "(of_nat (length m) :: u32) < 1 \<longleftrightarrow> m = []"
    by (simp add: word_less_nat_alt unat_of_nat)
  have "q \<noteq> CHR 0x5C" using assms(1) by (auto simp: open_quant_def)
  then show ?thesis
    using assms n by (simp add: open_quantifier strip_quotes_def Let_def)
qed

lemma length_le_max: "length p < 2 ^ 32 \<Longrightarrow> length p \<le> unat (-1 :: u32)"
  by (simp add: unsigned_minus_1_eq_mask mask_eq_exp_minus_1)

lemma neg_class:
  assumes "open_quant q" and "\<forall>x\<in>set xs. class_char x \<and> nonletter x" and "length xs \<le> 60"
    and "length p < 2 ^ 32"
  shows "re_try (''[^'' @ xs @ '']'' @ [q] @ ep) p False None k caps =
    (let m = takeWhile (\<lambda>c. c \<notin> set xs) p in
     if q = CHR ''+'' \<and> m = [] then Again caps
     else re_try ep (dropWhile (\<lambda>c. c \<notin> set xs) p) False None (Suc k) (caps(k := Some m)))"
proof -
  define cl where "cl = cls_init\<lparr>cls_neg := True, cls_ec := True,
    cls_chr := List.map (\<lambda>x. (tolower x, tolower x)) xs\<rparr>"
  have c: "\<forall>x\<in>set xs. class_char x" "\<forall>x\<in>set xs. nonletter x" using assms(2) by simp_all
  from cls_run_takeWhile [of cl p "-1", OF _ length_le_max [OF assms(4)]] have run: "cls_run cl False False (-1) p =
      (takeWhile (\<lambda>c. c \<notin> set xs) p, dropWhile (\<lambda>c. c \<notin> set xs) p)"
    by (simp add: cl_def cls_init_def expr_match_singles tolower_image_nonletter [OF c(2)])
  have "re_try (''[^'' @ xs @ '']'' @ [q] @ ep) p False None k caps =
      re_try (xs @ '']'' @ [q] @ ep) p False (Some (cls_init\<lparr>cls_neg := True\<rparr>)) k caps"
    by (simp add: cls_char_def cls_init_def)
  also have "\<dots> = re_try (q # ep) p False (Some cl) k caps"
    using assms(3) by (subst re_try_class_body [OF c(1)])
      (simp_all add: cls_init_def chrv_size_def cls_char_def cl_def)
  finally show ?thesis
    using class_step [OF assms(1,4) run] by (simp add: cl_def cls_init_def Let_def)
qed

lemma pos_class:
  assumes "open_quant q" and "\<forall>x\<in>set xs. class_char x \<and> nonletter x" and "length xs \<le> 60"
    and "length p < 2 ^ 32"
  shows "re_try (''['' @ xs @ '']'' @ [q] @ ep) p False None k caps =
    (let m = takeWhile (\<lambda>c. c \<in> set xs) p in
     if q = CHR ''+'' \<and> m = [] then Again caps
     else re_try ep (dropWhile (\<lambda>c. c \<in> set xs) p) False None (Suc k) (caps(k := Some m)))"
proof -
  define cl where "cl = cls_init\<lparr>cls_ec := True, cls_chr := List.map (\<lambda>x. (tolower x, tolower x)) xs\<rparr>"
  have c: "\<forall>x\<in>set xs. class_char x" "\<forall>x\<in>set xs. nonletter x" using assms(2) by simp_all
  from cls_run_takeWhile [of cl p "-1", OF _ length_le_max [OF assms(4)]] have run:
    "cls_run cl False False (-1) p = (takeWhile (\<lambda>c. c \<in> set xs) p, dropWhile (\<lambda>c. c \<in> set xs) p)"
    by (simp add: cl_def cls_init_def expr_match_singles tolower_image_nonletter [OF c(2)])
  have "re_try (''['' @ xs @ '']'' @ [q] @ ep) p False None k caps =
      re_try (xs @ '']'' @ [q] @ ep) p False (Some cls_init) k caps" by simp
  also have "\<dots> = re_try (q # ep) p False (Some cl) k caps"
    using assms(3) by (subst re_try_class_body [OF c(1)])
      (simp_all add: cls_init_def chrv_size_def cls_char_def cl_def)
  finally show ?thesis
    using class_step [OF assms(1,4) run] by (simp add: cl_def cls_init_def Let_def)
qed

lemma digit_class:
  assumes "length p < 2 ^ 32"
  shows "re_try (''[0-9]*'' @ ep) p False None k caps =
    re_try ep (dropWhile is_digit p) False None (Suc k) (caps(k := Some (takeWhile is_digit p)))"
proof -
  define cl where "cl = cls_init\<lparr>cls_ec := True, cls_chr := [(CHR ''0'', CHR ''9'')]\<rparr>"
  have m: "expr_match [(CHR ''0'', CHR ''9'')] (tolower c) False \<longleftrightarrow> is_digit c" for c
    by (auto simp: expr_match_def chr_le_def is_digit_def tolower_def Let_def)
  from cls_run_takeWhile [of cl p "-1", OF _ length_le_max [OF assms]] have run:
    "cls_run cl False False (-1) p = (takeWhile is_digit p, dropWhile is_digit p)"
    by (simp add: cl_def cls_init_def m)
  have "re_try (''[0-9]*'' @ ep) p False None k caps = re_try (''*'' @ ep) p False (Some cl) k caps"
    by (simp add: cls_char_def cls_add_def cls_init_def chrv_size_def cl_def tolower_def)
  then show ?thesis
    using class_step [OF _ assms run, of "CHR ''*''"] by (simp add: cl_def cls_init_def open_quant_def)
qed

lemma while_split:
  assumes "\<forall>c\<in>set a. P c" and "b = [] \<or> \<not> P (hd b)"
  shows "takeWhile P (a @ b) = a" "dropWhile P (a @ b) = b"
  using assms by (cases b; simp)+

text \<open>A negated class that takes exactly the first part of the text.\<close>

declare re_try.simps [simp del]

lemma re_try_literal:
  "e \<noteq> CHR 0x5C \<Longrightarrow> e \<noteq> CHR ''['' \<Longrightarrow> re_try (e # ep) (e # p) False None k caps = re_try ep p False None k caps"
  by (simp add: re_try.simps)

lemma neg_class_split:
  assumes "open_quant q" and "\<forall>x\<in>set xs. class_char x \<and> nonletter x" and "length xs \<le> 60"
    and "length (a @ b) < 2 ^ 32" and "set a \<inter> set xs = {}" and "b = [] \<or> hd b \<in> set xs"
    and "q = CHR ''+'' \<longrightarrow> a \<noteq> []"
  shows "re_try (CHR ''['' # CHR ''^'' # xs @ CHR '']'' # q # ep) (a @ b) False None k caps =
    re_try ep b False None (Suc k) (caps(k := Some a))"
proof -
  have a: "\<forall>c\<in>set a. c \<notin> set xs" using assms(5) by blast
  have b: "b = [] \<or> \<not> hd b \<notin> set xs" using assms(6) by simp
  show ?thesis
    using neg_class [OF assms(1-4), of ep k caps] while_split [OF a b] assms(7)
    by (auto simp: Let_def)
qed

lemma pos_class_split:
  assumes "open_quant q" and "\<forall>x\<in>set xs. class_char x \<and> nonletter x" and "length xs \<le> 60"
    and "length (a @ b) < 2 ^ 32" and "set a \<subseteq> set xs" and "b = [] \<or> hd b \<notin> set xs"
    and "q = CHR ''+'' \<longrightarrow> a \<noteq> []"
  shows "re_try (CHR ''['' # xs @ CHR '']'' # q # ep) (a @ b) False None k caps =
    re_try ep b False None (Suc k) (caps(k := Some a))"
proof -
  have a: "\<forall>c\<in>set a. c \<in> set xs" using assms(5) by blast
  show ?thesis
    using pos_class [OF assms(1-4), of ep k caps] while_split [OF a assms(6)] assms(7)
    by (auto simp: Let_def)
qed

lemma class_chars:
  "\<forall>x\<in>set '':@;? ''. class_char x \<and> nonletter x" "open_quant (CHR ''*'')" "open_quant (CHR ''+'')"
  by code_simp+

lemma class_chars_sub: "set xs \<subseteq> set '':@;? '' \<Longrightarrow> \<forall>x\<in>set xs. class_char x \<and> nonletter x"
  using class_chars(1) by blast

lemma re_search_try:
  assumes "p \<noteq> []" and "re_try expr p False None 0 caps = Done err c"
  shows "re_search expr p caps = Done err c"
  using assms by (cases p) simp_all

text \<open>One character of a class.\<close>

lemma one_class:
  assumes "\<forall>x\<in>set xs. class_char x \<and> nonletter x" and "length xs \<le> 60" and "c \<in> set xs"
  shows "re_try (''['' @ xs @ '']1'' @ ep) (c # p) False None k caps =
    re_try ep p False None (Suc k) (caps(k := Some [c]))"
proof -
  define cl where "cl = cls_init\<lparr>cls_ec := True, cls_chr := List.map (\<lambda>x. (tolower x, tolower x)) xs\<rparr>"
  have cx: "\<forall>x\<in>set xs. class_char x" "\<forall>x\<in>set xs. nonletter x" using assms(1) by simp_all
  have m: "expr_match (List.map (\<lambda>x. (tolower x, tolower x)) xs) (tolower c) False"
    using assms(3) by (simp only: expr_match_singles tolower_image_nonletter [OF cx(2)]) simp
  then have m': "expr_match (cls_chr cl) (tolower c) (cls_neg cl)" by (simp add: cl_def cls_init_def)
  have z: "cls_run cl False False 0 q = ([], q)" for q by (cases q) simp_all
  have nq: "\<not> cls_qesc cl" by (simp add: cl_def cls_init_def)
  have "re_try (''['' @ xs @ '']1'' @ ep) (c # p) False None k caps =
      re_try (xs @ '']1'' @ ep) (c # p) False (Some cls_init) k caps" by (simp add: re_try.simps)
  also have "\<dots> = re_try (''1'' @ ep) (c # p) False (Some cl) k caps"
    using assms(2) by (subst re_try_class_body [OF cx(1)])
      (simp_all add: cls_init_def chrv_size_def cls_char_def cl_def re_try.simps)
  also have "\<dots> = re_try ep p False None (Suc k) (caps(k := Some [c]))"
  proof -
    have "quantifier (CHR ''1'') = Some (1, 1)" by code_simp
    moreover have "cls_run cl False False 1 (c # p) = ([c], p)" using m' z nq by simp
    moreover have "cls_ec cl" by (simp add: cl_def)
    ultimately show ?thesis using nq by (simp add: re_try.simps strip_quotes_def Let_def)
  qed
  finally show ?thesis .
qed

lemma re_try_uri_user:
  assumes sc: "sc \<noteq> []" "CHR '':'' \<notin> set sc"
    and us: "us \<noteq> []" "CHR '':'' \<notin> set us" "CHR ''@'' \<notin> set us"
    and pp: "set pp \<subseteq> {CHR '':''}" and pw: "CHR ''@'' \<notin> set pw" "pw = [] \<or> hd pw \<noteq> CHR '':''"
    and pp_pw: "pp = [] \<longrightarrow> pw = []"
    and hp: "hp \<noteq> []" "set hp \<inter> set '';? '' = {}"
    and pa: "CHR ''?'' \<notin> set pa" "pa = [] \<or> hd pa \<in> set '';? ''"
    and he: "he = [] \<or> hd he = CHR ''?''"
    and len: "length (sc @ '':'' @ us @ pp @ pw @ ''@'' @ hp @ pa @ he) < 2 ^ 32"
  shows "re_try re_uri_user (sc @ '':'' @ us @ pp @ pw @ ''@'' @ hp @ pa @ he) False None 0 caps =
    Done None (caps(0 := Some sc, 1 := Some us, 2 := Some pp, 3 := Some pw, 4 := Some hp,
      5 := Some pa, 6 := Some he))"
proof -
  have 1: "re_try re_uri_user (sc @ '':'' @ us @ pp @ pw @ ''@'' @ hp @ pa @ he) False None 0 caps =
      re_try '':[^@:]*[:]*[^@]*@[^;? ]+[^?]*[^]*'' ('':'' @ us @ pp @ pw @ ''@'' @ hp @ pa @ he)
        False None 1 (caps(0 := Some sc))"
    using neg_class_split [OF class_chars(3) class_chars_sub, of "'':''" sc
      "'':'' @ us @ pp @ pw @ ''@'' @ hp @ pa @ he" "'':[^@:]*[:]*[^@]*@[^;? ]+[^?]*[^]*''" 0 caps] sc len
    by (auto simp: re_uri_user_def)
  have 2: "re_try '':[^@:]*[:]*[^@]*@[^;? ]+[^?]*[^]*'' ('':'' @ us @ pp @ pw @ ''@'' @ hp @ pa @ he)
        False None 1 c =
      re_try ''[:]*[^@]*@[^;? ]+[^?]*[^]*'' (pp @ pw @ ''@'' @ hp @ pa @ he)
        False None 2 (c(1 := Some us))" for c
    using neg_class_split [OF class_chars(2) class_chars_sub, of "''@:''" us
      "pp @ pw @ ''@'' @ hp @ pa @ he" "''[:]*[^@]*@[^;? ]+[^?]*[^]*''" 1 c] us len pp pp_pw
    by (cases pp) (auto simp: numeral_2_eq_2 re_try_literal)
  have 3: "re_try ''[:]*[^@]*@[^;? ]+[^?]*[^]*'' (pp @ pw @ ''@'' @ hp @ pa @ he) False None 2 c =
      re_try ''[^@]*@[^;? ]+[^?]*[^]*'' (pw @ ''@'' @ hp @ pa @ he) False None 3 (c(2 := Some pp))" for c
    using pos_class_split [OF class_chars(2) class_chars_sub, of "'':''" pp
      "pw @ ''@'' @ hp @ pa @ he" "''[^@]*@[^;? ]+[^?]*[^]*''" 2 c] len pp pw(2)
    by (cases pw) (auto simp: numeral_3_eq_3 numeral_2_eq_2)
  have 4: "re_try ''[^@]*@[^;? ]+[^?]*[^]*'' (pw @ ''@'' @ hp @ pa @ he) False None 3 c =
      re_try ''[^;? ]+[^?]*[^]*'' (hp @ pa @ he) False None 4 (c(3 := Some pw))" for c
    using neg_class_split [OF class_chars(2) class_chars_sub, of "''@''" pw
      "''@'' @ hp @ pa @ he" "''@[^;? ]+[^?]*[^]*''" 3 c] len pw(1)
    by (auto simp: re_try_literal)
  have 5: "re_try ''[^;? ]+[^?]*[^]*'' (hp @ pa @ he) False None 4 c =
      re_try ''[^?]*[^]*'' (pa @ he) False None 5 (c(4 := Some hp))" for c
    using neg_class_split [OF class_chars(3) class_chars_sub, of "'';? ''" hp
      "pa @ he" "''[^?]*[^]*''" 4 c] len hp pa(2) he
    by (cases pa) auto
  have 6: "re_try ''[^?]*[^]*'' (pa @ he) False None 5 c =
      re_try ''[^]*'' he False None 6 (c(5 := Some pa))" for c
    using neg_class_split [OF class_chars(2) class_chars_sub, of "''?''" pa he "''[^]*''" 5 c] len pa(1) he
    by auto
  have 7: "re_try ''[^]*'' he False None 6 c = Done None (c(6 := Some he))" for c
    using neg_class_split [OF class_chars(2) class_chars_sub, of "[]" he "[]" "[]" 6 c] len by (auto simp: re_try.simps(1))
  show ?thesis unfolding 1 2 3 4 5 6 7 by simp
qed

text \<open>The expression for the host and port, and the one for IPv6 that must fail before it.\<close>

lemma re_search_hostport6:
  assumes "CHR ''['' \<notin> set p"
  shows "re_search re_hostport6 p caps = Done (Some ENOENT) caps"
  using assms
proof (induction p)
  case Nil
  then show ?case by (simp add: re_hostport6_def)
next
  case (Cons c p)
  have "tolower (CHR ''['') \<noteq> tolower c"
    using Cons.prems tolower_nonletter(2) [of "CHR ''[''" c] tolower_nonletter(1) [of "CHR ''[''"] by (auto simp: nonletter_def)
  then have "re_try re_hostport6 (c # p) False None 0 caps = Again caps"
    by (simp add: re_hostport6_def re_try.simps)
  with Cons show ?case by simp
qed

lemma re_try_hostport:
  assumes "ho \<noteq> []" "CHR '':'' \<notin> set ho" and "(co = [] \<and> po = []) \<or> co = '':''"
    and "\<forall>c\<in>set po. is_digit c" and len: "length (ho @ co @ po) < 2 ^ 32"
  shows "re_try re_hostport (ho @ co @ po) False None 0 caps =
    Done None (caps(0 := Some ho, 1 := Some co, 2 := Some po))"
proof -
  have colon: "\<not> is_digit (CHR '':'')" by code_simp
  have 1: "re_try re_hostport (ho @ co @ po) False None 0 caps =
      re_try ''[:]*[0-9]*'' (co @ po) False None 1 (caps(0 := Some ho))"
    using neg_class_split [OF class_chars(3) class_chars_sub, of "'':''" ho "co @ po" "''[:]*[0-9]*''" 0 caps]
      assms by (auto simp: re_hostport_def)
  have "po = [] \<or> hd po \<noteq> CHR '':''" using assms(4) colon by (cases po) auto
  then have 2: "re_try ''[:]*[0-9]*'' (co @ po) False None 1 c =
      re_try ''[0-9]*'' po False None 2 (c(1 := Some co))" for c
    using pos_class_split [OF class_chars(2) class_chars_sub, of "'':''" co po "''[0-9]*''" 1 c] assms(3) len
    by (auto simp: numeral_2_eq_2)
  have t: "takeWhile is_digit po = po" "dropWhile is_digit po = []"
    using while_split [OF assms(4), of "[]"] by simp_all
  have 3: "re_try ''[0-9]*'' po False None 2 c = Done None (c(2 := Some po))" for c
    using digit_class [of po "[]" 2 c, unfolded t] len by (simp add: re_try.simps(1))
  show ?thesis unfolding 1 2 3 by simp
qed

lemma decode_hostport_split:
  assumes "ho \<noteq> []" "CHR '':'' \<notin> set ho" "CHR ''['' \<notin> set (ho @ co @ po)"
    and "(co = [] \<and> po = []) \<or> co = '':''"
    and "\<forall>c\<in>set po. is_digit c" and "length (ho @ co @ po) < 2 ^ 32"
  shows "decode_hostport (Some (ho @ co @ po)) None None = Inr (None, Some ho, Some po)"
proof -
  have "re_regex (Some (ho @ co @ po)) re_hostport6 = Inr (Some ENOENT, \<lambda>_. None)"
    using re_search_hostport6 [OF assms(3), of "\<lambda>_. None"] by (simp add: re_regex_def)
  moreover have "re_search re_hostport (ho @ co @ po) (\<lambda>_. None) =
      Done None ((\<lambda>_. None)(0 := Some ho, 1 := Some co, 2 := Some po))"
    using re_try_hostport [OF assms(1,2,4,5,6), of "\<lambda>_. None"] assms(1) by (cases ho) simp_all
  ultimately show ?thesis
    by (simp add: decode_hostport_def re_regex_def capture_def)
qed

section \<open>Printable URIs\<close>

definition uri_printable :: "uri \<Rightarrow> bool" where
  "uri_printable u \<longleftrightarrow>
     pl_isset (uri_scheme u) \<and> CHR '':'' \<notin> set (pl_text (uri_scheme u)) \<and>
     pl_isset (uri_user u) \<and> set (pl_text (uri_user u)) \<inter> set '':@'' = {} \<and>
     CHR ''@'' \<notin> set (pl_text (uri_password u)) \<and>
     (pl_text (uri_password u) = [] \<or> hd (pl_text (uri_password u)) \<noteq> CHR '':'') \<and>
     pl_isset (uri_host u) \<and> set (pl_text (uri_host u)) \<inter> set '';? :['' = {} \<and>
     uri_af u \<noteq> AF_INET6 \<and>
     CHR ''?'' \<notin> set (pl_text (uri_params u)) \<and>
     (pl_text (uri_params u) = [] \<or> hd (pl_text (uri_params u)) = CHR '';'') \<and>
     (pl_text (uri_headers u) = [] \<or> hd (pl_text (uri_headers u)) = CHR ''?'')"

text \<open>What decoding gives back: optional parts are empty texts, and the family is looked up.\<close>

definition uri_decoded :: "(string \<Rightarrow> nat option) \<Rightarrow> uri \<Rightarrow> uri" where
  "uri_decoded pton u = u\<lparr>uri_password := Some (pl_text (uri_password u)),
     uri_params := Some (pl_text (uri_params u)), uri_headers := Some (pl_text (uri_headers u)),
     uri_af := (case pton (take 63 (pl_text (uri_host u))) of None \<Rightarrow> AF_UNSPEC | Some f \<Rightarrow> f)\<rparr>"

lemma uri_decode_encode:
  assumes good: "uri_printable u" and enc: "uri_encode u = Inr s" and len: "length s < 2 ^ 32"
  shows "uri_decode pton (Some s) = Inr (None, uri_decoded pton u)"
proof -
  define sc us pw ho pa he where defs: "sc = pl_text (uri_scheme u)" "us = pl_text (uri_user u)"
    "pw = pl_text (uri_password u)" "ho = pl_text (uri_host u)" "pa = pl_text (uri_params u)"
    "he = pl_text (uri_headers u)"
  define pp where "pp = (if pw = [] then [] else '':'')"
  define co where "co = (if uri_port u = 0 then [] else '':'')"
  define po where "po = (if uri_port u = 0 then [] else local_itoa (ucast (uri_port u)) 10 False)"
  have isset: "pl_isset p \<Longrightarrow> p = Some (pl_text p) \<and> pl_text p \<noteq> []" for p
    by (auto simp: pl_isset_def pl_text_def split: option.splits)
  have pwset: "pl_isset (uri_password u) \<longleftrightarrow> pw \<noteq> []"
    by (auto simp: pl_isset_def pl_text_def defs split: option.splits)
  have some: "uri_scheme u = Some sc" "uri_user u = Some us" "uri_host u = Some ho"
    "sc \<noteq> []" "us \<noteq> []" "ho \<noteq> []"
    using good isset unfolding uri_printable_def defs by blast+
  have s: "s = sc @ '':'' @ us @ pp @ pw @ ''@'' @ (ho @ co @ po) @ pa @ he"
    using enc good pwset unfolding uri_encode_def uri_printable_def
    by (auto simp: pp_def co_def po_def simp flip: defs split: if_splits)
  have po: "\<forall>c\<in>set po. is_digit c"
    by (rule local_itoa_10 [of "ucast (uri_port u)" False]) (auto simp: po_def)
  have dig: "is_digit c \<Longrightarrow> c \<notin> set '';? :[@''" for c
    by (auto simp: is_digit_def)
  have good': "CHR '':'' \<notin> set sc" "CHR '':'' \<notin> set us" "CHR ''@'' \<notin> set us" "CHR ''@'' \<notin> set pw"
    "pw = [] \<or> hd pw \<noteq> CHR '':''" "set ho \<inter> set '';? :['' = {}" "CHR ''?'' \<notin> set pa"
    "pa = [] \<or> hd pa \<in> set '';? ''" "he = [] \<or> hd he = CHR ''?''"
    using good unfolding uri_printable_def defs by auto
  have hp: "ho @ co @ po \<noteq> []" "set (ho @ co @ po) \<inter> set '';? '' = {}" "CHR ''['' \<notin> set (ho @ co @ po)"
    "CHR '':'' \<notin> set ho"
    using some(6) good'(6) po dig by (auto simp: co_def)
  have copo: "(co = [] \<and> po = []) \<or> co = '':''" by (simp add: co_def po_def)
  have pp: "set pp \<subseteq> {CHR '':''}" "pp = [] \<longrightarrow> pw = []" by (simp_all add: pp_def)
  have len': "length (sc @ '':'' @ us @ pp @ pw @ ''@'' @ (ho @ co @ po) @ pa @ he) < 2 ^ 32"
    using len unfolding s .
  define c where "c = (\<lambda>_. None)(0 := Some sc, 1 := Some us, 2 := Some pp, 3 := Some pw,
    4 := Some (ho @ co @ po), 5 := Some pa, (6 :: nat) := Some he)"
  from re_try_uri_user [OF some(4) good'(1) some(5) good'(2,3) pp(1) good'(4,5) pp(2) hp(1,2) good'(7,8,9)
      len', of "\<lambda>_. None"]
  have "re_search re_uri_user s (\<lambda>_. None) = Done None c"
    using some(4) unfolding s c_def by (cases sc) simp_all
  then have 1: "re_regex (Some s) re_uri_user = Inr (None, c)" by (simp add: re_regex_def)
  have 2: "decode_hostport (c 4) None None = Inr (None, Some ho, Some po)"
    using decode_hostport_split [OF some(6) hp(4,3) copo po] len' by (simp add: c_def)
  have 3: "pl_isset (Some po) \<longleftrightarrow> uri_port u \<noteq> 0"
    by (rule local_itoa_10 [of "ucast (uri_port u)" False]) (auto simp: pl_isset_def po_def)
  have 4: "ucast (pl_u32 (Some po)) = uri_port u" if "uri_port u \<noteq> 0"
  proof -
    have "ucast (ucast (ucast (uri_port u) :: u64) :: u32) = uri_port u"
      by (rule bit_word_eqI) (auto simp: bit_simps)
    then show ?thesis using that by (simp add: po_def pl_itoa_roundtrip(2))
  qed
  have "uri_decode pton (Some s) = Inr (None, uri_finish pton (uri_zero\<lparr>uri_scheme := Some sc,
      uri_user := Some us, uri_password := Some pw, uri_params := Some pa, uri_headers := Some he,
      uri_host := Some ho\<rparr>) (Some po))"
    unfolding uri_decode_def by (simp only: 1 2 obind.simps prod.case Let_def) (simp add: c_def)
  also have "\<dots> = Inr (None, uri_decoded pton u)"
  proof -
    have "take (min (length ho) 63) ho = take 63 ho" by (simp add: min_def)
    then have "uri_finish pton (uri_zero\<lparr>uri_scheme := Some sc, uri_user := Some us,
        uri_password := Some pw, uri_params := Some pa, uri_headers := Some he, uri_host := Some ho\<rparr>)
        (Some po) = \<lparr>uri_scheme = Some sc, uri_user = Some us, uri_password = Some pw, uri_host = Some ho,
        uri_af = (case pton (take 63 ho) of None \<Rightarrow> AF_UNSPEC | Some f \<Rightarrow> f), uri_port = uri_port u,
        uri_params = Some pa, uri_headers = Some he\<rparr>"
      using 3 4 by (cases "uri_port u = 0")
        (simp_all add: uri_finish_def pl_strcpy_def uri_zero_def Let_def)
    also have "\<dots> = uri_decoded pton u"
      unfolding uri_decoded_def defs(3-6) [symmetric] using some(1-3)
      by (cases u) (simp flip: defs(4))
    finally show ?thesis by simp
  qed
  finally show ?thesis .
qed

section \<open>What the expressions miss\<close>

text \<open>
  The search for a parameter also finds one whose name only starts with the name asked for, and
  takes the rest of the name for its value.
\<close>

lemma uri_param_get_longer_name:
  "uri_param_get (Some '';codecx=5'') ''codec'' None = Inr (None, Some ''x=5'')"
  by code_simp

text \<open>Unescaping a lone percent sign reads past the end of the text.\<close>

lemma comp_unescape_percent: "comp_unescape is_user ''%'' = Inl Out_of_bounds"
  by code_simp

end
