(* ===== verification/Re_Telev.thy ===== *)
theory Re_Telev
  imports Re_Mbuf
begin

text \<open>
  Telephony events (\<open>src/re/src/telev/telev.c\<close>, RFC 4733): the sender state machine that
  \<open>telev_poll\<close> drives and the receiver \<open>telev_recv\<close> that suppresses the repetitions.
  The sender refines an abstract machine over a queue of key presses and releases
  (\<open>poll_spec\<close>), and the trace of a press and release is computed from it.
\<close>

section \<open>State\<close>

definition TXC_DIGIT_MIN :: u32 where "TXC_DIGIT_MIN = 9"
definition TXC_END :: u32 where "TXC_END = 3"
definition EVENT_END :: int where "EVENT_END = 0xff"
definition PAYLOAD_SIZE :: nat where "PAYLOAD_SIZE = 4"
definition VOLUME :: u8 where "VOLUME = 10"

datatype telev_state = IDLE | SENDING | ENDING

record telev_fmt =
  fmt_event :: u8
  fmt_end :: bool
  fmt_vol :: u8
  fmt_dur :: u16

record telev =
  tel_mb :: mbuf
  tel_ptime :: u32
  tel_state :: telev_state
  tel_event :: int
  tel_dur :: u16
  tel_txc :: u32
  tel_rx_event :: int
  tel_rx_end :: bool

section \<open>Operations\<close>

definition payload_encode ::
  "allocator \<Rightarrow> mbuf \<Rightarrow> int \<Rightarrow> bool \<Rightarrow> u16 \<Rightarrow> errno option \<times> mbuf" where
  "payload_encode A mb event end dur =
    (let pos = mb_pos mb;
         (e1, mb) = mbuf_write_u8 A mb (word_of_int event);
         (e2, mb) = mbuf_write_u8 A mb ((if end then 0x80 else 0x00) OR (VOLUME AND 0x3f));
         (e3, mb) = mbuf_write_u16 A mb (bswap 2 dur);
         err = err_or (err_or e1 e2) e3
     in (err, if err \<noteq> None then mb\<lparr>mb_pos := pos\<rparr> else mb))"

definition payload_decode :: "mbuf \<Rightarrow> (errno + telev_fmt) \<times> mbuf" where
  "payload_decode mb =
    (if mbuf_get_left mb < PAYLOAD_SIZE then (Inl ENOENT, mb)
     else
       let (ev, mb) = mbuf_read_u8 mb;
           (b, mb) = mbuf_read_u8 mb;
           (d, mb) = mbuf_read_u16 mb
       in (Inr \<lparr>fmt_event = ev, fmt_end = (b AND 0x80 = 0x80), fmt_vol = b AND 0x3f,
                fmt_dur = bswap 2 d\<rparr>, mb))"

text \<open>\<open>telev_alloc\<close> asks for its structure (40 bytes with its padding), then for the queue.\<close>

definition telev_alloc :: "allocator \<Rightarrow> u32 \<Rightarrow> errno + telev" where
  "telev_alloc A ptime =
    (if ptime = 0 then Inl EINVAL
     else if \<not> al_ok A 40 then Inl ENOMEM
     else case mbuf_alloc A 16 of
         None \<Rightarrow> Inl ENOMEM
       | Some mb \<Rightarrow> Inr \<lparr>tel_mb = mb, tel_ptime = ptime, tel_state = IDLE, tel_event = 0,
           tel_dur = 0, tel_txc = 0, tel_rx_event = -1, tel_rx_end = False\<rparr>)"

definition telev_send :: "allocator \<Rightarrow> telev \<Rightarrow> int \<Rightarrow> bool \<Rightarrow> errno option \<times> telev" where
  "telev_send A tel event end =
    (let pos = mb_pos (tel_mb tel);
         mb = (tel_mb tel)\<lparr>mb_pos := mb_end (tel_mb tel)\<rparr>;
         (err, mb) = mbuf_write_u8 A mb (word_of_int (if end then EVENT_END else event))
     in (err, tel\<lparr>tel_mb := mb\<lparr>mb_pos := pos\<rparr>\<rparr>))"

definition telev_recv :: "telev \<Rightarrow> mbuf \<Rightarrow> (errno + u8 \<times> bool) \<times> telev \<times> mbuf" where
  "telev_recv tel mb = (case payload_decode mb of
      (Inl e, mb) \<Rightarrow> (Inl e, tel, mb)
    | (Inr fmt, mb) \<Rightarrow>
        if fmt_end fmt then
          if tel_rx_end tel then (Inl EALREADY, tel, mb)
          else (Inr (fmt_event fmt, True), tel\<lparr>tel_rx_event := -1, tel_rx_end := True\<rparr>, mb)
        else if uint (fmt_event fmt) = tel_rx_event tel then (Inl EALREADY, tel, mb)
        else (Inr (fmt_event fmt, False),
              tel\<lparr>tel_rx_event := uint (fmt_event fmt), tel_rx_end := False\<rparr>, mb))"

text \<open>The marker is set only when a packet was encoded; the machine moves on in any case.\<close>

definition telev_poll :: "allocator \<Rightarrow> telev \<Rightarrow> mbuf \<Rightarrow> (errno + bool) \<times> telev \<times> mbuf" where
  "telev_poll A tel mb =
    (let (err, mrk, tel, mb) = (case tel_state tel of
        IDLE \<Rightarrow>
          if mbuf_get_left (tel_mb tel) = 0 then (Some ENOENT, False, tel, mb)
          else
            let (ev, q) = mbuf_read_u8 (tel_mb tel);
                tel = tel\<lparr>tel_mb := q, tel_event := uint ev, tel_dur := ucast (tel_ptime tel * 8),
                          tel_state := SENDING, tel_txc := 1\<rparr>;
                (err, mb) = payload_encode A mb (tel_event tel) False (tel_dur tel)
            in (err, True, tel, mb)
      | SENDING \<Rightarrow>
          let tel = tel\<lparr>tel_dur := tel_dur tel + ucast (tel_ptime tel * 8)\<rparr>;
              (err, mb) = payload_encode A mb (tel_event tel) False (tel_dur tel);
              tel = tel\<lparr>tel_txc := tel_txc tel + 1\<rparr>
          in if tel_txc tel < TXC_DIGIT_MIN then (err, False, tel, mb)
             else if mbuf_get_left (tel_mb tel) = 0 then (err, False, tel, mb)
             else
               let (ev, q) = mbuf_read_u8 (tel_mb tel);
                   q = (if uint ev \<noteq> EVENT_END then q\<lparr>mb_pos := mb_pos q - 1\<rparr> else q)
               in (err, False, tel\<lparr>tel_mb := q, tel_state := ENDING, tel_txc := 0\<rparr>, mb)
      | ENDING \<Rightarrow>
          let (err, mb) = payload_encode A mb (tel_event tel) True (tel_dur tel);
              tel = tel\<lparr>tel_txc := tel_txc tel + 1\<rparr>
          in if tel_txc tel < TXC_END then (err, False, tel, mb)
             else
               let tel = (if mbuf_get_left (tel_mb tel) = 0
                          then tel\<lparr>tel_mb := (tel_mb tel)\<lparr>mb_pos := 0, mb_end := 0\<rparr>\<rparr> else tel)
               in (err, False, tel\<lparr>tel_state := IDLE\<rparr>, mb))
     in (case err of Some e \<Rightarrow> Inl e | None \<Rightarrow> Inr mrk, tel, mb))"

definition telev_digit2code :: "int \<Rightarrow> int" where
  "telev_digit2code digit =
    (if 48 \<le> digit \<and> digit \<le> 57 then digit - 48
     else if digit = 42 then 10
     else if digit = 35 then 11
     else if 97 \<le> digit \<and> digit \<le> 100 then digit - 97 + 12
     else if 65 \<le> digit \<and> digit \<le> 68 then digit - 65 + 12
     else -1)"

definition telev_code2digit :: "int \<Rightarrow> int" where
  "telev_code2digit code =
    (if code < 0 \<or> code \<ge> 16 then -1
     else of_char (''0123456789*#ABCD'' ! nat code))"

section \<open>Payloads\<close>

text \<open>The four bytes of a payload: event, end flag and volume, duration in network order.\<close>

definition payload :: "u8 \<Rightarrow> bool \<Rightarrow> u16 \<Rightarrow> u8 list" where
  "payload ev end dur = [ev, if end then 0x8a else 0x0a] @ le_bytes 2 (bswap 2 dur)"

lemma length_payload [simp]: "length (payload ev end dur) = 4"
  by (simp add: payload_def)

text \<open>A sequence of writes into a buffer with room for them.\<close>

lemma write_u8_fit:
  assumes "mbuf_ok mb" and "mb_pos mb + 1 \<le> mb_size mb"
  shows "\<exists>mb'. mbuf_write_u8 A mb v = (None, mb') \<and> mbuf_ok mb' \<and>
    mb_before mb' = mb_before mb @ [v] \<and> mb_rest mb' = drop 1 (mb_rest mb) \<and>
    mb_size mb' = mb_size mb"
  using mbuf_write_mem_fit [OF assms(1), of "[v]" A] assms
  by (auto simp: mbuf_write_u8_def mbuf_write_mem_def mbuf_ok_def Let_def)

lemma write_u16_fit:
  assumes "mbuf_ok mb" and "mb_pos mb + 2 \<le> mb_size mb"
  shows "\<exists>mb'. mbuf_write_u16 A mb v = (None, mb') \<and> mbuf_ok mb' \<and>
    mb_before mb' = mb_before mb @ le_bytes 2 v \<and> mb_rest mb' = drop 2 (mb_rest mb) \<and>
    mb_size mb' = mb_size mb"
  using mbuf_write_mem_fit [OF assms(1), of "le_bytes 2 v" A] assms
  by (auto simp: mbuf_write_u16_def mbuf_write_mem_def mbuf_ok_def Let_def)

lemma payload_encode_fit:
  assumes ok: "mbuf_ok mb" and room: "mb_pos mb + 4 \<le> mb_size mb"
  shows "\<exists>mb'. payload_encode A mb event end dur = (None, mb') \<and> mbuf_ok mb' \<and>
    mb_before mb' = mb_before mb @ payload (word_of_int event) end dur \<and>
    mb_rest mb' = drop 4 (mb_rest mb)"
proof -
  from write_u8_fit [OF ok, of A "word_of_int event"] room obtain m1
    where 1: "mbuf_write_u8 A mb (word_of_int event) = (None, m1)" "mbuf_ok m1"
      "mb_before m1 = mb_before mb @ [word_of_int event]" "mb_rest m1 = drop 1 (mb_rest mb)"
      "mb_size m1 = mb_size mb" by auto
  have p1: "mb_pos m1 = mb_pos mb + 1"
    using length_mb_before [OF 1(2)] length_mb_before [OF ok] 1(3) by simp
  define b :: u8 where "b = (if end then 0x80 else 0x00) OR (VOLUME AND 0x3f)"
  have b: "b = (if end then 0x8a else 0x0a)" by (simp add: b_def VOLUME_def)
  from write_u8_fit [OF 1(2), of A b] room p1 1(5) obtain m2
    where 2: "mbuf_write_u8 A m1 b = (None, m2)" "mbuf_ok m2"
      "mb_before m2 = mb_before m1 @ [b]" "mb_rest m2 = drop 1 (mb_rest m1)"
      "mb_size m2 = mb_size m1" by auto
  have p2: "mb_pos m2 = mb_pos mb + 2"
    using length_mb_before [OF 2(2)] length_mb_before [OF 1(2)] 2(3) p1 by simp
  from write_u16_fit [OF 2(2), of A "bswap 2 dur"] room p2 1(5) 2(5) obtain m3
    where 3: "mbuf_write_u16 A m2 (bswap 2 dur) = (None, m3)" "mbuf_ok m3"
      "mb_before m3 = mb_before m2 @ le_bytes 2 (bswap 2 dur)" "mb_rest m3 = drop 2 (mb_rest m2)"
    by auto
  have "payload_encode A mb event end dur = (None, m3)"
    using 1(1) 2(1) 3(1) by (simp add: payload_encode_def Let_def flip: b_def)
  with 1 2 3 b show ?thesis by (simp add: payload_def)
qed

lemma payload_decode_payload:
  assumes ok: "mbuf_ok mb" and rest: "mb_rest mb = payload ev end dur @ bs"
  shows "\<exists>mb'. payload_decode mb =
      (Inr \<lparr>fmt_event = ev, fmt_end = end, fmt_vol = VOLUME, fmt_dur = dur\<rparr>, mb') \<and>
    mbuf_ok mb' \<and> mb_rest mb' = bs"
proof -
  define b :: u8 where "b = (if end then 0x8a else 0x0a)"
  have r0: "mb_rest mb = [ev] @ [b] @ le_bytes 2 (bswap 2 dur) @ bs"
    using rest by (simp add: payload_def b_def)
  from mbuf_read_int_cursor(1) [OF ok r0] obtain m1 where 1: "mbuf_read_u8 mb = (ev, m1)"
    "mbuf_ok m1" "mb_rest m1 = [b] @ le_bytes 2 (bswap 2 dur) @ bs" by auto
  from mbuf_read_int_cursor(1) [OF 1(2,3)] obtain m2 where 2: "mbuf_read_u8 m1 = (b, m2)"
    "mbuf_ok m2" "mb_rest m2 = le_bytes 2 (bswap 2 dur) @ bs" by auto
  from mbuf_read_int_cursor(2) [OF 2(2,3)] obtain m3 where 3: "mbuf_read_u16 m2 = (bswap 2 dur, m3)"
    "mbuf_ok m3" "mb_rest m3 = bs" by auto
  have "bswap 2 (bswap 2 dur) = dur" by (rule bswap_bswap) simp
  moreover have "\<not> mbuf_get_left mb < PAYLOAD_SIZE"
    by (simp add: mbuf_get_left_ok [OF ok] rest PAYLOAD_SIZE_def)
  moreover have "(b AND 0x80 = 0x80) = end" "b AND 0x3f = VOLUME" by (simp_all add: b_def VOLUME_def)
  ultimately show ?thesis using 1 2 3 by (simp add: payload_decode_def)
qed

section \<open>The abstract sender\<close>

text \<open>
  The sender as a machine over the queue of events: nothing, a key held for \<open>n\<close> packets, or a
  key released with \<open>n\<close> end packets sent. A step yields the packet sent, if any: marker bit,
  event, end bit and duration.
\<close>

datatype phase = Idle_p | Held u8 u16 u32 | Released u8 u16 u32

type_synonym packet = "bool \<times> u8 \<times> bool \<times> u16"

fun poll_spec :: "u16 \<Rightarrow> phase \<times> u8 list \<Rightarrow> packet option \<times> phase \<times> u8 list" where
  "poll_spec p (Idle_p, []) = (None, Idle_p, [])"
| "poll_spec p (Idle_p, e # q) = (Some (True, e, False, p), Held e p 1, q)"
| "poll_spec p (Held e d n, q) =
    (Some (False, e, False, d + p),
     if n + 1 < TXC_DIGIT_MIN \<or> q = [] then (Held e (d + p) (n + 1), q)
     else (Released e (d + p) 0, if hd q = 0xff then tl q else q))"
| "poll_spec p (Released e d n, q) =
    (Some (False, e, True, d), if n + 1 < TXC_END then Released e d (n + 1) else Idle_p, q)"

definition tel_phase :: "telev \<Rightarrow> phase" where
  "tel_phase tel = (case tel_state tel of
      IDLE \<Rightarrow> Idle_p
    | SENDING \<Rightarrow> Held (word_of_int (tel_event tel)) (tel_dur tel) (tel_txc tel)
    | ENDING \<Rightarrow> Released (word_of_int (tel_event tel)) (tel_dur tel) (tel_txc tel))"

definition tel_abs :: "telev \<Rightarrow> phase \<times> u8 list" where
  "tel_abs tel = (tel_phase tel, mb_rest (tel_mb tel))"

definition tel_step :: "telev \<Rightarrow> u16" where
  "tel_step tel = ucast (tel_ptime tel * 8)"

definition packet_bytes :: "packet \<Rightarrow> u8 list" where
  "packet_bytes pk = (case pk of (m, ev, end, dur) \<Rightarrow> payload ev end dur)"

lemma read_u8_queue:
  assumes "mbuf_ok mb"
  shows "mb_rest mb = [] \<longleftrightarrow> mbuf_get_left mb = 0"
    and "mb_rest mb = e # q \<Longrightarrow> \<exists>mb'. mbuf_read_u8 mb = (e, mb') \<and> mbuf_ok mb' \<and> mb_rest mb' = q \<and>
      mb_before mb' = mb_before mb @ [e]"
  using mbuf_get_left_ok [OF assms] mbuf_read_int_cursor(1) [OF assms, of "[e]" q] by auto

lemma step_back:
  assumes "mbuf_ok mb" and "mb_before mb = bs @ [e]"
  shows "mbuf_ok (mb\<lparr>mb_pos := mb_pos mb - 1\<rparr>)" "mb_rest (mb\<lparr>mb_pos := mb_pos mb - 1\<rparr>) = e # mb_rest mb"
proof -
  have p: "mb_pos mb = Suc (length bs)" using length_mb_before [OF assms(1)] assms(2) by simp
  have "mb_pos mb - 1 \<le> mb_end mb" using assms(1) unfolding mbuf_ok_def by linarith
  from mbuf_set_pos_cursor [OF assms(1) this]
  show "mbuf_ok (mb\<lparr>mb_pos := mb_pos mb - 1\<rparr>)"
    "mb_rest (mb\<lparr>mb_pos := mb_pos mb - 1\<rparr>) = e # mb_rest mb"
    using assms p by (simp_all add: mbuf_set_pos_def mb_content_split)
qed

text \<open>
  With room for a payload in the packet buffer, a poll does what the abstract machine does and
  appends exactly the bytes of its packet.
\<close>

lemma telev_poll_refines:
  assumes q: "mbuf_ok (tel_mb tel)" and ok: "mbuf_ok mb" and room: "mb_pos mb + 4 \<le> mb_size mb"
  shows "\<exists>r tel' mb'. telev_poll A tel mb = (r, tel', mb') \<and> mbuf_ok (tel_mb tel') \<and>
    tel_step tel' = tel_step tel \<and>
    (case poll_spec (tel_step tel) (tel_abs tel) of
       (None, s) \<Rightarrow> r = Inl ENOENT \<and> tel_abs tel' = s \<and> mb' = mb
     | (Some pk, s) \<Rightarrow> r = Inr (fst pk) \<and> tel_abs tel' = s \<and> mbuf_ok mb' \<and>
         mb_before mb' = mb_before mb @ packet_bytes pk)"
proof (cases "tel_state tel")
  case IDLE
  show ?thesis
  proof (cases "mb_rest (tel_mb tel)")
    case Nil
    with IDLE q show ?thesis
      by (simp add: telev_poll_def tel_abs_def tel_phase_def flip: read_u8_queue(1) [OF q])
  next
    case (Cons e rest)
    from read_u8_queue(2) [OF q Cons] obtain q' where
      "mbuf_read_u8 (tel_mb tel) = (e, q')" "mbuf_ok q'" "mb_rest q' = rest" by auto
    moreover from payload_encode_fit [OF ok room, of A "uint e" False "tel_step tel"] obtain mb'
      where "payload_encode A mb (uint e) False (tel_step tel) = (None, mb')" "mbuf_ok mb'"
      "mb_before mb' = mb_before mb @ payload e False (tel_step tel)" by auto
    moreover have "mbuf_get_left (tel_mb tel) \<noteq> 0" using Cons read_u8_queue(1) [OF q] by simp
    ultimately show ?thesis using IDLE Cons
      by (simp add: telev_poll_def tel_abs_def tel_phase_def tel_step_def packet_bytes_def)
  qed
next
  case SENDING
  define d where "d = tel_dur tel + tel_step tel"
  from payload_encode_fit [OF ok room, of A "tel_event tel" False d] obtain mb'
    where enc: "payload_encode A mb (tel_event tel) False d = (None, mb')" "mbuf_ok mb'"
    "mb_before mb' = mb_before mb @ payload (word_of_int (tel_event tel)) False d" by auto
  show ?thesis
  proof (cases "mb_rest (tel_mb tel)")
    case Nil
    then have "mbuf_get_left (tel_mb tel) = 0" using read_u8_queue(1) [OF q] by simp
    with Nil SENDING enc q show ?thesis
      by (simp add: telev_poll_def tel_abs_def tel_phase_def tel_step_def packet_bytes_def d_def Let_def)
  next
    case (Cons e rest)
    then have nz: "mbuf_get_left (tel_mb tel) \<noteq> 0" using read_u8_queue(1) [OF q] by simp
    from read_u8_queue(2) [OF q Cons] obtain q' where q':
      "mbuf_read_u8 (tel_mb tel) = (e, q')" "mbuf_ok q'" "mb_rest q' = rest"
      "mb_before q' = mb_before (tel_mb tel) @ [e]" by auto
    have ev: "uint e = EVENT_END \<longleftrightarrow> e = 0xff"
      by (auto simp: EVENT_END_def word_uint_eq_iff)
    from nz SENDING enc q q' Cons ev step_back [OF q'(2,4)] show ?thesis
      by (auto simp: telev_poll_def tel_abs_def tel_phase_def tel_step_def packet_bytes_def d_def Let_def)
  qed
next
  case ENDING
  from payload_encode_fit [OF ok room, of A "tel_event tel" True "tel_dur tel"] obtain mb'
    where enc: "payload_encode A mb (tel_event tel) True (tel_dur tel) = (None, mb')" "mbuf_ok mb'"
    "mb_before mb' = mb_before mb @ payload (word_of_int (tel_event tel)) True (tel_dur tel)" by auto
  have rw: "mbuf_ok ((tel_mb tel)\<lparr>mb_pos := 0, mb_end := 0\<rparr>)"
    "mb_rest ((tel_mb tel)\<lparr>mb_pos := 0, mb_end := 0\<rparr>) = []"
    using mbuf_rewind_cursor [OF q] by (simp_all add: mbuf_rewind_def)
  from ENDING enc q rw read_u8_queue(1) [OF q] show ?thesis
    by (auto simp: telev_poll_def tel_abs_def tel_phase_def tel_step_def packet_bytes_def Let_def)
qed

section \<open>Sending a sequence of keys\<close>

text \<open>The application polls with an empty packet buffer each time and sends what it holds.\<close>

definition packet_buf :: mbuf where
  "packet_buf = \<lparr>mb_buf = replicate 4 0, mb_size = 4, mb_pos = 0, mb_end = 0\<rparr>"

fun telev_polls :: "allocator \<Rightarrow> telev \<Rightarrow> nat \<Rightarrow> (errno + bool \<times> u8 list) list \<times> telev" where
  "telev_polls A tel 0 = ([], tel)"
| "telev_polls A tel (Suc n) =
    (let (r, tel, mb) = telev_poll A tel packet_buf;
         (rs, tel) = telev_polls A tel n
     in (map_sum id (\<lambda>mrk. (mrk, mb_before mb)) r # rs, tel))"

text \<open>The packets of one key: nine while it is held, three after its release.\<close>

definition key_packets :: "u16 \<Rightarrow> u8 \<Rightarrow> packet list" where
  "key_packets p e =
    (True, e, False, p) # List.map (\<lambda>k. (False, e, False, of_nat k * p)) [2..<10] @
    replicate 3 (False, e, True, 9 * p)"

definition key_queue :: "u8 list \<Rightarrow> u8 list" where
  "key_queue es = concat (List.map (\<lambda>e. [e, 0xff]) es)"

definition wire :: "packet \<Rightarrow> errno + bool \<times> u8 list" where
  "wire pk = Inr (fst pk, packet_bytes pk)"

fun spec_run :: "u16 \<Rightarrow> nat \<Rightarrow> phase \<times> u8 list \<Rightarrow> packet option list \<times> phase \<times> u8 list" where
  "spec_run p 0 s = ([], s)"
| "spec_run p (Suc n) s =
    (let (o1, s) = poll_spec p s; (os, s) = spec_run p n s in (o1 # os, s))"

lemma spec_run_add:
  "spec_run p (m + n) s =
    (let (os1, s) = spec_run p m s; (os2, s) = spec_run p n s in (os1 @ os2, s))"
  by (induction m arbitrary: s) (simp_all split: prod.splits)

lemma spec_run_numeral:
  "spec_run p (numeral k) s =
    (let (o1, s) = poll_spec p s; (os, s) = spec_run p (pred_numeral k) s in (o1 # os, s))"
  by (simp add: numeral_eq_Suc)

lemma replicate_3: "replicate 3 x = [x, x, x]"
  by (simp add: numeral_3_eq_3)

lemma spec_run_key:
  "spec_run p 12 (Idle_p, e # 0xff # q) = (List.map Some (key_packets p e), Idle_p, q)"
  by (simp add: spec_run_numeral key_packets_def replicate_3 TXC_DIGIT_MIN_def TXC_END_def)

lemma spec_run_keys:
  "spec_run p (12 * length es) (Idle_p, key_queue es @ q) =
    (List.map Some (concat (List.map (key_packets p) es)), Idle_p, q)"
proof (induction es)
  case (Cons e es)
  have "12 * length (e # es) = 12 + 12 * length es" by simp
  then show ?case
    by (simp only: spec_run_add) (simp add: key_queue_def spec_run_key Cons.IH [unfolded key_queue_def])
qed (simp add: key_queue_def)

lemma packet_buf_ok: "mbuf_ok packet_buf" "mb_pos packet_buf + 4 \<le> mb_size packet_buf"
    "mb_before packet_buf = []"
  by (simp_all add: packet_buf_def mbuf_ok_def mb_before_def)

text \<open>The outcomes of a run of polls are those of the abstract machine.\<close>

lemma telev_polls_refines:
  assumes "mbuf_ok (tel_mb tel)"
  shows "\<exists>tel'. telev_polls A tel n =
      (List.map (\<lambda>r. case r of None \<Rightarrow> Inl ENOENT | Some pk \<Rightarrow> wire pk)
         (fst (spec_run (tel_step tel) n (tel_abs tel))), tel') \<and>
    mbuf_ok (tel_mb tel') \<and> tel_step tel' = tel_step tel \<and>
    tel_abs tel' = snd (spec_run (tel_step tel) n (tel_abs tel))"
  using assms
proof (induction n arbitrary: tel)
  case 0
  then show ?case by simp
next
  case (Suc n)
  obtain pk s where spec: "poll_spec (tel_step tel) (tel_abs tel) = (pk, s)"
    by (cases "poll_spec (tel_step tel) (tel_abs tel)")
  from telev_poll_refines [OF Suc.prems packet_buf_ok(1,2), of A] obtain r t mb'
    where 1: "telev_poll A tel packet_buf = (r, t, mb')" "mbuf_ok (tel_mb t)"
      "tel_step t = tel_step tel" and
    2: "case (pk, s) of (None, s) \<Rightarrow> r = Inl ENOENT \<and> tel_abs t = s \<and> mb' = packet_buf
     | (Some pk, s) \<Rightarrow> r = Inr (fst pk) \<and> tel_abs t = s \<and> mbuf_ok mb' \<and>
         mb_before mb' = mb_before packet_buf @ packet_bytes pk"
    unfolding spec by blast
  from Suc.IH [OF 1(2)] obtain t' where 3: "telev_polls A t n =
      (List.map (\<lambda>r. case r of None \<Rightarrow> Inl ENOENT | Some pk \<Rightarrow> wire pk)
         (fst (spec_run (tel_step tel) n (tel_abs t))), t')"
    "mbuf_ok (tel_mb t')" "tel_step t' = tel_step tel"
    "tel_abs t' = snd (spec_run (tel_step tel) n (tel_abs t))" unfolding 1(3) by blast
  have "tel_abs t = s" using 2 by (cases pk) auto
  moreover have "map_sum id (\<lambda>mrk. (mrk, mb_before mb')) r =
      (case pk of None \<Rightarrow> Inl ENOENT | Some pk \<Rightarrow> wire pk)"
    using 2 by (cases pk) (auto simp: wire_def packet_buf_ok(3))
  ultimately show ?case using 1 3 spec by (simp split: prod.splits)
qed

lemma telev_polls_keys:
  assumes "mbuf_ok (tel_mb tel)" and "tel_abs tel = (Idle_p, key_queue es @ q)"
  shows "\<exists>tel'. telev_polls A tel (12 * length es) =
      (List.map wire (concat (List.map (key_packets (tel_step tel)) es)), tel') \<and>
    mbuf_ok (tel_mb tel') \<and> tel_abs tel' = (Idle_p, q)"
  using telev_polls_refines [OF assms(1), of A "12 * length es"] assms(2)
  by (auto simp: spec_run_keys map_concat comp_def)

text \<open>\<open>telev_send\<close> appends to the queue, whatever was read of it.\<close>

lemma telev_send_queue:
  assumes ok: "mbuf_ok (tel_mb tel)" and lt: "mb_end (tel_mb tel) + 1 < 2 ^ 64"
    and alloc: "\<forall>n. al_ok A n"
  shows "\<exists>tel'. telev_send A tel event end = (None, tel') \<and> mbuf_ok (tel_mb tel') \<and>
    tel_step tel' = tel_step tel \<and>
    tel_abs tel' = (tel_phase tel,
      mb_rest (tel_mb tel) @ [word_of_int (if end then EVENT_END else event)])"
proof -
  define v :: u8 where "v = word_of_int (if end then EVENT_END else event)"
  define mb where "mb = tel_mb tel"
  note skip = mbuf_skip_to_end_cursor [OF ok, folded mb_def]
  have "mb_pos (mbuf_skip_to_end mb) + length [v] < 2 ^ 64"
    using lt by (simp add: mbuf_skip_to_end_def mb_def)
  from mbuf_write_mem_cursor [OF skip(1) this, of A] alloc skip obtain mb'
    where w: "mbuf_write_u8 A (mbuf_skip_to_end mb) v = (None, mb')" "mbuf_ok mb'"
      "mb_before mb' = mb_content mb @ [v]" "mb_rest mb' = []"
    by (auto simp: mbuf_write_u8_def)
  have c: "mb_content mb' = mb_before mb @ mb_rest mb @ [v]"
    using w ok mb_content_split [of mb'] mb_content_split [of mb] by (simp add: mb_def)
  have p: "mb_pos mb \<le> mb_end mb'"
    using w ok length_mb_before [of mb] length_mb_before [of mb'] c mb_content_split [of mb']
    by (auto simp: mb_def mbuf_ok_def)
  from mbuf_set_pos_cursor [OF w(2) p] c length_mb_before [OF ok]
  have "mbuf_ok (mbuf_set_pos mb' (mb_pos mb))" "mb_rest (mbuf_set_pos mb' (mb_pos mb)) = mb_rest mb @ [v]"
    by (simp_all add: mb_def)
  with w(1) show ?thesis
    by (simp add: telev_send_def Let_def mbuf_skip_to_end_def mbuf_set_pos_def tel_abs_def tel_phase_def
        tel_step_def mb_def v_def split: telev_state.split)
qed

section \<open>Receiving\<close>

text \<open>The events that a sequence of received payloads reports to the application.\<close>

fun telev_recvs :: "telev \<Rightarrow> u8 list list \<Rightarrow> (u8 \<times> bool) list \<times> telev" where
  "telev_recvs tel [] = ([], tel)"
| "telev_recvs tel (bs # bss) = (case telev_recv tel (mbuf_of bs) of
      (Inl e, tel, _) \<Rightarrow> telev_recvs tel bss
    | (Inr ev, tel, _) \<Rightarrow> (let (evs, tel) = telev_recvs tel bss in (ev # evs, tel)))"

lemma telev_recv_rest:
  assumes "mbuf_ok mb" and "mb_rest mb = packet_bytes (m, ev, end, dur)"
  shows "\<exists>mb'. telev_recv tel mb =
    (if end then if tel_rx_end tel then (Inl EALREADY, tel, mb')
       else (Inr (ev, True), tel\<lparr>tel_rx_event := -1, tel_rx_end := True\<rparr>, mb')
     else if uint ev = tel_rx_event tel then (Inl EALREADY, tel, mb')
     else (Inr (ev, False), tel\<lparr>tel_rx_event := uint ev, tel_rx_end := False\<rparr>, mb'))"
proof -
  have r: "mb_rest mb = payload ev end dur @ []" using assms(2) by (simp add: packet_bytes_def)
  from payload_decode_payload [OF assms(1) r] obtain mb' where
    "payload_decode mb = (Inr \<lparr>fmt_event = ev, fmt_end = end, fmt_vol = VOLUME, fmt_dur = dur\<rparr>, mb')" by auto
  then show ?thesis by (auto simp: telev_recv_def)
qed

lemma telev_recv_packet:
  "\<exists>mb'. telev_recv tel (mbuf_of (packet_bytes (m, ev, end, dur))) =
    (if end then if tel_rx_end tel then (Inl EALREADY, tel, mb')
       else (Inr (ev, True), tel\<lparr>tel_rx_event := -1, tel_rx_end := True\<rparr>, mb')
     else if uint ev = tel_rx_event tel then (Inl EALREADY, tel, mb')
     else (Inr (ev, False), tel\<lparr>tel_rx_event := uint ev, tel_rx_end := False\<rparr>, mb'))"
  by (rule telev_recv_rest) (simp_all add: mbuf_of_ok packet_bytes_def)

lemma telev_recvs_append:
  "telev_recvs tel (xs @ ys) =
    (let (e1, tel) = telev_recvs tel xs; (e2, tel) = telev_recvs tel ys in (e1 @ e2, tel))"
  by (induction xs arbitrary: tel) (auto split: prod.splits sum.splits)

lemma telev_recvs_repeat:
  assumes "tel_rx_event tel = uint e"
  shows "\<forall>pk\<in>set ps. \<exists>m d. pk = (m, e, False, d) \<Longrightarrow>
    telev_recvs tel (List.map packet_bytes ps) = ([], tel)"
proof (induction ps)
  case (Cons pk ps)
  then obtain m d where "pk = (m, e, False, d)" by auto
  with telev_recv_packet [of tel m e False d] assms Cons show ?case by auto
qed simp

lemma telev_recvs_end_repeat:
  assumes "tel_rx_end tel"
  shows "\<forall>pk\<in>set ps. \<exists>m d. pk = (m, e, True, d) \<Longrightarrow>
    telev_recvs tel (List.map packet_bytes ps) = ([], tel)"
proof (induction ps)
  case (Cons pk ps)
  then obtain m d where "pk = (m, e, True, d)" by auto
  with telev_recv_packet [of tel m e True d] assms Cons show ?case by auto
qed simp

text \<open>
  However many of the packets of a key get through, as long as one of the held and one of the
  end packets does, exactly its press and its release are reported.
\<close>

lemma telev_recvs_key:
  assumes rx: "tel_rx_event tel = -1"
    and helds: "helds \<noteq> []" "\<forall>pk\<in>set helds. \<exists>m d. pk = (m, e, False, d)"
    and ends: "ends \<noteq> []" "\<forall>pk\<in>set ends. \<exists>m d. pk = (m, e, True, d)"
  shows "\<exists>tel'. telev_recvs tel (List.map packet_bytes (helds @ ends)) =
      ([(e, False), (e, True)], tel') \<and> tel_rx_event tel' = -1"
proof -
  from helds obtain m d hs where h: "helds = (m, e, False, d) # hs"
    "\<forall>pk\<in>set hs. \<exists>m d. pk = (m, e, False, d)" by (cases helds) auto
  from ends obtain m' d' es where n: "ends = (m', e, True, d') # es"
    "\<forall>pk\<in>set es. \<exists>m d. pk = (m, e, True, d)" by (cases ends) auto
  define t1 where "t1 = tel\<lparr>tel_rx_event := uint e, tel_rx_end := False\<rparr>"
  define t2 where "t2 = t1\<lparr>tel_rx_event := -1, tel_rx_end := True\<rparr>"
  have "uint e \<noteq> -1" using uint_ge_0 [of e] by linarith
  with rx have "telev_recvs tel (List.map packet_bytes helds) = ([(e, False)], t1)"
    using telev_recv_packet [of tel m e False d] telev_recvs_repeat [OF _ h(2), of t1]
    by (auto simp: h(1) t1_def)
  moreover have "telev_recvs t1 (List.map packet_bytes ends) = ([(e, True)], t2)"
    using telev_recv_packet [of t1 m' e True d'] telev_recvs_end_repeat [OF _ n(2), of t2]
    by (auto simp: n(1) t1_def t2_def)
  ultimately show ?thesis by (simp add: telev_recvs_append t2_def)
qed

lemma telev_recvs_key_packets:
  assumes "tel_rx_event tel = -1"
  shows "\<exists>tel'. telev_recvs tel (List.map packet_bytes (key_packets p e)) =
      ([(e, False), (e, True)], tel') \<and> tel_rx_event tel' = -1"
proof -
  define hs where "hs = (True, e, False, p) # List.map (\<lambda>k. (False, e, False, of_nat k * p)) [2..<10]"
  define es where "es = replicate 3 (False, e, True, 9 * p)"
  have split: "key_packets p e = hs @ es" by (simp add: key_packets_def hs_def es_def)
  have "hs \<noteq> []" "es \<noteq> []" by (simp_all add: hs_def es_def)
  moreover have "\<forall>pk\<in>set hs. \<exists>m d. pk = (m, e, False, d)" by (auto simp: hs_def)
  moreover have "\<forall>pk\<in>set es. \<exists>m d. pk = (m, e, True, d)" by (auto simp: es_def)
  ultimately show ?thesis unfolding split by (intro telev_recvs_key assms)
qed

lemma telev_recvs_keys:
  assumes "tel_rx_event tel = -1"
  shows "\<exists>tel'. telev_recvs tel (List.map packet_bytes (concat (List.map (key_packets p) es))) =
      (concat (List.map (\<lambda>e. [(e, False), (e, True)]) es), tel') \<and> tel_rx_event tel' = -1"
  using assms
proof (induction es arbitrary: tel)
  case (Cons e es)
  from telev_recvs_key_packets [OF Cons.prems, of p e] obtain t where
    1: "telev_recvs tel (List.map packet_bytes (key_packets p e)) = ([(e, False), (e, True)], t)"
    "tel_rx_event t = -1" by auto
  from Cons.IH [OF 1(2)] 1(1) show ?case by (auto simp: telev_recvs_append)
qed simp

section \<open>Digits\<close>

lemma telev_digit_roundtrip:
  assumes "0 \<le> code" and "code < 16"
  shows "telev_digit2code (telev_code2digit code) = code"
proof -
  have "\<forall>c\<in>set [0..15]. telev_digit2code (telev_code2digit c) = c"
    unfolding list_all_iff [symmetric] by code_simp
  with assms show ?thesis by simp
qed

end
