(* ===== verification/Re_Rtp.thy ===== *)
theory Re_Rtp
  imports Re_Mbuf
begin

text \<open>
  The RTP transport (\<open>src/re/src/rtp/rtp.c\<close>): the header codec, the socket that numbers the
  packets it sends, the dispatch of received packets and the choice of a port pair.
  The RTCP session and the UDP sockets are parameters: a session is a value of type \<open>'r\<close>
  that \<open>tx\<close> updates, a UDP send or listen is a function to its error code.
\<close>

section \<open>Headers\<close>

definition RTP_VERSION :: u8 where "RTP_VERSION = 2"
definition RTP_HEADER_SIZE :: nat where "RTP_HEADER_SIZE = 12"

record rtp_header =
  hdr_ver :: u8
  hdr_pad :: bool
  hdr_ext :: bool
  hdr_cc :: u8
  hdr_m :: bool
  hdr_pt :: u8
  hdr_seq :: u16
  hdr_ts :: u32
  hdr_ssrc :: u32
  hdr_csrc :: "u32 list"
  hdr_x_type :: u16
  hdr_x_len :: u16

definition rtp_hdr_zero :: rtp_header where
  "rtp_hdr_zero = \<lparr>hdr_ver = 0, hdr_pad = False, hdr_ext = False, hdr_cc = 0, hdr_m = False,
     hdr_pt = 0, hdr_seq = 0, hdr_ts = 0, hdr_ssrc = 0, hdr_csrc = replicate 16 0,
     hdr_x_type = 0, hdr_x_len = 0\<rparr>"

definition bit8 :: "bool \<Rightarrow> u8" where
  "bit8 b = (if b then 1 else 0)"

definition rtp_hdr_byte0 :: "rtp_header \<Rightarrow> u8" where
  "rtp_hdr_byte0 hdr = push_bit 6 (hdr_ver hdr AND 0x02) OR push_bit 5 (bit8 (hdr_pad hdr) AND 0x01) OR
     push_bit 4 (bit8 (hdr_ext hdr) AND 0x01) OR (hdr_cc hdr AND 0x0f)"

definition rtp_hdr_byte1 :: "rtp_header \<Rightarrow> u8" where
  "rtp_hdr_byte1 hdr = push_bit 7 (bit8 (hdr_m hdr) AND 0x01) OR (hdr_pt hdr AND 0x7f)"

text \<open>The loop over the sources goes on after an error and keeps the first one.\<close>

fun rtp_csrc_encode :: "allocator \<Rightarrow> errno option \<Rightarrow> mbuf \<Rightarrow> u32 list \<Rightarrow> errno option \<times> mbuf" where
  "rtp_csrc_encode A err mb [] = (err, mb)"
| "rtp_csrc_encode A err mb (c # cs) =
    (let (e, mb) = mbuf_write_u32 A mb (bswap 4 c) in rtp_csrc_encode A (err_or err e) mb cs)"

definition rtp_hdr_encode :: "allocator \<Rightarrow> mbuf \<Rightarrow> rtp_header \<Rightarrow> ub + errno option \<times> mbuf" where
  "rtp_hdr_encode A mb hdr =
    (let (e1, mb) = mbuf_write_mem A mb (Some [rtp_hdr_byte0 hdr, rtp_hdr_byte1 hdr]);
         (e2, mb) = mbuf_write_u16 A mb (bswap 2 (hdr_seq hdr));
         (e3, mb) = mbuf_write_u32 A mb (bswap 4 (hdr_ts hdr));
         (e4, mb) = mbuf_write_u32 A mb (bswap 4 (hdr_ssrc hdr));
         err = err_or (err_or (err_or e1 e2) e3) e4
     in if unat (hdr_cc hdr) > length (hdr_csrc hdr) then Inl Out_of_bounds
        else Inr (rtp_csrc_encode A err mb (take (unat (hdr_cc hdr)) (hdr_csrc hdr))))"

fun rtp_csrc_decode :: "mbuf \<Rightarrow> nat \<Rightarrow> u32 list \<times> mbuf" where
  "rtp_csrc_decode mb 0 = ([], mb)"
| "rtp_csrc_decode mb (Suc n) =
    (let (c, mb) = mbuf_read_u32 mb; (cs, mb) = rtp_csrc_decode mb n in (bswap 4 c # cs, mb))"

text \<open>
  Decoding fills in a header given by the caller: the sources beyond the count and, without
  the extension bit, the extension fields keep what they held. On an error the callers drop
  the header, so only the buffer is returned with the error.
\<close>

definition rtp_hdr_decode :: "rtp_header \<Rightarrow> mbuf \<Rightarrow> (errno + rtp_header) \<times> mbuf" where
  "rtp_hdr_decode hdr mb =
    (if mbuf_get_left mb < RTP_HEADER_SIZE then (Inl EBADMSG, mb)
     else case mbuf_read_mem mb 2 of
         (Inl e, mb) \<Rightarrow> (Inl e, mb)
       | (Inr buf, mb) \<Rightarrow>
          let b0 = buf ! 0; b1 = buf ! 1;
              (sq, mb) = mbuf_read_u16 mb;
              (ts, mb) = mbuf_read_u32 mb;
              (ss, mb) = mbuf_read_u32 mb;
              cc = (b0 AND 0x0f);
              hdr = hdr\<lparr>hdr_ver := drop_bit 6 b0 AND 0x03,
                        hdr_pad := (drop_bit 5 b0 AND 0x01 \<noteq> 0),
                        hdr_ext := (drop_bit 4 b0 AND 0x01 \<noteq> 0),
                        hdr_cc := cc,
                        hdr_m := (drop_bit 7 b1 AND 0x01 \<noteq> 0),
                        hdr_pt := b1 AND 0x7f,
                        hdr_seq := bswap 2 sq, hdr_ts := bswap 4 ts, hdr_ssrc := bswap 4 ss\<rparr>
          in if mbuf_get_left mb < unat cc * 4 then (Inl EBADMSG, mb)
             else
               let (cs, mb) = rtp_csrc_decode mb (unat cc);
                   hdr = hdr\<lparr>hdr_csrc := cs @ drop (unat cc) (hdr_csrc hdr)\<rparr>
               in if \<not> hdr_ext hdr then (Inr hdr, mb)
                  else if mbuf_get_left mb < 4 then (Inl EBADMSG, mb)
                  else
                    let (t, mb) = mbuf_read_u16 mb;
                        (l, mb) = mbuf_read_u16 mb;
                        hdr = hdr\<lparr>hdr_x_type := bswap 2 t, hdr_x_len := bswap 2 l\<rparr>;
                        n = unat (hdr_x_len hdr) * 4
                    in if mbuf_get_left mb < n then (Inl EBADMSG, mb)
                       else (Inr hdr, mb\<lparr>mb_pos := wrap64 (mb_pos mb + n)\<rparr>))"

section \<open>Sockets\<close>

text \<open>The handlers are not functions in the state: the outcome of a received packet says
  which of them runs, with its arguments.\<close>

record 'r rtp_sock =
  rs_seq :: u16
  rs_ssrc :: u32
  rs_rtcp :: "'r option"
  rs_rtcp_mux :: bool

definition rtp_alloc :: "allocator \<Rightarrow> nat \<Rightarrow> u16 \<Rightarrow> u32 \<Rightarrow> errno + 'r rtp_sock" where
  "rtp_alloc A sz rand16 rand32 =
    (if \<not> al_ok A sz then Inl ENOMEM
     else Inr \<lparr>rs_seq = rand16, rs_ssrc = rand32, rs_rtcp = None, rs_rtcp_mux = False\<rparr>)"

definition rtp_encode ::
  "allocator \<Rightarrow> 'r rtp_sock \<Rightarrow> bool \<Rightarrow> u8 \<Rightarrow> u32 \<Rightarrow> mbuf \<Rightarrow> ub + errno option \<times> 'r rtp_sock \<times> mbuf" where
  "rtp_encode A rs marker pt ts mb =
    (if pt AND NOT 0x7f \<noteq> 0 then Inr (Some EINVAL, rs, mb)
     else
       let hdr = rtp_hdr_zero\<lparr>hdr_ver := RTP_VERSION, hdr_pad := False, hdr_ext := False,
                   hdr_cc := 0, hdr_m := marker, hdr_pt := pt, hdr_seq := rs_seq rs,
                   hdr_ts := ts, hdr_ssrc := rs_ssrc rs\<rparr>;
           rs = rs\<lparr>rs_seq := rs_seq rs + 1\<rparr>
       in obind (rtp_hdr_encode A mb hdr) (\<lambda>(err, mb). Inr (err, rs, mb)))"

definition rtp_decode :: "mbuf \<Rightarrow> (errno + rtp_header) \<times> mbuf" where
  "rtp_decode mb = (case rtp_hdr_decode rtp_hdr_zero mb of
      (Inl e, mb) \<Rightarrow> (Inl e, mb)
    | (Inr hdr, mb) \<Rightarrow> (if RTP_VERSION \<noteq> hdr_ver hdr then Inl EBADMSG else Inr hdr, mb))"

text \<open>\<open>tx ts n r\<close> is \<open>rtcp_sess_tx_rtp\<close>, \<open>udp bs\<close> the result of \<open>udp_send\<close> for a datagram \<open>bs\<close>;
  the datagram is returned, \<open>None\<close> when none was sent.\<close>

definition rtp_send ::
  "allocator \<Rightarrow> (u32 \<Rightarrow> nat \<Rightarrow> 'r \<Rightarrow> 'r) \<Rightarrow> (u8 list \<Rightarrow> errno option) \<Rightarrow> 'r rtp_sock \<Rightarrow> bool \<Rightarrow> u8 \<Rightarrow>
    u32 \<Rightarrow> mbuf \<Rightarrow> ub + errno option \<times> u8 list option \<times> 'r rtp_sock \<times> mbuf" where
  "rtp_send A tx udp rs marker pt ts mb =
    (if mb_pos mb < RTP_HEADER_SIZE then Inr (Some EBADMSG, None, rs, mb)
     else
       let mb = mbuf_advance mb (- int RTP_HEADER_SIZE); pos = mb_pos mb
       in obind (rtp_encode A rs marker pt ts mb) (\<lambda>(err, rs, mb).
            if err \<noteq> None then Inr (err, None, rs, mb)
            else
              let rs = rs\<lparr>rs_rtcp := map_option (tx ts (mbuf_get_left mb)) (rs_rtcp rs)\<rparr>;
                  mb = mb\<lparr>mb_pos := pos\<rparr>;
                  dgram = take (mbuf_get_left mb) (drop (mb_pos mb) (mb_buf mb))
              in Inr (udp dgram, Some dgram, rs, mb)))"

text \<open>What a received packet leads to: nothing, the RTCP handler, or the RTP handler with the
  header and the buffer at the payload.\<close>

datatype rtp_rx = Rx_drop | Rx_rtcp mbuf | Rx_rtp rtp_header mbuf

definition udp_recv_handler :: "'r rtp_sock \<Rightarrow> mbuf \<Rightarrow> rtp_rx" where
  "udp_recv_handler rs mb =
    (let rtp = (case rtp_decode mb of (Inl e, mb) \<Rightarrow> Rx_drop | (Inr hdr, mb) \<Rightarrow> Rx_rtp hdr mb) in
     if rs_rtcp_mux rs then
       if mbuf_get_left mb < 2 then Rx_drop
       else
         let pt = drop (mb_pos mb) (mb_buf mb) ! 1 AND 0x7f
         in if 64 \<le> pt \<and> pt \<le> 95 then Rx_rtcp mb else rtp
     else rtp)"

text \<open>
  \<open>udp_range_listen\<close> tries up to 64 random even ports: \<open>rnd i\<close> is the random number of the
  \<open>i\<close>th try, \<open>udp i p\<close> the result of listening on port \<open>p\<close> in it. It returns the error of the
  last try and the pair of ports it holds at the end.
\<close>

definition pick_port :: "u16 \<Rightarrow> u16 \<Rightarrow> u16 \<Rightarrow> u16" where
  "pick_port min_port max_port r = (min_port + r mod (max_port - min_port)) AND 0xfffe"

fun udp_range_loop ::
  "(nat \<Rightarrow> u16) \<Rightarrow> (nat \<Rightarrow> u16 \<Rightarrow> errno option) \<Rightarrow> u16 \<Rightarrow> u16 \<Rightarrow> nat \<Rightarrow> errno option \<Rightarrow>
    errno option \<times> (u16 \<times> u16) option" where
  "udp_range_loop rnd udp min_port max_port 0 err = (err, None)"
| "udp_range_loop rnd udp min_port max_port (Suc tries) err =
    (let port = pick_port min_port max_port (rnd tries) in
     case udp tries port of
       Some e \<Rightarrow> udp_range_loop rnd udp min_port max_port tries (Some e)
     | None \<Rightarrow> (case udp tries (port + 1) of
           Some e \<Rightarrow> udp_range_loop rnd udp min_port max_port tries (Some e)
         | None \<Rightarrow> (None, Some (port, port + 1))))"

definition udp_range_listen ::
  "(nat \<Rightarrow> u16) \<Rightarrow> (nat \<Rightarrow> u16 \<Rightarrow> errno option) \<Rightarrow> u16 \<Rightarrow> u16 \<Rightarrow> errno option \<times> (u16 \<times> u16) option" where
  "udp_range_listen rnd udp min_port max_port = udp_range_loop rnd udp min_port max_port 64 None"

definition rtp_sess_ssrc :: "'r rtp_sock option \<Rightarrow> u32" where
  "rtp_sess_ssrc rs = (case rs of None \<Rightarrow> 0 | Some rs \<Rightarrow> rs_ssrc rs)"

definition rtcp_enable_mux :: "'r rtp_sock \<Rightarrow> bool \<Rightarrow> 'r rtp_sock" where
  "rtcp_enable_mux rs enabled = rs\<lparr>rs_rtcp_mux := enabled\<rparr>"

section \<open>The header codec\<close>

text \<open>A header that fits its fields and whose bytes on the wire are those of the encoder.\<close>

definition rtp_hdr_ok :: "rtp_header \<Rightarrow> bool" where
  "rtp_hdr_ok hdr \<longleftrightarrow> hdr_ver hdr \<in> {0, 2} \<and> \<not> hdr_ext hdr \<and> hdr_cc hdr \<le> 15 \<and>
     hdr_pt hdr \<le> 127 \<and> length (hdr_csrc hdr) = 16"

definition rtp_hdr_bytes :: "rtp_header \<Rightarrow> u8 list" where
  "rtp_hdr_bytes hdr = [rtp_hdr_byte0 hdr, rtp_hdr_byte1 hdr] @ le_bytes 2 (bswap 2 (hdr_seq hdr)) @
     le_bytes 4 (bswap 4 (hdr_ts hdr)) @ le_bytes 4 (bswap 4 (hdr_ssrc hdr)) @
     concat (List.map (\<lambda>c. le_bytes 4 (bswap 4 c)) (take (unat (hdr_cc hdr)) (hdr_csrc hdr)))"

text \<open>The bit fields are checked at every value: 16 counts and 128 payload types.\<close>

lemma small_word_in:
  assumes "w < of_nat n" and "n < 2 ^ LENGTH('a)"
  shows "(w :: 'a::len word) \<in> set (List.map of_nat [0..<n])"
proof -
  have "unat w < n" using assms by (simp add: word_less_nat_alt unat_of_nat)
  then show ?thesis by (auto intro: image_eqI [of _ _ "unat w"])
qed

definition byte0_fields :: "u8 \<Rightarrow> bool \<Rightarrow> bool \<Rightarrow> u8 \<Rightarrow> bool" where
  "byte0_fields v p e c =
    (let b0 = push_bit 6 (v AND 0x02) OR push_bit 5 (bit8 p AND 0x01) OR push_bit 4 (bit8 e AND 0x01) OR
       (c AND 0x0f)
     in drop_bit 6 b0 AND 0x03 = v \<and> (drop_bit 5 b0 AND 0x01 \<noteq> 0) = p \<and>
        (drop_bit 4 b0 AND 0x01 \<noteq> 0) = e \<and> b0 AND 0x0f = c)"

definition byte1_fields :: "bool \<Rightarrow> u8 \<Rightarrow> bool" where
  "byte1_fields m p =
    (let b1 = push_bit 7 (bit8 m AND 0x01) OR (p AND 0x7f)
     in (drop_bit 7 b1 AND 0x01 \<noteq> 0) = m \<and> b1 AND 0x7f = p)"

lemma byte0_fields_all:
  "\<forall>v\<in>set [0, 2]. \<forall>p\<in>set [False, True]. \<forall>e\<in>set [False, True].
     \<forall>c\<in>set (List.map of_nat [0..<16]). byte0_fields v p e c"
  unfolding list_all_iff [symmetric] by code_simp

lemma byte1_fields_all:
  "\<forall>m\<in>set [False, True]. \<forall>p\<in>set (List.map of_nat [0..<128]). byte1_fields m p"
  unfolding list_all_iff [symmetric] by code_simp

lemma byte0_fields:
  assumes "rtp_hdr_ok hdr"
  shows "byte0_fields (hdr_ver hdr) (hdr_pad hdr) (hdr_ext hdr) (hdr_cc hdr)"
proof -
  have "hdr_ver hdr \<in> set [0, 2]" using assms by (simp add: rtp_hdr_ok_def)
  moreover have "hdr_cc hdr \<in> set (List.map of_nat [0..<16])"
    using assms by (intro small_word_in) (auto simp: rtp_hdr_ok_def word_le_nat_alt word_less_nat_alt)
  moreover have "hdr_pad hdr \<in> set [False, True]" "hdr_ext hdr \<in> set [False, True]" by simp_all
  ultimately show ?thesis using byte0_fields_all by blast
qed

lemma byte1_fields:
  assumes "rtp_hdr_ok hdr"
  shows "byte1_fields (hdr_m hdr) (hdr_pt hdr)"
proof -
  have "hdr_pt hdr \<in> set (List.map of_nat [0..<128])"
    using assms by (intro small_word_in) (auto simp: rtp_hdr_ok_def word_le_nat_alt word_less_nat_alt)
  moreover have "hdr_m hdr \<in> set [False, True]" by simp
  ultimately show ?thesis using byte1_fields_all by blast
qed

lemma length_rtp_hdr_bytes:
  "rtp_hdr_ok hdr \<Longrightarrow> length (rtp_hdr_bytes hdr) = 12 + 4 * unat (hdr_cc hdr)"
  by (simp add: rtp_hdr_bytes_def rtp_hdr_ok_def length_concat comp_def sum_list_triv word_le_nat_alt)

section \<open>Encoding and decoding\<close>

text \<open>A write when there is memory, or when it only overwrites.\<close>

definition can_write :: "allocator \<Rightarrow> mbuf \<Rightarrow> nat \<Rightarrow> bool" where
  "can_write A mb n \<longleftrightarrow> mbuf_ok mb \<and> length (mb_before mb) + n < 2 ^ 64 \<and>
     ((\<forall>k. al_ok A k) \<or> n \<le> length (mb_rest mb))"

lemma write_can:
  assumes "can_write A mb (length ys + n)"
  shows "\<exists>mb'. mbuf_write_mem A mb (Some ys) = (None, mb') \<and> can_write A mb' n \<and>
    mb_before mb' = mb_before mb @ ys \<and> mb_rest mb' = drop (length ys) (mb_rest mb)"
proof -
  have ok: "mbuf_ok mb" and lt: "mb_pos mb + length ys < 2 ^ 64"
    using assms length_mb_before [of mb] by (auto simp: can_write_def)
  have "\<not> (mb_size mb < mb_pos mb + length ys \<and> (\<exists>k. \<not> al_ok A k))"
    using assms length_mb_rest [OF ok] ok by (auto simp: can_write_def mbuf_ok_def)
  with mbuf_write_mem_cursor [OF ok lt, of A] assms show ?thesis by (auto simp: can_write_def)
qed

lemma write_ints_can:
  shows "can_write A mb (2 + n) \<Longrightarrow> \<exists>mb'. mbuf_write_u16 A mb v2 = (None, mb') \<and> can_write A mb' n \<and>
      mb_before mb' = mb_before mb @ le_bytes 2 v2 \<and> mb_rest mb' = drop 2 (mb_rest mb)"
    and "can_write A mb (4 + n) \<Longrightarrow> \<exists>mb'. mbuf_write_u32 A mb v4 = (None, mb') \<and> can_write A mb' n \<and>
      mb_before mb' = mb_before mb @ le_bytes 4 v4 \<and> mb_rest mb' = drop 4 (mb_rest mb)"
  using write_can [of A mb "le_bytes 2 v2" n] write_can [of A mb "le_bytes 4 v4" n]
  by (simp_all add: mbuf_write_u16_def mbuf_write_u32_def)

lemma rtp_csrc_encode_can:
  "can_write A mb (4 * length cs) \<Longrightarrow>
    \<exists>mb'. rtp_csrc_encode A None mb cs = (None, mb') \<and> mbuf_ok mb' \<and>
      mb_before mb' = mb_before mb @ concat (List.map (\<lambda>c. le_bytes 4 (bswap 4 c)) cs) \<and>
      mb_rest mb' = drop (4 * length cs) (mb_rest mb)"
proof (induction cs arbitrary: mb)
  case Nil
  then show ?case by (simp add: can_write_def)
next
  case (Cons c cs)
  have "can_write A mb (4 + 4 * length cs)" using Cons.prems by simp
  from write_ints_can(2) [OF this] obtain m
    where 1: "mbuf_write_u32 A mb (bswap 4 c) = (None, m)" "can_write A m (4 * length cs)"
      "mb_before m = mb_before mb @ le_bytes 4 (bswap 4 c)" "mb_rest m = drop 4 (mb_rest mb)"
    by blast
  from Cons.IH [OF 1(2)] 1 show ?case by (auto simp: add.commute)
qed

lemma rtp_hdr_encode_can:
  assumes hdr: "rtp_hdr_ok hdr" and can: "can_write A mb (length (rtp_hdr_bytes hdr))"
  shows "\<exists>mb'. rtp_hdr_encode A mb hdr = Inr (None, mb') \<and> mbuf_ok mb' \<and>
    mb_before mb' = mb_before mb @ rtp_hdr_bytes hdr \<and>
    mb_rest mb' = drop (length (rtp_hdr_bytes hdr)) (mb_rest mb)"
proof -
  define cs where "cs = take (unat (hdr_cc hdr)) (hdr_csrc hdr)"
  have cc: "unat (hdr_cc hdr) \<le> 15" "length cs = unat (hdr_cc hdr)"
    using hdr by (simp_all add: rtp_hdr_ok_def word_le_nat_alt cs_def)
  have "can_write A mb (length [rtp_hdr_byte0 hdr, rtp_hdr_byte1 hdr] + (2 + (4 + (4 + 4 * length cs))))"
    using can cc by (simp add: length_rtp_hdr_bytes [OF hdr])
  from write_can [OF this] obtain m1
    where 1: "mbuf_write_mem A mb (Some [rtp_hdr_byte0 hdr, rtp_hdr_byte1 hdr]) = (None, m1)"
      "can_write A m1 (2 + (4 + (4 + 4 * length cs)))"
      "mb_before m1 = mb_before mb @ [rtp_hdr_byte0 hdr, rtp_hdr_byte1 hdr]"
      "mb_rest m1 = drop 2 (mb_rest mb)" by (auto simp: numeral_2_eq_2)
  from write_ints_can(1) [OF 1(2)] obtain m2
    where 2: "mbuf_write_u16 A m1 (bswap 2 (hdr_seq hdr)) = (None, m2)"
      "can_write A m2 (4 + (4 + 4 * length cs))"
      "mb_before m2 = mb_before m1 @ le_bytes 2 (bswap 2 (hdr_seq hdr))"
      "mb_rest m2 = drop 2 (mb_rest m1)" by blast
  from write_ints_can(2) [OF 2(2)] obtain m3
    where 3: "mbuf_write_u32 A m2 (bswap 4 (hdr_ts hdr)) = (None, m3)"
      "can_write A m3 (4 + 4 * length cs)"
      "mb_before m3 = mb_before m2 @ le_bytes 4 (bswap 4 (hdr_ts hdr))"
      "mb_rest m3 = drop 4 (mb_rest m2)" by blast
  from write_ints_can(2) [OF 3(2)] obtain m4
    where 4: "mbuf_write_u32 A m3 (bswap 4 (hdr_ssrc hdr)) = (None, m4)"
      "can_write A m4 (4 * length cs)"
      "mb_before m4 = mb_before m3 @ le_bytes 4 (bswap 4 (hdr_ssrc hdr))"
      "mb_rest m4 = drop 4 (mb_rest m3)" by blast
  from rtp_csrc_encode_can [OF 4(2)] obtain m5
    where 5: "rtp_csrc_encode A None m4 cs = (None, m5)" "mbuf_ok m5"
      "mb_before m5 = mb_before m4 @ concat (List.map (\<lambda>c. le_bytes 4 (bswap 4 c)) cs)"
      "mb_rest m5 = drop (4 * length cs) (mb_rest m4)" by blast
  have le: "\<not> length (hdr_csrc hdr) < unat (hdr_cc hdr)"
    using hdr cc by (simp add: rtp_hdr_ok_def)
  have "rtp_hdr_encode A mb hdr = Inr (None, m5)"
    unfolding rtp_hdr_encode_def using 1(1) 2(1) 3(1) 4(1) 5(1) le by (simp flip: cs_def)
  moreover have "mb_rest m5 = drop (length (rtp_hdr_bytes hdr)) (mb_rest mb)"
    using 1(4) 2(4) 3(4) 4(4) 5(4) cc by (simp add: length_rtp_hdr_bytes [OF hdr] add.commute)
  ultimately show ?thesis
    using 1(3) 2(3) 3(3) 4(3) 5(2,3) by (simp add: rtp_hdr_bytes_def flip: cs_def)
qed

lemma rtp_csrc_decode_bytes:
  "mbuf_ok mb \<Longrightarrow> mb_rest mb = concat (List.map (\<lambda>c. le_bytes 4 (bswap 4 c)) cs) @ bs \<Longrightarrow>
    \<exists>mb'. rtp_csrc_decode mb (length cs) = (cs, mb') \<and> mbuf_ok mb' \<and> mb_rest mb' = bs"
proof (induction cs arbitrary: mb)
  case (Cons c cs)
  have "mb_rest mb = le_bytes 4 (bswap 4 c) @ concat (List.map (\<lambda>c. le_bytes 4 (bswap 4 c)) cs) @ bs"
    using Cons.prems(2) by simp
  from mbuf_read_int_cursor(3) [OF Cons.prems(1) this] obtain m
    where 1: "mbuf_read_u32 mb = (bswap 4 c, m)" "mbuf_ok m"
      "mb_rest m = concat (List.map (\<lambda>c. le_bytes 4 (bswap 4 c)) cs) @ bs" by auto
  have "bswap 4 (bswap 4 c) = c" by (rule bswap_bswap) simp
  with Cons.IH [OF 1(2,3)] 1(1) show ?case by auto
qed simp

text \<open>Decoding the bytes of a header gives it back and leaves the buffer at what follows.\<close>

lemma rtp_hdr_decode_bytes:
  assumes ok: "mbuf_ok mb" and hdr: "rtp_hdr_ok hdr" and bytes: "mb_rest mb = rtp_hdr_bytes hdr @ bs"
  shows "\<exists>mb'. rtp_hdr_decode hdr0 mb = (Inr (hdr
      \<lparr>hdr_csrc := take (unat (hdr_cc hdr)) (hdr_csrc hdr) @ drop (unat (hdr_cc hdr)) (hdr_csrc hdr0),
       hdr_x_type := hdr_x_type hdr0, hdr_x_len := hdr_x_len hdr0\<rparr>), mb') \<and>
    mbuf_ok mb' \<and> mb_rest mb' = bs"
proof -
  define cs where "cs = take (unat (hdr_cc hdr)) (hdr_csrc hdr)"
  define csb where "csb = concat (List.map (\<lambda>c. le_bytes 4 (bswap 4 c)) cs)"
  have cc: "unat (hdr_cc hdr) \<le> 15" "length cs = unat (hdr_cc hdr)"
    using hdr by (simp_all add: rtp_hdr_ok_def word_le_nat_alt cs_def)
  have len: "length csb = 4 * length cs" by (simp add: csb_def length_concat comp_def sum_list_triv)
  have b: "mb_rest mb = [rtp_hdr_byte0 hdr, rtp_hdr_byte1 hdr] @ le_bytes 2 (bswap 2 (hdr_seq hdr)) @
     le_bytes 4 (bswap 4 (hdr_ts hdr)) @ le_bytes 4 (bswap 4 (hdr_ssrc hdr)) @ csb @ bs"
    using bytes by (simp add: rtp_hdr_bytes_def csb_def cs_def)
  from mbuf_read_mem_cursor [OF ok, of 2] b obtain m1
    where 1: "mbuf_read_mem mb 2 = (Inr [rtp_hdr_byte0 hdr, rtp_hdr_byte1 hdr], m1)" "mbuf_ok m1"
      "mb_rest m1 = le_bytes 2 (bswap 2 (hdr_seq hdr)) @
         le_bytes 4 (bswap 4 (hdr_ts hdr)) @ le_bytes 4 (bswap 4 (hdr_ssrc hdr)) @ csb @ bs" by auto
  from mbuf_read_int_cursor(2) [OF 1(2,3)] obtain m2
    where 2: "mbuf_read_u16 m1 = (bswap 2 (hdr_seq hdr), m2)" "mbuf_ok m2"
      "mb_rest m2 = le_bytes 4 (bswap 4 (hdr_ts hdr)) @ le_bytes 4 (bswap 4 (hdr_ssrc hdr)) @ csb @ bs"
    by auto
  from mbuf_read_int_cursor(3) [OF 2(2,3)] obtain m3
    where 3: "mbuf_read_u32 m2 = (bswap 4 (hdr_ts hdr), m3)" "mbuf_ok m3"
      "mb_rest m3 = le_bytes 4 (bswap 4 (hdr_ssrc hdr)) @ csb @ bs" by auto
  from mbuf_read_int_cursor(3) [OF 3(2,3)] obtain m4
    where 4: "mbuf_read_u32 m3 = (bswap 4 (hdr_ssrc hdr), m4)" "mbuf_ok m4" "mb_rest m4 = csb @ bs"
    by auto
  from rtp_csrc_decode_bytes [OF 4(2), of cs bs] 4(3) obtain m5
    where 5: "rtp_csrc_decode m4 (unat (hdr_cc hdr)) = (cs, m5)" "mbuf_ok m5" "mb_rest m5 = bs"
    by (auto simp: csb_def cc)
  have left: "\<not> mbuf_get_left mb < RTP_HEADER_SIZE" "\<not> mbuf_get_left m4 < unat (hdr_cc hdr) * 4"
    by (simp_all add: mbuf_get_left_ok ok 4 b RTP_HEADER_SIZE_def len cc)
  have bsw: "bswap 2 (bswap 2 (hdr_seq hdr)) = hdr_seq hdr" "bswap 4 (bswap 4 (hdr_ts hdr)) = hdr_ts hdr"
    "bswap 4 (bswap 4 (hdr_ssrc hdr)) = hdr_ssrc hdr" by (rule bswap_bswap; simp)+
  have f0: "drop_bit 6 (rtp_hdr_byte0 hdr) AND 0x03 = hdr_ver hdr"
    "(drop_bit 5 (rtp_hdr_byte0 hdr) AND 0x01 \<noteq> 0) = hdr_pad hdr"
    "(drop_bit 4 (rtp_hdr_byte0 hdr) AND 0x01 \<noteq> 0) = False"
    "rtp_hdr_byte0 hdr AND 0x0f = hdr_cc hdr"
    using byte0_fields [OF hdr] hdr
    unfolding byte0_fields_def rtp_hdr_byte0_def Let_def rtp_hdr_ok_def by auto
  have f1: "(drop_bit 7 (rtp_hdr_byte1 hdr) AND 0x01 \<noteq> 0) = hdr_m hdr"
    "rtp_hdr_byte1 hdr AND 0x7f = hdr_pt hdr"
    using byte1_fields [OF hdr] unfolding byte1_fields_def rtp_hdr_byte1_def Let_def by auto
  have "rtp_hdr_decode hdr0 mb = (Inr (hdr0\<lparr>hdr_ver := hdr_ver hdr, hdr_pad := hdr_pad hdr,
      hdr_ext := False, hdr_cc := hdr_cc hdr, hdr_m := hdr_m hdr, hdr_pt := hdr_pt hdr,
      hdr_seq := hdr_seq hdr, hdr_ts := hdr_ts hdr, hdr_ssrc := hdr_ssrc hdr,
      hdr_csrc := cs @ drop (unat (hdr_cc hdr)) (hdr_csrc hdr0)\<rparr>), m5)"
    unfolding rtp_hdr_decode_def
    by (simp only: left if_False 1(1) prod.case sum.case Let_def 2(1) 3(1) 4(1) f0 f1 nth_Cons_0
        nth_Cons_Suc One_nat_def 5(1) bsw) simp
  moreover have "hdr_ext hdr = False" using hdr by (simp add: rtp_hdr_ok_def)
  ultimately show ?thesis using 5(2,3) by (simp add: cs_def)
qed

section \<open>Packets\<close>

definition rtp_sent_hdr :: "'r rtp_sock \<Rightarrow> bool \<Rightarrow> u8 \<Rightarrow> u32 \<Rightarrow> rtp_header" where
  "rtp_sent_hdr rs marker pt ts = rtp_hdr_zero\<lparr>hdr_ver := RTP_VERSION, hdr_m := marker,
     hdr_pt := pt, hdr_seq := rs_seq rs, hdr_ts := ts, hdr_ssrc := rs_ssrc rs\<rparr>"

lemma pt_mask: "pt \<le> 127 \<Longrightarrow> pt AND NOT 0x7f = (0 :: u8)"
proof -
  assume "pt \<le> 127"
  then have "pt \<in> set (List.map of_nat [0..<128])"
    by (intro small_word_in) (auto simp: word_le_nat_alt word_less_nat_alt)
  moreover have "\<forall>p\<in>set (List.map of_nat [0..<128]). p AND NOT 0x7f = (0 :: u8)"
    unfolding list_all_iff [symmetric] by code_simp
  ultimately show ?thesis by blast
qed

lemma rtp_sent_hdr_ok:
  assumes "pt \<le> 127"
  shows "rtp_hdr_ok (rtp_sent_hdr rs marker pt ts)" "length (rtp_hdr_bytes (rtp_sent_hdr rs marker pt ts)) = 12"
proof -
  show ok: "rtp_hdr_ok (rtp_sent_hdr rs marker pt ts)"
    using assms by (simp add: rtp_hdr_ok_def rtp_sent_hdr_def rtp_hdr_zero_def RTP_VERSION_def)
  show "length (rtp_hdr_bytes (rtp_sent_hdr rs marker pt ts)) = 12"
    by (simp add: length_rtp_hdr_bytes [OF ok]) (simp add: rtp_sent_hdr_def rtp_hdr_zero_def)
qed

text \<open>
  A packet sent from a buffer with room for a header in front of the payload needs no memory;
  it is the header with the current sequence number followed by the payload, and the next
  sequence number is used for the next packet.
\<close>

lemma rtp_send_datagram:
  assumes ok: "mbuf_ok mb" and pos: "12 \<le> mb_pos mb" and pt: "pt \<le> 127"
  shows "\<exists>rs' mb'. rtp_send A tx udp rs marker pt ts mb =
      Inr (udp (rtp_hdr_bytes (rtp_sent_hdr rs marker pt ts) @ mb_rest mb),
        Some (rtp_hdr_bytes (rtp_sent_hdr rs marker pt ts) @ mb_rest mb), rs', mb') \<and>
    rs_seq rs' = rs_seq rs + 1 \<and> rs_ssrc rs' = rs_ssrc rs"
proof -
  define hdr where "hdr = rtp_sent_hdr rs marker pt ts"
  have hdr: "rtp_hdr_ok hdr" "length (rtp_hdr_bytes hdr) = 12"
    using rtp_sent_hdr_ok [OF pt] by (simp_all add: hdr_def)
  define m0 where "m0 = mbuf_advance mb (- int RTP_HEADER_SIZE)"
  have lt: "mb_end mb < 2 ^ 64" "mb_pos mb \<le> mb_end mb" using ok unfolding mbuf_ok_def by linarith+
  have m0: "m0 = mbuf_set_pos mb (mb_pos mb - 12)"
    unfolding m0_def using pos lt by (subst mbuf_advance_eq) (auto simp: RTP_HEADER_SIZE_def nat_diff_distrib')
  have pe: "mb_pos mb - 12 \<le> mb_end mb" using lt by linarith
  note c = mbuf_set_pos_cursor [OF ok pe, folded m0]
  have lb: "length (mb_before m0) = mb_pos mb - 12" "mb_pos m0 = mb_pos mb - 12"
    using length_mb_before [OF c(1)] m0 by (simp_all add: mbuf_set_pos_def)
  have lr: "length (mb_rest m0) = mb_end mb - (mb_pos mb - 12)"
    using length_mb_rest [OF c(1)] m0 by (simp add: mbuf_set_pos_def)
  have "12 \<le> length (mb_rest m0)" using lr lt pos by linarith
  then have "can_write A m0 (length (rtp_hdr_bytes hdr))"
    unfolding can_write_def hdr(2) using c(1) lb(1) lt pos by simp
  from rtp_hdr_encode_can [OF hdr(1) this] obtain m1 where 1:
    "rtp_hdr_encode A m0 hdr = Inr (None, m1)" "mbuf_ok m1"
    "mb_before m1 = mb_before m0 @ rtp_hdr_bytes hdr" "mb_rest m1 = drop 12 (mb_rest m0)"
    unfolding hdr(2) by blast
  have "mb_rest m1 = drop (mb_pos mb) (mb_content mb)" using 1(4) c(3) pos by simp
  then have rest: "mb_rest m1 = mb_rest mb"
    using length_mb_before [OF ok] by (simp add: mb_content_split [OF ok])
  have p1: "mb_pos mb - 12 \<le> mb_end m1"
    using length_mb_before [OF 1(2)] 1(3) lb(1) 1(2) by (simp add: mbuf_ok_def)
  note c1 = mbuf_set_pos_cursor [OF 1(2) p1]
  have dgram: "mb_rest (mbuf_set_pos m1 (mb_pos mb - 12)) = rtp_hdr_bytes hdr @ mb_rest mb"
    using c1(3) 1(3) lb(1) rest by (simp add: mb_content_split [OF 1(2)])
  have rd: "take (mbuf_get_left m) (drop (mb_pos m) (mb_buf m)) = mb_rest m" if "mbuf_ok m" for m
    using mbuf_get_left_ok [OF that] length_mb_rest [OF that] by (simp add: mb_rest_def)
  have enc: "rtp_encode A rs marker pt ts m0 = Inr (None, rs\<lparr>rs_seq := rs_seq rs + 1\<rparr>, m1)"
    using pt_mask [OF pt] 1(1)
    by (simp add: rtp_encode_def Let_def hdr_def rtp_sent_hdr_def rtp_hdr_zero_def)
  have "\<not> mb_pos mb < RTP_HEADER_SIZE" using pos by (simp add: RTP_HEADER_SIZE_def)
  then show ?thesis
    using enc rd [OF c1(1)] dgram lb(2)
    by (simp add: rtp_send_def Let_def flip: m0_def hdr_def) (simp add: mbuf_set_pos_def)
qed

text \<open>The receiver of that datagram hands its header and payload to the RTP handler.\<close>

lemma udp_recv_handler_datagram:
  assumes hdr: "rtp_hdr_ok hdr" "hdr_ver hdr = RTP_VERSION" "hdr_cc hdr = 0"
    and len: "length (rtp_hdr_bytes hdr @ bs) < 2 ^ 64" and mux: "\<not> rs_rtcp_mux rs"
  shows "\<exists>mb. udp_recv_handler rs (mbuf_of (rtp_hdr_bytes hdr @ bs)) =
      Rx_rtp (hdr\<lparr>hdr_csrc := replicate 16 0, hdr_x_type := 0, hdr_x_len := 0\<rparr>) mb \<and>
    mbuf_ok mb \<and> mb_rest mb = bs"
proof -
  from rtp_hdr_decode_bytes [OF mbuf_of_ok [OF len] hdr(1) mbuf_of_cursor(2), of rtp_hdr_zero] hdr
  obtain mb where "rtp_hdr_decode rtp_hdr_zero (mbuf_of (rtp_hdr_bytes hdr @ bs)) =
      (Inr (hdr\<lparr>hdr_csrc := replicate 16 0, hdr_x_type := 0, hdr_x_len := 0\<rparr>), mb)"
    "mbuf_ok mb" "mb_rest mb = bs" by (auto simp: rtp_hdr_zero_def)
  with mux hdr(2) show ?thesis by (simp add: udp_recv_handler_def rtp_decode_def)
qed

section \<open>Port pairs\<close>

text \<open>A pair that is listened on has an even port in the range, for a range that starts even.\<close>

lemma udp_range_loop_pair:
  "udp_range_loop rnd udp lo hi n err = (err', Some (p, q)) \<Longrightarrow>
    err' = None \<and> q = p + 1 \<and> (\<exists>i<n. p = pick_port lo hi (rnd i) \<and> udp i p = None \<and> udp i (p + 1) = None)"
  by (induction n arbitrary: err) (auto simp: Let_def less_Suc_eq split: option.splits)

lemma udp_range_loop_err:
  "udp_range_loop rnd udp lo hi n err = (err', None) \<Longrightarrow> n > 0 \<or> err \<noteq> None \<Longrightarrow> err' \<noteq> None"
  by (induction n arbitrary: err) (auto simp: Let_def split: option.splits)

lemma and_not_mask: "x AND NOT (mask n) = push_bit n (drop_bit n (x :: 'a::len word))"
  by (rule bit_word_eqI) (auto simp: bit_simps)

lemma unat_push_drop: "unat (push_bit n (drop_bit n (x :: 'a::len word))) = 2 ^ n * (unat x div 2 ^ n)"
proof -
  have "unat x < 2 ^ LENGTH('a)" by (rule unsigned_less)
  moreover have "2 ^ n * (unat x div 2 ^ n) \<le> unat x" by (simp add: times_div_less_eq_dividend)
  ultimately have "2 ^ n * (unat x div 2 ^ n) < 2 ^ LENGTH('a)" by linarith
  then show ?thesis
    unfolding unsigned_push_bit_eq unsigned_drop_bit_eq
    by (simp add: drop_bit_eq_div push_bit_eq_mult take_bit_eq_mod mult.commute)
qed

lemma and_not_1:
  "unat ((x :: u16) AND 0xfffe) = 2 * (unat x div 2)"
proof -
  have "(0xfffe :: u16) = NOT (mask 1)" by code_simp
  then have "x AND 0xfffe = push_bit 1 (drop_bit 1 x)" by (simp only: and_not_mask)
  then show ?thesis using unat_push_drop [of 1 x] by simp
qed

lemma pick_port_range:
  assumes "lo < hi" and "even (unat lo)"
  shows "lo \<le> pick_port lo hi r" and "pick_port lo hi r < hi" and "even (unat (pick_port lo hi r))"
proof -
  define k where "k = unat (r mod (hi - lo))"
  have d: "unat (hi - lo) = unat hi - unat lo" using assms(1) by (simp add: unat_sub)
  have "0 < unat hi - unat lo" using assms(1) by (simp add: word_less_nat_alt)
  then have k: "k < unat hi - unat lo" by (simp add: k_def unat_mod d)
  have "unat hi < 2 ^ LENGTH(16)" by (rule unsigned_less)
  with k have lt: "unat lo + k < 65536" by simp
  have s: "unat (lo + r mod (hi - lo)) = unat lo + k"
    using unat_add_lem [of lo "r mod (hi - lo)"] lt by (simp add: k_def)
  have p: "unat (pick_port lo hi r) = 2 * ((unat lo + k) div 2)"
    unfolding pick_port_def and_not_1 s by (rule refl)
  show "even (unat (pick_port lo hi r))" by (simp add: p)
  from assms(2) obtain m where m: "unat lo = 2 * m" by blast
  show "lo \<le> pick_port lo hi r" unfolding word_le_nat_alt p m by simp
  show "pick_port lo hi r < hi" unfolding word_less_nat_alt p using k by linarith
qed

end
