(* ===== verification/App_Types.thy ===== *)
theory App_Types
  imports Re_Uri Re_Telev Re_Rtp
begin

text \<open>
  The data of the autodialer (\<open>src/src/call.h\<close>): gateways, campaigns with their destinations
  and actions, calls and RTP sessions, and the state that all campaigns share.

  A structure that only one owner points at is a component of its owner: the destinations of a
  campaign, the call of a destination, the forwarded call of a call. What several structures
  point at is referred to by address: gateways (\<open>gw_addr\<close>) and actions (\<open>act_addr\<close>), so that a
  pointer to a freed one is found out as a use after free, and RTP sessions by their number.
  Lists of structures are HOL lists; \<open>Re_List\<close> shows that the operations of \<open>list.c\<close> on linked
  structures are the operations on lists used here. The fields no modelled code reads (\<open>sdp\<close>,
  \<open>sdp_media\<close>, \<open>stat_time\<close>, \<open>arg\<close>, the thread and lock handles) are left out.
\<close>

section \<open>Call states\<close>

datatype call_status =
    CALL_CONNECTING | CALL_TRYING | CALL_RINGING | CALL_ESTABLISHED | CALL_DISCONNECTED

fun status_num :: "call_status \<Rightarrow> nat" where
  "status_num CALL_CONNECTING = 0"
| "status_num CALL_TRYING = 1"
| "status_num CALL_RINGING = 2"
| "status_num CALL_ESTABLISHED = 3"
| "status_num CALL_DISCONNECTED = 4"

text \<open>The code compares the states as numbers.\<close>

instantiation call_status :: linorder
begin

definition less_eq_call_status :: "call_status \<Rightarrow> call_status \<Rightarrow> bool" where
  "less_eq_call_status a b \<longleftrightarrow> status_num a \<le> status_num b"

definition less_call_status :: "call_status \<Rightarrow> call_status \<Rightarrow> bool" where
  "less_call_status a b \<longleftrightarrow> status_num a < status_num b"

instance
proof
  fix a b c :: call_status
  show "a < b \<longleftrightarrow> a \<le> b \<and> \<not> b \<le> a" by (auto simp: less_eq_call_status_def less_call_status_def)
  show "a \<le> a" by (simp add: less_eq_call_status_def)
  show "a \<le> c" if "a \<le> b" "b \<le> c" using that by (simp add: less_eq_call_status_def)
  show "a = b" if "a \<le> b" "b \<le> a"
    using that by (cases a; cases b) (simp_all add: less_eq_call_status_def)
  show "a \<le> b \<or> b \<le> a" by (auto simp: less_eq_call_status_def)
qed

end

section \<open>Structures\<close>

record gateway =
  gw_addr :: nat
  gw_id :: u32
  gw_uri_str :: "string option"
  gw_sip_uri :: uri

record campaign_action =
  act_addr :: nat
  act_key :: u8
  act_type :: u8
  act_gateway :: "nat option"
  act_dest :: "string option"

text \<open>
  A call, with the type of the forwarded call as a parameter: a forwarded call is never
  forwarded again. \<open>c_sess\<close> says whether the SIP session is there; \<open>c_rtp_sess\<close> is the number of
  the RTP session, \<open>c_action\<close> the address of the chosen action.
\<close>

record 'p call_of =
  c_resp_code :: u16
  c_sess :: bool
  c_rs :: "unit rtp_sock option"
  c_rtp_sess :: "nat option"
  c_pbx_call :: "'p option"
  c_audio :: "string option"
  c_ts :: u32
  c_connect_tm :: int
  c_establish_tm :: int
  c_status :: call_status
  c_num_play :: u8
  c_action_key :: u8
  c_action_type :: u8
  c_pt :: u8
  c_action :: "nat option"
  c_join_pbx :: bool
  c_thrd_created :: bool
  c_ended :: bool
  c_ispbxcall :: bool
  c_event_received :: bool
  c_forwarded :: bool

type_synonym pbx_call = "unit call_of"
type_synonym call = "pbx_call call_of"

record destination =
  d_id :: u32
  d_dest :: "string option"
  d_last_try :: int
  d_call :: "call option"
  d_try_count :: u8
  d_tmr :: bool

record campaign =
  cp_id :: u32
  cp_client_id :: u32
  cp_status :: u8
  cp_gateway :: "nat option"
  cp_pbx_gateway :: "nat option"
  cp_pbx_number :: "string option"
  cp_caller_id :: "string option"
  cp_file_name :: "string option"
  cp_call_limit :: u16
  cp_retry_delay :: u16
  cp_max_call_duration :: u16
  cp_max_try :: u8
  cp_is_running :: bool
  cp_max_play :: u8
  cp_destinations :: "destination list"
  cp_processl :: "destination list"
  cp_tmr :: bool
  cp_actions :: "campaign_action list"

record rtp_session =
  rts_connected :: bool
  rts_in_use :: bool
  rts_remote :: "nat option"
  rts_telev_recv :: bool
  rts_telev :: "telev option"
  rts_arg :: bool

section \<open>Shared state\<close>

text \<open>The statements that the application queues for the database, with their parameters.\<close>

datatype query =
    Q_status u32 call_status int int int
      \<comment> \<open>update calls: id, status, duration, connect and establish time\<close>
  | Q_end u32 u8 call_status int int int int u16 u8 u8 bool
      \<comment> \<open>update calls: id, tries, status, duration, connect, establish and disconnect time,
          cause, action key and type, event received\<close>
  | Q_forward u32 u32 "string option" "string option" call_status int int int int u16
      \<comment> \<open>insert into call_forwarding: campaign, gateway, from, to, status, duration, connect,
          establish and disconnect time, cause\<close>

text \<open>
  \<open>sh_rtp\<close> is the content of every RTP session, \<open>sh_rtp_free\<close> the numbers in the list
  \<open>rtp_sessions\<close>, \<open>sh_sqllist\<close> the queue of statements, \<open>sh_invites\<close> the calls placed with the
  SIP stack so far (request URI and user), \<open>sh_next\<close> a supply of addresses.
\<close>

record shared =
  sh_gateways :: "gateway list"
  sh_rtp :: "nat \<Rightarrow> rtp_session"
  sh_rtp_free :: "nat list"
  sh_sqllist :: "query list"
  sh_invites :: "(string \<times> string) list"
  sh_next :: nat

text \<open>Following a pointer to a gateway or an action: it must be one that is still allocated.\<close>

definition gw_deref :: "shared \<Rightarrow> nat \<Rightarrow> ub + gateway" where
  "gw_deref g a = (case List.find (\<lambda>gw. gw_addr gw = a) (sh_gateways g) of
      None \<Rightarrow> Inl Use_after_free | Some gw \<Rightarrow> Inr gw)"

definition act_deref :: "campaign \<Rightarrow> nat \<Rightarrow> ub + campaign_action" where
  "act_deref cp a = (case List.find (\<lambda>act. act_addr act = a) (cp_actions cp) of
      None \<Rightarrow> Inl Use_after_free | Some act \<Rightarrow> Inr act)"

section \<open>Outside the program\<close>

text \<open>
  What a handler gets from its surroundings while it runs: the time, a random number, whether a
  file is there, and the outcome of the calls into the SIP and SDP stacks.
\<close>

record env =
  e_now :: int
  e_rand :: u32
  e_rand_seq :: u16
  e_rand_ssrc :: u32
  e_file :: "string \<Rightarrow> bool"
  e_call_mem :: bool
  e_sdp_session :: "errno option"
  e_sdp_media :: "errno option"
  e_sdp_format :: "errno option"
  e_sdp_telev :: "errno option"
  e_sdp_encode :: "errno option"
  e_sip_connect :: "errno option"
  e_rtp_mem :: bool

end
