(* ===== verification/App_Call.thy ===== *)
theory App_Call
  imports App_Types "HOL-Library.Multiset"
begin

text \<open>
  Outgoing calls (\<open>src/src/call.c\<close>): the pool of RTP sessions, the allocation and destruction of
  a call, and the handlers that the SIP stack runs on it.

  The lemmas account for the sessions: which operations take one from the pool, which give it
  back, and on which error path one is lost.
\<close>

section \<open>The pool of RTP sessions\<close>

definition rtp_session_released :: "rtp_session \<Rightarrow> rtp_session" where
  "rtp_session_released rs = rs\<lparr>rts_in_use := False, rts_connected := False, rts_arg := False,
     rts_telev_recv := False, rts_telev := None, rts_remote := None\<rparr>"

definition release_rtp_session :: "nat \<Rightarrow> shared \<Rightarrow> shared" where
  "release_rtp_session i g = g\<lparr>sh_rtp := (sh_rtp g)(i := rtp_session_released (sh_rtp g i)),
     sh_rtp_free := sh_rtp_free g @ [i]\<rparr>"

definition find_rtp_session :: "shared \<Rightarrow> nat option \<times> shared" where
  "find_rtp_session g = (case List.find (\<lambda>i. \<not> rts_in_use (sh_rtp g i)) (sh_rtp_free g) of
      None \<Rightarrow> (None, g)
    | Some i \<Rightarrow> (Some i, g\<lparr>sh_rtp := (sh_rtp g)(i := (sh_rtp g i)\<lparr>rts_in_use := True\<rparr>),
                            sh_rtp_free := remove1 i (sh_rtp_free g)\<rparr>))"

section \<open>Destroying a call\<close>

text \<open>
  The destructor waits for the audio thread, closes the SIP session and the sockets, gives the
  RTP session back and destroys the forwarded call. The SIP side of it has no model here.
\<close>

definition release_opt :: "nat option \<Rightarrow> shared \<Rightarrow> shared" where
  "release_opt r g = (case r of None \<Rightarrow> g | Some i \<Rightarrow> release_rtp_session i g)"

definition pbx_call_destructor :: "pbx_call \<Rightarrow> shared \<Rightarrow> shared" where
  "pbx_call_destructor c g = release_opt (c_rtp_sess c) g"

definition call_destructor :: "call \<Rightarrow> shared \<Rightarrow> shared" where
  "call_destructor c g =
    (let g = release_opt (c_rtp_sess c) g
     in case c_pbx_call c of None \<Rightarrow> g | Some p \<Rightarrow> pbx_call_destructor p g)"

section \<open>Allocating a call\<close>

text \<open>
  The SDP session of a call. An error after the RTP session was taken leaves it taken; when the
  SDP session itself cannot be allocated, the error path releases a pointer that was never set.
\<close>

definition sdp_sess_alloc :: "env \<Rightarrow> shared \<Rightarrow> ub + (errno + nat) \<times> shared" where
  "sdp_sess_alloc ev g = (case find_rtp_session g of
      (None, g) \<Rightarrow> Inr (Inl (Sys_err 1), g)
    | (Some i, g) \<Rightarrow>
        if e_sdp_session ev \<noteq> None then Inl Uninitialised
        else case err_or (e_sdp_media ev) (err_or (e_sdp_format ev) (e_sdp_telev ev)) of
            Some e \<Rightarrow> Inr (Inl e, g)
          | None \<Rightarrow> Inr (Inr i, g\<lparr>sh_rtp := (sh_rtp g)(i := (sh_rtp g i)\<lparr>rts_connected := True\<rparr>)\<rparr>))"

definition call_zero :: "'p call_of" where
  "call_zero = \<lparr>c_resp_code = 0, c_sess = False, c_rs = None, c_rtp_sess = None, c_pbx_call = None,
     c_audio = None, c_ts = 0, c_connect_tm = 0, c_establish_tm = 0, c_status = CALL_CONNECTING,
     c_num_play = 0, c_action_key = 0, c_action_type = 0, c_pt = 0, c_action = None,
     c_join_pbx = False, c_thrd_created = False, c_ended = False, c_ispbxcall = False,
     c_event_received = False, c_forwarded = False\<rparr>"

declare call_zero_def [code_unfold]

text \<open>The payload type: that of the call to forward, or the \<open>codec\<close> parameter of the gateway.\<close>

definition call_codec :: "uri \<Rightarrow> u8 option \<Rightarrow> ub + u8 \<times> pl" where
  "call_codec gateway pbx_pt = (case pbx_pt of
      Some pt \<Rightarrow> Inr (pt, None)
    | None \<Rightarrow> obind (uri_param_get (uri_params gateway) ''codec'' None) (\<lambda>(err, pl1).
        Inr (if err = None then ucast (pl_u32 pl1) else 0, pl1)))"

text \<open>The request URI: the number behind the \<open>prefix\<close> parameter of the gateway, if it has one.\<close>

definition call_remote :: "uri \<Rightarrow> string option \<Rightarrow> pl \<Rightarrow> string" where
  "call_remote gateway tel pfx = ''sip:'' @ (if pl_isset pfx then pl_text pfx else []) @
     pl_text tel @ ''@'' @ pl_text (uri_host gateway) @ '':'' @
     local_itoa (ucast (uri_port gateway)) 10 False"

text \<open>From the SDP offer on: the session is given back on every error.\<close>

definition call_connect ::
  "env \<Rightarrow> string option \<Rightarrow> uri \<Rightarrow> nat \<Rightarrow> u8 \<Rightarrow> pl \<Rightarrow> shared \<Rightarrow> ub + (errno + 'p call_of) \<times> shared" where
  "call_connect ev tel gateway i pt pl1 g = (case e_sdp_encode ev of
      Some e \<Rightarrow> Inr (Inl e, release_rtp_session i g)
    | None \<Rightarrow>
        obind (uri_param_get (uri_params gateway) ''prefix'' (map_option (\<lambda>_. []) pl1)) (\<lambda>(_, pfx).
        case uri_user gateway of None \<Rightarrow> Inl Uninitialised
        | Some fname \<Rightarrow>
          let g = g\<lparr>sh_invites := sh_invites g @ [(call_remote gateway tel pfx, fname)],
                    sh_rtp := (sh_rtp g)(i := (sh_rtp g i)\<lparr>rts_arg := True\<rparr>)\<rparr>
          in if \<not> e_rtp_mem ev then Inr (Inl ENOMEM, release_rtp_session i g)
             else Inr (Inr (call_zero\<lparr>
                 c_sess := (e_sip_connect ev = None),
                 c_rs := Some \<lparr>rs_seq = e_rand_seq ev, rs_ssrc = e_rand_ssrc ev, rs_rtcp = None,
                               rs_rtcp_mux = False\<rparr>,
                 c_rtp_sess := Some i, c_connect_tm := e_now ev, c_ts := e_rand ev, c_pt := pt\<rparr>), g)))"

definition call_alloc ::
  "env \<Rightarrow> string option \<Rightarrow> uri \<Rightarrow> u8 option \<Rightarrow> shared \<Rightarrow> ub + (errno + 'p call_of) \<times> shared" where
  "call_alloc ev tel gateway pbx_pt g =
    (if \<not> e_call_mem ev then Inr (Inl (Sys_err 1), g)
     else obind (call_codec gateway pbx_pt) (\<lambda>(pt, pl1).
       obind (sdp_sess_alloc ev g) (\<lambda>(r, g). case r of
         Inl e \<Rightarrow> Inr (Inl e, g)
       | Inr i \<Rightarrow> call_connect ev tel gateway i pt pl1 g)))"

section \<open>Handlers of the SIP stack\<close>

text \<open>A statement is queued by \<open>db_exec\<close>; see the theory of the database queue.\<close>

definition queue_sql :: "query \<Rightarrow> shared \<Rightarrow> shared" where
  "queue_sql q g = g\<lparr>sh_sqllist := sh_sqllist g @ [q]\<rparr>"

definition update_call_status :: "u32 \<Rightarrow> 'p call_of \<Rightarrow> shared \<Rightarrow> shared" where
  "update_call_status did c g = queue_sql (Q_status did (c_status c) 0 (c_connect_tm c) (c_establish_tm c)) g"

text \<open>The status code is that of the response, if the stack has one.\<close>

definition close_handler :: "int \<Rightarrow> u16 option \<Rightarrow> 'p call_of \<Rightarrow> ub + 'p call_of" where
  "close_handler err msg c =
    (let c = c\<lparr>c_ended := True\<rparr> in
     if c_status c = CALL_ESTABLISHED then Inr (c\<lparr>c_resp_code := 2\<rparr>)
     else if err = 0 then
       obind (deref msg) (\<lambda>scode. Inr (if scode > 0 then c\<lparr>c_resp_code := scode\<rparr> else c))
     else Inr (c\<lparr>c_resp_code := 400\<rparr>))"

definition progress_handler :: "u16 \<Rightarrow> u32 \<Rightarrow> 'p call_of \<Rightarrow> shared \<Rightarrow> 'p call_of \<times> shared" where
  "progress_handler scode did c g =
    (let c = c\<lparr>c_resp_code := scode\<rparr>
     in if c_ispbxcall c then (c, g) else (c, update_call_status did c g))"

text \<open>
  The answer: its status code, the result of decoding its SDP, the payload type of the common
  format if there is one, and whether the audio thread starts.
\<close>

record answer =
  an_scode :: u16
  an_sdp :: "errno option"
  an_format :: "u8 option"
  an_thrd :: bool

text \<open>What both kinds of calls do first; the flag says whether the handler goes on.\<close>

definition establish_common :: "env \<Rightarrow> answer \<Rightarrow> 'p call_of \<Rightarrow> bool \<times> 'p call_of" where
  "establish_common ev an c =
    (let c = c\<lparr>c_resp_code := an_scode an\<rparr> in
     if c_status c = CALL_ESTABLISHED then (False, c)
     else
       let c = c\<lparr>c_establish_tm := e_now ev, c_status := CALL_ESTABLISHED\<rparr>;
           failed = c\<lparr>c_ended := True, c_sess := False\<rparr>
       in if an_sdp an \<noteq> None then (False, failed)
          else case an_format an of
              None \<Rightarrow> (False, failed)
            | Some pt \<Rightarrow> if pt = 101 then (False, failed) else (True, c\<lparr>c_pt := pt\<rparr>))"

definition TELEV_PTIME :: u32 where
  "TELEV_PTIME = 50"

text \<open>A session that has no telephony event state gets one, if there is memory for it.\<close>

definition establish_telev :: "allocator \<Rightarrow> nat \<Rightarrow> shared \<Rightarrow> shared" where
  "establish_telev A i g =
    (let rs = sh_rtp g i;
         telev = (case rts_telev rs of Some t \<Rightarrow> Some t
                  | None \<Rightarrow> (case telev_alloc A TELEV_PTIME of Inl e \<Rightarrow> None | Inr t \<Rightarrow> Some t))
     in g\<lparr>sh_rtp := (sh_rtp g)(i := rs\<lparr>rts_telev := telev, rts_telev_recv := True\<rparr>)\<rparr>)"

definition establish_handler ::
  "allocator \<Rightarrow> env \<Rightarrow> answer \<Rightarrow> u32 \<Rightarrow> call \<Rightarrow> shared \<Rightarrow> ub + call \<times> shared" where
  "establish_handler A ev an did c g = (case establish_common ev an c of
      (False, c) \<Rightarrow> Inr (c, g)
    | (True, c) \<Rightarrow>
        if c_join_pbx c then Inr (c, update_call_status did c g)
        else obind (deref (c_rtp_sess c)) (\<lambda>i.
          let c = (if an_thrd an then c\<lparr>c_establish_tm := e_now ev, c_thrd_created := True\<rparr> else c)
          in Inr (c, update_call_status did c (establish_telev A i g))))"

text \<open>The forwarded call joins its RTP session with that of the call it belongs to.\<close>

definition establish_handler_pbx ::
  "env \<Rightarrow> answer \<Rightarrow> call \<Rightarrow> pbx_call \<Rightarrow> shared \<Rightarrow> ub + pbx_call \<times> shared" where
  "establish_handler_pbx ev an main c g = (case establish_common ev an c of
      (False, c) \<Rightarrow> Inr (c, g)
    | (True, c) \<Rightarrow>
        obind (deref (c_rtp_sess main)) (\<lambda>i. obind (deref (c_rtp_sess c)) (\<lambda>j.
          let st = (sh_rtp g)(i := (sh_rtp g i)\<lparr>rts_remote := Some j\<rparr>);
              st = st(j := (st j)\<lparr>rts_remote := Some i\<rparr>)
          in Inr (c, g\<lparr>sh_rtp := st\<rparr>))))"

text \<open>The credentials given to a challenge: the user and password of the gateway's URI.\<close>

definition auth_handler :: "allocator \<Rightarrow> uri \<Rightarrow> errno option \<times> string option \<times> string option" where
  "auth_handler A gateway =
    (let get = (\<lambda>r. case r of Inl e \<Rightarrow> (Some e, None) | Inr s \<Rightarrow> (None, Some s));
         (e1, user) = get (pl_strdup A (uri_user gateway));
         (e2, pass) = get (pl_strdup A (uri_password gateway))
     in (err_or e1 e2, user, pass))"

section \<open>Accounting for the sessions\<close>

text \<open>The sessions a call holds, its forwarded call included.\<close>

definition own_rtp :: "'p call_of \<Rightarrow> nat list" where
  "own_rtp c = (case c_rtp_sess c of None \<Rightarrow> [] | Some i \<Rightarrow> [i])"

definition call_rtp :: "call \<Rightarrow> nat list" where
  "call_rtp c = own_rtp c @ (case c_pbx_call c of None \<Rightarrow> [] | Some p \<Rightarrow> own_rtp p)"

text \<open>
  Given the sessions that are held somewhere: no session is in two places, the free ones are
  marked free, and the held ones are marked in use.
\<close>

definition pool_ok :: "shared \<Rightarrow> nat list \<Rightarrow> bool" where
  "pool_ok g held \<longleftrightarrow> distinct (sh_rtp_free g @ held) \<and>
     (\<forall>i\<in>set (sh_rtp_free g). \<not> rts_in_use (sh_rtp g i)) \<and> (\<forall>i\<in>set held. rts_in_use (sh_rtp g i))"

definition sessions :: "shared \<Rightarrow> nat list \<Rightarrow> nat multiset" where
  "sessions g held = mset (sh_rtp_free g) + mset held"

lemma pool_ok_perm: "mset held = mset held' \<Longrightarrow> pool_ok g held = pool_ok g held'"
  unfolding pool_ok_def distinct_append
  by (metis mset_eq_imp_distinct_iff mset_eq_setD)

lemma find_rtp_session_ok:
  assumes "pool_ok g held" and "find_rtp_session g = (Some i, g')"
  shows "pool_ok g' (i # held)" "sessions g' (i # held) = sessions g held"
    "sh_sqllist g' = sh_sqllist g" "sh_gateways g' = sh_gateways g" "sh_invites g' = sh_invites g"
proof -
  from assms(2) have f: "List.find (\<lambda>i. \<not> rts_in_use (sh_rtp g i)) (sh_rtp_free g) = Some i"
    and g': "g' = g\<lparr>sh_rtp := (sh_rtp g)(i := (sh_rtp g i)\<lparr>rts_in_use := True\<rparr>),
                     sh_rtp_free := remove1 i (sh_rtp_free g)\<rparr>"
    by (auto simp: find_rtp_session_def split: option.splits)
  from f have i: "i \<in> set (sh_rtp_free g)" by (auto simp: find_Some_iff)
  with assms(1) have d: "distinct (sh_rtp_free g)" "i \<notin> set held" by (auto simp: pool_ok_def)
  show "pool_ok g' (i # held)"
    using assms(1) i d by (auto simp: pool_ok_def g')
  show "sessions g' (i # held) = sessions g held"
    using i by (simp add: sessions_def g')
  show "sh_sqllist g' = sh_sqllist g" "sh_gateways g' = sh_gateways g" "sh_invites g' = sh_invites g"
    by (simp_all add: g')
qed

lemma release_rtp_session_ok:
  assumes "pool_ok g (i # held)"
  shows "pool_ok (release_rtp_session i g) held"
    "sessions (release_rtp_session i g) held = sessions g (i # held)"
  using assms by (auto simp: pool_ok_def sessions_def release_rtp_session_def rtp_session_released_def)

lemma release_frame [simp]:
  "sh_sqllist (release_rtp_session i g) = sh_sqllist g" "sh_gateways (release_rtp_session i g) = sh_gateways g"
  "sh_invites (release_rtp_session i g) = sh_invites g"
  by (simp_all add: release_rtp_session_def)

lemma release_opt_frame [simp]:
  "sh_sqllist (release_opt r g) = sh_sqllist g" "sh_gateways (release_opt r g) = sh_gateways g"
  "sh_invites (release_opt r g) = sh_invites g"
  by (simp_all add: release_opt_def split: option.splits)

lemma release_opt_ok:
  assumes "pool_ok g (own_rtp c @ held)"
  shows "pool_ok (release_opt (c_rtp_sess c) g) held"
    "sessions (release_opt (c_rtp_sess c) g) held = sessions g (own_rtp c @ held)"
  using assms release_rtp_session_ok [of g _ held]
  by (auto simp: release_opt_def own_rtp_def split: option.splits)

text \<open>Destroying a call gives all its sessions back.\<close>

lemma call_destructor_ok:
  assumes "pool_ok g (call_rtp c @ held)"
  shows "pool_ok (call_destructor c g) held"
    "sessions (call_destructor c g) held = sessions g (call_rtp c @ held)"
    "sh_sqllist (call_destructor c g) = sh_sqllist g"
    "sh_gateways (call_destructor c g) = sh_gateways g"
proof -
  have a: "call_rtp c @ held = own_rtp c @ ((case c_pbx_call c of None \<Rightarrow> [] | Some p \<Rightarrow> own_rtp p) @ held)"
    by (simp add: call_rtp_def)
  note 1 = release_opt_ok [OF assms [unfolded a]]
  have "pool_ok (call_destructor c g) held \<and>
      sessions (call_destructor c g) held = sessions g (call_rtp c @ held)"
  proof (cases "c_pbx_call c")
    case None
    with 1 a show ?thesis by (simp add: call_destructor_def)
  next
    case (Some p)
    with 1 have "pool_ok (release_opt (c_rtp_sess c) g) (own_rtp p @ held)"
      "sessions (release_opt (c_rtp_sess c) g) (own_rtp p @ held) = sessions g (call_rtp c @ held)"
      by (simp_all add: call_rtp_def)
    with release_opt_ok [OF this(1)] Some show ?thesis
      by (simp add: call_destructor_def pbx_call_destructor_def)
  qed
  then show "pool_ok (call_destructor c g) held"
    "sessions (call_destructor c g) held = sessions g (call_rtp c @ held)" by simp_all
  show "sh_sqllist (call_destructor c g) = sh_sqllist g" "sh_gateways (call_destructor c g) = sh_gateways g"
    by (simp_all add: call_destructor_def pbx_call_destructor_def Let_def split: option.splits)
qed

text \<open>The updates that leave the sessions of a call alone.\<close>

lemma own_rtp_upd [simp]:
  "own_rtp (c\<lparr>c_audio := a\<rparr>) = own_rtp c" "own_rtp (c\<lparr>c_join_pbx := b\<rparr>) = own_rtp c"
  "own_rtp (c\<lparr>c_status := s\<rparr>) = own_rtp c" "own_rtp (c\<lparr>c_resp_code := r\<rparr>) = own_rtp c"
  "own_rtp (c\<lparr>c_sess := b\<rparr>) = own_rtp c" "own_rtp (c\<lparr>c_ended := b\<rparr>) = own_rtp c"
  "own_rtp (c\<lparr>c_forwarded := b\<rparr>) = own_rtp c" "own_rtp (c\<lparr>c_ispbxcall := b\<rparr>) = own_rtp c"
  "own_rtp (c\<lparr>c_pbx_call := p\<rparr>) = own_rtp c" "own_rtp (c\<lparr>c_pt := pt\<rparr>) = own_rtp c"
  "own_rtp (c\<lparr>c_establish_tm := t\<rparr>) = own_rtp c" "own_rtp (c\<lparr>c_thrd_created := b\<rparr>) = own_rtp c"
  "own_rtp (c\<lparr>c_num_play := n\<rparr>) = own_rtp c" "own_rtp (c\<lparr>c_ts := ts\<rparr>) = own_rtp c"
  "own_rtp (c\<lparr>c_rs := rs\<rparr>) = own_rtp c"
  by (simp_all add: own_rtp_def)

lemma call_rtp_upd [simp]:
  "call_rtp (c\<lparr>c_audio := a\<rparr>) = call_rtp c" "call_rtp (c\<lparr>c_join_pbx := b\<rparr>) = call_rtp c"
  "call_rtp (c\<lparr>c_status := s\<rparr>) = call_rtp c" "call_rtp (c\<lparr>c_resp_code := r\<rparr>) = call_rtp c"
  "call_rtp (c\<lparr>c_sess := b\<rparr>) = call_rtp c" "call_rtp (c\<lparr>c_ended := b\<rparr>) = call_rtp c"
  "call_rtp (c\<lparr>c_forwarded := b\<rparr>) = call_rtp c" "call_rtp (c\<lparr>c_ispbxcall := b\<rparr>) = call_rtp c"
  "call_rtp (c\<lparr>c_pt := pt\<rparr>) = call_rtp c"
  "call_rtp (c\<lparr>c_establish_tm := t\<rparr>) = call_rtp c" "call_rtp (c\<lparr>c_thrd_created := b\<rparr>) = call_rtp c"
  "call_rtp (c\<lparr>c_num_play := n\<rparr>) = call_rtp c" "call_rtp (c\<lparr>c_ts := ts\<rparr>) = call_rtp c"
  "call_rtp (c\<lparr>c_rs := rs\<rparr>) = call_rtp c"
  by (simp_all add: call_rtp_def)

lemma call_destructor_cong:
  "c_rtp_sess c = c_rtp_sess c' \<Longrightarrow> c_pbx_call c = c_pbx_call c' \<Longrightarrow> call_destructor c g = call_destructor c' g"
  by (simp add: call_destructor_def)

lemma pool_ok_rtp_cong:
  assumes "\<And>i. rts_in_use (st i) = rts_in_use (sh_rtp g i)"
  shows "pool_ok (g\<lparr>sh_rtp := st\<rparr>) held = pool_ok g held"
    "sessions (g\<lparr>sh_rtp := st\<rparr>) held = sessions g held"
  using assms by (simp_all add: pool_ok_def sessions_def)

lemma pool_ok_frame [simp]:
  "pool_ok (g\<lparr>sh_sqllist := x\<rparr>) held = pool_ok g held" "sessions (g\<lparr>sh_sqllist := x\<rparr>) held = sessions g held"
  "pool_ok (g\<lparr>sh_invites := y\<rparr>) held = pool_ok g held" "sessions (g\<lparr>sh_invites := y\<rparr>) held = sessions g held"
  by (simp_all add: pool_ok_def sessions_def)

text \<open>
  Taking a session for a call: on success the call holds it; on an error of the SDP stack it is
  in no list any more, neither free nor held by a call.
\<close>

lemma sdp_sess_alloc_ok:
  assumes ok: "pool_ok g held" and run: "sdp_sess_alloc ev g = Inr (r, g')"
  shows "sh_sqllist g' = sh_sqllist g \<and> sh_gateways g' = sh_gateways g \<and> sh_invites g' = sh_invites g"
    and "r = Inr i \<Longrightarrow> pool_ok g' (i # held) \<and> sessions g' (i # held) = sessions g held"
    and "r = Inl e \<Longrightarrow> pool_ok g' held \<and> (g' = g \<and> fst (find_rtp_session g) = None \<or>
      (\<exists>i. fst (find_rtp_session g) = Some i \<and> sessions g held = sessions g' (i # held)))"
proof -
  consider (busy) "find_rtp_session g = (None, g)" "r = Inl (Sys_err 1)" "g' = g"
    | (err) j e' where "find_rtp_session g = (Some j, g')" "r = Inl e'"
    | (ok) j g1 where "find_rtp_session g = (Some j, g1)" "r = Inr j"
        "g' = g1\<lparr>sh_rtp := (sh_rtp g1)(j := (sh_rtp g1 j)\<lparr>rts_connected := True\<rparr>)\<rparr>"
    using run unfolding sdp_sess_alloc_def
    by (auto simp: find_rtp_session_def split: option.splits if_splits)
  then have "(sh_sqllist g' = sh_sqllist g \<and> sh_gateways g' = sh_gateways g \<and> sh_invites g' = sh_invites g) \<and>
      (r = Inr i \<longrightarrow> pool_ok g' (i # held) \<and> sessions g' (i # held) = sessions g held) \<and>
      (r = Inl e \<longrightarrow> pool_ok g' held \<and> (g' = g \<and> fst (find_rtp_session g) = None \<or>
      (\<exists>i. fst (find_rtp_session g) = Some i \<and> sessions g held = sessions g' (i # held))))"
  proof cases
    case busy
    with ok show ?thesis by simp
  next
    case err
    note f = find_rtp_session_ok [OF ok err(1)]
    then have "pool_ok g' held" by (simp add: pool_ok_def)
    with f err show ?thesis by simp
  next
    case ok': ok
    note f = find_rtp_session_ok [OF ok ok'(1)]
    with ok' show ?thesis by (auto simp: pool_ok_def sessions_def)
  qed
  then show "sh_sqllist g' = sh_sqllist g \<and> sh_gateways g' = sh_gateways g \<and> sh_invites g' = sh_invites g"
    "r = Inr i \<Longrightarrow> pool_ok g' (i # held) \<and> sessions g' (i # held) = sessions g held"
    "r = Inl e \<Longrightarrow> pool_ok g' held \<and> (g' = g \<and> fst (find_rtp_session g) = None \<or>
      (\<exists>i. fst (find_rtp_session g) = Some i \<and> sessions g held = sessions g' (i # held)))"
    by blast+
qed

lemma call_connect_cases:
  assumes run: "call_connect ev tel gateway i pt pl1 g1 = Inr (r, g')"
  obtains (late) e gi where "r = Inl e"
        "g' = release_rtp_session i gi" "sh_rtp_free gi = sh_rtp_free g1"
        "\<And>k. rts_in_use (sh_rtp gi k) = rts_in_use (sh_rtp g1 k)"
        "sh_sqllist gi = sh_sqllist g1" "sh_gateways gi = sh_gateways g1"
    | (ok) c where "r = Inr c" "c_rtp_sess c = Some i"
        "c_pbx_call c = None" "sh_rtp_free g' = sh_rtp_free g1"
        "\<And>k. rts_in_use (sh_rtp g' k) = rts_in_use (sh_rtp g1 k)"
        "sh_sqllist g' = sh_sqllist g1" "sh_gateways g' = sh_gateways g1"
        "c_connect_tm c = e_now ev" "c_status c = CALL_CONNECTING" "\<not> c_ended c" "c_num_play c = 0"
        "\<not> c_join_pbx c" "\<not> c_forwarded c" "\<not> c_event_received c"
proof (cases "e_sdp_encode ev")
  case (Some e)
  with run show ?thesis by (intro late [of e g1]) (simp_all add: call_connect_def)
next
  case None
  define gi where "gi pfx fname = g1\<lparr>sh_invites := sh_invites g1 @ [(call_remote gateway tel pfx, fname)],
       sh_rtp := (sh_rtp g1)(i := (sh_rtp g1 i)\<lparr>rts_arg := True\<rparr>)\<rparr>" for pfx fname
  have gi: "sh_rtp_free (gi p f) = sh_rtp_free g1"
    "\<And>k. rts_in_use (sh_rtp (gi p f) k) = rts_in_use (sh_rtp g1 k)"
    "sh_sqllist (gi p f) = sh_sqllist g1" "sh_gateways (gi p f) = sh_gateways g1" for p f
    by (simp_all add: gi_def)
  from None run obtain pfx fname where
    "(if \<not> e_rtp_mem ev then Inr (Inl ENOMEM, release_rtp_session i (gi pfx fname))
      else Inr (Inr (call_zero\<lparr>
          c_sess := (e_sip_connect ev = None),
          c_rs := Some \<lparr>rs_seq = e_rand_seq ev, rs_ssrc = e_rand_ssrc ev, rs_rtcp = None,
                        rs_rtcp_mux = False\<rparr>,
          c_rtp_sess := Some i, c_connect_tm := e_now ev, c_ts := e_rand ev, c_pt := pt\<rparr>),
        gi pfx fname)) = Inr (r, g')"
    unfolding call_connect_def gi_def
    by (fastforce simp: obind_Inr_iff Let_def split: option.splits)
  note r = this
  show ?thesis
  proof (cases "e_rtp_mem ev")
    case False
    with r have "r = Inl ENOMEM" "g' = release_rtp_session i (gi pfx fname)" by simp_all
    from late [OF this gi] show ?thesis .
  next
    case True
    with r have "g' = gi pfx fname" by simp
    with gi True r show ?thesis by (intro ok) (auto simp: call_zero_def)
  qed
qed

lemma call_alloc_cases:
  assumes run: "call_alloc ev tel gateway pbx_pt g = Inr (r, g')"
  obtains (mem) "r = Inl (Sys_err 1)" "g' = g"
    | (sdp) e where "sdp_sess_alloc ev g = Inr (Inl e, g')" "r = Inl e"
    | (connect) i g1 pt pl1 where "sdp_sess_alloc ev g = Inr (Inr i, g1)"
        "call_connect ev tel gateway i pt pl1 g1 = Inr (r, g')"
proof (cases "e_call_mem ev")
  case False
  with run mem show ?thesis by (simp add: call_alloc_def)
next
  case True
  with run obtain pt pl1 r1 g1 where 1: "sdp_sess_alloc ev g = Inr (r1, g1)"
    and 2: "(case r1 of Inl e \<Rightarrow> Inr (Inl e, g1) | Inr i \<Rightarrow> call_connect ev tel gateway i pt pl1 g1) =
      Inr (r, g')" by (force simp: call_alloc_def obind_Inr_iff)
  show ?thesis
  proof (cases r1)
    case (Inl e)
    with 1 2 sdp show ?thesis by simp
  next
    case (Inr i)
    with 1 2 connect show ?thesis by simp
  qed
qed

lemma pool_ok_same:
  assumes "sh_rtp_free g' = sh_rtp_free g" and "\<And>k. rts_in_use (sh_rtp g' k) = rts_in_use (sh_rtp g k)"
  shows "pool_ok g' held = pool_ok g held" "sessions g' held = sessions g held"
  using assms by (simp_all add: pool_ok_def sessions_def)

lemma call_alloc_ok:
  assumes ok: "pool_ok g held" and run: "call_alloc ev tel gateway pbx_pt g = Inr (Inr c, g')"
  shows "pool_ok g' (own_rtp c @ held)" "sessions g' (own_rtp c @ held) = sessions g held"
    "c_pbx_call c = None" "sh_gateways g' = sh_gateways g" "sh_sqllist g' = sh_sqllist g"
    "c_status c = CALL_CONNECTING" "\<not> c_ended c" "c_connect_tm c = e_now ev"
proof -
  have "pool_ok g' (own_rtp c @ held) \<and> sessions g' (own_rtp c @ held) = sessions g held \<and>
      c_pbx_call c = None \<and> sh_gateways g' = sh_gateways g \<and> sh_sqllist g' = sh_sqllist g \<and>
      c_status c = CALL_CONNECTING \<and> \<not> c_ended c \<and> c_connect_tm c = e_now ev"
    using run
  proof (cases rule: call_alloc_cases)
    case (connect i g1 pt pl1)
    note s = sdp_sess_alloc_ok(2) [OF ok connect(1) refl] sdp_sess_alloc_ok(1) [OF ok connect(1)]
    from connect(2) show ?thesis
    proof (cases rule: call_connect_cases)
      case ok': (ok c')
      from ok' s pool_ok_same [OF ok'(4,5), of "i # held"] show ?thesis
        by (auto simp: own_rtp_def)
    qed simp
  qed simp_all
  then show "pool_ok g' (own_rtp c @ held)" "sessions g' (own_rtp c @ held) = sessions g held"
    "c_pbx_call c = None" "sh_gateways g' = sh_gateways g" "sh_sqllist g' = sh_sqllist g"
    "c_status c = CALL_CONNECTING" "\<not> c_ended c" "c_connect_tm c = e_now ev" by simp_all
qed

text \<open>A failed allocation gives its session back, unless the SDP stack failed.\<close>

lemma call_alloc_err:
  assumes ok: "pool_ok g held" and run: "call_alloc ev tel gateway pbx_pt g = Inr (Inl e, g')"
  shows "pool_ok g' held" "sh_gateways g' = sh_gateways g" "sh_sqllist g' = sh_sqllist g"
    "sessions g' held \<subseteq># sessions g held" "size (sessions g held) \<le> size (sessions g' held) + 1"
    "e_sdp_media ev = None \<Longrightarrow> e_sdp_format ev = None \<Longrightarrow> e_sdp_telev ev = None \<Longrightarrow>
      sessions g' held = sessions g held"
proof -
  have "pool_ok g' held \<and> sh_gateways g' = sh_gateways g \<and> sh_sqllist g' = sh_sqllist g \<and>
      sessions g' held \<subseteq># sessions g held \<and> size (sessions g held) \<le> size (sessions g' held) + 1 \<and>
      (e_sdp_media ev = None \<longrightarrow> e_sdp_format ev = None \<longrightarrow> e_sdp_telev ev = None \<longrightarrow>
      sessions g' held = sessions g held)"
    using run
  proof (cases rule: call_alloc_cases)
    case mem
    with ok show ?thesis by simp
  next
    case (sdp e')
    note s = sdp_sess_alloc_ok(3) [OF ok sdp(1) refl] sdp_sess_alloc_ok(1) [OF ok sdp(1)]
    have "g' = g" if "e_sdp_media ev = None" "e_sdp_format ev = None" "e_sdp_telev ev = None"
      using sdp(1) that by (auto simp: sdp_sess_alloc_def find_rtp_session_def split: option.splits if_splits)
    moreover have "sessions g' held \<subseteq># sessions g' (i # held)"
      "size (sessions g' (i # held)) = size (sessions g' held) + 1" for i
      by (simp_all add: sessions_def)
    ultimately show ?thesis using s by auto
  next
    case (connect i g1 pt pl1)
    note s = sdp_sess_alloc_ok(2) [OF ok connect(1) refl] sdp_sess_alloc_ok(1) [OF ok connect(1)]
    from connect(2) show ?thesis
    proof (cases rule: call_connect_cases)
      case (late e' gi)
      from s pool_ok_same [OF late(3,4), of "i # held"] have "pool_ok gi (i # held)"
        "sessions gi (i # held) = sessions g held" by simp_all
      with release_rtp_session_ok [OF this(1)] late s show ?thesis by simp
    qed simp
  qed
  then show "pool_ok g' held" "sh_gateways g' = sh_gateways g" "sh_sqllist g' = sh_sqllist g"
    "sessions g' held \<subseteq># sessions g held" "size (sessions g held) \<le> size (sessions g' held) + 1"
    "e_sdp_media ev = None \<Longrightarrow> e_sdp_format ev = None \<Longrightarrow> e_sdp_telev ev = None \<Longrightarrow>
      sessions g' held = sessions g held" by simp_all
qed

end
