(* ===== verification/App_Campaign.thy ===== *)
theory App_Campaign
  imports App_Call
begin

text \<open>
  Running a campaign (\<open>src/src/main.c\<close>): the ten-second round \<open>start_fake_calling\<close> that moves
  destinations into the process list and places their calls, and the one-second check
  \<open>on_call_end\<close> of a call, which ends it, forwards it, records it and decides whether its
  destination is done or waits for another try.

  Following \<open>le->next\<close> after the destination was released is a use after free, so both
  functions return undefined behaviour as a value.
\<close>

section \<open>Actions\<close>

definition find_campaign_action :: "campaign \<Rightarrow> u8 \<Rightarrow> campaign_action option" where
  "find_campaign_action cp event = List.find (\<lambda>act. act_key act = event) (cp_actions cp)"

section \<open>The check of a call\<close>

text \<open>A call is ended by force by releasing its SIP session.\<close>

definition force_end :: "'p call_of \<Rightarrow> 'p call_of" where
  "force_end c = c\<lparr>c_sess := False, c_ended := True, c_resp_code := 1\<rparr>"

text \<open>Where a call is forwarded: to the gateway and number of the action, or to the PBX.\<close>

definition forward_target ::
  "campaign \<Rightarrow> call \<Rightarrow> shared \<Rightarrow> ub + string option \<times> gateway" where
  "forward_target cp c g =
    (if c_event_received c then
       obind (deref (c_action c)) (\<lambda>a. obind (act_deref cp a) (\<lambda>act.
       obind (deref (act_gateway act)) (\<lambda>b. obind (gw_deref g b) (\<lambda>gw. Inr (act_dest act, gw)))))
     else
       obind (deref (cp_pbx_gateway cp)) (\<lambda>b. obind (gw_deref g b) (\<lambda>gw. Inr (cp_pbx_number cp, gw))))"

definition forward_call :: "env \<Rightarrow> campaign \<Rightarrow> call \<Rightarrow> shared \<Rightarrow> ub + call \<times> shared" where
  "forward_call ev cp c g =
    obind (forward_target cp c g) (\<lambda>(tel, gw).
    obind (call_alloc ev tel (gw_sip_uri gw) (Some (c_pt c)) g) (\<lambda>(r, g). case r of
        Inl e \<Rightarrow> Inr (if e_call_mem ev then c\<lparr>c_pbx_call := None\<rparr> else c, g)
      | Inr p \<Rightarrow> Inr (c\<lparr>c_pbx_call := Some (p\<lparr>c_ispbxcall := True\<rparr>), c_forwarded := True\<rparr>, g)))"

text \<open>The first half of \<open>on_call_end\<close>: what happens to the call itself.\<close>

definition check_call :: "env \<Rightarrow> campaign \<Rightarrow> call \<Rightarrow> shared \<Rightarrow> ub + call \<times> shared" where
  "check_call ev cp c g =
    (if \<not> c_ended c then
       if cp_actions cp = [] \<and> c_status c = CALL_ESTABLISHED \<and> c_num_play c \<ge> cp_max_play cp then
         Inr (force_end c, g)
       else if c_status c = CALL_ESTABLISHED \<and> (c_event_received c \<or> c_join_pbx c) then
         if \<not> c_forwarded c then forward_call ev cp c g
         else if e_now ev - c_establish_tm c > 30 * 60 then Inr (force_end c, g)
         else (case c_pbx_call c of
             None \<Rightarrow> Inr (c, g)
           | Some p \<Rightarrow> Inr (if c_ended p then force_end c else c, g))
       else if \<not> c_forwarded c \<and> c_status c = CALL_ESTABLISHED \<and> cp_max_call_duration cp > 0 \<and>
         e_now ev - c_establish_tm c > uint (cp_max_call_duration cp) then Inr (force_end c, g)
       else if c_status c < CALL_ESTABLISHED \<and> e_now ev - c_connect_tm c > 40 then
         Inr (force_end c, g)
       else Inr (c, g)
     else Inr (c\<lparr>c_sess := False, c_resp_code := 1\<rparr>, g))"

text \<open>The duration so far.\<close>

definition call_duration :: "env \<Rightarrow> 'p call_of \<Rightarrow> int" where
  "call_duration ev c = (if c_status c = CALL_ESTABLISHED then e_now ev - c_establish_tm c else 0)"

text \<open>
  The statements recorded for an ended call; the duration of a forwarded call replaces that of
  the call itself in the variable the second half goes on with.
\<close>

definition forward_record :: "campaign \<Rightarrow> call \<Rightarrow> shared \<Rightarrow> ub + u32 \<times> string option" where
  "forward_record cp c g =
    (if c_event_received c then
       obind (deref (c_action c)) (\<lambda>a. obind (act_deref cp a) (\<lambda>act.
       obind (deref (act_gateway act)) (\<lambda>b. obind (gw_deref g b) (\<lambda>gw. Inr (gw_id gw, act_dest act)))))
     else
       obind (deref (cp_gateway cp)) (\<lambda>b. obind (gw_deref g b) (\<lambda>gw. Inr (gw_id gw, cp_pbx_number cp))))"

definition record_call ::
  "env \<Rightarrow> campaign \<Rightarrow> destination \<Rightarrow> call \<Rightarrow> int \<Rightarrow> shared \<Rightarrow> ub + int \<times> shared" where
  "record_call ev cp d c duration g =
    (let g = queue_sql (Q_end (d_id d) (d_try_count d) (c_status c) duration (c_connect_tm c)
           (c_establish_tm c) (e_now ev) (c_resp_code c) (c_action_key c) (c_action_type c)
           (c_event_received c)) g
     in case c_pbx_call c of
         None \<Rightarrow> Inr (duration, g)
       | Some p \<Rightarrow>
           let duration = call_duration ev p
           in obind (forward_record cp c g) (\<lambda>(gid, to).
                Inr (duration, queue_sql (Q_forward (cp_id cp) gid (d_dest d) to (c_status p) duration
                  (c_connect_tm p) (c_establish_tm p) (e_now ev) (c_resp_code p)) g)))"

text \<open>What becomes of the destination.\<close>

datatype fate = Keep destination | Requeue destination | Destroy

definition on_call_end ::
  "env \<Rightarrow> campaign \<Rightarrow> destination \<Rightarrow> shared \<Rightarrow> ub + fate \<times> shared" where
  "on_call_end ev cp d g =
    obind (deref (d_call d)) (\<lambda>c.
    obind (check_call ev cp c g) (\<lambda>(c, g).
      let duration = call_duration ev c in
      if c_ended c then
        let c = c\<lparr>c_status := CALL_DISCONNECTED\<rparr>
        in obind (record_call ev cp d c duration g) (\<lambda>(duration, g).
             if cp_max_try cp > 0 \<and> d_try_count d \<ge> cp_max_try cp then Inr (Destroy, call_destructor c g)
             else if duration > 0 then Inr (Destroy, call_destructor c g)
             else Inr (Requeue (d\<lparr>d_call := None, d_tmr := False\<rparr>), call_destructor c g))
      else Inr (Keep (d\<lparr>d_call := Some c, d_tmr := True\<rparr>), g)))"

text \<open>Its effect on the campaign, for the destination at a position of the process list.\<close>

definition on_call_end_at :: "env \<Rightarrow> nat \<Rightarrow> campaign \<Rightarrow> shared \<Rightarrow> ub + campaign \<times> shared" where
  "on_call_end_at ev i cp g =
    obind (on_call_end ev cp (cp_processl cp ! i) g) (\<lambda>(f, g). Inr (case f of
        Keep d \<Rightarrow> cp\<lparr>cp_processl := (cp_processl cp)[i := d]\<rparr>
      | Requeue d \<Rightarrow> cp\<lparr>cp_processl := take i (cp_processl cp) @ drop (Suc i) (cp_processl cp),
                       cp_destinations := cp_destinations cp @ [d]\<rparr>
      | Destroy \<Rightarrow> cp\<lparr>cp_processl := take i (cp_processl cp) @ drop (Suc i) (cp_processl cp)\<rparr>, g))"

section \<open>The round of a campaign\<close>

definition destination_sort_handler :: "destination \<Rightarrow> destination \<Rightarrow> bool" where
  "destination_sort_handler d1 d2 \<longleftrightarrow> \<not> d_try_count d1 > d_try_count d2"

text \<open>Whether a destination was tried too recently.\<close>

definition too_early :: "env \<Rightarrow> campaign \<Rightarrow> destination \<Rightarrow> bool" where
  "too_early ev cp d \<longleftrightarrow> d_try_count d > 0 \<and> e_now ev - d_last_try d < uint (cp_retry_delay cp)"

text \<open>The first loop: the waiting destinations that stay, and the process list.\<close>

fun fill_processl ::
  "env \<Rightarrow> campaign \<Rightarrow> destination list \<Rightarrow> destination list \<Rightarrow> destination list \<times> destination list" where
  "fill_processl ev cp [] pl = ([], pl)"
| "fill_processl ev cp (d # ds) pl =
    (if too_early ev cp d then let (ws, pl) = fill_processl ev cp ds pl in (d # ws, pl)
     else
       let pl = pl @ [d]
       in if length pl \<ge> unat (cp_call_limit cp) then (ds, pl) else fill_processl ev cp ds pl)"

text \<open>
  The audio file of a campaign: its name up to the first dot, in the audio directory; without a
  dot the length of the name is a difference with a NULL pointer.
\<close>

definition audio_name :: "string \<Rightarrow> string \<Rightarrow> ub + string" where
  "audio_name audio_path file = (case pl_strchr (Some file) (CHR ''.'') of
      None \<Rightarrow> Inl Out_of_bounds
    | Some k \<Rightarrow> Inr (audio_path @ ''/'' @ take k file @ ''.wav''))"

text \<open>What is done with a call just placed; \<open>None\<close> when it is dropped again.\<close>

definition prepare_call ::
  "env \<Rightarrow> string \<Rightarrow> campaign \<Rightarrow> call \<Rightarrow> shared \<Rightarrow> ub + call option \<times> shared" where
  "prepare_call ev audio_path cp c g = (case cp_file_name cp of
      Some file \<Rightarrow>
        obind (audio_name audio_path file) (\<lambda>audio.
          let c = c\<lparr>c_audio := Some audio\<rparr>
          in Inr (if e_file ev audio then (Some c, g) else (None, call_destructor c g)))
    | None \<Rightarrow>
        Inr (if cp_pbx_gateway cp \<noteq> None \<and> cp_pbx_number cp \<noteq> None
             then (Some (c\<lparr>c_join_pbx := True\<rparr>), g) else (None, call_destructor c g)))"

text \<open>One destination of the second loop. After a failed call the destination is released and
  its list element is followed all the same.\<close>

definition call_placed ::
  "env \<Rightarrow> string \<Rightarrow> campaign \<Rightarrow> destination \<Rightarrow> call \<Rightarrow> shared \<Rightarrow> ub + destination \<times> shared" where
  "call_placed ev audio_path cp d c g =
    (let d = d\<lparr>d_try_count := d_try_count d + 1, d_last_try := e_now ev\<rparr>
     in obind (prepare_call ev audio_path cp c g) (\<lambda>(co, g). case co of
         Some c \<Rightarrow> Inr (d\<lparr>d_call := Some c, d_tmr := True\<rparr>, update_call_status (d_id d) c g)
       | None \<Rightarrow> Inr (d\<lparr>d_call := None, d_try_count := d_try_count d - 1\<rparr>, g)))"

definition place_call ::
  "env \<Rightarrow> string \<Rightarrow> campaign \<Rightarrow> destination \<Rightarrow> shared \<Rightarrow> ub + destination \<times> shared" where
  "place_call ev audio_path cp d g =
    (if d_call d \<noteq> None then Inr (d, g)
     else case cp_gateway cp of None \<Rightarrow> Inr (d, g)
     | Some a \<Rightarrow>
       obind (gw_deref g a) (\<lambda>gw.
       obind (call_alloc ev (d_dest d) (gw_sip_uri gw) None g) (\<lambda>(r, g). case r of
           Inl e \<Rightarrow> Inl Use_after_free
         | Inr c \<Rightarrow> call_placed ev audio_path cp d c g)))"

text \<open>The surroundings may differ from one destination to the next.\<close>

fun place_calls ::
  "(nat \<Rightarrow> env) \<Rightarrow> string \<Rightarrow> campaign \<Rightarrow> destination list \<Rightarrow> shared \<Rightarrow> ub + destination list \<times> shared" where
  "place_calls evs audio_path cp [] g = Inr ([], g)"
| "place_calls evs audio_path cp (d # ds) g =
    obind (place_call (evs (length ds)) audio_path cp d g) (\<lambda>(d, g).
    obind (place_calls evs audio_path cp ds g) (\<lambda>(ds, g). Inr (d # ds, g)))"

definition fill_round :: "env \<Rightarrow> campaign \<Rightarrow> campaign" where
  "fill_round ev cp =
    (if length (cp_processl cp) < unat (cp_call_limit cp) then
       let (ws, pl) = fill_processl ev cp (sort_key d_try_count (cp_destinations cp)) (cp_processl cp)
       in cp\<lparr>cp_destinations := ws, cp_processl := pl\<rparr>
     else cp)"

definition start_fake_calling ::
  "env \<Rightarrow> (nat \<Rightarrow> env) \<Rightarrow> string \<Rightarrow> campaign \<Rightarrow> shared \<Rightarrow> ub + campaign \<times> shared" where
  "start_fake_calling ev evs audio_path cp g =
    (if cp_status cp \<noteq> 2 then Inr (cp\<lparr>cp_is_running := False, cp_tmr := False\<rparr>, g)
     else
       let cp = fill_round ev cp
       in obind (place_calls evs audio_path cp (cp_processl cp) g) (\<lambda>(pl, g).
            Inr (cp\<lparr>cp_processl := pl, cp_tmr := True\<rparr>, g)))"

definition campaign_service_handler ::
  "env \<Rightarrow> (nat \<Rightarrow> env) \<Rightarrow> string \<Rightarrow> campaign \<Rightarrow> shared \<Rightarrow> ub + campaign \<times> shared" where
  "campaign_service_handler ev evs audio_path cp g =
    start_fake_calling ev evs audio_path (cp\<lparr>cp_is_running := True, cp_tmr := False\<rparr>) g"

section \<open>Filling the process list\<close>

lemma destination_sort_handler_le: "destination_sort_handler d1 d2 \<longleftrightarrow> d_try_count d1 \<le> d_try_count d2"
  by (auto simp: destination_sort_handler_def)

lemma fill_processl_split:
  assumes "fill_processl ev cp ds pl = (ws, pl')"
  shows "\<exists>added. pl' = pl @ added \<and> mset ds = mset ws + mset added \<and>
    (\<forall>d\<in>set added. \<not> too_early ev cp d) \<and> length pl' \<le> max (Suc (length pl)) (unat (cp_call_limit cp)) \<and>
    (length pl' < unat (cp_call_limit cp) \<longrightarrow> (\<forall>d\<in>set ws. too_early ev cp d))"
  using assms
proof (induction ds arbitrary: pl ws)
  case Nil
  then show ?case by auto
next
  case (Cons d ds)
  show ?case
  proof (cases "too_early ev cp d")
    case True
    with Cons.prems obtain ws' where w: "fill_processl ev cp ds pl = (ws', pl')" "ws = d # ws'"
      by (auto split: prod.splits)
    from Cons.IH [OF w(1)] True w(2) show ?thesis by fastforce
  next
    case False
    show ?thesis
    proof (cases "length (pl @ [d]) \<ge> unat (cp_call_limit cp)")
      case True
      with False Cons.prems have "pl' = pl @ [d]" "ws = ds" by auto
      with True False show ?thesis by (intro exI [of _ "[d]"]) auto
    next
      case lt: False
      with False Cons.prems have "fill_processl ev cp ds (pl @ [d]) = (ws, pl')" by simp
      from Cons.IH [OF this] obtain added where "pl' = (pl @ [d]) @ added"
        "mset ds = mset ws + mset added" "\<forall>d\<in>set added. \<not> too_early ev cp d"
        "length pl' \<le> max (Suc (length (pl @ [d]))) (unat (cp_call_limit cp))"
        "length pl' < unat (cp_call_limit cp) \<longrightarrow> (\<forall>d\<in>set ws. too_early ev cp d)" by blast
      with False lt show ?thesis by (intro exI [of _ "d # added"]) auto
    qed
  qed
qed

text \<open>Among the destinations that may be tried, those with the fewest tries go first.\<close>

lemma fill_processl_fewest:
  assumes "fill_processl ev cp ds pl = (ws, pl @ added)" and "sorted (List.map d_try_count ds)"
  shows "\<forall>a\<in>set added. \<forall>w\<in>set ws. too_early ev cp w \<or> d_try_count a \<le> d_try_count w"
  using assms
proof (induction ds arbitrary: pl ws added)
  case Nil
  then show ?case by simp
next
  case (Cons d ds)
  from Cons.prems(2) have sd: "sorted (List.map d_try_count ds)" "\<forall>w\<in>set ds. d_try_count d \<le> d_try_count w"
    by auto
  show ?case
  proof (cases "too_early ev cp d")
    case True
    with Cons.prems obtain ws' where w: "fill_processl ev cp ds pl = (ws', pl @ added)" "ws = d # ws'"
      by (auto split: prod.splits)
    from Cons.IH [OF w(1) sd(1)] True w(2) show ?thesis by auto
  next
    case False
    show ?thesis
    proof (cases "length (pl @ [d]) \<ge> unat (cp_call_limit cp)")
      case True
      with False Cons.prems have "added = [d]" "ws = ds" by auto
      with sd show ?thesis by auto
    next
      case lt: False
      with False Cons.prems have f: "fill_processl ev cp ds (pl @ [d]) = (ws, pl @ added)" by simp
      from fill_processl_split [OF f] obtain more where m: "pl @ added = (pl @ [d]) @ more"
        "mset ds = mset ws + mset more" by blast
      then have "added = d # more" by simp
      moreover have "\<forall>a\<in>set more. \<forall>w\<in>set ws. too_early ev cp w \<or> d_try_count a \<le> d_try_count w"
        using Cons.IH [of "pl @ [d]" ws more] f m(1) sd(1) by simp
      moreover have "set ws \<subseteq> set ds" using arg_cong [OF m(2), of set_mset] by auto
      ultimately show ?thesis using sd(2) by auto
    qed
  qed
qed

lemma fill_round_ok:
  shows "\<exists>added. cp_processl (fill_round ev cp) = cp_processl cp @ added \<and>
    mset (cp_destinations cp) = mset (cp_destinations (fill_round ev cp)) + mset added \<and>
    (\<forall>d\<in>set added. \<not> too_early ev cp d) \<and>
    length (cp_processl (fill_round ev cp)) \<le> max (length (cp_processl cp)) (unat (cp_call_limit cp)) \<and>
    (length (cp_processl (fill_round ev cp)) < unat (cp_call_limit cp) \<longrightarrow>
      (\<forall>d\<in>set (cp_destinations (fill_round ev cp)). too_early ev cp d)) \<and>
    (\<forall>a\<in>set added. \<forall>w\<in>set (cp_destinations (fill_round ev cp)).
      too_early ev cp w \<or> d_try_count a \<le> d_try_count w)"
proof (cases "length (cp_processl cp) < unat (cp_call_limit cp)")
  case False
  then show ?thesis by (intro exI [of _ "[]"]) (auto simp: fill_round_def)
next
  case True
  obtain ws pl where f: "fill_processl ev cp (sort_key d_try_count (cp_destinations cp)) (cp_processl cp) = (ws, pl)"
    by (cases "fill_processl ev cp (sort_key d_try_count (cp_destinations cp)) (cp_processl cp)")
  from True f have e: "cp_processl (fill_round ev cp) = pl" "cp_destinations (fill_round ev cp) = ws"
    by (simp_all add: fill_round_def)
  from fill_processl_split [OF f] obtain added where a: "pl = cp_processl cp @ added"
    "mset (cp_destinations cp) = mset ws + mset added" "\<forall>d\<in>set added. \<not> too_early ev cp d"
    "length pl \<le> max (Suc (length (cp_processl cp))) (unat (cp_call_limit cp))"
    "length pl < unat (cp_call_limit cp) \<longrightarrow> (\<forall>d\<in>set ws. too_early ev cp d)" by auto
  have "\<forall>a\<in>set added. \<forall>w\<in>set ws. too_early ev cp w \<or> d_try_count a \<le> d_try_count w"
    by (rule fill_processl_fewest [OF f [unfolded a(1)]]) simp
  with a True show ?thesis unfolding e by (intro exI [of _ added]) auto
qed

lemma fill_round_frame [simp]:
  "cp_id (fill_round ev cp) = cp_id cp" "cp_call_limit (fill_round ev cp) = cp_call_limit cp"
  "cp_max_try (fill_round ev cp) = cp_max_try cp" "cp_status (fill_round ev cp) = cp_status cp"
  "cp_gateway (fill_round ev cp) = cp_gateway cp" "cp_actions (fill_round ev cp) = cp_actions cp"
  "cp_file_name (fill_round ev cp) = cp_file_name cp" "cp_is_running (fill_round ev cp) = cp_is_running cp"
  by (simp_all add: fill_round_def split: prod.splits)

section \<open>Placing the calls\<close>

text \<open>The sessions held by the calls of a list of destinations.\<close>

definition dest_rtp :: "destination \<Rightarrow> nat list" where
  "dest_rtp d = (case d_call d of None \<Rightarrow> [] | Some c \<Rightarrow> call_rtp c)"

definition dests_rtp :: "destination list \<Rightarrow> nat list" where
  "dests_rtp ds = concat (List.map dest_rtp ds)"

lemma dests_rtp_simps [simp]:
  "dests_rtp [] = []" "dests_rtp (d # ds) = dest_rtp d @ dests_rtp ds"
  "dests_rtp (xs @ ys) = dests_rtp xs @ dests_rtp ys"
  by (simp_all add: dests_rtp_def)

text \<open>A call that was not forwarded has no forwarded call.\<close>

definition call_ok :: "call \<Rightarrow> bool" where
  "call_ok c \<longleftrightarrow> (\<not> c_forwarded c \<longrightarrow> c_pbx_call c = None)"

definition dest_call_ok :: "destination \<Rightarrow> bool" where
  "dest_call_ok d \<longleftrightarrow> (\<forall>c. d_call d = Some c \<longrightarrow> call_ok c)"

lemma prepare_call_ok:
  assumes ok: "pool_ok g (call_rtp c @ held)" and run: "prepare_call ev path cp c g = Inr (co, g')"
  shows "pool_ok g' ((case co of None \<Rightarrow> [] | Some c' \<Rightarrow> call_rtp c') @ held)"
    "sessions g' ((case co of None \<Rightarrow> [] | Some c' \<Rightarrow> call_rtp c') @ held) = sessions g (call_rtp c @ held)"
    "sh_gateways g' = sh_gateways g" "sh_sqllist g' = sh_sqllist g"
    "\<And>c'. co = Some c' \<Longrightarrow> c_status c' = c_status c \<and> c_ended c' = c_ended c \<and>
      c_connect_tm c' = c_connect_tm c \<and> c_pbx_call c' = c_pbx_call c \<and> g' = g"
proof -
  have d: "call_destructor (c\<lparr>c_audio := x\<rparr>) g = call_destructor c g" for x
    by (rule call_destructor_cong) simp_all
  have "(pool_ok g' ((case co of None \<Rightarrow> [] | Some c' \<Rightarrow> call_rtp c') @ held) \<and>
    sessions g' ((case co of None \<Rightarrow> [] | Some c' \<Rightarrow> call_rtp c') @ held) = sessions g (call_rtp c @ held) \<and>
    sh_gateways g' = sh_gateways g \<and> sh_sqllist g' = sh_sqllist g) \<and>
    (\<forall>c'. co = Some c' \<longrightarrow> c_status c' = c_status c \<and> c_ended c' = c_ended c \<and>
      c_connect_tm c' = c_connect_tm c \<and> c_pbx_call c' = c_pbx_call c \<and> g' = g)"
    using run ok call_destructor_ok [OF ok]
    by (auto simp: d prepare_call_def obind_Inr_iff Let_def split: option.splits if_splits)
  then show "pool_ok g' ((case co of None \<Rightarrow> [] | Some c' \<Rightarrow> call_rtp c') @ held)"
    "sessions g' ((case co of None \<Rightarrow> [] | Some c' \<Rightarrow> call_rtp c') @ held) = sessions g (call_rtp c @ held)"
    "sh_gateways g' = sh_gateways g" "sh_sqllist g' = sh_sqllist g"
    "\<And>c'. co = Some c' \<Longrightarrow> c_status c' = c_status c \<and> c_ended c' = c_ended c \<and>
      c_connect_tm c' = c_connect_tm c \<and> c_pbx_call c' = c_pbx_call c \<and> g' = g" by blast+
qed

text \<open>
  Placing one call: on success the destination has a call exactly when its try was counted, and
  its sessions are accounted for; the identity of the destination stays.
\<close>

lemma place_call_ok:
  assumes ok: "pool_ok g (dest_rtp d @ held)" and run: "place_call ev path cp d g = Inr (d', g')"
  shows "pool_ok g' (dest_rtp d' @ held) \<and> sessions g' (dest_rtp d' @ held) = sessions g (dest_rtp d @ held) \<and>
    sh_gateways g' = sh_gateways g \<and> d_id d' = d_id d \<and> d_dest d' = d_dest d \<and>
    (d_call d \<noteq> None \<longrightarrow> d' = d) \<and> (d_call d = None \<longrightarrow> dest_call_ok d') \<and>
    (d_call d = None \<longrightarrow> d_try_count d' = d_try_count d + (if d_call d' = None then 0 else 1) \<and>
      (d_call d' \<noteq> None \<longrightarrow> d_tmr d') \<and> (d_call d' = None \<longrightarrow> d_tmr d' = d_tmr d))"
proof (cases "d_call d \<noteq> None \<or> cp_gateway cp = None")
  case True
  with run ok show ?thesis by (auto simp: place_call_def dest_call_ok_def split: option.splits)
next
  case False
  then obtain a where a: "d_call d = None" "cp_gateway cp = Some a" by auto
  with run obtain gw :: gateway and r g1 where 0: "call_alloc ev (d_dest d) (gw_sip_uri gw) None g = Inr (r, g1)"
    and r0: "(case r of Inl e \<Rightarrow> Inl Use_after_free | Inr c \<Rightarrow> call_placed ev path cp d c g1) = Inr (d', g')"
    unfolding place_call_def by (auto elim!: obind_InrE)
  from r0 obtain c where r: "r = Inr c" and 2: "call_placed ev path cp d c g1 = Inr (d', g')"
    by (cases r) auto
  note 1 = 0 [unfolded r]
  have held: "pool_ok g held" using ok a by (simp add: dest_rtp_def)
  note al = call_alloc_ok [OF held 1]
  have c: "own_rtp c = call_rtp c" using al(3) by (simp add: call_rtp_def)
  from 2 obtain co g2 where 3: "prepare_call ev path cp c g1 = Inr (co, g2)"
    and 4: "(case co of
        Some c \<Rightarrow> Inr (d\<lparr>d_try_count := d_try_count d + 1, d_last_try := e_now ev, d_call := Some c,
          d_tmr := True\<rparr>, update_call_status (d_id d) c g2)
      | None \<Rightarrow> Inr (d\<lparr>d_try_count := d_try_count d, d_last_try := e_now ev, d_call := None\<rparr>, g2)) =
        (Inr (d', g') :: ub + destination \<times> shared)"
    by (auto simp: call_placed_def Let_def elim!: obind_InrE cong: option.case_cong)
  note pr = prepare_call_ok [OF al(1) [unfolded c] 3]
  from 4 pr al a c show ?thesis
    by (cases co) (auto simp: dest_rtp_def update_call_status_def queue_sql_def dest_call_ok_def call_ok_def)
qed

lemma place_calls_ok:
  assumes "pool_ok g (dests_rtp ds @ held)" and "place_calls evs path cp ds g = Inr (ds', g')"
  shows "pool_ok g' (dests_rtp ds' @ held) \<and>
    sessions g' (dests_rtp ds' @ held) = sessions g (dests_rtp ds @ held) \<and>
    sh_gateways g' = sh_gateways g \<and>
    list_all2 (\<lambda>d d'. d_id d' = d_id d \<and> d_dest d' = d_dest d \<and> (d_call d \<noteq> None \<longrightarrow> d' = d) \<and>
      (d_call d = None \<longrightarrow> dest_call_ok d') \<and>
      (d_call d = None \<longrightarrow> d_try_count d' = d_try_count d + (if d_call d' = None then 0 else 1) \<and>
        (d_call d' \<noteq> None \<longrightarrow> d_tmr d') \<and> (d_call d' = None \<longrightarrow> d_tmr d' = d_tmr d))) ds ds'"
  using assms
proof (induction ds arbitrary: g held ds' g')
  case Nil
  then show ?case by simp
next
  case (Cons d ds)
  from Cons.prems(2) obtain d1 g1 ds1 where 1: "place_call (evs (length ds)) path cp d g = Inr (d1, g1)"
    "place_calls evs path cp ds g1 = Inr (ds1, g')" "ds' = d1 # ds1"
    by (auto simp: obind_Inr_iff)
  have perm: "mset (dest_rtp x @ dests_rtp ds @ held) = mset (dests_rtp ds @ dest_rtp x @ held)" for x
    by simp
  have "pool_ok g (dest_rtp d @ dests_rtp ds @ held)" using Cons.prems(1) by simp
  note p = place_call_ok [OF this 1(1)]
  from p have "pool_ok g1 (dests_rtp ds @ dest_rtp d1 @ held)" using pool_ok_perm [OF perm] by blast
  note q = Cons.IH [OF this 1(2)]
  have perm': "mset (dests_rtp ds1 @ dest_rtp d1 @ held) = mset (dests_rtp ds' @ held)" by (simp add: 1(3))
  have "sessions g' (dests_rtp ds' @ held) = sessions g (dests_rtp (d # ds) @ held)"
    using p q by (simp add: sessions_def 1(3) ac_simps)
  with p q 1(3) pool_ok_perm [OF perm', of g'] show ?case by simp
qed

section \<open>The invariant of a campaign\<close>

text \<open>
  With a limit on the tries, a destination without a call has tries left and one with a call
  has not exceeded them; a destination has a running timer exactly while it has a call; waiting
  destinations have none; and no destination is in both lists or twice in one.
\<close>

definition tries_ok :: "u8 \<Rightarrow> destination \<Rightarrow> bool" where
  "tries_ok max_try d \<longleftrightarrow> (max_try > 0 \<longrightarrow>
     (if d_call d = None then d_try_count d < max_try else d_try_count d \<le> max_try))"

definition dest_inv :: "u8 \<Rightarrow> destination \<Rightarrow> bool" where
  "dest_inv max_try d \<longleftrightarrow> d_tmr d = (d_call d \<noteq> None) \<and> tries_ok max_try d \<and> dest_call_ok d"

definition camp_ids :: "campaign \<Rightarrow> u32 list" where
  "camp_ids cp = List.map d_id (cp_destinations cp @ cp_processl cp)"

definition camp_inv :: "campaign \<Rightarrow> bool" where
  "camp_inv cp \<longleftrightarrow> (\<forall>d\<in>set (cp_destinations cp). d_call d = None) \<and>
     (\<forall>d\<in>set (cp_destinations cp @ cp_processl cp). dest_inv (cp_max_try cp) d) \<and>
     distinct (camp_ids cp)"

lemma u8_inc: "(a :: u8) < b \<Longrightarrow> a + 1 \<le> b"
  by (rule inc_le)

lemma fill_round_inv:
  assumes "camp_inv cp"
  shows "camp_inv (fill_round ev cp)" "mset (camp_ids (fill_round ev cp)) = mset (camp_ids cp)"
    "dests_rtp (cp_processl (fill_round ev cp)) = dests_rtp (cp_processl cp)"
    "length (cp_processl (fill_round ev cp)) \<le> max (length (cp_processl cp)) (unat (cp_call_limit cp))"
proof -
  obtain added where a: "cp_processl (fill_round ev cp) = cp_processl cp @ added"
    "mset (cp_destinations cp) = mset (cp_destinations (fill_round ev cp)) + mset added"
    and len: "length (cp_processl (fill_round ev cp)) \<le> max (length (cp_processl cp)) (unat (cp_call_limit cp))"
    using fill_round_ok [of ev cp] by blast
  show "length (cp_processl (fill_round ev cp)) \<le> max (length (cp_processl cp)) (unat (cp_call_limit cp))"
    by (rule len)
  have sets: "set (cp_destinations cp) = set (cp_destinations (fill_round ev cp)) \<union> set added"
    using arg_cong [OF a(2), of set_mset] by simp
  show ids: "mset (camp_ids (fill_round ev cp)) = mset (camp_ids cp)"
    using arg_cong [OF a(2), of "image_mset d_id"] by (simp add: camp_ids_def a(1) ac_simps)
  have "distinct (camp_ids (fill_round ev cp))"
    using assms mset_eq_imp_distinct_iff [OF ids] by (simp add: camp_inv_def)
  with assms sets a(1) show "camp_inv (fill_round ev cp)" unfolding camp_inv_def by auto
  have "\<forall>d\<in>set added. d_call d = None" using assms sets by (simp add: camp_inv_def)
  then have "dests_rtp added = []" by (simp add: dests_rtp_def dest_rtp_def)
  then show "dests_rtp (cp_processl (fill_round ev cp)) = dests_rtp (cp_processl cp)" by (simp add: a(1))
qed

text \<open>
  A round keeps the invariant, the destinations, the accounting of the sessions, and never puts
  more destinations into the process list than the limit unless they were there already.
\<close>

lemma start_fake_calling_ok:
  assumes inv: "camp_inv cp" and ok: "pool_ok g (dests_rtp (cp_processl cp) @ held)"
    and run: "start_fake_calling ev evs path cp g = Inr (cp', g')"
  shows "camp_inv cp' \<and> mset (camp_ids cp') = mset (camp_ids cp) \<and>
    pool_ok g' (dests_rtp (cp_processl cp') @ held) \<and>
    sessions g' (dests_rtp (cp_processl cp') @ held) = sessions g (dests_rtp (cp_processl cp) @ held) \<and>
    sh_gateways g' = sh_gateways g \<and>
    length (cp_processl cp') \<le> max (length (cp_processl cp)) (unat (cp_call_limit cp)) \<and>
    cp_call_limit cp' = cp_call_limit cp \<and> cp_max_try cp' = cp_max_try cp"
proof (cases "cp_status cp = 2")
  case False
  with run have "cp' = cp\<lparr>cp_is_running := False, cp_tmr := False\<rparr>" "g' = g"
    by (simp_all add: start_fake_calling_def)
  with inv ok show ?thesis by (simp add: camp_inv_def camp_ids_def)
next
  case True
  define cp1 where "cp1 = fill_round ev cp"
  note f = fill_round_inv [OF inv, of ev, folded cp1_def]
  from True run obtain pl where 1: "place_calls evs path cp1 (cp_processl cp1) g = Inr (pl, g')"
    "cp' = cp1\<lparr>cp_processl := pl, cp_tmr := True\<rparr>"
    unfolding start_fake_calling_def Let_def cp1_def [symmetric] by (auto elim!: obind_InrE)
  note p = place_calls_ok [OF ok [folded f(3)] 1(1)]
  then have l2: "list_all2 (\<lambda>d d'. d_id d' = d_id d \<and> d_dest d' = d_dest d \<and> (d_call d \<noteq> None \<longrightarrow> d' = d) \<and>
      (d_call d = None \<longrightarrow> dest_call_ok d') \<and>
      (d_call d = None \<longrightarrow> d_try_count d' = d_try_count d + (if d_call d' = None then 0 else 1) \<and>
        (d_call d' \<noteq> None \<longrightarrow> d_tmr d') \<and> (d_call d' = None \<longrightarrow> d_tmr d' = d_tmr d))) (cp_processl cp1) pl" by blast
  have "List.map d_id pl = List.map d_id (cp_processl cp1)"
    using l2 by (auto simp: list_all2_conv_all_nth intro: nth_equalityI)
  then have ids: "camp_ids cp' = camp_ids cp1" by (simp add: camp_ids_def 1(2))
  have new: "dest_inv (cp_max_try cp1) d'" if "d' \<in> set pl" for d'
  proof -
    from that obtain n where n: "n < length pl" "d' = pl ! n" by (auto simp: in_set_conv_nth)
    define d where "d = cp_processl cp1 ! n"
    have d: "d \<in> set (cp_processl cp1)" "dest_inv (cp_max_try cp1) d"
      using n l2 f(1) by (auto simp: d_def list_all2_lengthD camp_inv_def)
    from l2 n have r: "(d_call d \<noteq> None \<longrightarrow> d' = d) \<and> (d_call d = None \<longrightarrow> dest_call_ok d') \<and>
      (d_call d = None \<longrightarrow> d_try_count d' = d_try_count d + (if d_call d' = None then 0 else 1) \<and>
        (d_call d' \<noteq> None \<longrightarrow> d_tmr d') \<and> (d_call d' = None \<longrightarrow> d_tmr d' = d_tmr d))"
      by (auto simp: list_all2_conv_all_nth d_def)
    then show ?thesis using d(2)
      by (cases "d_call d = None"; cases "d_call d' = None") (auto simp: dest_inv_def tries_ok_def intro: u8_inc)
  qed
  have "camp_inv cp'"
    using f(1) new ids by (auto simp: camp_inv_def 1(2))
  moreover have "length pl = length (cp_processl cp1)" using l2 by (simp add: list_all2_lengthD)
  ultimately show ?thesis
    using p f ids by (simp add: 1(2)) (simp add: cp1_def)
qed

section \<open>The check of a call\<close>

lemma forward_call_ok:
  assumes ok: "pool_ok g (call_rtp c @ held)" and pbx: "c_pbx_call c = None"
    and run: "forward_call ev cp c g = Inr (c', g')"
  shows "pool_ok g' (call_rtp c' @ held) \<and> sessions g' (call_rtp c' @ held) \<subseteq># sessions g (call_rtp c @ held) \<and>
    sh_gateways g' = sh_gateways g \<and> sh_sqllist g' = sh_sqllist g \<and> call_ok c' \<and>
    c_ended c' = c_ended c \<and> c_status c' = c_status c"
proof -
  from run obtain tel and gw :: gateway and r :: "errno + pbx_call" and g1
    where 1: "call_alloc ev tel (gw_sip_uri gw) (Some (c_pt c)) g = Inr (r, g1)"
    and 2: "(case r of
        Inl e \<Rightarrow> Inr (if e_call_mem ev then c\<lparr>c_pbx_call := None\<rparr> else c, g1)
      | Inr p \<Rightarrow> Inr (c\<lparr>c_pbx_call := Some (p\<lparr>c_ispbxcall := True\<rparr>), c_forwarded := True\<rparr>, g1)) =
      (Inr (c', g') :: ub + call \<times> shared)"
    unfolding forward_call_def by (auto elim!: obind_InrE)
  show ?thesis
  proof (cases r)
    case (Inl e)
    have "c\<lparr>c_pbx_call := None\<rparr> = c" using pbx by (cases c) simp
    with 2 Inl have e: "c' = c" "g' = g1" by (auto split: if_splits)
    from call_alloc_err [OF ok 1 [unfolded Inl]] e pbx show ?thesis by (simp add: call_ok_def)
  next
    case (Inr p)
    with 2 have e: "c' = c\<lparr>c_pbx_call := Some (p\<lparr>c_ispbxcall := True\<rparr>), c_forwarded := True\<rparr>" "g' = g1" by auto
    have perm: "mset (own_rtp p @ call_rtp c @ held) = mset (call_rtp c' @ held)"
      using pbx by (simp add: e call_rtp_def)
    note al = call_alloc_ok [OF ok 1 [unfolded Inr]]
    have "sessions g1 (call_rtp c' @ held) = sessions g1 (own_rtp p @ call_rtp c @ held)"
      unfolding sessions_def perm ..
    with al have "sessions g1 (call_rtp c' @ held) \<subseteq># sessions g (call_rtp c @ held)" by simp
    with al pool_ok_perm [OF perm, of g1] show ?thesis by (simp add: e call_ok_def)
  qed
qed

lemma force_end_simps [simp]:
  "c_ended (force_end c)" "c_resp_code (force_end c) = 1" "call_rtp (force_end d) = call_rtp d"
  "call_ok (force_end d) = call_ok d" "c_pbx_call (force_end c) = c_pbx_call c"
  "c_status (force_end c) = c_status c" "\<not> c_sess (force_end c)" "c_forwarded (force_end c) = c_forwarded c"
  by (simp_all add: force_end_def call_ok_def)

lemma check_call_cases:
  assumes run: "check_call ev cp c g = Inr (c', g')"
  obtains (fwd) "\<not> c_ended c" "\<not> c_forwarded c" "forward_call ev cp c g = Inr (c', g')"
    | (force) "c' = force_end c" "g' = g" | (same) "c' = c" "g' = g" "\<not> c_ended c"
    | (ended) "c' = c\<lparr>c_sess := False, c_resp_code := 1\<rparr>" "g' = g"
proof (cases "c_ended c")
  case True
  with run ended show ?thesis by (simp add: check_call_def)
next
  case e: False
  have "check_call ev cp c g \<in> {Inr (force_end c, g), Inr (c, g), forward_call ev cp c g}"
    "c_forwarded c \<Longrightarrow> check_call ev cp c g \<in> {Inr (force_end c, g), Inr (c, g)}"
    using e unfolding check_call_def by (simp_all split: option.split)
  with run e fwd force same show ?thesis by (cases "c_forwarded c") auto
qed

lemma check_call_ok:
  assumes ok: "pool_ok g (call_rtp c @ held)" and cok: "call_ok c" and run: "check_call ev cp c g = Inr (c', g')"
  shows "pool_ok g' (call_rtp c' @ held) \<and> sessions g' (call_rtp c' @ held) \<subseteq># sessions g (call_rtp c @ held) \<and>
    sh_gateways g' = sh_gateways g \<and> sh_sqllist g' = sh_sqllist g \<and> call_ok c' \<and>
    (c_ended c' \<longrightarrow> c_resp_code c' = 1 \<and> \<not> c_sess c') \<and> c_status c' = c_status c"
proof -
  consider (fwd) "\<not> c_ended c" "\<not> c_forwarded c" "forward_call ev cp c g = Inr (c', g')"
    | (force) "c' = force_end c" "g' = g" | (same) "c' = c" "g' = g" "\<not> c_ended c"
    | (ended) "c' = c\<lparr>c_sess := False, c_resp_code := 1\<rparr>" "g' = g"
    by (rule check_call_cases [OF run])
  then show ?thesis
  proof cases
    case fwd
    then have "c_pbx_call c = None" using cok by (simp add: call_ok_def)
    from forward_call_ok [OF ok this fwd(3)] fwd(1) show ?thesis by simp
  qed (use ok cok in \<open>auto simp: call_ok_def\<close>)
qed

text \<open>A call whose answer does not come within 40 seconds is over at the next check.\<close>

lemma check_call_timeout:
  assumes "c_status c < CALL_ESTABLISHED" and "e_now ev - c_connect_tm c > 40"
  shows "\<exists>c'. check_call ev cp c g = Inr (c', g) \<and> c_ended c' \<and> c_resp_code c' = 1 \<and> \<not> c_sess c' \<and>
    c_status c' = c_status c \<and> c_rtp_sess c' = c_rtp_sess c \<and> c_pbx_call c' = c_pbx_call c"
  using assms by (auto simp: check_call_def force_end_def)

lemma record_call_cases:
  assumes "record_call ev cp d c duration g = Inr (dur', g')"
  obtains (alone) "c_pbx_call c = None" "dur' = duration"
      "g' = queue_sql (Q_end (d_id d) (d_try_count d) (c_status c) duration (c_connect_tm c)
           (c_establish_tm c) (e_now ev) (c_resp_code c) (c_action_key c) (c_action_type c)
           (c_event_received c)) g"
    | (forwarded) p gid to where "c_pbx_call c = Some p" "dur' = call_duration ev p"
      "g' = queue_sql (Q_forward (cp_id cp) gid (d_dest d) to (c_status p) dur'
                  (c_connect_tm p) (c_establish_tm p) (e_now ev) (c_resp_code p))
          (queue_sql (Q_end (d_id d) (d_try_count d) (c_status c) duration (c_connect_tm c)
           (c_establish_tm c) (e_now ev) (c_resp_code c) (c_action_key c) (c_action_type c)
           (c_event_received c)) g)"
proof (cases "c_pbx_call c")
  case None
  with assms show ?thesis by (intro alone) (auto simp: record_call_def Let_def)
next
  case (Some p)
  with assms show ?thesis by (auto simp: record_call_def Let_def elim!: obind_InrE intro: forwarded)
qed

lemma record_call_frame:
  assumes "record_call ev cp d c duration g = Inr (dur', g')"
  shows "pool_ok g' held = pool_ok g held" "sessions g' held = sessions g held"
    "sh_gateways g' = sh_gateways g"
  using assms by (cases rule: record_call_cases; simp add: queue_sql_def)+

text \<open>The three ends of a check, with what the call became and what was recorded.\<close>

lemma on_call_end_cases:
  assumes run: "on_call_end ev cp d g = Inr (f, g')"
  obtains (keep) c c' where "d_call d = Some c" "check_call ev cp c g = Inr (c', g')" "\<not> c_ended c'"
      "f = Keep (d\<lparr>d_call := Some c', d_tmr := True\<rparr>)"
    | (ended) c c' g1 dur g2 where "d_call d = Some c" "check_call ev cp c g = Inr (c', g1)" "c_ended c'"
      "record_call ev cp d (c'\<lparr>c_status := CALL_DISCONNECTED\<rparr>) (call_duration ev c') g1 = Inr (dur, g2)"
      "g' = call_destructor c' g2"
      "f = (if cp_max_try cp > 0 \<and> d_try_count d \<ge> cp_max_try cp \<or> dur > 0 then Destroy
            else Requeue (d\<lparr>d_call := None, d_tmr := False\<rparr>))"
proof -
  from run obtain c c' g1 where 1: "d_call d = Some c" "check_call ev cp c g = Inr (c', g1)"
    and 2: "(if c_ended c' then
        obind (record_call ev cp d (c'\<lparr>c_status := CALL_DISCONNECTED\<rparr>) (call_duration ev c') g1) (\<lambda>(duration, g).
             if cp_max_try cp > 0 \<and> d_try_count d \<ge> cp_max_try cp
               then Inr (Destroy, call_destructor (c'\<lparr>c_status := CALL_DISCONNECTED\<rparr>) g)
             else if duration > 0 then Inr (Destroy, call_destructor (c'\<lparr>c_status := CALL_DISCONNECTED\<rparr>) g)
             else Inr (Requeue (d\<lparr>d_call := None, d_tmr := False\<rparr>),
               call_destructor (c'\<lparr>c_status := CALL_DISCONNECTED\<rparr>) g))
      else Inr (Keep (d\<lparr>d_call := Some c', d_tmr := True\<rparr>), g1)) = Inr (f, g')"
    unfolding on_call_end_def Let_def by (auto elim!: obind_InrE simp: deref_def split: option.splits)
  have d: "call_destructor (c'\<lparr>c_status := CALL_DISCONNECTED\<rparr>) g = call_destructor c' g" for g
    by (rule call_destructor_cong) simp_all
  note 2 = 2 [unfolded d]
  show ?thesis
  proof (cases "c_ended c'")
    case False
    with 1 2 keep show ?thesis by simp
  next
    case True
    with 2 obtain dur g2 where 3:
      "record_call ev cp d (c'\<lparr>c_status := CALL_DISCONNECTED\<rparr>) (call_duration ev c') g1 = Inr (dur, g2)"
      and 4: "(if cp_max_try cp > 0 \<and> d_try_count d \<ge> cp_max_try cp then Inr (Destroy, call_destructor c' g2)
             else if dur > 0 then Inr (Destroy, call_destructor c' g2)
             else Inr (Requeue (d\<lparr>d_call := None, d_tmr := False\<rparr>), call_destructor c' g2)) =
             (Inr (f, g') :: ub + fate \<times> shared)"
      by (auto elim!: obind_InrE)
    from ended [OF 1 True 3] 4 show ?thesis by (simp split: if_splits)
  qed
qed

definition fate_ok :: "campaign \<Rightarrow> destination \<Rightarrow> fate \<Rightarrow> bool" where
  "fate_ok cp d f = (case f of
      Keep d' \<Rightarrow> d_id d' = d_id d \<and> d_call d' \<noteq> None \<and> dest_inv (cp_max_try cp) d'
    | Requeue d' \<Rightarrow> d_id d' = d_id d \<and> d_call d' = None \<and> dest_inv (cp_max_try cp) d'
    | Destroy \<Rightarrow> True)"

definition fate_rtp :: "fate \<Rightarrow> nat list" where
  "fate_rtp f = (case f of Keep d \<Rightarrow> dest_rtp d | Requeue d \<Rightarrow> [] | Destroy \<Rightarrow> [])"

lemma on_call_end_ok:
  assumes ok: "pool_ok g (dest_rtp d @ held)" and inv: "dest_inv (cp_max_try cp) d"
    and run: "on_call_end ev cp d g = Inr (f, g')"
  shows "fate_ok cp d f \<and> pool_ok g' (fate_rtp f @ held) \<and>
    sessions g' (fate_rtp f @ held) \<subseteq># sessions g (dest_rtp d @ held) \<and> sh_gateways g' = sh_gateways g"
  using run
proof (cases rule: on_call_end_cases)
  case (keep c c')
  from inv keep(1) have cok: "call_ok c" by (simp add: dest_inv_def dest_call_ok_def)
  from ok keep(1) have "pool_ok g (call_rtp c @ held)" by (simp add: dest_rtp_def)
  from check_call_ok [OF this cok keep(2)] inv keep show ?thesis
    by (simp add: fate_ok_def fate_rtp_def dest_rtp_def dest_inv_def tries_ok_def dest_call_ok_def)
next
  case (ended c c' g1 dur g2)
  from inv ended(1) have cok: "call_ok c" by (simp add: dest_inv_def dest_call_ok_def)
  from ok ended(1) have pc: "pool_ok g (call_rtp c @ held)" by (simp add: dest_rtp_def)
  note ck = check_call_ok [OF pc cok ended(2)]
  note rc = record_call_frame [OF ended(4)]
  have "pool_ok g2 (call_rtp c' @ held)" using ck rc by simp
  note ds = call_destructor_ok [OF this]
  have f: "fate_rtp f = []" "fate_ok cp d f"
    using inv ended(1,6) by (auto simp: fate_rtp_def fate_ok_def dest_inv_def tries_ok_def dest_call_ok_def)
  show ?thesis using ck rc ds f ended(1,5) by (simp add: dest_rtp_def)
qed

lemma mset_take_drop:
  "i < length xs \<Longrightarrow> mset (take i xs @ drop (Suc i) xs) + {#xs ! i#} = mset xs"
  by (metis add_mset_add_single id_take_nth_drop mset.simps(2) mset_append union_mset_add_mset_right)

text \<open>
  The check of a destination in the process list keeps the invariant of the campaign and the
  accounting of the sessions (a session may be lost when a forwarded call fails in the SDP stack).
\<close>

lemma on_call_end_at_ok:
  assumes inv: "camp_inv cp" and i: "i < length (cp_processl cp)"
    and ok: "pool_ok g (dests_rtp (cp_processl cp) @ held)"
    and run: "on_call_end_at ev i cp g = Inr (cp', g')"
  shows "camp_inv cp' \<and> mset (camp_ids cp') \<subseteq># mset (camp_ids cp) \<and>
    pool_ok g' (dests_rtp (cp_processl cp') @ held) \<and>
    sessions g' (dests_rtp (cp_processl cp') @ held) \<subseteq># sessions g (dests_rtp (cp_processl cp) @ held) \<and>
    sh_gateways g' = sh_gateways g \<and> length (cp_processl cp') \<le> length (cp_processl cp) \<and>
    cp_max_try cp' = cp_max_try cp \<and> cp_call_limit cp' = cp_call_limit cp"
proof -
  define d where "d = cp_processl cp ! i"
  define rest where "rest = take i (cp_processl cp) @ drop (Suc i) (cp_processl cp)"
  from run obtain f where f: "on_call_end ev cp d g = Inr (f, g')"
    and cp': "cp' = (case f of
        Keep d \<Rightarrow> cp\<lparr>cp_processl := (cp_processl cp)[i := d]\<rparr>
      | Requeue d \<Rightarrow> cp\<lparr>cp_processl := rest, cp_destinations := cp_destinations cp @ [d]\<rparr>
      | Destroy \<Rightarrow> cp\<lparr>cp_processl := rest\<rparr>)"
    unfolding on_call_end_at_def d_def rest_def by (auto elim!: obind_InrE)
  have m: "mset (cp_processl cp) = add_mset d (mset rest)"
    using mset_take_drop [OF i] unfolding d_def rest_def by (metis add_mset_add_single)
  have pl: "cp_processl cp = take i (cp_processl cp) @ d # drop (Suc i) (cp_processl cp)"
    unfolding d_def by (rule id_take_nth_drop [OF i])
  have upd: "(cp_processl cp)[i := x] = take i (cp_processl cp) @ x # drop (Suc i) (cp_processl cp)" for x
    by (rule upd_conv_take_nth_drop [OF i])
  have perm: "mset (dests_rtp (take i (cp_processl cp) @ x # drop (Suc i) (cp_processl cp)) @ held) =
      mset (dest_rtp x @ dests_rtp rest @ held)" for x
    by (simp add: rest_def)
  have ses: "sessions h (dests_rtp (take i (cp_processl cp) @ x # drop (Suc i) (cp_processl cp)) @ held) =
      sessions h (dest_rtp x @ dests_rtp rest @ held)" for h x
    unfolding sessions_def perm ..
  have d: "d \<in> set (cp_processl cp)" "set (cp_processl cp) = insert d (set rest)"
    using i arg_cong [OF m, of set_mset] by (auto simp: d_def)
  have dinv: "dest_inv (cp_max_try cp) d" using inv d(1) by (simp add: camp_inv_def)
  have "pool_ok g (dest_rtp d @ dests_rtp rest @ held)"
    using ok pool_ok_perm [OF perm, of g d] pl by simp
  note o = on_call_end_ok [OF this dinv f]
  have s0: "sessions g (dests_rtp (cp_processl cp) @ held) = sessions g (dest_rtp d @ dests_rtp rest @ held)"
    using ses [of g d] pl by simp
  have ids: "mset (camp_ids cp) = add_mset (d_id d) (image_mset d_id (mset (cp_destinations cp)) + image_mset d_id (mset rest))"
    by (simp add: camp_ids_def m)
  have dist: "distinct (camp_ids cp)" using inv by (simp add: camp_inv_def)
  have len: "length (cp_processl cp) = Suc (length rest)" using arg_cong [OF m, of size] by simp
  show ?thesis
  proof (cases f)
    case (Keep d')
    with cp' have e: "cp' = cp\<lparr>cp_processl := (cp_processl cp)[i := d']\<rparr>" by simp
    have k: "d_id d' = d_id d" "d_call d' \<noteq> None" "dest_inv (cp_max_try cp) d'"
      using o Keep by (simp_all add: fate_ok_def)
    have "List.map d_id ((cp_processl cp)[i := d']) = List.map d_id (cp_processl cp)"
      using k(1) i by (simp add: map_update d_def) (metis list_update_id nth_map)
    then have ids': "camp_ids cp' = camp_ids cp" by (simp add: camp_ids_def e)
    have "camp_inv cp'"
      using inv k(3) d(2) ids' i unfolding camp_inv_def
      by (auto simp: e dest!: in_set_takeD in_set_dropD set_update_subset_insert [THEN subsetD])
    with o Keep ids' s0 show ?thesis
      using i ses [of g' d'] pool_ok_perm [OF perm, of g' d'] by (simp add: e upd fate_rtp_def)
  next
    case (Requeue d')
    with cp' have e: "cp' = cp\<lparr>cp_processl := rest, cp_destinations := cp_destinations cp @ [d']\<rparr>" by simp
    have k: "d_id d' = d_id d" "d_call d' = None" "dest_inv (cp_max_try cp) d'"
      using o Requeue by (simp_all add: fate_ok_def)
    have ids': "mset (camp_ids cp') = mset (camp_ids cp)" by (simp add: ids) (simp add: camp_ids_def e k(1))
    then have "distinct (camp_ids cp')" using dist mset_eq_imp_distinct_iff by blast
    then have "camp_inv cp'" using inv k d(2) by (auto simp: camp_inv_def e)
    with o Requeue ids' s0 len show ?thesis by (simp add: e fate_rtp_def)
  next
    case Destroy
    with cp' have e: "cp' = cp\<lparr>cp_processl := rest\<rparr>" by simp
    have ids': "mset (camp_ids cp) = add_mset (d_id d) (mset (camp_ids cp'))" by (simp add: ids) (simp add: camp_ids_def e)
    have "distinct (camp_ids cp')"
      using dist mset_eq_imp_distinct_iff [of "d_id d # camp_ids cp'" "camp_ids cp"] by (simp add: ids')
    then have "camp_inv cp'" using inv d(2) by (auto simp: camp_inv_def e)
    with o Destroy ids' s0 len show ?thesis by (simp add: e fate_rtp_def)
  qed
qed

end
