(* ===== verification/App_Media.thy ===== *)
theory App_Media
  imports App_Campaign
begin

text \<open>
  The media of a call (\<open>src/src/call.c\<close>): the thread \<open>rtpThread\<close> that plays the audio file of the
  campaign as RTP packets, and \<open>rtp_recv_handler\<close>, which picks the action for a pressed key out
  of the received packets and passes the others on to the session joined with this one.

  The lemmas say which packets leave: consecutive sequence numbers, timestamps in steps of a
  frame, the frames of the file in order and then packets without a payload; and that the
  receiver reads a key from the packets of the telephone event sender.
\<close>

section \<open>Playing the audio file\<close>

text \<open>Frame size in bytes, step of the timestamp, pause in milliseconds, and file extension.\<close>

definition codec_params :: "u8 \<Rightarrow> nat \<times> u32 \<times> nat \<times> string" where
  "codec_params codec =
    (if codec = 0 \<or> codec = 8 then (160, 160, 20, if codec = 0 then ''.ulaw'' else ''.alaw'')
     else (40, 320, 40, ''.g729''))"

text \<open>
  The file to play is named after the audio name up to its first dot; without a dot the length
  is a difference with a NULL pointer, and without a name it is 0.
\<close>

definition audio_file :: "string option \<Rightarrow> u8 \<Rightarrow> ub + string" where
  "audio_file audio codec =
    (let ext = snd (snd (snd (codec_params codec)))
     in case audio of None \<Rightarrow> Inr (re_snprintf 512 [[], ext])
        | Some a \<Rightarrow> (case pl_strchr (Some a) (CHR ''.'') of
              None \<Rightarrow> Inl Out_of_bounds
            | Some k \<Rightarrow> Inr (re_snprintf 512 [take k a, ext])))"

text \<open>The frames that \<open>fread\<close> returns whole.\<close>

function frames :: "nat \<Rightarrow> u8 list \<Rightarrow> u8 list list" where
  "frames n bs = (if n = 0 \<or> length bs < n then [] else take n bs # frames n (drop n bs))"
  by auto
termination
  by (relation "measure (\<lambda>(n, bs). length bs)") auto

declare frames.simps [simp del]

text \<open>\<open>rtp_encode\<close> refuses a socket that is not there; its result is ignored by the thread.\<close>

definition call_encode :: "allocator \<Rightarrow> u8 \<Rightarrow> 'p call_of \<Rightarrow> mbuf \<Rightarrow> ub + 'p call_of \<times> mbuf" where
  "call_encode A codec c mb = (case c_rs c of
      None \<Rightarrow> Inr (c, mb)
    | Some rs \<Rightarrow>
        obind (rtp_encode A rs False codec (c_ts c) mb) (\<lambda>(_, rs, mb). Inr (c\<lparr>c_rs := Some rs\<rparr>, mb)))"

text \<open>What \<open>udp_send\<close> sends: the bytes from the position to the end.\<close>

definition dgram :: "mbuf \<Rightarrow> u8 list" where
  "dgram mb = take (mbuf_get_left mb) (drop (mb_pos mb) (mb_buf mb))"

text \<open>One packet with a frame of the file, from the buffer of the loop.\<close>

definition send_frame ::
  "allocator \<Rightarrow> u8 \<Rightarrow> u32 \<Rightarrow> 'p call_of \<Rightarrow> mbuf \<Rightarrow> u8 list \<Rightarrow> ub + u8 list \<times> 'p call_of" where
  "send_frame A codec fts c mb frame =
    (let mb = snd (mbuf_write_mem A (mbuf_set_pos mb RTP_HEADER_SIZE) (Some frame))
     in obind (call_encode A codec c (mbuf_set_pos mb 0)) (\<lambda>(c, mb).
          Inr (dgram (mbuf_set_pos mb 0), c\<lparr>c_ts := c_ts c + fts\<rparr>)))"

text \<open>
  The packet sent when there is nothing to play: the NULL given as its payload writes nothing.
\<close>

definition send_silence ::
  "allocator \<Rightarrow> u8 \<Rightarrow> nat \<Rightarrow> u32 \<Rightarrow> 'p call_of \<Rightarrow> ub + u8 list \<times> 'p call_of" where
  "send_silence A codec fsize fts c = (case mbuf_alloc A (fsize + 12) of
      None \<Rightarrow> Inl Null_deref
    | Some mb \<Rightarrow>
        obind (call_encode A codec c (mbuf_set_pos mb 0)) (\<lambda>(c, mb).
          let mb = snd (mbuf_write_mem A mb None)
          in Inr (dgram (mbuf_set_pos mb 0), c\<lparr>c_ts := c_ts c + fts\<rparr>)))"

text \<open>
  Playing the file once. The main thread sets \<open>ended\<close> and \<open>event_received\<close> while this one runs:
  \<open>stop k\<close> is whether either is set when they are looked at for the \<open>k\<close>th time.
\<close>

fun play_frames ::
  "allocator \<Rightarrow> (nat \<Rightarrow> bool) \<Rightarrow> u8 \<Rightarrow> u32 \<Rightarrow> nat \<Rightarrow> 'p call_of \<Rightarrow> mbuf \<Rightarrow> u8 list list \<Rightarrow>
    ub + nat \<times> u8 list list \<times> 'p call_of" where
  "play_frames A stop codec fts k c mb [] = Inr (k, [], c)"
| "play_frames A stop codec fts k c mb (f # fs) =
    obind (send_frame A codec fts c mb f) (\<lambda>(dg, c).
      if stop k then Inr (Suc k, [dg], c)
      else obind (play_frames A stop codec fts (Suc k) c (mbuf_reset mb) fs) (\<lambda>(k, dgs, c).
             Inr (k, dg # dgs, c)))"

text \<open>
  The thread for at most \<open>n\<close> rounds of its loop; the flag of the result says whether it ended.
  \<open>file\<close> is what \<open>access\<close> and \<open>fopen\<close> find in a round: no file, a file that cannot be opened, or
  its content.
\<close>

datatype audio_source = No_file | Unreadable | Content "u8 list"

fun rtp_loop ::
  "allocator \<Rightarrow> (nat \<Rightarrow> bool) \<Rightarrow> (nat \<Rightarrow> audio_source) \<Rightarrow> u8 \<Rightarrow> u8 \<Rightarrow> nat \<Rightarrow> nat \<Rightarrow> 'p call_of \<Rightarrow>
    ub + bool \<times> u8 list list \<times> 'p call_of" where
  "rtp_loop A stop file codec max_play 0 k c = Inr (False, [], c)"
| "rtp_loop A stop file codec max_play (Suc n) k c =
    (let (fsize, fts, _, _) = codec_params codec;
         continue = (\<lambda>(k, dgs, c).
           if stop k then Inr (True, dgs, c)
           else obind (rtp_loop A stop file codec max_play n (Suc k) c) (\<lambda>(r, dgs', c).
                  Inr (r, dgs @ dgs', c)))
     in if file n = No_file \<or> c_num_play c \<ge> max_play then
          obind (send_silence A codec fsize fts c) (\<lambda>(dg, c). continue (k, [dg], c))
        else case file n of
            Content bs \<Rightarrow>
              (case mbuf_alloc A (fsize + 12) of
                 None \<Rightarrow> if frames fsize bs = [] then continue (k, [], c\<lparr>c_num_play := c_num_play c + 1\<rparr>)
                         else Inl Null_deref
               | Some mb \<Rightarrow>
                   obind (play_frames A stop codec fts k c mb (frames fsize bs)) (\<lambda>(k, dgs, c).
                     continue (k, dgs, c\<lparr>c_num_play := c_num_play c + 1\<rparr>)))
          | _ \<Rightarrow> Inr (True, [], c))"

definition rtpThread ::
  "allocator \<Rightarrow> (nat \<Rightarrow> bool) \<Rightarrow> (string \<Rightarrow> nat \<Rightarrow> audio_source) \<Rightarrow> u8 \<Rightarrow> nat \<Rightarrow> 'p call_of \<Rightarrow>
    ub + bool \<times> u8 list list \<times> 'p call_of" where
  "rtpThread A stop fs max_play n c =
    obind (audio_file (c_audio c) (c_pt c)) (\<lambda>audio.
      rtp_loop A stop (fs audio) (c_pt c) max_play n 0 c)"

section \<open>Received packets\<close>

text \<open>
  The handler of a session: \<open>cp\<close> is the campaign of the call, \<open>c\<close> the call that the session points
  at when \<open>rts_arg\<close> is set. The result has the datagram passed on, with the session it goes to.
\<close>

definition event_action :: "campaign \<Rightarrow> u8 \<Rightarrow> 'p call_of \<Rightarrow> 'p call_of" where
  "event_action cp event c = (case find_campaign_action cp event of
      None \<Rightarrow> c
    | Some act \<Rightarrow>
        let c = c\<lparr>c_action := Some (act_addr act), c_event_received := True,
                  c_action_key := act_key act, c_action_type := act_type act\<rparr>
        in if act_type act > 0 then c\<lparr>c_ended := True\<rparr> else c)"

definition forward_rtp :: "nat \<Rightarrow> mbuf \<Rightarrow> shared \<Rightarrow> (nat \<times> u8 list) option" where
  "forward_rtp i mb g = map_option (\<lambda>j. (j, dgram mb)) (rts_remote (sh_rtp g i))"

definition rtp_recv_telev ::
  "campaign \<Rightarrow> nat \<Rightarrow> mbuf \<Rightarrow> 'p call_of \<Rightarrow> shared \<Rightarrow> 'p call_of \<times> shared \<times> (nat \<times> u8 list) option" where
  "rtp_recv_telev cp i mb c g = (case rts_telev (sh_rtp g i) of
      None \<Rightarrow> (c, g, None)
    | Some tel \<Rightarrow>
        let (r, tel, mb) = telev_recv tel (mbuf_set_pos mb RTP_HEADER_SIZE);
            g = g\<lparr>sh_rtp := (sh_rtp g)(i := (sh_rtp g i)\<lparr>rts_telev := Some tel\<rparr>)\<rparr>
        in case r of
            Inl e \<Rightarrow> (c, g, None)
          | Inr (event, end) \<Rightarrow>
              if end then (event_action cp event c, g, None)
              else (c, g, forward_rtp i (mbuf_set_pos mb 0) g))"

definition rtp_recv_handler ::
  "campaign \<Rightarrow> nat \<Rightarrow> mbuf \<Rightarrow> 'p call_of \<Rightarrow> shared \<Rightarrow>
    ub + 'p call_of \<times> shared \<times> (nat \<times> u8 list) option" where
  "rtp_recv_handler cp i mb c g =
    (if mbuf_get_left mb < RTP_HEADER_SIZE then Inr (c, g, None)
     else if \<not> rts_telev_recv (sh_rtp g i) then Inr (c, g, forward_rtp i mb g)
     else if \<not> rts_arg (sh_rtp g i) then Inl Null_deref
     else if c_event_received c then Inr (c, g, forward_rtp i mb g)
     else case mbuf_read_mem mb 2 of
         (Inl e, mb) \<Rightarrow> Inr (c, g, None)
       | (Inr buf, mb) \<Rightarrow>
           if buf ! 1 AND 0x7f = 101 then Inr (rtp_recv_telev cp i mb c g)
           else Inr (c, g, forward_rtp i (mbuf_set_pos mb 0) g))"

section \<open>The packets that leave\<close>

text \<open>
  A stream of RTP packets: the payloads in order, each with the next sequence number and a
  timestamp one step further.
\<close>

definition next_seq :: "'r rtp_sock \<Rightarrow> 'r rtp_sock" where
  "next_seq rs = rs\<lparr>rs_seq := rs_seq rs + 1\<rparr>"

fun rtp_stream :: "'r rtp_sock \<Rightarrow> u8 \<Rightarrow> u32 \<Rightarrow> u32 \<Rightarrow> u8 list list \<Rightarrow> u8 list list" where
  "rtp_stream rs pt ts fts [] = []"
| "rtp_stream rs pt ts fts (p # ps) =
    (rtp_hdr_bytes (rtp_sent_hdr rs False pt ts) @ p) # rtp_stream (next_seq rs) pt (ts + fts) fts ps"

text \<open>The call after \<open>n\<close> packets.\<close>

definition sent :: "'p call_of \<Rightarrow> unit rtp_sock \<Rightarrow> u32 \<Rightarrow> nat \<Rightarrow> 'p call_of \<Rightarrow> bool" where
  "sent c rs fts n c' \<longleftrightarrow> c_rs c' = Some (rs\<lparr>rs_seq := rs_seq rs + of_nat n\<rparr>) \<and>
     c_ts c' = c_ts c + of_nat n * fts"

lemma sent_0: "c_rs c = Some rs \<Longrightarrow> sent c rs fts 0 c"
  by (simp add: sent_def)

lemma sent_step:
  "sent (c\<lparr>c_rs := Some (next_seq rs), c_ts := c_ts c + fts\<rparr>) (next_seq rs) fts n c' \<longleftrightarrow> sent c rs fts (Suc n) c'"
  by (simp add: sent_def next_seq_def algebra_simps)

lemma sent_trans:
  "sent c rs fts n c1 \<Longrightarrow> c_rs c1 = Some rs1 \<Longrightarrow> sent c1 rs1 fts m c2 \<Longrightarrow> sent c rs fts (n + m) c2"
  by (auto simp: sent_def algebra_simps)

lemma sent_num_play [simp]: "sent c rs fts n (c'\<lparr>c_num_play := x\<rparr>) = sent c rs fts n c'"
  by (simp add: sent_def)

lemma rtp_stream_append:
  "rtp_stream rs pt ts fts (ps @ qs) = rtp_stream rs pt ts fts ps @
    rtp_stream (rs\<lparr>rs_seq := rs_seq rs + of_nat (length ps)\<rparr>) pt (ts + of_nat (length ps) * fts) fts qs"
  by (induction ps arbitrary: rs ts) (simp_all add: next_seq_def algebra_simps)

lemma rtp_stream_nth:
  "i < length ps \<Longrightarrow> rtp_stream rs pt ts fts ps ! i =
    rtp_hdr_bytes (rtp_sent_hdr (rs\<lparr>rs_seq := rs_seq rs + of_nat i\<rparr>) False pt (ts + of_nat i * fts)) @ ps ! i"
proof (induction ps arbitrary: rs ts i)
  case (Cons p ps)
  then show ?case by (cases i) (simp_all add: next_seq_def algebra_simps)
qed simp

lemma length_rtp_stream [simp]: "length (rtp_stream rs pt ts fts ps) = length ps"
  by (induction ps arbitrary: rs ts) simp_all

text \<open>A buffer of the loop: its array has its size, and the size is far from the limit.\<close>

definition buf_ok :: "mbuf \<Rightarrow> bool" where
  "buf_ok mb \<longleftrightarrow> length (mb_buf mb) = mb_size mb \<and> mb_size mb < 2 ^ 32 \<and> mb_end mb = 0"

lemma mbuf_reset_buf_ok: "buf_ok (mbuf_reset mb)"
  by (simp add: buf_ok_def mbuf_reset_def mbuf_init_def)

lemma mbuf_alloc_buf_ok:
  assumes "\<And>n. al_ok A n" and "0 < n" "n < 2 ^ 32"
  obtains mb where "mbuf_alloc A n = Some mb" "buf_ok mb" "mb_pos mb = 0" "mb_size mb = n"
  using assms by (auto simp: mbuf_alloc_def mbuf_resize_def mem_realloc_def mbuf_init_def buf_ok_def)

lemma write_at_12:
  assumes A: "\<And>n. al_ok A n" and ok: "buf_ok mb" and len: "length ys < 2 ^ 32"
  obtains mb' where "mbuf_write_mem A (mbuf_set_pos mb 12) (Some ys) = (None, mb')"
    "mbuf_ok (mbuf_set_pos mb' 0)" "length (mb_rest (mbuf_set_pos mb' 0)) = 12 + length ys"
    "drop 12 (mb_rest (mbuf_set_pos mb' 0)) = ys" "mb_before (mbuf_set_pos mb' 0) = []"
proof -
  define m where "m = mbuf_set_pos mb 12"
  have m: "mb_pos m = 12" "mb_end m = 0" "mb_size m = length (mb_buf m)" "length (mb_buf m) < 2 ^ 32"
    using ok by (simp_all add: m_def mbuf_set_pos_def buf_ok_def)
  define sz where "sz = (if 12 + length ys > mb_size m
      then max (12 + length ys) (if mb_size m \<noteq> 0 then wrap64 (mb_size m * 2) else DEFAULT_SIZE) else mb_size m)"
  define b where "b = take sz (mb_buf m) @ List.map (al_byte A) [length (mb_buf m)..<sz]"
  have sz: "12 + length ys \<le> sz" "sz < 2 ^ 64"
    using m len by (auto simp: sz_def wrap64_def DEFAULT_SIZE_def)
  have sz': "mb_size m \<le> sz" by (auto simp: sz_def)
  then have b: "length b = sz" using m(3) by (simp add: b_def)
  have w: "mbuf_write_mem A m (Some ys) = (None, m\<lparr>mb_buf := splice 12 ys b, mb_size := sz,
      mb_pos := 12 + length ys, mb_end := 12 + length ys\<rparr>)"
  proof (cases "12 + length ys > mb_size m")
    case True
    then show ?thesis using m len A sz b
      by (simp add: mbuf_write_mem_def Let_def mbuf_resize_def mem_realloc_def b_def [symmetric] sz_def [symmetric])
        (auto simp: sz_def b_def)
  next
    case False
    then have "sz = mb_size m" by (simp add: sz_def)
    with False m len show ?thesis by (simp add: mbuf_write_mem_def Let_def b_def)
  qed
  define m' where "m' = mbuf_set_pos (m\<lparr>mb_buf := splice 12 ys b, mb_size := sz,
      mb_pos := 12 + length ys, mb_end := 12 + length ys\<rparr>) 0"
  have sb: "length (splice 12 ys b) = sz" using sz b by (simp add: splice_def)
  have "mbuf_ok m'" using sz sb by (simp add: m'_def mbuf_ok_def mbuf_set_pos_def)
  moreover have r: "mb_rest m' = take (12 + length ys) (splice 12 ys b)"
    by (simp add: m'_def mb_rest_def mbuf_set_pos_def)
  moreover have "drop 12 (mb_rest m') = ys"
    using splice_write(1) [of 12 ys b] sz b by (simp add: r)
  moreover have "mb_before m' = []" by (simp add: m'_def mb_before_def mbuf_set_pos_def)
  ultimately show ?thesis
    using w sb sz by (intro that [of "m\<lparr>mb_buf := splice 12 ys b, mb_size := sz,
      mb_pos := 12 + length ys, mb_end := 12 + length ys\<rparr>"]) (simp_all add: m_def m'_def)
qed

lemma dgram_rest: "mbuf_ok mb \<Longrightarrow> dgram mb = mb_rest mb"
  using mbuf_get_left_ok [of mb] length_mb_rest [of mb] by (simp add: dgram_def) (simp add: mb_rest_def)

lemma call_encode_eq:
  assumes rs: "c_rs c = Some rs" and pt: "codec \<le> 127" and can: "can_write A mb 12"
    and b: "mb_before mb = []"
  obtains mb' where "call_encode A codec c mb = Inr (c\<lparr>c_rs := Some (next_seq rs)\<rparr>, mb')"
    "dgram (mbuf_set_pos mb' 0) = rtp_hdr_bytes (rtp_sent_hdr rs False codec (c_ts c)) @ drop 12 (mb_rest mb)"
proof -
  define hdr where "hdr = rtp_sent_hdr rs False codec (c_ts c)"
  have hdr: "rtp_hdr_ok hdr" "length (rtp_hdr_bytes hdr) = 12"
    using rtp_sent_hdr_ok [OF pt] by (simp_all add: hdr_def)
  from rtp_hdr_encode_can [OF hdr(1), of A mb] can hdr(2) b obtain m where
    1: "rtp_hdr_encode A mb hdr = Inr (None, m)" "mbuf_ok m" "mb_before m = rtp_hdr_bytes hdr"
    "mb_rest m = drop 12 (mb_rest mb)" by auto
  have "rtp_encode A rs False codec (c_ts c) mb = Inr (None, next_seq rs, m)"
    using pt_mask [OF pt] 1(1)
    by (simp add: rtp_encode_def Let_def hdr_def rtp_sent_hdr_def rtp_hdr_zero_def next_seq_def)
  moreover have "dgram (mbuf_set_pos m 0) = rtp_hdr_bytes hdr @ drop 12 (mb_rest mb)"
    using mbuf_set_pos_cursor [OF 1(2), of 0] 1(2-) dgram_rest [of "mbuf_set_pos m 0"]
    by (simp add: mb_content_split)
  ultimately show ?thesis using rs by (intro that [of m]) (simp_all add: call_encode_def hdr_def)
qed

lemma send_frame_eq:
  assumes A: "\<And>n. al_ok A n" and ok: "buf_ok mb" and len: "length f < 2 ^ 32"
    and rs: "c_rs c = Some rs" and pt: "codec \<le> 127"
  shows "send_frame A codec fts c mb f =
    Inr (rtp_hdr_bytes (rtp_sent_hdr rs False codec (c_ts c)) @ f,
      c\<lparr>c_rs := Some (next_seq rs), c_ts := c_ts c + fts\<rparr>)"
proof -
  obtain m where m: "mbuf_write_mem A (mbuf_set_pos mb 12) (Some f) = (None, m)"
    "mbuf_ok (mbuf_set_pos m 0)" "length (mb_rest (mbuf_set_pos m 0)) = 12 + length f"
    "drop 12 (mb_rest (mbuf_set_pos m 0)) = f" "mb_before (mbuf_set_pos m 0) = []"
    by (rule write_at_12 [OF A ok len])
  have "can_write A (mbuf_set_pos m 0) 12" using m A by (simp add: can_write_def)
  from call_encode_eq [OF rs pt this m(5)] m(4) obtain m' where
    "call_encode A codec c (mbuf_set_pos m 0) = Inr (c\<lparr>c_rs := Some (next_seq rs)\<rparr>, m')"
    "dgram (mbuf_set_pos m' 0) = rtp_hdr_bytes (rtp_sent_hdr rs False codec (c_ts c)) @ f" by auto
  then show ?thesis by (simp add: send_frame_def RTP_HEADER_SIZE_def m(1))
qed

text \<open>A packet of silence is a bare header.\<close>

lemma send_silence_eq:
  assumes A: "\<And>n. al_ok A n" and n: "n < 2 ^ 31" and rs: "c_rs c = Some rs" and pt: "codec \<le> 127"
  shows "send_silence A codec n fts c =
    Inr (rtp_hdr_bytes (rtp_sent_hdr rs False codec (c_ts c)),
      c\<lparr>c_rs := Some (next_seq rs), c_ts := c_ts c + fts\<rparr>)"
proof -
  have "0 < n + 12" "n + 12 < 2 ^ 32" using n by simp_all
  from mbuf_alloc_buf_ok [OF A this] obtain mb where mb: "mbuf_alloc A (n + 12) = Some mb"
    "buf_ok mb" "mb_pos mb = 0" by blast
  have z: "mbuf_set_pos mb 0 = mb" using mb(3) by (simp add: mbuf_set_pos_def)
  have m0: "mbuf_ok mb" "mb_rest mb = []" "mb_before mb = []"
    using mb by (simp_all add: buf_ok_def mbuf_ok_def mb_rest_def mb_before_def)
  then have "can_write A mb 12" using A by (simp add: can_write_def)
  from call_encode_eq [OF rs pt this m0(3)] m0(2) obtain m' where
    "call_encode A codec c mb = Inr (c\<lparr>c_rs := Some (next_seq rs)\<rparr>, m')"
    "dgram (mbuf_set_pos m' 0) = rtp_hdr_bytes (rtp_sent_hdr rs False codec (c_ts c))" by auto
  then show ?thesis by (simp add: send_silence_def mb(1) z)
qed

text \<open>Playing the file sends its frames as a stream, up to the first time the call is over.\<close>

lemma play_frames_eq:
  assumes A: "\<And>n. al_ok A n" and pt: "codec \<le> 127"
  shows "buf_ok mb \<Longrightarrow> \<forall>f\<in>set fs. length f < 2 ^ 32 \<Longrightarrow> c_rs c = Some rs \<Longrightarrow>
    \<exists>m c'. play_frames A stop codec fts k c mb fs =
        Inr (k + m, rtp_stream rs codec (c_ts c) fts (take m fs), c') \<and>
      sent c rs fts m c' \<and> c_num_play c' = c_num_play c \<and> m \<le> length fs \<and>
      ((\<forall>j. \<not> stop j) \<longrightarrow> m = length fs)"
proof (induction fs arbitrary: k c mb rs)
  case Nil
  then show ?case by (auto simp: sent_0)
next
  case (Cons f fs)
  define c1 where "c1 = c\<lparr>c_rs := Some (next_seq rs), c_ts := c_ts c + fts\<rparr>"
  have f: "send_frame A codec fts c mb f =
      Inr (rtp_hdr_bytes (rtp_sent_hdr rs False codec (c_ts c)) @ f, c1)"
    using send_frame_eq [OF A Cons.prems(1) _ Cons.prems(3) pt] Cons.prems(2) by (simp add: c1_def)
  show ?case
  proof (cases "stop k")
    case True
    with f show ?thesis
      by (intro exI [of _ 1] exI [of _ c1]) (auto simp: c1_def sent_def next_seq_def)
  next
    case False
    have "c_rs c1 = Some (next_seq rs)" "c_ts c1 = c_ts c + fts" "c_num_play c1 = c_num_play c"
      by (simp_all add: c1_def)
    with Cons.IH [OF mbuf_reset_buf_ok, of c1 "next_seq rs" "Suc k" mb] Cons.prems(2) obtain m c' where
      "play_frames A stop codec fts (Suc k) c1 (mbuf_reset mb) fs =
        Inr (Suc k + m, rtp_stream (next_seq rs) codec (c_ts c + fts) fts (take m fs), c')"
      "sent c1 (next_seq rs) fts m c'" "c_num_play c' = c_num_play c" "m \<le> length fs"
      "(\<forall>j. \<not> stop j) \<longrightarrow> m = length fs" by auto
    with f False show ?thesis
      by (intro exI [of _ "Suc m"] exI [of _ c']) (simp add: c1_def sent_step)
  qed
qed

lemma frames_length: "f \<in> set (frames n bs) \<Longrightarrow> length f = n"
proof (induction n bs rule: frames.induct)
  case (1 n bs)
  then show ?case using frames.simps [of n bs] by (auto split: if_splits)
qed

lemma codec_params_bounds:
  assumes "codec_params codec = (fsize, fts, ms, ext)"
  shows "0 < fsize" "fsize + 12 < 2 ^ 31"
  using assms by (auto simp: codec_params_def split: if_splits)

text \<open>
  Whatever the file and whenever the call ends, the thread sends one stream, of frames of the
  file and empty packets, and never does anything undefined while there is memory.
\<close>

definition fsize_of :: "u8 \<Rightarrow> nat" where
  "fsize_of codec = fst (codec_params codec)"

definition fts_of :: "u8 \<Rightarrow> u32" where
  "fts_of codec = fst (snd (codec_params codec))"

lemma codec_params_of: "\<exists>ms ext. codec_params codec = (fsize_of codec, fts_of codec, ms, ext)"
  by (cases "codec_params codec") (auto simp: fsize_of_def fts_of_def)

text \<open>A round of the loop: it sends some packets, and says whether the thread ends there.\<close>

definition rtp_round ::
  "allocator \<Rightarrow> (nat \<Rightarrow> bool) \<Rightarrow> audio_source \<Rightarrow> u8 \<Rightarrow> u8 \<Rightarrow> nat \<Rightarrow> 'p call_of \<Rightarrow>
    ub + (nat \<times> u8 list list \<times> 'p call_of) option" where
  "rtp_round A stop src codec max_play k c =
    (if src = No_file \<or> c_num_play c \<ge> max_play then
       obind (send_silence A codec (fsize_of codec) (fts_of codec) c) (\<lambda>(dg, c). Inr (Some (k, [dg], c)))
     else case src of
         Content bs \<Rightarrow>
           (case mbuf_alloc A (fsize_of codec + 12) of
              None \<Rightarrow> if frames (fsize_of codec) bs = [] then Inr (Some (k, [], c\<lparr>c_num_play := c_num_play c + 1\<rparr>))
                      else Inl Null_deref
            | Some mb \<Rightarrow>
                obind (play_frames A stop codec (fts_of codec) k c mb (frames (fsize_of codec) bs)) (\<lambda>(k, dgs, c).
                  Inr (Some (k, dgs, c\<lparr>c_num_play := c_num_play c + 1\<rparr>))))
       | _ \<Rightarrow> Inr None)"

lemma rtp_loop_Suc:
  "rtp_loop A stop file codec max_play (Suc n) k c =
    obind (rtp_round A stop (file n) codec max_play k c) (\<lambda>r. case r of
        None \<Rightarrow> Inr (True, [], c)
      | Some (k, dgs, c) \<Rightarrow>
          if stop k then Inr (True, dgs, c)
          else obind (rtp_loop A stop file codec max_play n (Suc k) c) (\<lambda>(r, dgs', c). Inr (r, dgs @ dgs', c)))"
proof -
  obtain ms ext where p: "codec_params codec = (fsize_of codec, fts_of codec, ms, ext)"
    using codec_params_of by blast
  show ?thesis
  proof (cases "file n = No_file \<or> c_num_play c \<ge> max_play")
    case True
    with p show ?thesis
      by (cases "send_silence A codec (fsize_of codec) (fts_of codec) c") (auto simp: rtp_round_def)
  next
    case False
    then show ?thesis
    proof (cases "file n")
      case (Content bs)
      show ?thesis
      proof (cases "mbuf_alloc A (fsize_of codec + 12)")
        case None
        with p False Content show ?thesis by (simp add: rtp_round_def)
      next
        case (Some mb)
        with p False Content show ?thesis
          by (cases "play_frames A stop codec (fts_of codec) k c mb (frames (fsize_of codec) bs)")
            (auto simp: rtp_round_def)
      qed
    qed (use p in \<open>simp_all add: rtp_round_def\<close>)
  qed
qed

declare rtp_loop.simps(2) [simp del]

lemma rtp_round_eq:
  assumes A: "\<And>n. al_ok A n" and pt: "codec \<le> 127" and rs: "c_rs c = Some rs"
  shows "src = Unreadable \<and> c_num_play c < max_play \<and> rtp_round A stop src codec max_play k c = Inr None \<or>
    (\<exists>ps k' c'. rtp_round A stop src codec max_play k c =
        Inr (Some (k', rtp_stream rs codec (c_ts c) (fts_of codec) ps, c')) \<and>
      sent c rs (fts_of codec) (length ps) c' \<and>
      (c_num_play c \<ge> max_play \<or> src = No_file \<longrightarrow> ps = [[]] \<and> c_num_play c' = c_num_play c) \<and>
      (c_num_play c < max_play \<longrightarrow> (\<forall>bs. src = Content bs \<longrightarrow> c_num_play c' = c_num_play c + 1 \<and>
        (\<exists>m \<le> length (frames (fsize_of codec) bs). ps = take m (frames (fsize_of codec) bs) \<and>
          ((\<forall>j. \<not> stop j) \<longrightarrow> m = length (frames (fsize_of codec) bs))))))"
proof (cases "src = No_file \<or> c_num_play c \<ge> max_play")
  case True
  have "fsize_of codec < 2 ^ 31" by (simp add: fsize_of_def codec_params_def)
  from send_silence_eq [OF A this rs pt, of "fts_of codec"] True rs show ?thesis
    by (intro disjI2 exI [of _ "[[]]"]) (auto simp: rtp_round_def sent_def next_seq_def)
next
  case False
  show ?thesis
  proof (cases src)
    case (Content bs)
    have n: "0 < fsize_of codec + 12" "fsize_of codec + 12 < 2 ^ 32"
      by (simp_all add: fsize_of_def codec_params_def)
    have "\<forall>f\<in>set (frames (fsize_of codec) bs). length f < 2 ^ 32"
      using n(2) by (auto dest!: frames_length)
    with mbuf_alloc_buf_ok [OF A n] play_frames_eq [OF A pt, of _ "frames (fsize_of codec) bs" c rs stop "fts_of codec" k] rs
    obtain mb m c' where "mbuf_alloc A (fsize_of codec + 12) = Some mb"
      "play_frames A stop codec (fts_of codec) k c mb (frames (fsize_of codec) bs) =
        Inr (k + m, rtp_stream rs codec (c_ts c) (fts_of codec) (take m (frames (fsize_of codec) bs)), c')"
      "sent c rs (fts_of codec) m c'" "c_num_play c' = c_num_play c"
      "m \<le> length (frames (fsize_of codec) bs)" "(\<forall>j. \<not> stop j) \<longrightarrow> m = length (frames (fsize_of codec) bs)"
      by metis
    with False Content show ?thesis
      by (intro disjI2 exI [of _ "take m (frames (fsize_of codec) bs)"]) (auto simp: rtp_round_def min_absorb2)
  qed (use False in \<open>auto simp: rtp_round_def\<close>)
qed

lemma rtp_loop_stream:
  assumes A: "\<And>n. al_ok A n" and pt: "codec \<le> 127" and "c_rs c = Some rs"
  shows "\<exists>r ps c'. rtp_loop A stop file codec max_play n k c =
      Inr (r, rtp_stream rs codec (c_ts c) (fts_of codec) ps, c') \<and>
    sent c rs (fts_of codec) (length ps) c' \<and> (\<forall>p\<in>set ps. p = [] \<or> length p = fsize_of codec)"
  using assms(3)
proof (induction n arbitrary: k c rs)
  case 0
  then show ?case by (auto intro: exI [of _ "[]"] simp: sent_0)
next
  case (Suc n)
  note r = rtp_round_eq [OF A pt Suc.prems, of "file n" max_play stop k]
  show ?case
  proof (cases "file n = Unreadable \<and> c_num_play c < max_play")
    case True
    then have "file n = Unreadable" "\<not> max_play \<le> c_num_play c" by (simp_all add: not_le)
    then have "rtp_round A stop (file n) codec max_play k c = Inr None" by (simp add: rtp_round_def)
    then show ?thesis using Suc.prems by (auto simp: rtp_loop_Suc sent_0 intro!: exI [of _ "[]"])
  next
    case False
    with r obtain ps k1 c1 where 1: "rtp_round A stop (file n) codec max_play k c =
        Inr (Some (k1, rtp_stream rs codec (c_ts c) (fts_of codec) ps, c1))"
      "sent c rs (fts_of codec) (length ps) c1"
      and 0: "c_num_play c \<ge> max_play \<or> file n = No_file \<longrightarrow> ps = [[]] \<and> c_num_play c1 = c_num_play c"
      "c_num_play c < max_play \<longrightarrow> (\<forall>bs. file n = Content bs \<longrightarrow> c_num_play c1 = c_num_play c + 1 \<and>
        (\<exists>m \<le> length (frames (fsize_of codec) bs). ps = take m (frames (fsize_of codec) bs) \<and>
          ((\<forall>j. \<not> stop j) \<longrightarrow> m = length (frames (fsize_of codec) bs))))" by blast
    have ps: "c_num_play c \<ge> max_play \<or> file n = No_file \<longrightarrow> ps = [[]]"
      "\<And>bs. c_num_play c < max_play \<Longrightarrow> file n = Content bs \<Longrightarrow> \<exists>m. ps = take m (frames (fsize_of codec) bs)"
      using 0 by blast+
    have len: "p = [] \<or> length p = fsize_of codec" if p: "p \<in> set ps" for p
    proof (cases "c_num_play c \<ge> max_play \<or> file n = No_file")
      case True
      with ps(1) p show ?thesis by simp
    next
      case lt: False
      with False obtain bs where "file n = Content bs" "c_num_play c < max_play"
        by (cases "file n") (auto simp: not_le)
      with ps(2) p show ?thesis by (metis frames_length in_set_takeD)
    qed
    show ?thesis
    proof (cases "stop k1")
      case True
      with 1 len show ?thesis by (auto simp: rtp_loop_Suc)
    next
      case go: False
      obtain rs1 where rs1: "c_rs c1 = Some rs1" "rs1 = rs\<lparr>rs_seq := rs_seq rs + of_nat (length ps)\<rparr>"
        "c_ts c1 = c_ts c + of_nat (length ps) * fts_of codec" using 1(2) by (simp add: sent_def)
      from Suc.IH [OF rs1(1), of "Suc k1"] obtain r qs c2 where
        2: "rtp_loop A stop file codec max_play n (Suc k1) c1 =
          Inr (r, rtp_stream rs1 codec (c_ts c1) (fts_of codec) qs, c2)"
        "sent c1 rs1 (fts_of codec) (length qs) c2" "\<forall>p\<in>set qs. p = [] \<or> length p = fsize_of codec" by blast
      from sent_trans [OF 1(2) rs1(1) 2(2)] 1(1) 2 go len show ?thesis
        by (intro exI [of _ r] exI [of _ "ps @ qs"] exI [of _ c2])
          (auto simp: rtp_loop_Suc rtp_stream_append rs1(2,3))
    qed
  qed
qed

text \<open>
  While nothing ends the call, the file is played as often as the campaign says, and silence
  follows.
\<close>

lemma rtp_loop_plays:
  assumes A: "\<And>n. al_ok A n" and pt: "codec \<le> 127" and stop: "\<And>j. \<not> stop j"
    and src: "\<And>n. file n = Content bs"
  shows "c_rs c = Some rs \<Longrightarrow> unat max_play = unat (c_num_play c) + m \<Longrightarrow>
    \<exists>c'. rtp_loop A stop file codec max_play (m + s) k c =
      Inr (False, rtp_stream rs codec (c_ts c) (fts_of codec)
        (concat (replicate m (frames (fsize_of codec) bs)) @ replicate s []), c') \<and>
    c_num_play c' = max_play"
proof (induction "m + s" arbitrary: m s k c rs)
  case 0
  then show ?case by (auto simp: word_unat_eq_iff)
next
  case (Suc n)
  note r = rtp_round_eq [OF A pt Suc.prems(1), of "file n" max_play stop k]
  obtain fs m' s' c1 k1 where 1: "rtp_round A stop (file n) codec max_play k c =
      Inr (Some (k1, rtp_stream rs codec (c_ts c) (fts_of codec) fs, c1))"
    "sent c rs (fts_of codec) (length fs) c1" "n = m' + s'" "unat max_play = unat (c_num_play c1) + m'"
    "concat (replicate m (frames (fsize_of codec) bs)) @ replicate s [] =
      fs @ concat (replicate m' (frames (fsize_of codec) bs)) @ replicate s' []"
  proof (cases m)
    case 0
    then obtain s' where s: "s = Suc s'" using Suc.hyps(2) by (cases s) auto
    have "max_play \<le> c_num_play c" using Suc.prems(2) 0 by (simp add: word_le_nat_alt)
    with r obtain c1 k1 where "rtp_round A stop (file n) codec max_play k c =
        Inr (Some (k1, rtp_stream rs codec (c_ts c) (fts_of codec) [[]], c1))"
      "sent c rs (fts_of codec) (length [[]]) c1" "c_num_play c1 = c_num_play c" by (auto simp: leD)
    with 0 s Suc show ?thesis by (intro that [of k1 "[[]]" c1 0 s']) auto
  next
    case (Suc m')
    then have lt: "c_num_play c < max_play" using Suc.prems(2) by (simp add: word_less_nat_alt)
    with r src [of n] stop obtain c1 k1 where 2: "rtp_round A stop (file n) codec max_play k c =
        Inr (Some (k1, rtp_stream rs codec (c_ts c) (fts_of codec) (frames (fsize_of codec) bs), c1))"
      "sent c rs (fts_of codec) (length (frames (fsize_of codec) bs)) c1" "c_num_play c1 = c_num_play c + 1"
      by auto
    have "unat max_play < 2 ^ LENGTH(8)" by (rule unsigned_less)
    then have "unat (c_num_play c + 1) = unat (c_num_play c) + 1"
      using lt by (simp add: word_less_nat_alt unat_word_ariths)
    with 2 Suc Suc.prems Suc.hyps(2) show ?thesis
      by (intro that [of k1 "frames (fsize_of codec) bs" c1 m' s]) auto
  qed
  obtain rs1 where rs1: "c_rs c1 = Some rs1" "rs1 = rs\<lparr>rs_seq := rs_seq rs + of_nat (length fs)\<rparr>"
    "c_ts c1 = c_ts c + of_nat (length fs) * fts_of codec" using 1(2) by (simp add: sent_def)
  from Suc.hyps(1) [OF 1(3) rs1(1) 1(4), of "Suc k1"] 1(1) stop show ?case
    by (auto simp: Suc.hyps(2) [symmetric] rtp_loop_Suc 1(3) [symmetric] 1(5) rtp_stream_append rs1(2,3))
qed

section \<open>The packets that arrive\<close>

text \<open>The other side reads the stream back.\<close>

definition rx_frame :: "'r rtp_sock \<Rightarrow> u8 list \<Rightarrow> (u8 \<times> u16 \<times> u32 \<times> u8 list) option" where
  "rx_frame rs d = (case udp_recv_handler rs (mbuf_of d) of
      Rx_rtp hdr mb \<Rightarrow> Some (hdr_pt hdr, hdr_seq hdr, hdr_ts hdr, mb_rest mb) | _ \<Rightarrow> None)"

lemma rx_frame_packet:
  assumes "\<not> rs_rtcp_mux rx" and "pt \<le> 127" and "length p < 2 ^ 32"
  shows "rx_frame rx (rtp_hdr_bytes (rtp_sent_hdr rs False pt ts) @ p) = Some (pt, rs_seq rs, ts, p)"
proof -
  note h = rtp_sent_hdr_ok [OF assms(2), of rs False ts]
  have "length (rtp_hdr_bytes (rtp_sent_hdr rs False pt ts) @ p) < 2 ^ 64"
    using h(2) assms(3) by simp
  from udp_recv_handler_datagram [OF h(1) _ _ this assms(1)] show ?thesis
    by (auto simp: rx_frame_def rtp_sent_hdr_def rtp_hdr_zero_def)
qed

lemma rx_frames_stream:
  assumes "\<not> rs_rtcp_mux rx" and "pt \<le> 127" and "\<forall>p\<in>set ps. length p < 2 ^ 32"
  shows "List.map (rx_frame rx) (rtp_stream rs pt ts fts ps) =
    List.map (\<lambda>i. Some (pt, rs_seq rs + of_nat i, ts + of_nat i * fts, ps ! i)) [0..<length ps]"
proof (rule nth_equalityI)
  fix i assume "i < length (List.map (rx_frame rx) (rtp_stream rs pt ts fts ps))"
  then have i: "i < length ps" by simp
  with assms(3) have "length (ps ! i) < 2 ^ 32" by simp
  from rx_frame_packet [OF assms(1,2) this, of "rs\<lparr>rs_seq := rs_seq rs + of_nat i\<rparr>" "ts + of_nat i * fts"] i
  show "List.map (rx_frame rx) (rtp_stream rs pt ts fts ps) ! i =
    List.map (\<lambda>i. Some (pt, rs_seq rs + of_nat i, ts + of_nat i * fts, ps ! i)) [0..<length ps] ! i"
    by (simp add: rtp_stream_nth)
qed simp

text \<open>A session that listens for telephone events, and a packet of one.\<close>

definition listening :: "shared \<Rightarrow> nat \<Rightarrow> telev \<Rightarrow> bool" where
  "listening g i tel \<longleftrightarrow> rts_telev_recv (sh_rtp g i) \<and> rts_arg (sh_rtp g i) \<and> rts_telev (sh_rtp g i) = Some tel"

definition event_hdr :: "rtp_header \<Rightarrow> bool" where
  "event_hdr hdr \<longleftrightarrow> rtp_hdr_ok hdr \<and> hdr_cc hdr = 0 \<and> hdr_pt hdr = 101"

definition event_dgram :: "rtp_header \<times> packet \<Rightarrow> u8 list" where
  "event_dgram p = rtp_hdr_bytes (fst p) @ packet_bytes (snd p)"

lemma rtp_recv_event:
  assumes l: "listening g i tel" and hdr: "event_hdr hdr" and c: "\<not> c_event_received c"
  shows "rtp_recv_handler cp i (mbuf_of (event_dgram (hdr, (m, ev, end, dur)))) c g =
    Inr (rtp_recv_telev cp i (mbuf_set_pos (mbuf_of (event_dgram (hdr, (m, ev, end, dur)))) 2) c g)"
proof -
  define bs where "bs = event_dgram (hdr, (m, ev, end, dur))"
  have ok: "rtp_hdr_ok hdr" "hdr_cc hdr = 0" "hdr_pt hdr = 101" using hdr by (simp_all add: event_hdr_def)
  have lh: "length (rtp_hdr_bytes hdr) = 12" using length_rtp_hdr_bytes [OF ok(1)] ok(2) by simp
  then have len: "length bs = 16" by (simp add: bs_def event_dgram_def packet_bytes_def)
  then have mok: "mbuf_ok (mbuf_of bs)" by (simp add: mbuf_of_ok)
  have left: "mbuf_get_left (mbuf_of bs) = 16" by (simp add: mbuf_get_left_ok [OF mok] len)
  have "bs ! 1 = rtp_hdr_byte1 hdr" by (simp add: bs_def event_dgram_def rtp_hdr_bytes_def)
  then have "take 2 bs ! 1 AND 0x7f = 101"
    using byte1_fields [OF ok(1)] ok(3) by (simp add: byte1_fields_def Let_def rtp_hdr_byte1_def)
  moreover have "mbuf_read_mem (mbuf_of bs) 2 = (Inr (take 2 bs), mbuf_set_pos (mbuf_of bs) 2)"
    by (simp add: mbuf_read_mem_def left) (simp add: mbuf_of_def mbuf_set_pos_def)
  ultimately show ?thesis
    using l c left by (simp add: rtp_recv_handler_def listening_def RTP_HEADER_SIZE_def flip: bs_def)
qed

lemma rtp_recv_telev_event:
  assumes l: "listening g i tel" and hdr: "event_hdr hdr"
  shows "\<exists>g' fwd tel'. rtp_recv_telev cp i (mbuf_set_pos (mbuf_of (event_dgram (hdr, (m, ev, end, dur)))) 2) c g =
      (if end \<and> \<not> tel_rx_end tel then event_action cp ev c else c, g', fwd) \<and> listening g' i tel' \<and>
    sh_sqllist g' = sh_sqllist g \<and> sh_rtp_free g' = sh_rtp_free g \<and>
    tel' = (if end then if tel_rx_end tel then tel else tel\<lparr>tel_rx_event := -1, tel_rx_end := True\<rparr>
            else if uint ev = tel_rx_event tel then tel
            else tel\<lparr>tel_rx_event := uint ev, tel_rx_end := False\<rparr>)"
proof -
  define bs where "bs = event_dgram (hdr, (m, ev, end, dur))"
  have ok: "rtp_hdr_ok hdr" "hdr_cc hdr = 0" using hdr by (simp_all add: event_hdr_def)
  have lh: "length (rtp_hdr_bytes hdr) = 12" using length_rtp_hdr_bytes [OF ok(1)] ok(2) by simp
  then have len: "length bs = 16" by (simp add: bs_def event_dgram_def packet_bytes_def)
  define mb where "mb = mbuf_set_pos (mbuf_set_pos (mbuf_of bs) 2) RTP_HEADER_SIZE"
  have "mb = mbuf_set_pos (mbuf_of bs) 12" by (simp add: mb_def mbuf_set_pos_def RTP_HEADER_SIZE_def)
  then have mb: "mbuf_ok mb" "mb_rest mb = packet_bytes (m, ev, end, dur)"
    using mbuf_set_pos_cursor [of "mbuf_of bs" 12] mbuf_of_ok [of bs] len lh
    by (simp_all add: mbuf_of_def mb_content_def bs_def event_dgram_def)
  from telev_recv_rest [OF mb, of tel] l obtain mb' where
    "telev_recv tel mb = (if end then if tel_rx_end tel then (Inl EALREADY, tel, mb')
       else (Inr (ev, True), tel\<lparr>tel_rx_event := -1, tel_rx_end := True\<rparr>, mb')
     else if uint ev = tel_rx_event tel then (Inl EALREADY, tel, mb')
     else (Inr (ev, False), tel\<lparr>tel_rx_event := uint ev, tel_rx_end := False\<rparr>, mb'))" by blast
  then show ?thesis
    using l by (simp add: rtp_recv_telev_def listening_def Let_def flip: bs_def mb_def)
qed

text \<open>The packets received one after the other on a session.\<close>

fun rtp_recvs :: "campaign \<Rightarrow> nat \<Rightarrow> u8 list list \<Rightarrow> 'p call_of \<Rightarrow> shared \<Rightarrow> ub + 'p call_of \<times> shared" where
  "rtp_recvs cp i [] c g = Inr (c, g)"
| "rtp_recvs cp i (d # ds) c g =
    obind (rtp_recv_handler cp i (mbuf_of d) c g) (\<lambda>(c, g, _). rtp_recvs cp i ds c g)"

lemma rtp_recvs_held:
  assumes "\<forall>p\<in>set ps. event_hdr (fst p) \<and> (\<exists>m d. snd p = (m, e, False, d))"
    and "listening g i tel" and "\<not> c_event_received c" and "ps \<noteq> [] \<or> tel_rx_event tel = uint e \<and> \<not> tel_rx_end tel"
    and "tel_rx_event tel = uint e \<longrightarrow> \<not> tel_rx_end tel"
  shows "\<exists>g' tel'. rtp_recvs cp i (List.map event_dgram ps) c g = Inr (c, g') \<and> listening g' i tel' \<and> \<not> tel_rx_end tel'"
  using assms
proof (induction ps arbitrary: g tel)
  case Nil
  then show ?case by auto
next
  case (Cons p ps)
  then obtain hdr m d where p: "p = (hdr, (m, e, False, d))" "event_hdr hdr" by (cases p) auto
  from rtp_recv_telev_event [OF Cons.prems(2) p(2), of cp m e False d c] obtain g1 fwd tel1 where
    1: "rtp_recv_telev cp i (mbuf_set_pos (mbuf_of (event_dgram (hdr, (m, e, False, d)))) 2) c g = (c, g1, fwd)"
    "listening g1 i tel1" "tel1 = (if uint e = tel_rx_event tel then tel
            else tel\<lparr>tel_rx_event := uint e, tel_rx_end := False\<rparr>)" by auto
  have "tel_rx_event tel1 = uint e" "\<not> tel_rx_end tel1" using 1(3) Cons.prems(5) by auto
  with Cons.IH [OF _ 1(2) Cons.prems(3)] Cons.prems(1) rtp_recv_event [OF Cons.prems(2) p(2) Cons.prems(3)] 1(1) p(1)
  show ?case by auto
qed

text \<open>Once the key is chosen, further packets only pass through.\<close>

lemma rtp_recvs_done:
  assumes "c_event_received c" and "listening g i tel"
  shows "rtp_recvs cp i ds c g = Inr (c, g)"
proof (induction ds)
  case (Cons d ds)
  with assms show ?case by (simp add: rtp_recv_handler_def listening_def)
qed simp

lemma event_action_received:
  "find_campaign_action cp e = Some act \<Longrightarrow> c_event_received (event_action cp e c)"
  by (simp add: event_action_def Let_def)

lemma rtp_recvs_end:
  assumes "\<forall>p\<in>set ps. event_hdr (fst p) \<and> (\<exists>m d. snd p = (m, e, True, d))"
    and "listening g i tel" and "\<not> c_event_received c" and "find_campaign_action cp e = None \<or> tel_rx_end tel"
  shows "\<exists>g' tel'. rtp_recvs cp i (List.map event_dgram ps) c g = Inr (c, g') \<and> listening g' i tel'"
  using assms
proof (induction ps arbitrary: g tel)
  case Nil
  then show ?case by auto
next
  case (Cons p ps)
  then obtain hdr m d where p: "p = (hdr, (m, e, True, d))" "event_hdr hdr" by (cases p) auto
  have n: "event_action cp e c = c" if "find_campaign_action cp e = None"
    using that by (simp add: event_action_def)
  from rtp_recv_telev_event [OF Cons.prems(2) p(2), of cp m e True d c] n Cons.prems(4) obtain g1 fwd tel1 where
    1: "rtp_recv_telev cp i (mbuf_set_pos (mbuf_of (event_dgram (hdr, (m, e, True, d)))) 2) c g = (c, g1, fwd)"
    "listening g1 i tel1" "tel1 = (if tel_rx_end tel then tel else tel\<lparr>tel_rx_event := -1, tel_rx_end := True\<rparr>)"
    by (auto split: if_splits)
  have "find_campaign_action cp e = None \<or> tel_rx_end tel1" using Cons.prems(4) 1(3) by auto
  with Cons.IH [OF _ 1(2) Cons.prems(3)] Cons.prems(1) rtp_recv_event [OF Cons.prems(2) p(2) Cons.prems(3)] 1(1) p(1)
  show ?case by auto
qed

lemma rtp_recvs_append:
  "rtp_recvs cp i (ds @ es) c g = obind (rtp_recvs cp i ds c g) (\<lambda>(c, g). rtp_recvs cp i es c g)"
proof (induction ds arbitrary: c g)
  case (Cons d ds)
  then show ?case by (cases "rtp_recv_handler cp i (mbuf_of d) c g") auto
qed simp

text \<open>
  A key pressed during the call, of whose packets at least one held and one end packet arrive,
  has the effect of its action exactly once.
\<close>

lemma rtp_recvs_key:
  assumes l: "listening g i tel" and rx: "tel_rx_event tel = -1" and c: "\<not> c_event_received c"
    and helds: "helds \<noteq> []" "\<forall>p\<in>set helds. event_hdr (fst p) \<and> (\<exists>m d. snd p = (m, e, False, d))"
    and ends: "ends \<noteq> []" "\<forall>p\<in>set ends. event_hdr (fst p) \<and> (\<exists>m d. snd p = (m, e, True, d))"
  shows "\<exists>g'. rtp_recvs cp i (List.map event_dgram (helds @ ends)) c g = Inr (event_action cp e c, g')"
proof -
  have ne: "tel_rx_event tel \<noteq> uint e" using rx uint_ge_0 [of e] by linarith
  from rtp_recvs_held [OF helds(2) l c] helds(1) ne obtain g1 tel1 where
    1: "rtp_recvs cp i (List.map event_dgram helds) c g = Inr (c, g1)" "listening g1 i tel1" "\<not> tel_rx_end tel1"
    by blast
  from ends obtain p ps where ps: "ends = p # ps" by (cases ends) auto
  with ends(2) obtain hdr m d where p: "p = (hdr, (m, e, True, d))" "event_hdr hdr" by (cases p) auto
  from rtp_recv_telev_event [OF 1(2) p(2), of cp m e True d c] 1(3) obtain g2 fwd tel2 where
    2: "rtp_recv_telev cp i (mbuf_set_pos (mbuf_of (event_dgram (hdr, (m, e, True, d)))) 2) c g1 =
      (event_action cp e c, g2, fwd)" "listening g2 i tel2" "tel_rx_end tel2" by auto
  have "\<exists>g3. rtp_recvs cp i (List.map event_dgram ps) (event_action cp e c) g2 = Inr (event_action cp e c, g3)"
  proof (cases "find_campaign_action cp e")
    case None
    then have "\<not> c_event_received (event_action cp e c)" using c by (simp add: event_action_def)
    with rtp_recvs_end [OF _ 2(2), of ps e "event_action cp e c" cp] 2(3) ends(2) ps show ?thesis by auto
  next
    case (Some act)
    from rtp_recvs_done [OF event_action_received [OF Some] 2(2)] show ?thesis by blast
  qed
  with rtp_recv_event [OF 1(2) p(2) c, of cp m e True d] 1(1) 2(1) ps p(1) show ?thesis
    by (auto simp: rtp_recvs_append)
qed

end
