(* ===== verification/App_Db.thy ===== *)
theory App_Db
  imports App_Call "HOL-Library.Sublist"
begin

text \<open>
  The database (\<open>src/src/db.c\<close>): statements are queued by \<open>db_exec\<close> on the main thread and sent
  by \<open>db_sync\<close> on the database thread, which takes the whole queue under the mutex, checks the
  connection and then sends the statements one by one.

  The MySQL client library is outside the program: the outcome of its calls is an argument. What
  the code relies on is that a handle may only be used between \<open>mysql_init\<close> and \<open>mysql_close\<close>;
  \<open>db_con\<close> says which of these the handle of the connection is in. A statement is of any type;
  the application queues those of \<open>query\<close>.
\<close>

section \<open>A queue between two threads\<close>

text \<open>
  What the two threads expect of the queue: putting appends, draining returns what is there and
  leaves nothing.
\<close>

locale fifo =
  fixes put :: "'q \<Rightarrow> 's \<Rightarrow> 's" and drain :: "'s \<Rightarrow> 'q list \<times> 's" and queued :: "'s \<Rightarrow> 'q list"
  assumes queued_put: "queued (put q s) = queued s @ [q]"
    and drain_queued: "fst (drain s) = queued s"
    and queued_drain: "queued (snd (drain s)) = []"
begin

text \<open>A run of the queue: \<open>Some q\<close> puts a statement, \<open>None\<close> drains; the batches drained.\<close>

fun run :: "'q option list \<Rightarrow> 's \<Rightarrow> 'q list list \<times> 's" where
  "run [] s = ([], s)"
| "run (Some q # es) s = run es (put q s)"
| "run (None # es) s = (let (b, s) = drain s; (bs, s) = run es s in (b # bs, s))"

text \<open>Nothing is lost, doubled or reordered: batches and rest are what was put.\<close>

lemma run_fifo: "run es s = (bs, s') \<Longrightarrow> concat bs @ queued s' = queued s @ List.map_filter id es"
proof (induction es arbitrary: s bs)
  case (Cons e es)
  show ?case
  proof (cases e)
    case None
    with Cons.prems obtain b s1 bs1 where d: "drain s = (b, s1)" "run es s1 = (bs1, s')" "bs = b # bs1"
      by (auto split: prod.splits)
    with Cons.IH [OF d(2)] drain_queued [of s] queued_drain [of s] None show ?thesis
      by (simp add: List.map_filter_simps)
  next
    case (Some q)
    with Cons.IH [of "put q s" bs] Cons.prems show ?thesis
      by (simp add: List.map_filter_simps queued_put)
  qed
qed (simp add: List.map_filter_simps)

end

section \<open>State\<close>

datatype handle = Open | Null | Closed

record 'q db =
  db_con :: handle
  db_sqllist :: "'q list"
  db_sent :: "'q list"

text \<open>A call of the library with the handle.\<close>

definition use_handle :: "handle \<Rightarrow> ub + unit" where
  "use_handle h = (case h of Open \<Rightarrow> Inr () | Null \<Rightarrow> Inl Null_deref | Closed \<Rightarrow> Inl Use_after_free)"

record db_config =
  cfg_user :: pl
  cfg_pass :: pl
  cfg_db :: pl
  cfg_host :: pl

text \<open>
  The four texts are copied into pointers that \<open>pl_strdup\<close> leaves unset when there is no text.
\<close>

definition db_credentials :: "db_config \<Rightarrow> ub + string list" where
  "db_credentials cfg = (case (cfg_user cfg, cfg_pass cfg, cfg_db cfg, cfg_host cfg) of
      (Some u, Some p, Some d, Some h) \<Rightarrow> Inr [u, p, d, h]
    | _ \<Rightarrow> Inl Uninitialised)"

section \<open>Operations\<close>

text \<open>\<open>init\<close> is whether \<open>mysql_init\<close> returns a handle, \<open>conn\<close> whether the server is reached.\<close>

definition db_connect :: "bool \<Rightarrow> (string list \<Rightarrow> bool) \<Rightarrow> db_config \<Rightarrow> ub + bool \<times> 'q db option" where
  "db_connect init conn cfg =
    obind (db_credentials cfg) (\<lambda>cred.
      if \<not> init then Inr (False, None)
      else if \<not> conn cred then Inr (False, None)
      else Inr (True, Some \<lparr>db_con = Open, db_sqllist = [], db_sent = []\<rparr>))"

definition db_reconnect :: "bool \<Rightarrow> (string list \<Rightarrow> bool) \<Rightarrow> db_config \<Rightarrow> 'q db \<Rightarrow> ub + bool \<times> 'q db" where
  "db_reconnect init conn cfg s =
    obind (db_credentials cfg) (\<lambda>cred.
      if \<not> init then Inr (False, s\<lparr>db_con := Null\<rparr>)
      else if \<not> conn cred then Inr (False, s\<lparr>db_con := Closed\<rparr>)
      else Inr (True, s\<lparr>db_con := Open\<rparr>))"

text \<open>
  \<open>fmt\<close> is the formatted statement, or the error of the formatter; the result is the error as a
  truth value.
\<close>

definition db_exec :: "errno + 'q \<Rightarrow> 'q db \<Rightarrow> bool \<times> 'q db" where
  "db_exec fmt s = (case fmt of Inl e \<Rightarrow> (True, s) | Inr q \<Rightarrow> (False, s\<lparr>db_sqllist := db_sqllist s @ [q]\<rparr>))"

definition db_real_exec :: "bool \<Rightarrow> 'q db \<Rightarrow> 'q \<Rightarrow> ub + bool \<times> 'q db" where
  "db_real_exec failed s q =
    obind (use_handle (db_con s)) (\<lambda>_. Inr (\<not> failed, s\<lparr>db_sent := db_sent s @ [q]\<rparr>))"

text \<open>The rows of a query, \<open>None\<close> when it failed or there is no result.\<close>

type_synonym row = "string option list"

definition get_results :: "bool \<Rightarrow> row list option \<Rightarrow> 'q db \<Rightarrow> ub + row list option" where
  "get_results failed result s =
    obind (use_handle (db_con s)) (\<lambda>_. Inr (if failed then None else result))"

definition get_field :: "bool \<Rightarrow> row list option \<Rightarrow> nat \<Rightarrow> pl \<Rightarrow> 'q db \<Rightarrow> ub + bool \<times> pl" where
  "get_field failed result field val s =
    obind (use_handle (db_con s)) (\<lambda>_.
      if failed then Inr (False, val)
      else obind (deref result) (\<lambda>rows. case rows of
          [] \<Rightarrow> Inr (True, val)
        | row # _ \<Rightarrow> if field < length row then Inr (True, pl_set_str val (row ! field)) else Inl Out_of_bounds))"

text \<open>Taking the queue, under the mutex.\<close>

definition db_detach :: "'q db \<Rightarrow> 'q list \<times> 'q db" where
  "db_detach s = (db_sqllist s, s\<lparr>db_sqllist := []\<rparr>)"

text \<open>Sending the batch; what the server answers to a statement changes nothing.\<close>

fun db_send :: "'q list \<Rightarrow> 'q db \<Rightarrow> ub + 'q db" where
  "db_send [] s = Inr s"
| "db_send (q # qs) s =
    obind (use_handle (db_con s)) (\<lambda>_. db_send qs (s\<lparr>db_sent := db_sent s @ [q]\<rparr>))"

definition db_check :: "bool \<Rightarrow> bool \<Rightarrow> (string list \<Rightarrow> bool) \<Rightarrow> db_config \<Rightarrow> 'q db \<Rightarrow> ub + bool \<times> 'q db" where
  "db_check ping init conn cfg s =
    obind (use_handle (db_con s)) (\<lambda>_.
      if ping then Inr (True, s) else db_reconnect init conn cfg (s\<lparr>db_con := Null\<rparr>))"

definition db_sync :: "bool \<Rightarrow> bool \<Rightarrow> (string list \<Rightarrow> bool) \<Rightarrow> db_config \<Rightarrow> 'q db \<Rightarrow> ub + 'q db" where
  "db_sync ping init conn cfg s =
    (let (le, s) = db_detach s
     in obind (db_check ping init conn cfg s) (\<lambda>(ok, s). if ok then db_send le s else Inr s))"

section \<open>The queue is a queue\<close>

interpretation dbq: fifo "\<lambda>q s. snd (db_exec (Inr q) s)" db_detach db_sqllist
  by unfold_locales (simp_all add: db_exec_def db_detach_def)

text \<open>The queue of the shared state of the campaigns is the same one.\<close>

definition take_sql :: "shared \<Rightarrow> query list \<times> shared" where
  "take_sql g = (sh_sqllist g, g\<lparr>sh_sqllist := []\<rparr>)"

interpretation shq: fifo queue_sql take_sql sh_sqllist
  by unfold_locales (simp_all add: queue_sql_def take_sql_def)

section \<open>Sending\<close>

lemma db_send_ok:
  "db_con s = Open \<Longrightarrow> db_send qs s = Inr (s\<lparr>db_sent := db_sent s @ qs\<rparr>)"
  by (induction qs arbitrary: s) (simp_all add: use_handle_def)

lemma db_send_bad: "db_con s \<noteq> Open \<Longrightarrow> qs \<noteq> [] \<Longrightarrow> \<exists>u. db_send qs s = Inl u"
  by (cases qs; cases "db_con s") (simp_all add: use_handle_def)

text \<open>
  With a live connection, or one that can be opened again, everything queued is sent in order.
  When the connection cannot be opened, everything taken from the queue is lost, and the handle
  is left in a state in which the next use of it is undefined.
\<close>

lemma db_sync_ok:
  assumes "db_con s = Open" and "ping \<or> init \<and> db_credentials cfg = Inr cred \<and> conn cred"
  shows "db_sync ping init conn cfg s =
    Inr (s\<lparr>db_sqllist := [], db_sent := db_sent s @ db_sqllist s\<rparr>)"
proof (cases ping)
  case True
  with assms(1) show ?thesis
    by (simp add: db_sync_def db_detach_def db_check_def use_handle_def db_send_ok)
next
  case False
  with assms show ?thesis
    by (simp add: db_sync_def db_detach_def db_check_def use_handle_def db_reconnect_def db_send_ok)
qed

lemma db_sync_lost:
  assumes "db_con s = Open" and "\<not> ping" and "db_credentials cfg = Inr cred" and "\<not> init \<or> \<not> conn cred"
  obtains s' where "db_sync ping init conn cfg s = Inr s'" "db_sqllist s' = []" "db_sent s' = db_sent s"
    "db_con s' \<noteq> Open" "\<exists>u. db_sync p i c f s' = Inl u" "\<exists>u. get_results fl res s' = Inl u"
  using assms
  by (cases init) (auto simp: db_sync_def db_detach_def db_check_def use_handle_def db_reconnect_def get_results_def)

section \<open>Both threads\<close>

text \<open>
  The interleaving of the two threads: \<open>db_exec\<close> at any time, and the steps of \<open>db_sync\<close>, with
  the batch that it has taken. \<open>log\<close> is everything that was queued so far, \<open>lost\<close> says whether a
  batch was dropped.
\<close>

record 'q threads =
  th_db :: "'q db"
  th_batch :: "'q list"
  th_log :: "'q list"
  th_lost :: bool

inductive th_step :: "'q threads \<Rightarrow> 'q threads \<Rightarrow> bool" where
  exec: "db_exec (Inr q) (th_db t) = (r, s) \<Longrightarrow> th_step t (t\<lparr>th_db := s, th_log := th_log t @ [q]\<rparr>)"
| detach: "th_batch t = [] \<Longrightarrow> db_detach (th_db t) = (b, s) \<Longrightarrow> th_step t (t\<lparr>th_db := s, th_batch := b\<rparr>)"
| check: "db_check ping init conn cfg (th_db t) = Inr (True, s) \<Longrightarrow> th_step t (t\<lparr>th_db := s\<rparr>)"
| fail: "db_check ping init conn cfg (th_db t) = Inr (False, s) \<Longrightarrow>
    th_step t (t\<lparr>th_db := s, th_batch := [], th_lost := True\<rparr>)"
| send: "th_batch t = q # qs \<Longrightarrow> db_send [q] (th_db t) = Inr s \<Longrightarrow>
    th_step t (t\<lparr>th_db := s, th_batch := qs\<rparr>)"

inductive_cases th_stepE: "th_step t t'"

definition th_init :: "'q threads" where
  "th_init = \<lparr>th_db = \<lparr>db_con = Open, db_sqllist = [], db_sent = []\<rparr>, th_batch = [], th_log = [],
     th_lost = False\<rparr>"

lemma db_check_frame:
  "db_check ping init conn cfg s = Inr (r, s') \<Longrightarrow> db_sqllist s' = db_sqllist s \<and> db_sent s' = db_sent s"
  by (auto simp: db_check_def db_reconnect_def elim!: obind_InrE split: if_splits)

text \<open>
  Whatever the interleaving, the server gets a subsequence of the statements in the order in
  which they were queued; and all of them, up to those still on the way, if no batch was lost.
\<close>

definition th_inv :: "'q threads \<Rightarrow> bool" where
  "th_inv t \<longleftrightarrow> subseq (db_sent (th_db t) @ th_batch t @ db_sqllist (th_db t)) (th_log t) \<and>
     (\<not> th_lost t \<longrightarrow> db_sent (th_db t) @ th_batch t @ db_sqllist (th_db t) = th_log t)"

lemma th_step_inv:
  assumes "th_inv t" and "th_step t t'"
  shows "th_inv t'"
  using assms(2)
proof cases
  case (exec q r s)
  then have "db_sqllist s = db_sqllist (th_db t) @ [q]" "db_sent s = db_sent (th_db t)"
    by (auto simp: db_exec_def)
  with assms(1) exec show ?thesis
    using list_emb_append_mono [of "(=)" "db_sent (th_db t) @ th_batch t @ db_sqllist (th_db t)" "th_log t" "[q]" "[q]"]
    by (auto simp: th_inv_def)
next
  case (detach b s)
  then have "db_sqllist s = []" "b = db_sqllist (th_db t)" "db_sent s = db_sent (th_db t)"
    by (auto simp: db_detach_def)
  with assms(1) detach show ?thesis by (simp add: th_inv_def)
next
  case (check ping init conn cfg s)
  with assms(1) db_check_frame [OF check(2)] show ?thesis by (simp add: th_inv_def)
next
  case (fail ping init conn cfg s)
  have "subseq (db_sent (th_db t) @ db_sqllist (th_db t)) (db_sent (th_db t) @ th_batch t @ db_sqllist (th_db t))"
    by (intro list_emb_append_mono) auto
  with assms(1) fail db_check_frame [OF fail(2)] show ?thesis
    by (auto simp: th_inv_def intro: subseq_order.order_trans)
next
  case (send q qs s)
  then have "db_sent s = db_sent (th_db t) @ [q]" "db_sqllist s = db_sqllist (th_db t)"
    by (auto elim!: obind_InrE)
  with assms(1) send show ?thesis by (simp add: th_inv_def)
qed

lemma th_reach_inv: "th_step\<^sup>*\<^sup>* th_init t \<Longrightarrow> th_inv t"
proof (induction rule: rtranclp_induct)
  case base
  then show ?case by (simp add: th_inv_def th_init_def)
next
  case (step t t')
  then show ?case by (blast intro: th_step_inv)
qed

text \<open>A whole \<open>db_sync\<close> is a sequence of these steps.\<close>

lemma db_send_steps:
  "db_send b s = Inr s' \<Longrightarrow> th_step\<^sup>*\<^sup>* (t\<lparr>th_db := s, th_batch := b\<rparr>) (t\<lparr>th_db := s', th_batch := []\<rparr>)"
proof (induction b arbitrary: s)
  case (Cons q qs)
  then obtain s1 where 1: "db_send [q] s = Inr s1" "db_send qs s1 = Inr s'"
    by (auto elim!: obind_InrE)
  have "th_step (t\<lparr>th_db := s, th_batch := q # qs\<rparr>) (t\<lparr>th_db := s1, th_batch := qs\<rparr>)"
    using send [of "t\<lparr>th_db := s, th_batch := q # qs\<rparr>" q qs s1] 1(1) by simp
  with Cons.IH [OF 1(2)] show ?case by (rule converse_rtranclp_into_rtranclp [rotated])
qed simp

lemma db_sync_steps:
  assumes "th_batch t = []" and "db_sync ping init conn cfg (th_db t) = Inr s"
  shows "\<exists>t'. th_step\<^sup>*\<^sup>* t t' \<and> th_db t' = s \<and> th_batch t' = [] \<and> th_log t' = th_log t"
proof -
  obtain le s0 where d: "db_detach (th_db t) = (le, s0)" by (cases "db_detach (th_db t)")
  with assms(2) obtain r s1 where c: "db_check ping init conn cfg s0 = Inr (r, s1)"
    and r: "(if r then db_send le s1 else Inr s1) = Inr s"
    by (auto simp: db_sync_def elim!: obind_InrE)
  define t1 where "t1 = t\<lparr>th_db := s0, th_batch := le\<rparr>"
  have 1: "th_step t t1" unfolding t1_def by (rule detach [OF assms(1) d])
  have c': "db_check ping init conn cfg (th_db t1) = Inr (r, s1)" using c by (simp add: t1_def)
  show ?thesis
  proof (cases r)
    case True
    with c' have "th_step t1 (t1\<lparr>th_db := s1\<rparr>)" by (intro check) simp
    moreover have "t1\<lparr>th_db := s1\<rparr> = t\<lparr>th_db := s1, th_batch := le\<rparr>" by (simp add: t1_def)
    moreover have "th_step\<^sup>*\<^sup>* (t\<lparr>th_db := s1, th_batch := le\<rparr>) (t\<lparr>th_db := s, th_batch := []\<rparr>)"
      using r True by (intro db_send_steps) simp
    ultimately have "th_step\<^sup>*\<^sup>* t (t\<lparr>th_db := s, th_batch := []\<rparr>)"
      using 1 by (metis converse_rtranclp_into_rtranclp)
    then show ?thesis by (intro exI [of _ "t\<lparr>th_db := s, th_batch := []\<rparr>"]) simp
  next
    case False
    with c' have "th_step t1 (t1\<lparr>th_db := s1, th_batch := [], th_lost := True\<rparr>)" by (intro fail) simp
    with 1 have "th_step\<^sup>*\<^sup>* t (t1\<lparr>th_db := s1, th_batch := [], th_lost := True\<rparr>)" by simp
    with r False show ?thesis
      by (intro exI [of _ "t1\<lparr>th_db := s1, th_batch := [], th_lost := True\<rparr>"]) (simp add: t1_def)
  qed
qed

end
