(* ===== verification/App_System.thy ===== *)
theory App_System
  imports App_Media App_Db
begin

text \<open>
  A campaign running: the rounds of \<open>start_fake_calling\<close>, the checks of \<open>on_call_end\<close>, and what
  the SIP stack, the network and the audio thread do to its calls, as a step relation; and what
  holds in every state that can be reached.
\<close>

section \<open>Events of a call\<close>

datatype call_event =
    Ev_establish answer
  | Ev_progress u16
  | Ev_close int "u16 option"
  | Ev_pbx_establish answer
  | Ev_pbx_progress u16
  | Ev_pbx_close int "u16 option"
  | Ev_packet "u8 list"
  | Ev_play "nat \<Rightarrow> bool" nat audio_source

text \<open>An event of the forwarded call is one of its own handlers.\<close>

definition on_pbx :: "(pbx_call \<Rightarrow> shared \<Rightarrow> ub + pbx_call \<times> shared) \<Rightarrow> call \<Rightarrow> shared \<Rightarrow> ub + call \<times> shared" where
  "on_pbx h c g = (case c_pbx_call c of None \<Rightarrow> Inr (c, g)
    | Some p \<Rightarrow> obind (h p g) (\<lambda>(p, g). Inr (c\<lparr>c_pbx_call := Some p\<rparr>, g)))"

fun handle_event ::
  "allocator \<Rightarrow> env \<Rightarrow> campaign \<Rightarrow> u32 \<Rightarrow> call_event \<Rightarrow> call \<Rightarrow> shared \<Rightarrow> ub + call \<times> shared" where
  "handle_event A ev cp did (Ev_establish an) c g = establish_handler A ev an did c g"
| "handle_event A ev cp did (Ev_progress scode) c g = Inr (progress_handler scode did c g)"
| "handle_event A ev cp did (Ev_close err msg) c g = obind (close_handler err msg c) (\<lambda>c. Inr (c, g))"
| "handle_event A ev cp did (Ev_pbx_establish an) c g = on_pbx (establish_handler_pbx ev an c) c g"
| "handle_event A ev cp did (Ev_pbx_progress scode) c g =
    on_pbx (\<lambda>p g. Inr (progress_handler scode did p g)) c g"
| "handle_event A ev cp did (Ev_pbx_close err msg) c g =
    on_pbx (\<lambda>p g. obind (close_handler err msg p) (\<lambda>p. Inr (p, g))) c g"
| "handle_event A ev cp did (Ev_packet d) c g =
    obind (deref (c_rtp_sess c)) (\<lambda>i. obind (rtp_recv_handler cp i (mbuf_of d) c g) (\<lambda>(c, g, _). Inr (c, g)))"
| "handle_event A ev cp did (Ev_play stop k src) c g =
    (if c_thrd_created c then
       obind (rtp_round A stop src (c_pt c) (cp_max_play cp) k c) (\<lambda>r. case r of
           None \<Rightarrow> Inr (c, g) | Some (_, _, c) \<Rightarrow> Inr (c, g))
     else Inr (c, g))"

definition on_call :: "nat \<Rightarrow> (destination \<Rightarrow> call \<Rightarrow> shared \<Rightarrow> ub + call \<times> shared) \<Rightarrow> campaign \<Rightarrow> shared \<Rightarrow>
    ub + campaign \<times> shared" where
  "on_call i h cp g =
    (let d = cp_processl cp ! i
     in obind (deref (d_call d)) (\<lambda>c. obind (h d c g) (\<lambda>(c, g).
          Inr (cp\<lparr>cp_processl := (cp_processl cp)[i := d\<lparr>d_call := Some c\<rparr>]\<rparr>, g))))"

section \<open>Events keep the sessions\<close>

text \<open>What an event may not change.\<close>

definition same_pool :: "shared \<Rightarrow> shared \<Rightarrow> bool" where
  "same_pool g g' \<longleftrightarrow> sh_rtp_free g' = sh_rtp_free g \<and> (\<forall>k. rts_in_use (sh_rtp g' k) = rts_in_use (sh_rtp g k)) \<and>
     sh_gateways g' = sh_gateways g"

definition same_call :: "'p call_of \<Rightarrow> 'p call_of \<Rightarrow> bool" where
  "same_call c c' \<longleftrightarrow> c_rtp_sess c' = c_rtp_sess c \<and> c_pbx_call c' = c_pbx_call c \<and> c_forwarded c' = c_forwarded c"

named_theorems same_simps

lemma same_call_refl [simp]: "same_call c c"
  by (simp add: same_call_def)

lemma same_pool_refl [simp]: "same_pool g g"
  by (simp add: same_pool_def)

lemma same_call_upd [same_simps]:
  "same_call c (c'\<lparr>c_status := s\<rparr>) = same_call c c'" "same_call c (c'\<lparr>c_resp_code := r\<rparr>) = same_call c c'"
  "same_call c (c'\<lparr>c_sess := b\<rparr>) = same_call c c'" "same_call c (c'\<lparr>c_ended := b\<rparr>) = same_call c c'"
  "same_call c (c'\<lparr>c_establish_tm := t\<rparr>) = same_call c c'" "same_call c (c'\<lparr>c_thrd_created := b\<rparr>) = same_call c c'"
  "same_call c (c'\<lparr>c_pt := p\<rparr>) = same_call c c'" "same_call c (c'\<lparr>c_num_play := n\<rparr>) = same_call c c'"
  "same_call c (c'\<lparr>c_ts := ts\<rparr>) = same_call c c'" "same_call c (c'\<lparr>c_rs := rs\<rparr>) = same_call c c'"
  "same_call c (c'\<lparr>c_action := a\<rparr>) = same_call c c'" "same_call c (c'\<lparr>c_event_received := b\<rparr>) = same_call c c'"
  "same_call c (c'\<lparr>c_action_key := k\<rparr>) = same_call c c'" "same_call c (c'\<lparr>c_action_type := y\<rparr>) = same_call c c'"
  by (simp_all add: same_call_def)

lemma same_pool_upd [same_simps]:
  "same_pool g (g'\<lparr>sh_sqllist := q\<rparr>) = same_pool g g'"
  "rts_in_use rs = rts_in_use (sh_rtp g' i) \<Longrightarrow> same_pool g (g'\<lparr>sh_rtp := (sh_rtp g')(i := rs)\<rparr>) = same_pool g g'"
  by (auto simp: same_pool_def)

lemma same_pool_queue [same_simps]:
  "same_pool g (queue_sql q g') = same_pool g g'" "same_pool g (update_call_status did c g') = same_pool g g'"
  by (simp_all add: queue_sql_def update_call_status_def same_simps)

lemma establish_common_same: "establish_common ev an c = (b, c') \<Longrightarrow> same_call c c'"
  by (auto simp: establish_common_def Let_def same_simps split: if_splits option.splits)

lemma establish_handler_same:
  assumes "establish_handler A ev an did c g = Inr (c', g')"
  shows "same_call c c' \<and> same_pool g g'"
proof -
  obtain b c1 where e: "establish_common ev an c = (b, c1)" by fastforce
  note 1 = establish_common_same [OF e]
  have t: "same_pool g (establish_telev A i g)" for i
    by (simp add: establish_telev_def Let_def same_simps)
  show ?thesis
  proof (cases b)
    case False
    with assms e 1 show ?thesis by (simp add: establish_handler_def)
  next
    case True
    with assms e 1 t show ?thesis
      by (auto simp: establish_handler_def Let_def same_simps elim!: obind_InrE split: if_splits)
  qed
qed

lemma establish_handler_pbx_same:
  assumes "establish_handler_pbx ev an main c g = Inr (c', g')"
  shows "same_call c c' \<and> same_pool g g'"
proof -
  obtain b c1 where e: "establish_common ev an c = (b, c1)" by fastforce
  note 1 = establish_common_same [OF e]
  show ?thesis
  proof (cases b)
    case False
    with assms e 1 show ?thesis by (simp add: establish_handler_pbx_def)
  next
    case True
    with assms e 1 show ?thesis
      by (auto simp: establish_handler_pbx_def Let_def same_pool_def elim!: obind_InrE split: if_splits)
  qed
qed

lemma progress_handler_same:
  "progress_handler scode did c g = (c', g') \<Longrightarrow> same_call c c' \<and> same_pool g g'"
  by (auto simp: progress_handler_def Let_def same_simps split: if_splits)

lemma close_handler_same: "close_handler err msg c = Inr c' \<Longrightarrow> same_call c c'"
  by (auto simp: close_handler_def Let_def same_simps elim!: obind_InrE split: if_splits)

lemma event_action_same: "same_call c (event_action cp e c)"
  by (simp add: event_action_def Let_def same_simps split: option.splits)

lemma rtp_recv_handler_same:
  assumes "rtp_recv_handler cp i mb c g = Inr (c', g', fwd)"
  shows "same_call c c' \<and> same_pool g g'"
proof -
  have t: "same_call c c' \<and> same_pool g g'" if "rtp_recv_telev cp i mb c g = (c', g', fwd)" for mb
    using that
    by (auto simp: rtp_recv_telev_def Let_def same_simps event_action_same
        split: option.splits prod.splits sum.splits if_splits)
  from assms t show ?thesis
    by (auto simp: rtp_recv_handler_def split: if_splits prod.splits sum.splits)
qed

lemma call_encode_same: "call_encode A codec c mb = Inr (c', mb') \<Longrightarrow> same_call c c'"
  by (auto simp: call_encode_def same_simps elim!: obind_InrE split: option.splits)

lemma send_frame_same: "send_frame A codec fts c mb f = Inr (dg, c') \<Longrightarrow> same_call c c'"
  by (auto simp: send_frame_def Let_def same_simps call_encode_same elim!: obind_InrE)

lemma send_silence_same: "send_silence A codec n fts c = Inr (dg, c') \<Longrightarrow> same_call c c'"
  by (auto simp: send_silence_def Let_def same_simps call_encode_same elim!: obind_InrE split: option.splits)

lemma same_call_trans: "same_call c c1 \<Longrightarrow> same_call c1 c2 \<Longrightarrow> same_call c c2"
  by (simp add: same_call_def)

lemma play_frames_same: "play_frames A stop codec fts k c mb fs = Inr (k', dgs, c') \<Longrightarrow> same_call c c'"
proof (induction fs arbitrary: k c mb dgs)
  case (Cons f fs)
  from Cons.prems obtain dg c1 where 1: "send_frame A codec fts c mb f = Inr (dg, c1)"
    and 2: "c' = c1 \<or> (\<exists>dgs. play_frames A stop codec fts (Suc k) c1 (mbuf_reset mb) fs = Inr (k', dgs, c'))"
    by (auto elim!: obind_InrE split: if_splits)
  from 2 Cons.IH send_frame_same [OF 1] show ?case by (auto intro: same_call_trans)
qed simp

lemma rtp_round_same: "rtp_round A stop src codec max_play k c = Inr (Some (k', dgs, c')) \<Longrightarrow> same_call c c'"
  by (auto simp: rtp_round_def same_simps elim!: obind_InrE split: if_splits audio_source.splits option.splits
      dest: send_silence_same play_frames_same)

text \<open>An event of the forwarded call keeps its session.\<close>

definition kept :: "call \<Rightarrow> shared \<Rightarrow> call \<Rightarrow> shared \<Rightarrow> bool" where
  "kept c g c' g' \<longleftrightarrow> call_rtp c' = call_rtp c \<and> (call_ok c \<longrightarrow> call_ok c') \<and> same_pool g g'"

lemma same_kept: "same_call c c' \<Longrightarrow> same_pool g g' \<Longrightarrow> kept c g c' g'"
  by (simp add: kept_def same_call_def call_rtp_def own_rtp_def call_ok_def)

lemma on_pbx_kept:
  assumes "on_pbx h c g = Inr (c', g')"
    and "\<And>p p'. h p g = Inr (p', g') \<Longrightarrow> same_call p p' \<and> same_pool g g'"
  shows "kept c g c' g'"
proof (cases "c_pbx_call c")
  case None
  with assms(1) show ?thesis by (simp add: on_pbx_def same_kept)
next
  case (Some p)
  with assms(1) obtain p' where h: "h p g = Inr (p', g')" "c' = c\<lparr>c_pbx_call := Some p'\<rparr>"
    by (auto simp: on_pbx_def elim!: obind_InrE)
  with assms(2) [OF h(1)] Some show ?thesis
    by (simp add: kept_def same_call_def call_rtp_def own_rtp_def call_ok_def)
qed

lemma handle_event_kept:
  assumes "handle_event A ev cp did e c g = Inr (c', g')"
  shows "kept c g c' g'"
proof (cases e)
  case (Ev_establish an)
  with assms establish_handler_same show ?thesis by (auto intro: same_kept)
next
  case (Ev_progress s)
  with assms progress_handler_same show ?thesis by (force intro: same_kept)
next
  case (Ev_close err msg)
  with assms close_handler_same show ?thesis by (auto intro!: same_kept elim!: obind_InrE)
next
  case (Ev_pbx_establish an)
  with assms show ?thesis by (auto intro: on_pbx_kept dest: establish_handler_pbx_same)
next
  case (Ev_pbx_progress s)
  with assms show ?thesis by (auto intro!: on_pbx_kept dest: progress_handler_same)
next
  case (Ev_pbx_close err msg)
  with assms show ?thesis by (auto intro!: on_pbx_kept elim!: obind_InrE dest: close_handler_same)
next
  case (Ev_packet d)
  with assms show ?thesis by (auto intro!: same_kept elim!: obind_InrE dest: rtp_recv_handler_same)
next
  case (Ev_play stop k src)
  with assms show ?thesis
    by (auto intro!: same_kept elim!: obind_InrE split: if_splits option.splits dest: rtp_round_same)
qed

section \<open>Steps of a campaign\<close>

text \<open>
  The timer of a destination only fires while it runs. What the surroundings answer is chosen
  anew for every step.
\<close>

inductive camp_step :: "campaign \<times> shared \<Rightarrow> campaign \<times> shared \<Rightarrow> bool" where
  round: "start_fake_calling ev evs path cp g = Inr (cp', g') \<Longrightarrow> camp_step (cp, g) (cp', g')"
| service: "campaign_service_handler ev evs path cp g = Inr (cp', g') \<Longrightarrow> camp_step (cp, g) (cp', g')"
| check: "i < length (cp_processl cp) \<Longrightarrow> d_tmr (cp_processl cp ! i) \<Longrightarrow> on_call_end_at ev i cp g = Inr (cp', g') \<Longrightarrow>
    camp_step (cp, g) (cp', g')"
| event: "i < length (cp_processl cp) \<Longrightarrow>
    on_call i (\<lambda>d. handle_event A ev cp (d_id d) e) cp g = Inr (cp', g') \<Longrightarrow> camp_step (cp, g) (cp', g')"

inductive_cases camp_stepE: "camp_step (cp, g) (cp', g')"

definition sys_inv :: "nat list \<Rightarrow> campaign \<times> shared \<Rightarrow> bool" where
  "sys_inv held s \<longleftrightarrow> camp_inv (fst s) \<and> pool_ok (snd s) (dests_rtp (cp_processl (fst s)) @ held)"

text \<open>How a later state relates to an earlier one.\<close>

definition sys_le :: "nat list \<Rightarrow> campaign \<times> shared \<Rightarrow> campaign \<times> shared \<Rightarrow> bool" where
  "sys_le held s t \<longleftrightarrow> mset (camp_ids (fst t)) \<subseteq># mset (camp_ids (fst s)) \<and>
     sessions (snd t) (dests_rtp (cp_processl (fst t)) @ held) \<subseteq>#
       sessions (snd s) (dests_rtp (cp_processl (fst s)) @ held) \<and>
     length (cp_processl (fst t)) \<le> max (length (cp_processl (fst s))) (unat (cp_call_limit (fst s))) \<and>
     cp_call_limit (fst t) = cp_call_limit (fst s) \<and> cp_max_try (fst t) = cp_max_try (fst s) \<and>
     sh_gateways (snd t) = sh_gateways (snd s)"

lemma sys_le_refl: "sys_le held s s"
  by (simp add: sys_le_def)

lemma sys_le_trans: "sys_le held s t \<Longrightarrow> sys_le held t u \<Longrightarrow> sys_le held s u"
  by (auto simp: sys_le_def intro: subset_mset.order_trans)

lemma kept_pool:
  assumes "kept c g c' g'"
  shows "pool_ok g' held = pool_ok g held" "sessions g' held = sessions g held" "sh_gateways g' = sh_gateways g"
  using assms by (simp_all add: kept_def same_pool_def pool_ok_def sessions_def)

lemma on_call_ok:
  assumes inv: "sys_inv held (cp, g)" and i: "i < length (cp_processl cp)"
    and run: "on_call i h cp g = Inr (cp', g')"
    and h: "\<And>d c c'. h d c g = Inr (c', g') \<Longrightarrow> kept c g c' g'"
  shows "sys_inv held (cp', g') \<and> sys_le held (cp, g) (cp', g')"
proof -
  define d where "d = cp_processl cp ! i"
  from run obtain c c' where 1: "d_call d = Some c" "h d c g = Inr (c', g')"
    and cp': "cp' = cp\<lparr>cp_processl := (cp_processl cp)[i := d\<lparr>d_call := Some c'\<rparr>]\<rparr>"
    by (auto simp: on_call_def Let_def deref_def d_def elim!: obind_InrE split: option.splits)
  note k = h [OF 1(2)]
  define d' where "d' = d\<lparr>d_call := Some c'\<rparr>"
  have cp2: "cp' = cp\<lparr>cp_processl := (cp_processl cp)[i := d']\<rparr>" by (simp add: cp' d'_def)
  have same: "(cp_processl cp)[i := d] = cp_processl cp" by (simp add: d_def)
  have mem: "d \<in> set (cp_processl cp)" using i by (simp add: d_def)
  have rtp: "dest_rtp d' = dest_rtp d" using k 1(1) by (simp add: dest_rtp_def d'_def kept_def)
  have upd: "(cp_processl cp)[i := x] = take i (cp_processl cp) @ x # drop (Suc i) (cp_processl cp)" for x
    by (rule upd_conv_take_nth_drop [OF i])
  have "dests_rtp ((cp_processl cp)[i := d']) = dests_rtp ((cp_processl cp)[i := d])"
    by (simp add: upd rtp)
  then have rtps: "dests_rtp (cp_processl cp') = dests_rtp (cp_processl cp)"
    by (simp add: cp2 same)
  have "List.map d_id ((cp_processl cp)[i := d']) = List.map d_id ((cp_processl cp)[i := d])"
    by (simp add: upd d'_def)
  then have ids: "camp_ids cp' = camp_ids cp" by (simp add: camp_ids_def cp2 same)
  have "dest_inv (cp_max_try cp) d" using inv mem by (simp add: sys_inv_def camp_inv_def)
  then have "dest_inv (cp_max_try cp) d'"
    using k 1(1) by (simp add: dest_inv_def tries_ok_def dest_call_ok_def d'_def kept_def)
  then have "camp_inv cp'"
    using inv ids unfolding sys_inv_def camp_inv_def
    by (auto simp: cp2 dest!: set_update_subset_insert [THEN subsetD])
  with inv rtps ids kept_pool [OF k] show ?thesis
    by (simp add: sys_inv_def sys_le_def) (simp add: cp')
qed

lemma camp_step_ok:
  assumes inv: "sys_inv held (cp, g)" and step: "camp_step (cp, g) (cp', g')"
  shows "sys_inv held (cp', g') \<and> sys_le held (cp, g) (cp', g')"
  using step
proof cases
  case (round ev evs path)
  have "camp_inv cp" "pool_ok g (dests_rtp (cp_processl cp) @ held)" using inv by (simp_all add: sys_inv_def)
  from start_fake_calling_ok [OF this round] show ?thesis by (simp add: sys_inv_def sys_le_def)
next
  case (service ev evs path)
  define cp0 where "cp0 = cp\<lparr>cp_is_running := True, cp_tmr := False\<rparr>"
  have "camp_inv cp0" using inv by (simp add: cp0_def sys_inv_def camp_inv_def camp_ids_def)
  moreover have "start_fake_calling ev evs path cp0 g = Inr (cp', g')"
    using service by (simp add: campaign_service_handler_def cp0_def)
  moreover have "pool_ok g (dests_rtp (cp_processl cp0) @ held)" using inv by (simp add: cp0_def sys_inv_def)
  ultimately have "camp_inv cp' \<and> mset (camp_ids cp') = mset (camp_ids cp0) \<and>
    pool_ok g' (dests_rtp (cp_processl cp') @ held) \<and>
    sessions g' (dests_rtp (cp_processl cp') @ held) = sessions g (dests_rtp (cp_processl cp0) @ held) \<and>
    sh_gateways g' = sh_gateways g \<and>
    length (cp_processl cp') \<le> max (length (cp_processl cp0)) (unat (cp_call_limit cp0)) \<and>
    cp_call_limit cp' = cp_call_limit cp0 \<and> cp_max_try cp' = cp_max_try cp0"
    using start_fake_calling_ok by blast
  then show ?thesis by (simp add: sys_inv_def sys_le_def cp0_def camp_ids_def)
next
  case (check i ev)
  have "camp_inv cp" "pool_ok g (dests_rtp (cp_processl cp) @ held)" using inv by (simp_all add: sys_inv_def)
  from on_call_end_at_ok [OF this(1) check(1) this(2) check(3)] show ?thesis
    by (auto simp: sys_inv_def sys_le_def)
next
  case (event i A ev e)
  show ?thesis by (rule on_call_ok [OF inv event(1,2)]) (rule handle_event_kept)
qed

lemma camp_reach_ok:
  assumes "camp_step\<^sup>*\<^sup>* s t" and "sys_inv held s"
  shows "sys_inv held t \<and> sys_le held s t"
  using assms(1)
proof (induction rule: rtranclp_induct)
  case base
  with assms(2) show ?case by (simp add: sys_le_refl)
next
  case (step t u)
  then show ?case
    using camp_step_ok [of held "fst t" "snd t" "fst u" "snd u"] by (auto intro: sys_le_trans)
qed

section \<open>Calls that are not answered\<close>

text \<open>
  After 40 seconds without an answer the check ends the call: its sessions are given back, the end
  is recorded with the cause 1, and its destination leaves the process list, to be tried again
  while it has tries left.
\<close>

lemma on_call_end_timeout:
  assumes "d_call d = Some c" and "c_status c < CALL_ESTABLISHED" and "c_pbx_call c = None"
    and "e_now ev - c_connect_tm c > 40"
  shows "on_call_end ev cp d g =
    Inr (if cp_max_try cp > 0 \<and> d_try_count d \<ge> cp_max_try cp then Destroy
         else Requeue (d\<lparr>d_call := None, d_tmr := False\<rparr>),
      release_opt (c_rtp_sess c) (queue_sql (Q_end (d_id d) (d_try_count d) CALL_DISCONNECTED 0 (c_connect_tm c)
        (c_establish_tm c) (e_now ev) 1 (c_action_key c) (c_action_type c) (c_event_received c)) g))"
proof -
  have ck: "check_call ev cp c g = Inr (c\<lparr>c_sess := False, c_ended := True, c_resp_code := 1\<rparr>, g)"
  proof (cases "c_ended c")
    case True
    then have "c\<lparr>c_ended := True\<rparr> = c" by (cases c) simp
    with True show ?thesis by (simp add: check_call_def)
  next
    case False
    with assms(2,4) show ?thesis by (auto simp: check_call_def force_end_def)
  qed
  have "c_status c \<noteq> CALL_ESTABLISHED" using assms(2) by auto
  with assms ck show ?thesis
    by (simp add: on_call_end_def deref_def call_duration_def record_call_def call_destructor_def Let_def)
qed

text \<open>A call that nobody answers is checked until its destination leaves the process list.\<close>

fun check_until :: "env list \<Rightarrow> campaign \<Rightarrow> destination \<Rightarrow> shared \<Rightarrow> ub + fate \<times> shared" where
  "check_until [] cp d g = Inr (Keep d, g)"
| "check_until (ev # evs) cp d g =
    obind (on_call_end ev cp d g) (\<lambda>(f, g). case f of
        Keep d \<Rightarrow> check_until evs cp d g | _ \<Rightarrow> Inr (f, g))"

lemma check_until_timeout:
  assumes "d_call d = Some c" and "c_status c < CALL_ESTABLISHED" and "c_pbx_call c = None" and "\<not> c_ended c"
    and "d_tmr d" and "\<exists>ev\<in>set evs. e_now ev - c_connect_tm c > 40"
  shows "\<exists>g'. check_until evs cp d g =
    Inr (if cp_max_try cp > 0 \<and> d_try_count d \<ge> cp_max_try cp then Destroy
         else Requeue (d\<lparr>d_call := None, d_tmr := False\<rparr>), g')"
  using assms(6)
proof (induction evs)
  case (Cons ev evs)
  show ?case
  proof (cases "e_now ev - c_connect_tm c > 40")
    case True
    from on_call_end_timeout [OF assms(1-3) True] show ?thesis by simp
  next
    case False
    with assms have "check_call ev cp c g = Inr (c, g)" by (auto simp: check_call_def)
    moreover have "d\<lparr>d_call := Some c, d_tmr := True\<rparr> = d" using assms by (cases d) simp
    ultimately have "on_call_end ev cp d g = Inr (Keep d, g)"
      using assms by (simp add: on_call_end_def deref_def)
    with Cons False show ?thesis by simp
  qed
qed simp

section \<open>Where the code goes wrong\<close>

text \<open>
  A call that cannot be allocated, for want of an RTP session for instance, releases its
  destination, whose list element the loop then follows.
\<close>

lemma place_call_error:
  assumes "d_call d = None" and "cp_gateway cp = Some a" and "gw_deref g a = Inr gw"
    and "call_alloc ev (d_dest d) (gw_sip_uri gw) None g = Inr (Inl e :: errno + call, g')"
  shows "place_call ev path cp d g = Inl Use_after_free"
  using assms by (simp add: place_call_def)

lemma place_call_exhausted:
  assumes "d_call d = None" and "cp_gateway cp = Some a" and "gw_deref g a = Inr gw" and "e_call_mem ev"
    and "call_codec (gw_sip_uri gw) None = Inr codec" and "\<forall>i\<in>set (sh_rtp_free g). rts_in_use (sh_rtp g i)"
  shows "place_call ev path cp d g = Inl Use_after_free"
proof -
  have "List.find (\<lambda>i. \<not> rts_in_use (sh_rtp g i)) (sh_rtp_free g) = None"
    using assms(6) by (simp add: find_None_iff)
  then have "find_rtp_session g = (None, g)" by (simp add: find_rtp_session_def)
  then have "call_alloc ev (d_dest d) (gw_sip_uri gw) None g = Inr (Inl (Sys_err 1) :: errno + call, g)"
    using assms(4,5) by (cases codec) (simp add: call_alloc_def sdp_sess_alloc_def)
  from place_call_error [OF assms(1-3) this] show ?thesis .
qed

text \<open>
  A call that was answered and talked to is dialled again when the call it was forwarded to was
  not answered: the duration of the latter replaces its own.
\<close>

lemma on_call_end_redial:
  assumes "d_call d = Some c" and "c_ended c" and "c_status c = CALL_ESTABLISHED"
    and "c_pbx_call c = Some p" and "c_status p \<noteq> CALL_ESTABLISHED"
    and "\<not> (cp_max_try cp > 0 \<and> d_try_count d \<ge> cp_max_try cp)"
    and "on_call_end ev cp d g = Inr (f, g')"
  shows "f = Requeue (d\<lparr>d_call := None, d_tmr := False\<rparr>) \<and>
    (\<exists>q. sh_sqllist g' = sh_sqllist g @ [Q_end (d_id d) (d_try_count d) CALL_DISCONNECTED
        (e_now ev - c_establish_tm c) (c_connect_tm c) (c_establish_tm c) (e_now ev) 1
        (c_action_key c) (c_action_type c) (c_event_received c), q])"
  using assms(7)
proof (cases rule: on_call_end_cases)
  case (keep c1 c')
  with assms show ?thesis by (auto simp: check_call_def)
next
  case (ended c1 c' g1 dur g2)
  with assms(1,2) have c: "c1 = c" "c' = c\<lparr>c_sess := False, c_resp_code := 1\<rparr>" "g1 = g"
    by (auto simp: check_call_def)
  have "sh_sqllist (call_destructor c' g2) = sh_sqllist g2"
    by (simp add: call_destructor_def pbx_call_destructor_def Let_def split: option.splits)
  moreover have "dur = 0 \<and> (\<exists>q. sh_sqllist g2 = sh_sqllist g @ [Q_end (d_id d) (d_try_count d) CALL_DISCONNECTED
        (e_now ev - c_establish_tm c) (c_connect_tm c) (c_establish_tm c) (e_now ev) 1
        (c_action_key c) (c_action_type c) (c_event_received c), q])"
    using ended(4)
  proof (cases rule: record_call_cases)
    case alone
    with c assms(4) show ?thesis by simp
  next
    case (forwarded q gid to)
    with c assms(3-5) show ?thesis by (simp add: call_duration_def queue_sql_def)
  qed
  ultimately show ?thesis using ended(5,6) assms(6) by simp
qed

end
