(* ===== verification/Re_Print.thy ===== *)
theory Re_Print
  imports Re_Pl
begin

text \<open>
  Formatted printing (\<open>src/re/src/fmt/print.c\<close>): \<open>re_vhprintf\<close> walks over a format and calls a
  print handler with one piece of text after another, and the functions on top of it print into a
  buffer of a given size or into one that grows.

  A print handler is a function on a state \<open>'s\<close>: it takes the text and returns an error or not.
  The arguments are a list of tagged values; taking one that is not there, or not of the type the
  format asks for, is undefined behaviour. The errors of several calls for one directive are
  ored by the code; the handlers here fail with one error only, so the first is the result. What
  the code does with floating-point numbers and socket addresses (\<open>isinf\<close>, \<open>local_ftoa\<close>,
  \<open>sa_ntop\<close>) are arguments.
\<close>

section \<open>Arguments\<close>

record dbl =
  dbl_inf :: bool
  dbl_nan :: bool
  dbl_neg :: bool
  dbl_text :: "nat \<Rightarrow> string"

record sockaddr =
  sock_text :: "string option"
  sock_inet6 :: bool
  sock_port :: u16

datatype 's varg =
    V_int u32
  | V_long u64
  | V_str "string option"
  | V_pl "pl option"
  | V_bytes "u8 list option"
  | V_ptr u64
  | V_double dbl
  | V_handler "('s \<Rightarrow> errno option \<times> 's) option"
  | V_sa "sockaddr option"
  | V_list "'s varg list option"

section \<open>Padding\<close>

definition DEC_SIZE :: nat where
  "DEC_SIZE = 42"

text \<open>The texts that \<open>write_padded\<close> hands to the print handler.\<close>

definition write_padded :: "string \<Rightarrow> nat \<Rightarrow> char \<Rightarrow> bool \<Rightarrow> string option \<Rightarrow> string list" where
  "write_padded p pad pch plr prfx =
    (let pad = pad - min pad (str_len prfx)
     in (case prfx of Some x \<Rightarrow> if pch = CHR ''0'' then [x] else [] | None \<Rightarrow> []) @
        (if plr then [] else replicate (pad - length p) [pch]) @
        (case prfx of Some x \<Rightarrow> if pch \<noteq> CHR ''0'' then [x] else [] | None \<Rightarrow> []) @
        (if p = [] then [] else [p]) @
        (if plr then replicate (pad - length p) [pch] else []))"

section \<open>Directives\<close>

text \<open>
  The variables of the loop between a percent sign and the end of its directive. \<open>f_fpad\<close> is
  \<open>None\<close> for -1; the length modifier counts the letters l, and \<open>LENMOD_SIZE\<close> is 42.
\<close>

record fmt_state =
  f_pch :: char
  f_plr :: bool
  f_pad :: nat
  f_fpad :: "nat option"
  f_lenmod :: nat

definition fmt_init :: fmt_state where
  "fmt_init = \<lparr>f_pch = CHR '' '', f_plr = False, f_pad = 0, f_fpad = None, f_lenmod = 0\<rparr>"

definition LENMOD_SIZE :: nat where
  "LENMOD_SIZE = 42"

text \<open>The characters that change these variables; the others end the directive.\<close>

definition fmt_modify :: "char \<Rightarrow> fmt_state \<Rightarrow> fmt_state option" where
  "fmt_modify c fs =
    (if c = CHR ''-'' then Some (fs\<lparr>f_plr := True\<rparr>)
     else if c = CHR ''.'' then Some (fs\<lparr>f_fpad := Some (f_pad fs), f_pad := 0\<rparr>)
     else if c = CHR ''l'' then Some (fs\<lparr>f_lenmod := f_lenmod fs + 1\<rparr>)
     else if c = CHR ''z'' then Some (fs\<lparr>f_lenmod := LENMOD_SIZE\<rparr>)
     else if digit_u8 c \<le> 9 then
       (if f_pad fs = 0 \<and> c = CHR ''0'' then Some (fs\<lparr>f_pch := CHR ''0''\<rparr>)
        else Some (fs\<lparr>f_pad := wrap64 (f_pad fs * 10 + unat (digit_u8 c))\<rparr>))
     else None)"

text \<open>What a directive does: texts to print, a handler to call, a format to print in its place.\<close>

datatype 's piece =
    P_out "string list"
  | P_call "'s \<Rightarrow> errno option \<times> 's"
  | P_sub string "'s varg list"

definition fmt_pch :: "fmt_state \<Rightarrow> char" where
  "fmt_pch fs = (if f_plr fs then CHR '' '' else f_pch fs)"

definition padded_text :: "fmt_state \<Rightarrow> string \<Rightarrow> 's piece" where
  "padded_text fs t = P_out (write_padded t (f_pad fs) (CHR '' '') (f_plr fs) None)"

definition padded_num :: "fmt_state \<Rightarrow> string \<Rightarrow> string option \<Rightarrow> 's piece" where
  "padded_num fs t prfx = P_out (write_padded t (f_pad fs) (fmt_pch fs) (f_plr fs) prfx)"

text \<open>A signed number: its digits and its sign.\<close>

definition print_signed :: "fmt_state \<Rightarrow> int \<Rightarrow> 's piece" where
  "print_signed fs sn = padded_num fs (local_itoa (word_of_int \<bar>sn\<bar>) 10 False)
     (if sn < 0 then Some ''-'' else None)"

definition print_unsigned :: "fmt_state \<Rightarrow> char \<Rightarrow> u64 \<Rightarrow> 's piece" where
  "print_unsigned fs c n =
    padded_num fs (local_itoa n (if c = CHR ''u'' then 10 else 16) (c = CHR ''X'')) None"

definition print_double :: "fmt_state \<Rightarrow> dbl \<Rightarrow> 's piece" where
  "print_double fs d =
    (let (fpad, pad) = (case f_fpad fs of None \<Rightarrow> (f_pad fs, 0) | Some fpad \<Rightarrow> (fpad, f_pad fs))
     in P_out (if dbl_inf d then write_padded ''inf'' fpad (CHR '' '') (f_plr fs) None
        else if dbl_nan d then write_padded ''nan'' fpad (CHR '' '') (f_plr fs) None
        else write_padded (dbl_text d (if pad \<noteq> 0 then min pad DEC_SIZE else 6)) fpad (fmt_pch fs)
               (f_plr fs) (if dbl_neg d then Some ''-'' else None)))"

definition print_ptr :: "fmt_state \<Rightarrow> u64 \<Rightarrow> 's piece" where
  "print_ptr fs p =
    (if p \<noteq> 0 then padded_num fs (local_itoa p 16 False) (Some ''0x'')
     else padded_text fs ''(nil)'')"

text \<open>Bytes in hexadecimal, two digits each.\<close>

definition print_hex :: "fmt_state \<Rightarrow> bool \<Rightarrow> u8 list \<Rightarrow> 's piece" where
  "print_hex fs uc bs =
    (let fill = replicate (f_pad fs - length bs * 2) [fmt_pch fs]
     in P_out ((if f_plr fs then [] else fill) @
         concat (List.map (\<lambda>v. write_padded (local_itoa (ucast v) 16 uc) 2 (CHR ''0'') False None) bs) @
         (if f_plr fs then fill else [])))"

text \<open>A socket address, with its port after a colon for \<open>J\<close>.\<close>

definition print_sa :: "fmt_state \<Rightarrow> bool \<Rightarrow> sockaddr \<Rightarrow> 's piece" where
  "print_sa fs port sa = (case sock_text sa of
      None \<Rightarrow> padded_text fs ''?''
    | Some addr \<Rightarrow>
        let txt = write_padded addr (f_pad fs) (CHR '' '') (f_plr fs) None
        in P_out (if \<not> port then txt
          else (if sock_inet6 sa then [''[''] else []) @ txt @ (if sock_inet6 sa then ['']''] else []) @
            ['':''] @ write_padded (local_itoa (ucast (sock_port sa)) 10 False) (f_pad fs) (fmt_pch fs)
              (f_plr fs) None))"

text \<open>The first \<open>len\<close> elements behind a pointer, none when it is NULL.\<close>

definition take_buf :: "'a list option \<Rightarrow> u64 \<Rightarrow> ub + 'a list" where
  "take_buf buf len = (case buf of None \<Rightarrow> Inr []
    | Some xs \<Rightarrow> if unat len \<le> length xs then Inr (take (unat len) xs) else Inl Out_of_bounds)"

text \<open>Taking arguments of the types a directive asks for.\<close>

fun arg_long :: "'s varg list \<Rightarrow> ub + u64 \<times> 's varg list" where
  "arg_long (V_long v # args) = Inr (v, args)"
| "arg_long _ = Inl Uninitialised"

fun arg_int :: "'s varg list \<Rightarrow> ub + u32 \<times> 's varg list" where
  "arg_int (V_int v # args) = Inr (v, args)"
| "arg_int _ = Inl Uninitialised"

fun arg_str :: "'s varg list \<Rightarrow> ub + string option \<times> 's varg list" where
  "arg_str (V_str v # args) = Inr (v, args)"
| "arg_str _ = Inl Uninitialised"

fun arg_bytes :: "'s varg list \<Rightarrow> ub + u8 list option \<times> 's varg list" where
  "arg_bytes (V_bytes v # args) = Inr (v, args)"
| "arg_bytes _ = Inl Uninitialised"

fun arg_other :: "fmt_state \<Rightarrow> char \<Rightarrow> 's varg list \<Rightarrow> ub + 's piece \<times> 's varg list" where
  "arg_other fs c (V_double d # args) =
    (if c = CHR ''f'' \<or> c = CHR ''F'' then Inr (print_double fs d, args) else Inl Uninitialised)"
| "arg_other fs c (V_handler h # args) =
    (if c = CHR ''H'' then Inr (case h of None \<Rightarrow> P_out [] | Some h \<Rightarrow> P_call h, args) else Inl Uninitialised)"
| "arg_other fs c (V_ptr p # args) =
    (if c = CHR ''p'' then Inr (print_ptr fs p, args) else Inl Uninitialised)"
| "arg_other fs c (V_pl pl # args) =
    (if c = CHR ''r'' then Inr (padded_text fs (case pl of Some (Some t) \<Rightarrow> t | _ \<Rightarrow> []), args)
     else Inl Uninitialised)"
| "arg_other fs c (V_sa sa # args) =
    (if c = CHR ''j'' \<or> c = CHR ''J'' then
       Inr (case sa of None \<Rightarrow> P_out [] | Some sa \<Rightarrow> print_sa fs (c = CHR ''J'') sa, args)
     else Inl Uninitialised)"
| "arg_other fs c (V_str str # V_list l # args) =
    (if c = CHR ''v'' then Inr (case (str, l) of (Some f, Some as) \<Rightarrow> P_sub f as | _ \<Rightarrow> P_out [], args)
     else Inl Uninitialised)"
| "arg_other fs c _ = Inl Uninitialised"

text \<open>Integers: \<open>int\<close> without a length modifier, 64 bits with one.\<close>

definition directive_int :: "fmt_state \<Rightarrow> char \<Rightarrow> 's varg list \<Rightarrow> ub + 's piece \<times> 's varg list" where
  "directive_int fs c args =
    (if c = CHR ''d'' \<or> c = CHR ''i'' then
       (if f_lenmod fs = 0 then obind (arg_int args) (\<lambda>(v, args). Inr (print_signed fs (sint v), args))
        else obind (arg_long args) (\<lambda>(v, args). Inr (print_signed fs (sint v), args)))
     else
       (if f_lenmod fs = 0 then obind (arg_int args) (\<lambda>(v, args). Inr (print_unsigned fs c (ucast v), args))
        else obind (arg_long args) (\<lambda>(v, args). Inr (print_unsigned fs c v, args))))"

text \<open>Texts, characters and bytes.\<close>

definition directive_text :: "fmt_state \<Rightarrow> char \<Rightarrow> 's varg list \<Rightarrow> ub + 's piece \<times> 's varg list" where
  "directive_text fs c args =
    (if c = CHR ''b'' then
       obind (arg_str args) (\<lambda>(str, args). obind (arg_long args) (\<lambda>(len, args).
       obind (take_buf str len) (\<lambda>t. Inr (padded_text fs t, args))))
     else if c = CHR ''c'' then
       obind (arg_int args) (\<lambda>(ch, args). Inr (padded_text fs [char_of (unat ch mod 256)], args))
     else if c = CHR ''s'' then
       obind (arg_str args) (\<lambda>(str, args). Inr (padded_text fs (case str of None \<Rightarrow> [] | Some t \<Rightarrow> t), args))
     else
       obind (arg_bytes args) (\<lambda>(b, args). obind (arg_long args) (\<lambda>(len, args).
       obind (take_buf b len) (\<lambda>bs. Inr (print_hex fs (c = CHR ''W'') bs, args)))))"

text \<open>Which characters these are.\<close>

definition int_conv :: "char \<Rightarrow> bool" where
  "int_conv c \<longleftrightarrow> c \<in> set ''diXxu''"

definition text_conv :: "char \<Rightarrow> bool" where
  "text_conv c \<longleftrightarrow> c \<in> set ''bcsWw''"

definition other_conv :: "char \<Rightarrow> bool" where
  "other_conv c \<longleftrightarrow> c \<in> set ''fFHprjJv''"

definition directive :: "fmt_state \<Rightarrow> char \<Rightarrow> 's varg list \<Rightarrow> ub + 's piece \<times> 's varg list" where
  "directive fs c args =
    (if c = CHR ''%'' then Inr (P_out [''%''], args)
     else if int_conv c then directive_int fs c args
     else if text_conv c then directive_text fs c args
     else if other_conv c then arg_other fs c args
     else Inr (P_out [''?''], args))"

section \<open>The loop\<close>

text \<open>All calls of the handler for one directive are made, whether or not one fails.\<close>

fun print_all :: "(string \<Rightarrow> 's \<Rightarrow> errno option \<times> 's) \<Rightarrow> string list \<Rightarrow> 's \<Rightarrow> errno option \<times> 's" where
  "print_all vph [] s = (None, s)"
| "print_all vph (t # ts) s =
    (let (e, s) = vph t s; (e', s) = print_all vph ts s in (err_or e e', s))"

text \<open>A weight of the arguments that bounds the nested formats.\<close>

fun weight :: "'s varg \<Rightarrow> nat" where
  "weight (V_str (Some t)) = Suc (length t)"
| "weight (V_list (Some as)) = Suc (sum_list (List.map weight as))"
| "weight _ = 1"

abbreviation weights :: "'s varg list \<Rightarrow> nat" where
  "weights as \<equiv> sum_list (List.map weight as)"

fun subfmt :: "'s piece \<Rightarrow> nat" where
  "subfmt (P_sub f as) = Suc (length f + weights as)"
| "subfmt _ = 0"

lemma subfmt_print [simp]:
  "subfmt (padded_text fs t) = 0" "subfmt (padded_num fs t x) = 0" "subfmt (print_signed fs n) = 0"
  "subfmt (print_unsigned fs c w) = 0" "subfmt (print_double fs d) = 0" "subfmt (print_ptr fs q) = 0"
  "subfmt (print_hex fs uc bs) = 0" "subfmt (print_sa fs b sa) = 0"
  by (simp_all add: padded_text_def padded_num_def print_signed_def print_unsigned_def print_double_def
      print_ptr_def print_hex_def print_sa_def Let_def split: prod.splits option.splits)

lemma arg_weight:
  "arg_long args = Inr (v, args') \<Longrightarrow> weights args' \<le> weights args"
  "arg_int args = Inr (w, args') \<Longrightarrow> weights args' \<le> weights args"
  "arg_str args = Inr (t, args') \<Longrightarrow> weights args' \<le> weights args"
  "arg_bytes args = Inr (b, args') \<Longrightarrow> weights args' \<le> weights args"
  by (auto elim: arg_long.elims arg_int.elims arg_str.elims arg_bytes.elims)

lemma arg_other_weight:
  "arg_other fs c args = Inr (p, args') \<Longrightarrow> weights args' + subfmt p \<le> weights args"
  by (cases "(fs, c, args)" rule: arg_other.cases) (auto split: if_splits option.splits)

lemma directive_int_weight:
  "directive_int fs c args = Inr (p, args') \<Longrightarrow> weights args' + subfmt p \<le> weights args"
  by (auto simp: directive_int_def obind_Inr_iff dest: arg_weight split: if_splits)

lemma directive_text_weight:
  "directive_text fs c args = Inr (p, args') \<Longrightarrow> weights args' + subfmt p \<le> weights args"
  by (auto simp: directive_text_def obind_Inr_iff dest!: arg_weight split: if_splits)

lemma directive_weight:
  "directive fs c args = Inr (p, args') \<Longrightarrow> weights args' + subfmt p \<le> weights args"
  by (auto simp: directive_def split: if_splits
      dest: directive_int_weight directive_text_weight arg_other_weight)

text \<open>
  The first argument is the state of a directive that was begun, if any; then the text seen since
  the last one, and the rest of the format.
\<close>

function vhprintf ::
  "(string \<Rightarrow> 's \<Rightarrow> errno option \<times> 's) \<Rightarrow> fmt_state option \<Rightarrow> string \<Rightarrow> string \<Rightarrow> 's varg list \<Rightarrow> 's \<Rightarrow>
    ub + errno option \<times> 's" where
  "vhprintf vph fo lit [] args s = Inr (if fo = None \<and> lit \<noteq> [] then vph lit s else (None, s))"
| "vhprintf vph None lit (c # p) args s =
    (if c \<noteq> CHR ''%'' then vhprintf vph None (lit @ [c]) p args s
     else case (if lit = [] then (None, s) else vph lit s) of
         (Some e, s) \<Rightarrow> Inr (Some e, s)
       | (None, s) \<Rightarrow> vhprintf vph (Some fmt_init) [] p args s)"
| "vhprintf vph (Some fs) lit (c # p) args s = (case fmt_modify c fs of
      Some fs \<Rightarrow> vhprintf vph (Some fs) [] p args s
    | None \<Rightarrow> (case directive fs c args of
          Inl u \<Rightarrow> Inl u
        | Inr (pc, args') \<Rightarrow>
            obind (case pc of
                P_out ts \<Rightarrow> Inr (print_all vph ts s)
              | P_call h \<Rightarrow> Inr (h s)
              | P_sub f as \<Rightarrow> vhprintf vph None [] f as s) (\<lambda>(err, s).
            if err \<noteq> None then Inr (err, s) else vhprintf vph None [] p args' s)))"
  by pat_completeness auto
termination
  by (relation "measure (\<lambda>(vph, fo, lit, p, args, s). length p + sum_list (List.map weight args))")
    (auto dest!: directive_weight)

definition re_vhprintf ::
  "string option \<Rightarrow> 's varg list \<Rightarrow> (string \<Rightarrow> 's \<Rightarrow> errno option \<times> 's) option \<Rightarrow> 's \<Rightarrow> ub + errno option \<times> 's" where
  "re_vhprintf fmt ap vph s = (case (fmt, vph) of
      (Some fmt, Some vph) \<Rightarrow> vhprintf vph None [] fmt ap s
    | _ \<Rightarrow> Inr (Some EINVAL, s))"

section \<open>Printing into memory\<close>

text \<open>A buffer: the text written so far and the room left.\<close>

definition print_handler :: "string \<Rightarrow> string \<times> nat \<Rightarrow> errno option \<times> string \<times> nat" where
  "print_handler p = (\<lambda>(out, left).
    if length p > left then (Some ENOMEM, out, left) else (None, out @ p, left - length p))"

text \<open>The result and the text, which a 0 byte ends; the room for it is held back.\<close>

definition re_vsnprintf ::
  "nat \<Rightarrow> string option \<Rightarrow> (string \<times> nat) varg list \<Rightarrow> ub + int \<times> string" where
  "re_vsnprintf sz fmt ap =
    (if sz = 0 then Inr (-1, [])
     else obind (re_vhprintf fmt ap (Some print_handler) ([], sz - 1)) (\<lambda>(err, out, left).
       Inr (if err \<noteq> None then -1 else int (sz - left - 1), out)))"

text \<open>
  To a stream: \<open>fwrite\<close> is whether the text could be written, which fails for an empty one as there is
  no element to write.
\<close>

definition re_vfprintf ::
  "bool \<Rightarrow> (string \<Rightarrow> bool) \<Rightarrow> string option \<Rightarrow> (string \<times> nat) varg list \<Rightarrow> ub + int \<times> string option" where
  "re_vfprintf stream fwrite fmt ap =
    (if \<not> stream then Inr (-1, None)
     else obind (re_vhprintf fmt ap (Some print_handler) ([], 4096)) (\<lambda>(err, out, left). Inr
       (if err \<noteq> None then (-1, None)
        else if 4096 - left = 0 \<or> \<not> fwrite out then (-1, None)
        else (int (4096 - left), Some out))))"

text \<open>A buffer that grows: \<open>dp_l\<close> bytes are left of \<open>dp_size\<close>.\<close>

record dyn_print =
  dp_str :: string
  dp_l :: nat
  dp_size :: nat

definition print_handler_dyn :: "allocator \<Rightarrow> string \<Rightarrow> dyn_print \<Rightarrow> errno option \<times> dyn_print" where
  "print_handler_dyn A p dp =
    (let grow = length p > sub64 (dp_l dp) 1;
         new_size = max (dp_size dp + length p) (dp_size dp * 2)
     in if grow \<and> \<not> al_ok A new_size then (Some ENOMEM, dp)
        else
          let dp = (if grow then dp\<lparr>dp_l := dp_l dp + (new_size - dp_size dp), dp_size := new_size\<rparr> else dp)
          in (None, dp\<lparr>dp_str := dp_str dp @ p, dp_l := dp_l dp - length p\<rparr>))"

definition re_vsdprintf :: "allocator \<Rightarrow> string option \<Rightarrow> dyn_print varg list \<Rightarrow> ub + (errno + string)" where
  "re_vsdprintf A fmt ap =
    (if \<not> al_ok A 16 then Inr (Inl ENOMEM)
     else obind (re_vhprintf fmt ap (Some (print_handler_dyn A)) \<lparr>dp_str = [], dp_l = 16, dp_size = 16\<rparr>)
       (\<lambda>(err, dp). Inr (case err of Some e \<Rightarrow> Inl e | None \<Rightarrow> Inr (dp_str dp))))"

section \<open>What every print keeps\<close>

text \<open>A property of the state that the print handler and all handlers among the arguments keep.\<close>

fun handlers_ok :: "('s \<Rightarrow> bool) \<Rightarrow> 's varg \<Rightarrow> bool" where
  "handlers_ok I (V_handler (Some h)) = (\<forall>s. I s \<longrightarrow> I (snd (h s)))"
| "handlers_ok I (V_list (Some as)) = (\<forall>a\<in>set as. handlers_ok I a)"
| "handlers_ok I _ = True"

fun piece_ok :: "('s \<Rightarrow> bool) \<Rightarrow> 's piece \<Rightarrow> bool" where
  "piece_ok I (P_out ts) = True"
| "piece_ok I (P_call h) = (\<forall>s. I s \<longrightarrow> I (snd (h s)))"
| "piece_ok I (P_sub f as) = (\<forall>a\<in>set as. handlers_ok I a)"

lemma piece_ok_print [simp]:
  "piece_ok I (padded_text fs t)" "piece_ok I (padded_num fs t x)" "piece_ok I (print_signed fs n)"
  "piece_ok I (print_unsigned fs c w)" "piece_ok I (print_double fs d)" "piece_ok I (print_ptr fs q)"
  "piece_ok I (print_hex fs uc bs)" "piece_ok I (print_sa fs b sa)"
  by (simp_all add: padded_text_def padded_num_def print_signed_def print_unsigned_def print_double_def
      print_ptr_def print_hex_def print_sa_def Let_def split: prod.splits option.splits)

lemma arg_suffix:
  "arg_long args = Inr (v, args') \<Longrightarrow> set args' \<subseteq> set args"
  "arg_int args = Inr (w, args') \<Longrightarrow> set args' \<subseteq> set args"
  "arg_str args = Inr (t, args') \<Longrightarrow> set args' \<subseteq> set args"
  "arg_bytes args = Inr (b, args') \<Longrightarrow> set args' \<subseteq> set args"
  by (auto elim: arg_long.elims arg_int.elims arg_str.elims arg_bytes.elims)

lemma arg_other_ok:
  "arg_other fs c args = Inr (p, args') \<Longrightarrow> set args' \<subseteq> set args \<and>
    ((\<forall>a\<in>set args. handlers_ok I a) \<longrightarrow> piece_ok I p)"
  by (cases "(fs, c, args)" rule: arg_other.cases) (auto split: if_splits option.splits)

lemma directive_int_ok:
  "directive_int fs c args = Inr (p, args') \<Longrightarrow> set args' \<subseteq> set args \<and> piece_ok I p"
  by (auto simp: directive_int_def obind_Inr_iff dest: arg_suffix split: if_splits)

lemma directive_text_ok:
  "directive_text fs c args = Inr (p, args') \<Longrightarrow> set args' \<subseteq> set args \<and> piece_ok I p"
  by (auto simp: directive_text_def obind_Inr_iff dest!: arg_suffix split: if_splits)

lemma directive_ok:
  "directive fs c args = Inr (p, args') \<Longrightarrow> set args' \<subseteq> set args \<and>
    ((\<forall>a\<in>set args. handlers_ok I a) \<longrightarrow> piece_ok I p)"
  by (auto simp: directive_def split: if_splits dest: directive_int_ok directive_text_ok arg_other_ok)

lemma print_all_inv:
  "(\<And>t s. I s \<Longrightarrow> I (snd (vph t s))) \<Longrightarrow> I s \<Longrightarrow> I (snd (print_all vph ts s))"
  by (induction ts arbitrary: s) (auto simp: Let_def split: prod.splits, metis snd_conv)

lemma vhprintf_inv:
  "vhprintf vph fo lit p args s = Inr (err, s') \<Longrightarrow> (\<forall>t s. I s \<longrightarrow> I (snd (vph t s))) \<Longrightarrow> I s \<Longrightarrow>
    \<forall>a\<in>set args. handlers_ok I a \<Longrightarrow> I s'"
proof (induction vph fo lit p args s arbitrary: err s' rule: vhprintf.induct)
  case (1 vph fo lit args s)
  then show ?case by (auto split: if_splits) (metis snd_conv)
next
  case (2 vph lit c p args s)
  show ?case
  proof (cases "c = CHR ''%''")
    case False
    with 2 show ?thesis by simp
  next
    case True
    obtain e s1 where f: "(if lit = [] then (None, s) else vph lit s) = (e, s1)" by fastforce
    then have s1: "I s1" using 2(4,5) by (auto split: if_splits) (metis snd_conv)
    show ?thesis
    proof (cases e)
      case None
      have "vhprintf vph (Some fmt_init) [] p args s1 = Inr (err, s')" using 2(3) True f None by simp
      from 2(2) [OF _ f [symmetric] None this 2(4) s1 2(6)] True show ?thesis by simp
    next
      case (Some x)
      with 2(3) True f s1 show ?thesis by simp
    qed
  qed
next
  case (3 vph fs lit c p args s)
  show ?case
  proof (cases "fmt_modify c fs")
    case (Some fs')
    with 3(4) have "vhprintf vph (Some fs') [] p args s = Inr (err, s')" by simp
    from 3(3) [OF Some this 3(5-7)] show ?thesis .
  next
    case None
    with 3(4) obtain pc args' where d: "directive fs c args = Inr (pc, args')"
      by (auto split: sum.splits)
    note ok = directive_ok [OF d, of I]
    from 3(4) None d obtain e s1 where
      r: "(case pc of P_out ts \<Rightarrow> Inr (print_all vph ts s) | P_call h \<Rightarrow> Inr (h s)
        | P_sub f as \<Rightarrow> vhprintf vph None [] f as s) = Inr (e, s1)"
      and k: "(if e \<noteq> None then Inr (e, s1) else vhprintf vph None [] p args' s1) = Inr (err, s')"
      by (auto simp: obind_Inr_iff)
    have s1: "I s1"
    proof (cases pc)
      case (P_out ts)
      with r 3(5) 3(6) print_all_inv [of I vph s ts] show ?thesis by (metis sum.inject(2) piece.simps(10) snd_conv)
    next
      case (P_call h)
      with r ok 3(6,7) show ?thesis by (auto dest: spec [of _ s])
    next
      case (P_sub f as)
      with r have "vhprintf vph None [] f as s = Inr (e, s1)" by simp
      from 3(1) [OF None d refl P_sub this 3(5,6)] ok 3(7) P_sub show ?thesis by simp
    qed
    show ?thesis
    proof (cases e)
      case None': None
      with k have "vhprintf vph None [] p args' s1 = Inr (err, s')" by simp
      from 3(2) [OF None d refl r refl _ this 3(5) s1] None' ok 3(7) show ?thesis by auto
    next
      case (Some x)
      with k s1 show ?thesis by simp
    qed
  qed
qed

section \<open>Buffers never overflow\<close>

text \<open>Text and room make up the buffer, and a buffer that grows has room for the final 0 byte.\<close>

definition fixed_ok :: "nat \<Rightarrow> string \<times> nat \<Rightarrow> bool" where
  "fixed_ok n st \<longleftrightarrow> length (fst st) + snd st = n"

definition dyn_ok :: "dyn_print \<Rightarrow> bool" where
  "dyn_ok dp \<longleftrightarrow> 1 \<le> dp_l dp \<and> dp_size dp = length (dp_str dp) + dp_l dp"

lemma print_handler_fixed: "fixed_ok n st \<Longrightarrow> fixed_ok n (snd (print_handler t st))"
  by (auto simp: fixed_ok_def print_handler_def split: prod.splits)

lemma print_handler_dyn_ok:
  assumes "dyn_ok dp" and "dp_size dp < 2 ^ 64"
  shows "dyn_ok (snd (print_handler_dyn A t dp)) \<and>
    (fst (print_handler_dyn A t dp) = None \<longrightarrow> dp_str (snd (print_handler_dyn A t dp)) = dp_str dp @ t)"
proof -
  have "sub64 (dp_l dp) 1 = dp_l dp - 1" using assms by (simp add: dyn_ok_def)
  with assms show ?thesis by (auto simp: print_handler_dyn_def dyn_ok_def Let_def)
qed

lemma re_vsnprintf_bounded:
  assumes "re_vsnprintf sz fmt ap = Inr (n, out)" and "0 < sz" and "\<forall>a\<in>set ap. handlers_ok (fixed_ok (sz - 1)) a"
  shows "length out < sz" and "n = -1 \<or> n = int (length out)"
proof -
  have "length out < sz \<and> (n = -1 \<or> n = int (length out))"
  proof (cases fmt)
    case None
    with assms show ?thesis by (auto simp: re_vsnprintf_def re_vhprintf_def)
  next
    case (Some f)
    with assms(1,2) obtain err left where
      r: "vhprintf print_handler None [] f ap ([], sz - 1) = Inr (err, out, left)"
      and n: "n = (if err \<noteq> None then -1 else int (sz - left - 1))"
      by (auto simp: re_vsnprintf_def re_vhprintf_def obind_Inr_iff)
    have "fixed_ok (sz - 1) (out, left)"
      by (rule vhprintf_inv [OF r]) (use assms(3) in \<open>auto simp: print_handler_fixed, auto simp: fixed_ok_def\<close>)
    with assms(2) n show ?thesis by (auto simp: fixed_ok_def)
  qed
  then show "length out < sz" and "n = -1 \<or> n = int (length out)" by blast+
qed

section \<open>Formats without padding\<close>

text \<open>
  For a format of texts and numbers without padding, printing is the concatenation of the texts
  between the directives and those of the arguments: \<open>simple_fmt\<close> lists them. This is what the
  application's uses of \<open>re_snprintf\<close> rest on.
\<close>

fun simple_arg :: "char \<Rightarrow> 's varg \<Rightarrow> string list option" where
  "simple_arg c (V_str t) = (if c = CHR ''s'' then Some [case t of None \<Rightarrow> [] | Some t \<Rightarrow> t] else None)"
| "simple_arg c (V_pl t) = (if c = CHR ''r'' then Some [case t of Some (Some t) \<Rightarrow> t | _ \<Rightarrow> []] else None)"
| "simple_arg c (V_int v) =
    (if c = CHR ''d'' then Some ((if sint v < 0 then [''-''] else []) @ [local_itoa (word_of_int \<bar>sint v\<bar>) 10 False])
     else if c = CHR ''u'' then Some [local_itoa (ucast v) 10 False] else None)"
| "simple_arg c _ = None"

fun simple_fmt :: "string \<Rightarrow> string \<Rightarrow> 's varg list \<Rightarrow> string list option" where
  "simple_fmt lit [] args = Some [lit]"
| "simple_fmt lit (c # p) args =
    (if c \<noteq> CHR ''%'' then simple_fmt (lit @ [c]) p args
     else case p of [] \<Rightarrow> Some [lit]
       | d # p \<Rightarrow> (case args of [] \<Rightarrow> None
         | a # args \<Rightarrow> (case (simple_arg d a, simple_fmt [] p args) of
               (Some ts, Some us) \<Rightarrow> Some (lit # ts @ us) | _ \<Rightarrow> None)))"

text \<open>A print handler called with one text after the other until it fails.\<close>

fun print_seq :: "(string \<Rightarrow> 's \<Rightarrow> errno option \<times> 's) \<Rightarrow> string list \<Rightarrow> 's \<Rightarrow> errno option \<times> 's" where
  "print_seq vph [] s = (None, s)"
| "print_seq vph (t # ts) s = (case (if t = [] then (None, s) else vph t s) of
      (Some e, s) \<Rightarrow> (Some e, s) | (None, s) \<Rightarrow> print_seq vph ts s)"

lemma print_seq_append:
  "print_seq vph (ts @ us) s = (case print_seq vph ts s of
      (Some e, s) \<Rightarrow> (Some e, s) | (None, s) \<Rightarrow> print_seq vph us s)"
  by (induction ts arbitrary: s) (auto split: prod.splits option.splits if_splits)

lemma print_seq_handler:
  "fst (snd (print_seq print_handler ts (out, left))) = out @ snprintf_loop left ts"
  by (induction ts arbitrary: out left) (auto simp: print_handler_def split: prod.splits if_splits)

lemma print_seq_fits:
  "length (concat ts) \<le> left \<Longrightarrow> print_seq print_handler ts (out, left) =
    (None, out @ concat ts, left - length (concat ts))"
  by (induction ts arbitrary: out left) (auto simp: print_handler_def)

text \<open>An argument without padding.\<close>

lemma write_padded_0:
  "write_padded t 0 pch plr prfx = (case prfx of Some x \<Rightarrow> [x] | None \<Rightarrow> []) @ (if t = [] then [] else [t])"
  by (auto simp: write_padded_def split: option.splits)

lemma local_itoa_nonempty [simp]: "local_itoa n base uc \<noteq> []"
proof -
  have "p \<noteq> [] \<or> True \<Longrightarrow> local_itoa_loop n base uc p \<noteq> []" for n p
    by (induction n base uc p rule: local_itoa_loop.induct) (subst local_itoa_loop.simps, auto simp: Let_def)
  then show ?thesis by (simp add: local_itoa_def)
qed

text \<open>
  What the proof asks of a print handler: a number with a sign, printed in two calls that are both
  made, ends like two calls the second of which is only made after the first succeeded.
\<close>

locale print_sink =
  fixes vph :: "string \<Rightarrow> 's \<Rightarrow> errno option \<times> 's"
  assumes sign: "n \<noteq> [] \<Longrightarrow> print_all vph [''-'', n] s = print_seq vph [''-'', n] s"
begin

lemma simple_arg_directive:
  assumes "simple_arg c a = Some ts"
  shows "fmt_modify c fmt_init = None" and "directive fmt_init c (a # args) = Inr (P_out (filter (\<lambda>t. t \<noteq> []) ts), args)"
    and "print_all vph (filter (\<lambda>t. t \<noteq> []) ts) s = print_seq vph ts s"
proof -
  have c: "c \<in> {CHR ''s'', CHR ''r'', CHR ''d'', CHR ''u''}"
    using assms by (cases "(c, a)" rule: simple_arg.cases) (auto split: if_splits)
  then have "digit_u8 c > 9" by (auto simp: digit_u8_def)
  with c show "fmt_modify c fmt_init = None" by (auto simp: fmt_modify_def)
  show "directive fmt_init c (a # args) = Inr (P_out (filter (\<lambda>t. t \<noteq> []) ts), args)"
    using assms
    by (cases "(c, a)" rule: simple_arg.cases)
      (auto simp: directive_def int_conv_def text_conv_def other_conv_def directive_int_def directive_text_def
        fmt_init_def padded_text_def print_signed_def print_unsigned_def padded_num_def write_padded_0
        split: if_splits option.splits)
  have "print_all vph [t] s = print_seq vph [t] s" if "t \<noteq> []" for t
    using that by (auto split: prod.splits option.splits)
  moreover have "print_seq vph [[]] s = print_all vph [] s" by simp
  ultimately show "print_all vph (filter (\<lambda>t. t \<noteq> []) ts) s = print_seq vph ts s"
    using assms
    by (cases "(c, a)" rule: simple_arg.cases)
      (auto split: if_splits simp: sign simp del: print_seq.simps print_all.simps)
qed

lemma vhprintf_simple:
  "simple_fmt lit p args = Some ts \<Longrightarrow> vhprintf vph None lit p args s = Inr (print_seq vph ts s)"
proof (induction lit p args arbitrary: ts s rule: simple_fmt.induct)
  case (1 lit args)
  then show ?case by (auto split: prod.splits option.splits)
next
  case (2 lit c p args)
  show ?case
  proof (cases "c = CHR ''%''")
    case False
    with 2(1) [OF False] 2(3) show ?thesis by simp
  next
    case True
    obtain e s1 where f: "(if lit = [] then (None, s) else vph lit s) = (e, s1)" by (rule prod.exhaust)
    show ?thesis
    proof (cases p)
      case Nil
      with True 2(3) f show ?thesis by (auto split: option.splits)
    next
      case (Cons d p')
      with True 2(3) obtain a args' us vs where a: "args = a # args'" "simple_arg d a = Some us"
        "simple_fmt [] p' args' = Some vs" "ts = lit # us @ vs"
        by (auto split: list.splits option.splits)
      note d = simple_arg_directive [OF a(2)]
      have "vhprintf vph None [] p' args' s2 = Inr (print_seq vph vs s2)" for s2
        using 2(2) [of d p' a args' vs s2] True Cons a by simp
      with True Cons a d f show ?thesis
        by (auto simp: print_seq_append split: option.splits prod.splits)
    qed
  qed
qed

end

interpretation fixed: print_sink print_handler
  by unfold_locales (auto simp: print_handler_def err_or_def split: prod.splits)

text \<open>With memory, a buffer that grows takes every text.\<close>

definition mem_full :: "(nat \<Rightarrow> u8) \<Rightarrow> allocator" where
  "mem_full b = \<lparr>al_ok = (\<lambda>_. True), al_byte = b\<rparr>"

lemma print_handler_mem [simp]:
  "fst (print_handler_dyn (mem_full b) t dp) = None"
  "dp_str (snd (print_handler_dyn (mem_full b) t dp)) = dp_str dp @ t"
  by (simp_all add: print_handler_dyn_def mem_full_def Let_def)

lemma print_seq_mem:
  "fst (print_seq (print_handler_dyn (mem_full b)) ts dp) = None \<and>
   dp_str (snd (print_seq (print_handler_dyn (mem_full b)) ts dp)) = dp_str dp @ concat ts"
  by (induction ts arbitrary: dp) (simp_all add: case_prod_beta option.case_eq_if)

interpretation dynamic: print_sink "print_handler_dyn (mem_full b)"
  by unfold_locales (simp add: Let_def case_prod_beta option.case_eq_if err_or_def prod_eq_iff)

text \<open>So \<open>re_snprintf\<close> with a list of texts is what \<open>re_vsnprintf\<close> does with such a format.\<close>

lemma re_vsnprintf_simple:
  assumes "simple_fmt [] fmt args = Some ts" and "0 < sz"
  shows "\<exists>n. re_vsnprintf sz (Some fmt) args = Inr (n, re_snprintf sz ts)"
proof -
  obtain e out left where r: "print_seq print_handler ts ([], sz - 1) = (e, out, left)"
    by (cases "print_seq print_handler ts ([], sz - 1)") auto
  then have "out = re_snprintf sz ts" using print_seq_handler [of ts "[]" "sz - 1"] by (simp add: re_snprintf_def)
  with assms(2) fixed.vhprintf_simple [OF assms(1), of "([], sz - 1)"] r show ?thesis
    by (simp add: re_vsnprintf_def re_vhprintf_def)
qed

lemma re_vsdprintf_simple:
  assumes "simple_fmt [] fmt args = Some ts"
  shows "re_vsdprintf (mem_full b) (Some fmt) args = Inr (Inr (concat ts))"
proof -
  obtain e dp' where "print_seq (print_handler_dyn (mem_full b)) ts \<lparr>dp_str = [], dp_l = 16, dp_size = 16\<rparr> = (e, dp')"
    by (rule prod.exhaust)
  moreover from this print_seq_mem [of b ts "\<lparr>dp_str = [], dp_l = 16, dp_size = 16\<rparr>"]
  have "e = None" "dp_str dp' = concat ts" by simp_all
  ultimately show ?thesis
    by (simp add: re_vsdprintf_def re_vhprintf_def dynamic.vhprintf_simple [OF assms]) (simp add: mem_full_def)
qed

end
