(* ===== verification/App_Pull.thy ===== *)
theory App_Pull
  imports App_Campaign App_Db Re_Print
begin

text \<open>
  Reading the configuration from the database: \<open>pull_groups\<close> (\<open>src/src/main.c\<close>) on the database
  thread, which keeps the gateways and campaigns in step with their tables and hands each
  campaign that is not running to the main thread.

  The rows come from the database: they are arguments. The tables have the columns of the queries,
  so a row is a list of that many columns. Allocating the structures is taken to succeed.
\<close>

section \<open>Rows\<close>

definition parseInt :: "string option \<Rightarrow> u32" where
  "parseInt data = pl_u32 (pl_set_str None data)"

text \<open>\<open>%d\<close> prints an \<open>int\<close>: a sign and the digits are written apart.\<close>

definition fmt_d :: "u32 \<Rightarrow> string list" where
  "fmt_d v = (if sint v < 0 then [''-'', local_itoa (word_of_int (- sint v)) 10 False]
     else [local_itoa (word_of_int (sint v)) 10 False])"

definition gateway_find :: "u32 \<Rightarrow> shared \<Rightarrow> gateway option" where
  "gateway_find i g = List.find (\<lambda>gw. gw_id gw = i) (sh_gateways g)"

section \<open>Gateways\<close>

text \<open>The columns: id, ip, port, user, password, prefix, codec.\<close>

definition gateway_uristr :: "row \<Rightarrow> string" where
  "gateway_uristr row =
    (let col = (\<lambda>k. pl_text (row ! k));
         tail = [col 1, '':'', col 2, '';prefix='', col 5, '';codec=''] @ fmt_d (parseInt (row ! 6))
     in re_snprintf 1024
       (if str_len (row ! 3) > 0 \<and> str_len (row ! 4) > 0 then [''sip:'', col 3, '':'', col 4, ''@''] @ tail
        else if str_len (row ! 3) > 0 then [''sip:'', col 3, ''@''] @ tail
        else [''sip:autodialer@''] @ tail))"

text \<open>The format of the code and its arguments, which print that text.\<close>

definition gateway_printf :: "row \<Rightarrow> string \<times> 's varg list" where
  "gateway_printf row =
    (let tail = [V_str (row ! 1), V_str (row ! 2), V_str (row ! 5), V_int (parseInt (row ! 6))]
     in if str_len (row ! 3) > 0 \<and> str_len (row ! 4) > 0 then
          (''sip:%s:%s@%s:%s;prefix=%s;codec=%d'', [V_str (row ! 3), V_str (row ! 4)] @ tail)
        else if str_len (row ! 3) > 0 then
          (''sip:%s@%s:%s;prefix=%s;codec=%d'', V_str (row ! 3) # tail)
        else (''sip:autodialer@%s:%s;prefix=%s;codec=%d'', tail))"

lemma snprintf_loop_end [simp]: "snprintf_loop n (ts @ [[]]) = snprintf_loop n ts"
  by (induction n ts rule: snprintf_loop.induct) auto

lemma pl_text_case: "(case t of None \<Rightarrow> [] | Some t \<Rightarrow> t) = pl_text t"
  by (simp add: pl_text_def split: option.splits)

lemma fmt_d_abs: "fmt_d v = (if sint v < 0 then [''-''] else []) @ [local_itoa (word_of_int \<bar>sint v\<bar>) 10 False]"
  by (simp add: fmt_d_def)

lemma re_snprintf_end: "re_snprintf sz (ts @ [[]]) = re_snprintf sz ts"
  by (simp add: re_snprintf_def)

lemma gateway_uristr_printf:
  "\<exists>n. re_vsnprintf 1024 (Some (fst (gateway_printf row))) (snd (gateway_printf row)) = Inr (n, gateway_uristr row)"
proof -
  define col where "col k = pl_text (row ! k)" for k
  define tail where "tail = [col 1, '':'', col 2, '';prefix='', col 5, '';codec=''] @ fmt_d (parseInt (row ! 6))"
  define ts where "ts = (if str_len (row ! 3) > 0 \<and> str_len (row ! 4) > 0 then [''sip:'', col 3, '':'', col 4, ''@''] @ tail
     else if str_len (row ! 3) > 0 then [''sip:'', col 3, ''@''] @ tail else [''sip:autodialer@''] @ tail)"
  have "simple_fmt [] (fst (gateway_printf row)) (snd (gateway_printf row)) = Some (ts @ [[]])"
    by (simp add: gateway_printf_def ts_def tail_def col_def Let_def pl_text_case fmt_d_abs)
  moreover have "re_snprintf 1024 (ts @ [[]]) = gateway_uristr row"
    by (simp add: gateway_uristr_def ts_def tail_def col_def Let_def re_snprintf_end)
  ultimately show ?thesis using re_vsnprintf_simple [of "fst (gateway_printf row)" "snd (gateway_printf row)" _ 1024] by force
qed

definition new_gateway :: "nat \<Rightarrow> u32 \<Rightarrow> gateway" where
  "new_gateway a i = \<lparr>gw_addr = a, gw_id = i, gw_uri_str = None, gw_sip_uri = uri_zero\<rparr>"

text \<open>Releasing a gateway takes it out of the list; pointers to it are left as they are.\<close>

definition release_gateway :: "nat \<Rightarrow> shared \<Rightarrow> shared" where
  "release_gateway a g = g\<lparr>sh_gateways := filter (\<lambda>gw. gw_addr gw \<noteq> a) (sh_gateways g)\<rparr>"

definition put_gateway :: "gateway \<Rightarrow> shared \<Rightarrow> shared" where
  "put_gateway gt g = g\<lparr>sh_gateways := List.map (\<lambda>gw. if gw_addr gw = gw_addr gt then gt else gw) (sh_gateways g)\<rparr>"

definition pull_gateway :: "(string \<Rightarrow> nat option) \<Rightarrow> row \<Rightarrow> shared \<Rightarrow> ub + shared" where
  "pull_gateway pton row g =
    (let i = parseInt (row ! 0);
         (gt, g) = (case gateway_find i g of
             Some gt \<Rightarrow> (gt, g)
           | None \<Rightarrow> (new_gateway (sh_next g) i,
               g\<lparr>sh_gateways := sh_gateways g @ [new_gateway (sh_next g) i], sh_next := sh_next g + 1\<rparr>));
         uristr = gateway_uristr row
     in if str_casecmp (Some uristr) (gw_uri_str gt) then
          obind (uri_decode pton (Some uristr)) (\<lambda>(err, uri). Inr
            (if err \<noteq> None then release_gateway (gw_addr gt) g
             else put_gateway (gt\<lparr>gw_uri_str := Some uristr, gw_sip_uri := uri\<rparr>) g))
        else Inr g)"

fun pull_gateways :: "(string \<Rightarrow> nat option) \<Rightarrow> row list \<Rightarrow> shared \<Rightarrow> ub + shared" where
  "pull_gateways pton [] g = Inr g"
| "pull_gateways pton (row # rows) g = obind (pull_gateway pton row g) (pull_gateways pton rows)"

section \<open>Campaigns\<close>

definition campaign_zero :: campaign where
  "campaign_zero = \<lparr>cp_id = 0, cp_client_id = 0, cp_status = 0, cp_gateway = None, cp_pbx_gateway = None,
     cp_pbx_number = None, cp_caller_id = None, cp_file_name = None, cp_call_limit = 0, cp_retry_delay = 0,
     cp_max_call_duration = 0, cp_max_try = 0, cp_is_running = False, cp_max_play = 0,
     cp_destinations = [], cp_processl = [], cp_tmr = False, cp_actions = []\<rparr>"

text \<open>A text column replaces the field when it differs by more than case.\<close>

definition col_update :: "string option \<Rightarrow> string option \<Rightarrow> string option" where
  "col_update col old = (if str_casecmp col old then col else old)"

text \<open>
  The columns: id, client, frequency, longest call, caller id, file name, status, minutes between
  tries, tries, plays, gateway, PBX gateway and number. \<open>None\<close> when the campaign is released.
\<close>

definition campaign_head :: "row \<Rightarrow> campaign \<Rightarrow> campaign" where
  "campaign_head row cp =
    (let limit = ucast (parseInt (row ! 2)); dur = ucast (parseInt (row ! 3))
     in cp\<lparr>cp_id := parseInt (row ! 0), cp_client_id := parseInt (row ! 1),
           cp_call_limit := if limit = 0 then 2 else limit,
           cp_max_call_duration := if dur \<ge> 600 then 600 else dur,
           cp_caller_id := if str_len (row ! 4) > 0 then col_update (row ! 4) (cp_caller_id cp)
                           else cp_caller_id cp,
           cp_file_name := if str_len (row ! 5) > 0 then col_update (row ! 5) (cp_file_name cp) else None,
           cp_status := ucast (parseInt (row ! 6))\<rparr>)"

definition campaign_tail :: "shared \<Rightarrow> row \<Rightarrow> campaign \<Rightarrow> campaign" where
  "campaign_tail g row cp =
    (let play = ucast (parseInt (row ! 9))
     in cp\<lparr>cp_retry_delay := ucast (parseInt (row ! 7) * 60), cp_max_try := ucast (parseInt (row ! 8)),
           cp_max_play := if play = 0 then 1 else play,
           cp_gateway := map_option gw_addr (gateway_find (parseInt (row ! 10)) g),
           cp_pbx_gateway := map_option gw_addr (gateway_find (parseInt (row ! 11)) g),
           cp_pbx_number := col_update (row ! 12) (cp_pbx_number cp)\<rparr>)"

definition campaign_row :: "shared \<Rightarrow> row \<Rightarrow> campaign \<Rightarrow> campaign option" where
  "campaign_row g row cp =
    (let cp = campaign_head row cp
     in if cp_status cp > 3 \<and> cp_processl cp = [] then None else Some (campaign_tail g row cp))"

text \<open>The first campaign with an id is updated in place.\<close>

fun update_service :: "u32 \<Rightarrow> (campaign \<Rightarrow> campaign option) \<Rightarrow> campaign list \<Rightarrow> campaign list option" where
  "update_service i f [] = None"
| "update_service i f (cp # cps) =
    (if cp_id cp = i then Some (case f cp of None \<Rightarrow> cps | Some cp \<Rightarrow> cp # cps)
     else map_option (Cons cp) (update_service i f cps))"

definition pull_campaign :: "shared \<Rightarrow> row \<Rightarrow> campaign list \<Rightarrow> campaign list" where
  "pull_campaign g row services =
    (case update_service (parseInt (row ! 0)) (campaign_row g row) services of
       Some services \<Rightarrow> services
     | None \<Rightarrow> if parseInt (row ! 6) \<noteq> 2 then services
         else services @ (case campaign_row g row campaign_zero of None \<Rightarrow> [] | Some cp \<Rightarrow> [cp]))"

section \<open>Destinations and actions\<close>

text \<open>The columns: id and number.\<close>

definition new_destination :: "row \<Rightarrow> destination" where
  "new_destination row = \<lparr>d_id = parseInt (row ! 0), d_dest = row ! 1, d_last_try = 0, d_call = None,
     d_try_count = 0, d_tmr = False\<rparr>"

text \<open>
  The columns: id, key, type and data; the data of a forwarding action is the id of a gateway and
  a number, with a comma between them.
\<close>

definition pull_action :: "shared \<Rightarrow> nat \<Rightarrow> row \<Rightarrow> campaign_action" where
  "pull_action g a row =
    (let act = \<lparr>act_addr = a, act_key = ucast (parseInt (row ! 1)), act_type = ucast (parseInt (row ! 2)),
                act_gateway = None, act_dest = None\<rparr>
     in if act_type act = 0 then (case pl_strchr (row ! 3) (CHR '','') of
          None \<Rightarrow> act
        | Some k \<Rightarrow> act\<lparr>
            act_gateway := map_option gw_addr (gateway_find (pl_u32 (Some (take k (pl_text (row ! 3))))) g),
            act_dest := Some (drop (Suc k) (pl_text (row ! 3)))\<rparr>)
        else act)"

fun pull_actions :: "row list \<Rightarrow> shared \<Rightarrow> campaign_action list \<times> shared" where
  "pull_actions [] g = ([], g)"
| "pull_actions (row # rows) g =
    (let act = pull_action g (sh_next g) row; (acts, g) = pull_actions rows (g\<lparr>sh_next := sh_next g + 1\<rparr>)
     in (act # acts, g))"

text \<open>
  One campaign of the last loop; the flag says whether a message with it was put into the queue
  of the main thread. The rows of the actions are read without a test for a failed query.
\<close>

definition pull_service ::
  "(u32 \<Rightarrow> row list option) \<Rightarrow> (u32 \<Rightarrow> row list option) \<Rightarrow> campaign \<Rightarrow> shared \<Rightarrow> ub + bool \<times> campaign \<times> shared" where
  "pull_service calls actions cp g =
    (if cp_is_running cp then Inr (False, cp, g)
     else if cp_destinations cp = [] \<and> calls (cp_id cp) = None then Inr (False, cp, g)
     else
       let cp = (if cp_destinations cp = [] then
                   cp\<lparr>cp_destinations := List.map new_destination (the (calls (cp_id cp)))\<rparr> else cp)
       in obind (deref (actions (cp_id cp))) (\<lambda>rows.
            let (acts, g) = pull_actions rows g in Inr (True, cp\<lparr>cp_actions := acts\<rparr>, g)))"

fun pull_services ::
  "(u32 \<Rightarrow> row list option) \<Rightarrow> (u32 \<Rightarrow> row list option) \<Rightarrow> campaign list \<Rightarrow> shared \<Rightarrow>
    ub + u32 list \<times> campaign list \<times> shared" where
  "pull_services calls actions [] g = Inr ([], [], g)"
| "pull_services calls actions (cp # cps) g =
    obind (pull_service calls actions cp g) (\<lambda>(m, cp, g).
    obind (pull_services calls actions cps g) (\<lambda>(ms, cps, g).
      Inr ((if m then [cp_id cp] else []) @ ms, cp # cps, g)))"

text \<open>
  The whole function: the gateways, the campaigns, and the campaigns that are not running. It
  returns the messages for the main thread; a failed query ends it.
\<close>

definition pull_groups ::
  "(string \<Rightarrow> nat option) \<Rightarrow> row list option \<Rightarrow> row list option \<Rightarrow> (u32 \<Rightarrow> row list option) \<Rightarrow>
    (u32 \<Rightarrow> row list option) \<Rightarrow> campaign list \<Rightarrow> shared \<Rightarrow> ub + u32 list \<times> campaign list \<times> shared" where
  "pull_groups pton gateways campaigns calls actions services g = (case gateways of
      None \<Rightarrow> Inr ([], services, g)
    | Some rows \<Rightarrow> obind (pull_gateways pton rows g) (\<lambda>g. case campaigns of
          None \<Rightarrow> Inr ([], services, g)
        | Some rows \<Rightarrow> pull_services calls actions (fold (pull_campaign g) rows services) g))"

section \<open>What a row becomes\<close>

text \<open>The ranges of a campaign's parameters.\<close>

lemma campaign_head_sel [simp]:
  "cp_processl (campaign_head row cp) = cp_processl cp"
  "cp_destinations (campaign_head row cp) = cp_destinations cp"
  "cp_actions (campaign_head row cp) = cp_actions cp"
  "cp_is_running (campaign_head row cp) = cp_is_running cp"
  "cp_id (campaign_head row cp) = parseInt (row ! 0)"
  "cp_status (campaign_head row cp) = ucast (parseInt (row ! 6))"
  by (simp_all add: campaign_head_def Let_def)

lemma campaign_tail_sel [simp]:
  "cp_processl (campaign_tail g row cp) = cp_processl cp"
  "cp_destinations (campaign_tail g row cp) = cp_destinations cp"
  "cp_actions (campaign_tail g row cp) = cp_actions cp"
  "cp_is_running (campaign_tail g row cp) = cp_is_running cp" "cp_id (campaign_tail g row cp) = cp_id cp"
  "cp_call_limit (campaign_tail g row cp) = cp_call_limit cp"
  "cp_max_call_duration (campaign_tail g row cp) = cp_max_call_duration cp"
  "cp_status (campaign_tail g row cp) = cp_status cp"
  by (simp_all add: campaign_tail_def Let_def)

lemma campaign_row_Some:
  "campaign_row g row cp = Some cp' \<Longrightarrow> cp' = campaign_tail g row (campaign_head row cp)"
  by (simp add: campaign_row_def Let_def split: if_splits)

lemma word_ge_1: "x \<noteq> 0 \<Longrightarrow> 1 \<le> (x :: 'a::len word)"
  by (simp add: word_le_nat_alt unat_gt_0 Suc_le_eq)

lemma campaign_row_ranges:
  assumes "campaign_row g row cp = Some cp'"
  shows "1 \<le> cp_call_limit cp'" and "cp_max_call_duration cp' \<le> 600" and "1 \<le> cp_max_play cp'"
proof -
  note e = campaign_row_Some [OF assms]
  show "1 \<le> cp_call_limit cp'" unfolding e by (simp add: campaign_head_def Let_def word_ge_1)
  show "cp_max_call_duration cp' \<le> 600" unfolding e by (auto simp: campaign_head_def Let_def not_le intro: less_imp_le)
  show "1 \<le> cp_max_play cp'" unfolding e by (simp add: campaign_tail_def Let_def word_ge_1)
qed

section \<open>Calls survive a pull\<close>

text \<open>The campaigns with calls, with what the calls belong to.\<close>

definition busy :: "campaign list \<Rightarrow> (u32 \<times> destination list \<times> destination list) list" where
  "busy cps = List.map (\<lambda>cp. (cp_id cp, cp_processl cp, cp_destinations cp)) (filter (\<lambda>cp. cp_processl cp \<noteq> []) cps)"

lemma busy_simps [simp]:
  "busy [] = []"
  "busy (cp # cps) = (if cp_processl cp = [] then busy cps
     else (cp_id cp, cp_processl cp, cp_destinations cp) # busy cps)"
  "busy (cps @ cps') = busy cps @ busy cps'"
  by (simp_all add: busy_def)

lemma update_service_busy:
  "update_service i f cps = Some cps' \<Longrightarrow>
    (\<And>cp. cp_id cp = i \<Longrightarrow> busy [cp] = busy (case f cp of None \<Rightarrow> [] | Some cp' \<Rightarrow> [cp'])) \<Longrightarrow> busy cps' = busy cps"
proof (induction cps arbitrary: cps')
  case (Cons cp cps)
  show ?case
  proof (cases "cp_id cp = i")
    case True
    with Cons.prems(1) have "cps' = (case f cp of None \<Rightarrow> [] | Some cp' \<Rightarrow> [cp']) @ cps"
      by (auto split: option.splits)
    then have "busy cps' = busy [cp] @ busy cps" by (simp only: busy_simps(3) Cons.prems(2) [OF True])
    then show ?thesis by simp
  next
    case False
    with Cons.prems(1) obtain xs where "update_service i f cps = Some xs" "cps' = cp # xs" by auto
    with Cons.IH [OF this(1) Cons.prems(2)] show ?thesis by simp
  qed
qed simp

lemma campaign_row_busy:
  "cp_id cp = parseInt (row ! 0) \<Longrightarrow>
    busy [cp] = busy (case campaign_row g row cp of None \<Rightarrow> [] | Some cp' \<Rightarrow> [cp'])"
  by (simp add: campaign_row_def Let_def)

lemma pull_campaign_busy: "busy (pull_campaign g row cps) = busy cps"
proof (cases "update_service (parseInt (row ! 0)) (campaign_row g row) cps")
  case None
  have "busy (case campaign_row g row campaign_zero of None \<Rightarrow> [] | Some cp \<Rightarrow> [cp]) = []"
    by (simp add: campaign_row_def Let_def) (simp add: campaign_zero_def)
  with None show ?thesis by (simp add: pull_campaign_def)
next
  case (Some cps')
  from update_service_busy [OF this campaign_row_busy] Some show ?thesis by (simp add: pull_campaign_def)
qed

lemma pull_campaigns_busy: "busy (fold (pull_campaign g) rows cps) = busy cps"
  by (induction rows arbitrary: cps) (simp_all add: pull_campaign_busy)

lemma pull_actions_frame:
  "pull_actions rows g = (acts, g') \<Longrightarrow> \<exists>n. g' = g\<lparr>sh_next := n\<rparr>"
proof (induction rows arbitrary: g acts)
  case (Cons row rows)
  then obtain acts' where "pull_actions rows (g\<lparr>sh_next := sh_next g + 1\<rparr>) = (acts', g')"
    by (auto simp: Let_def split: prod.splits)
  from Cons.IH [OF this] show ?case by auto
next
  case Nil
  then show ?case by (cases g) auto
qed

text \<open>A campaign that is handed to the main thread keeps its calls; its queue is filled when empty.\<close>

lemma pull_service_cases:
  assumes "pull_service calls actions cp g = Inr (m, cp', g')"
  obtains (same) "\<not> m" "cp' = cp" "g' = g" "cp_is_running cp \<or> cp_destinations cp = [] \<and> calls (cp_id cp) = None"
    | (keep) acts n where "m" "cp_destinations cp \<noteq> []" "cp' = cp\<lparr>cp_actions := acts\<rparr>" "g' = g\<lparr>sh_next := n\<rparr>"
        "\<not> cp_is_running cp"
    | (fill) acts rows n where "m" "cp_destinations cp = []" "calls (cp_id cp) = Some rows"
        "cp' = cp\<lparr>cp_destinations := List.map new_destination rows, cp_actions := acts\<rparr>" "g' = g\<lparr>sh_next := n\<rparr>"
        "\<not> cp_is_running cp"
proof (cases "cp_is_running cp \<or> cp_destinations cp = [] \<and> calls (cp_id cp) = None")
  case True
  with assms show ?thesis by (intro same) (auto simp: pull_service_def split: if_splits)
next
  case False
  define cp1 where "cp1 = (if cp_destinations cp = [] then
      cp\<lparr>cp_destinations := List.map new_destination (the (calls (cp_id cp)))\<rparr> else cp)"
  from False assms obtain rows acts where r: "pull_actions rows g = (acts, g')" "m" "cp' = cp1\<lparr>cp_actions := acts\<rparr>"
    unfolding pull_service_def Let_def cp1_def [symmetric] by (auto elim!: obind_InrE split: prod.splits)
  from pull_actions_frame [OF r(1)] obtain n where n: "g' = g\<lparr>sh_next := n\<rparr>" by blast
  show ?thesis
  proof (cases "cp_destinations cp = []")
    case True
    with False obtain rows where "calls (cp_id cp) = Some rows" by auto
    with True False r n show ?thesis by (intro fill [of rows acts n]) (auto simp: cp1_def)
  next
    case ne: False
    with False r n show ?thesis by (intro keep [of acts n]) (auto simp: cp1_def)
  qed
qed

text \<open>
  Filling the queue keeps the invariant of the campaign when the ids fetched are new to it; an id
  that is still in the process list ends up in both.
\<close>

lemma pull_service_inv:
  assumes inv: "camp_inv cp" and run: "pull_service calls actions cp g = Inr (m, cp', g')"
    and new: "\<And>rows. calls (cp_id cp) = Some rows \<Longrightarrow> cp_destinations cp = [] \<Longrightarrow>
      distinct (List.map (\<lambda>row. parseInt (row ! 0)) rows @ List.map d_id (cp_processl cp))"
  shows "camp_inv cp'" and "cp_processl cp' = cp_processl cp"
proof -
  have "camp_inv cp' \<and> cp_processl cp' = cp_processl cp"
    using run
  proof (cases rule: pull_service_cases)
    case same
    with inv show ?thesis by simp
  next
    case (keep acts n)
    with inv show ?thesis by (simp add: camp_inv_def camp_ids_def)
  next
    case (fill acts rows n)
    have "dest_inv mt (new_destination row)" for mt row
      by (auto simp: dest_inv_def tries_ok_def dest_call_ok_def new_destination_def)
    with inv fill new [OF fill(3,2)] show ?thesis
      by (auto simp: camp_inv_def camp_ids_def new_destination_def comp_def)
  qed
  then show "camp_inv cp'" "cp_processl cp' = cp_processl cp" by simp_all
qed

lemma pull_service_duplicate:
  assumes "pull_service calls actions cp g = Inr (True, cp', g')" and "cp_destinations cp = []"
    and "calls (cp_id cp) = Some rows" and "row \<in> set rows" and "d \<in> set (cp_processl cp)"
    and "parseInt (row ! 0) = d_id d"
  shows "\<not> camp_inv cp' \<and> d \<in> set (cp_processl cp') \<and>
    (\<exists>d'\<in>set (cp_destinations cp'). d_id d' = d_id d \<and> d_try_count d' = 0)"
  using assms(1)
proof (cases rule: pull_service_cases)
  case (fill acts rows' n)
  with assms have r: "rows' = rows" by simp
  have "new_destination row \<in> set (cp_destinations cp')" using fill(4) assms(4) r by simp
  moreover have "d_id (new_destination row) = d_id d" "d_try_count (new_destination row) = 0"
    using assms(6) by (simp_all add: new_destination_def)
  moreover have "cp_processl cp' = cp_processl cp" using fill(4) by simp
  moreover from calculation assms(5) have "\<not> distinct (camp_ids cp')"
    by (auto simp: camp_ids_def image_iff intro!: bexI [of _ d])
  ultimately show ?thesis using fill assms(5) by (auto simp: camp_inv_def)
qed (use assms(2) in auto)

section \<open>Gateways\<close>

text \<open>The row of a gateway whose fields can be told apart becomes the URI with these fields.\<close>

lemma gateway_uristr_encode:
  assumes u: "uri_scheme u = Some ''sip''" "uri_user u = Some us" "us \<noteq> []" "uri_host u = Some h" "h \<noteq> []"
      "uri_af u \<noteq> AF_INET6" "uri_port u \<noteq> 0" "uri_headers u = None"
    and params: "uri_params u = Some ('';prefix='' @ pfx @ '';codec='' @ concat (fmt_d (parseInt (row ! 6))))"
    and row: "row ! 1 = Some h" "row ! 2 = Some (local_itoa (ucast (uri_port u)) 10 False)" "row ! 3 = Some us"
      "row ! 4 = uri_password u" "row ! 5 = Some pfx"
    and s: "uri_encode u = Inr s" "length s < 1024"
  shows "gateway_uristr row = s"
proof -
  define tail where "tail = [h, '':'', local_itoa (ucast (uri_port u)) 10 False, '';prefix='', pfx, '';codec=''] @
      fmt_d (parseInt (row ! 6))"
  define pieces where "pieces = (if str_len (row ! 4) > 0 then [''sip:'', us, '':'', pl_text (row ! 4), ''@''] @ tail
      else [''sip:'', us, ''@''] @ tail)"
  have g: "gateway_uristr row = re_snprintf 1024 pieces"
    using u(3) row by (simp add: gateway_uristr_def pieces_def tail_def Let_def pl_text_def str_len_def)
  have pw: "str_len (uri_password u) > 0 \<longleftrightarrow> pl_isset (uri_password u)"
    by (simp add: str_len_def pl_isset_def split: option.splits)
  have "concat pieces = s"
    using s(1) u params row(4) pw
    by (auto simp: uri_encode_def pieces_def tail_def pl_isset_def pl_text_def split: if_splits)
  with s(2) re_snprintf_fits [of pieces 1024] show ?thesis by (simp add: g)
qed

lemma gateway_find_new:
  "gateway_find i g = None \<Longrightarrow> \<forall>gw\<in>set (sh_gateways g). gw_addr gw \<noteq> sh_next g \<Longrightarrow>
    List.map (\<lambda>gw. if gw_addr gw = sh_next g then gt else gw) (sh_gateways g) = sh_gateways g"
  by (induction "sh_gateways g") (auto intro: map_idI)

lemma pull_gateway_new:
  assumes new: "gateway_find (parseInt (row ! 0)) g = None" "\<forall>gw\<in>set (sh_gateways g). gw_addr gw \<noteq> sh_next g"
    and uri: "gateway_uristr row = s" "uri_decode pton (Some s) = Inr (None, u)"
  shows "pull_gateway pton row g = Inr (g\<lparr>sh_gateways := sh_gateways g @
      [\<lparr>gw_addr = sh_next g, gw_id = parseInt (row ! 0), gw_uri_str = Some s, gw_sip_uri = u\<rparr>],
    sh_next := sh_next g + 1\<rparr>)"
  using assms gateway_find_new [OF new]
  by (simp add: pull_gateway_def Let_def str_casecmp_def new_gateway_def put_gateway_def)

text \<open>
  A row that differs from the stored URI in nothing but the case of letters changes nothing: also
  when the password is what differs.
\<close>

lemma pull_gateway_same_case:
  assumes "gateway_find (parseInt (row ! 0)) g = Some gt" and "gw_uri_str gt = Some s"
    and "List.map tolower (gateway_uristr row) = List.map tolower s"
  shows "pull_gateway pton row g = Inr g"
  using assms by (simp add: pull_gateway_def Let_def str_casecmp_def)

text \<open>A row that no longer makes a URI releases the gateway, which campaigns may still point to.\<close>

lemma pull_gateway_dangling:
  assumes "gateway_find (parseInt (row ! 0)) g = Some gt" and "str_casecmp (Some (gateway_uristr row)) (gw_uri_str gt)"
    and "uri_decode pton (Some (gateway_uristr row)) = Inr (Some e, u)"
  shows "\<exists>g'. pull_gateway pton row g = Inr g' \<and> gw_deref g' (gw_addr gt) = Inl Use_after_free"
  using assms
  by (auto simp: pull_gateway_def Let_def release_gateway_def gw_deref_def find_None_iff split: option.splits)

end
