(* ===== verification/Samples.thy ===== *)
theory Samples
  imports App_System App_Pull
begin

text \<open>
  Concrete objects at which the properties of the root theory are applied: one gateway, a pool of
  two RTP sessions, a campaign, a call on session 0 and surroundings in which every outside call
  succeeds.
\<close>

definition s_uri :: uri where
  "s_uri = \<lparr>uri_scheme = Some ''sip'', uri_user = Some ''u'', uri_password = None, uri_host = Some ''h'',
     uri_af = AF_UNSPEC, uri_port = 5060, uri_params = Some '';prefix=9;codec=18'', uri_headers = None\<rparr>"

definition s_gateway :: gateway where
  "s_gateway = \<lparr>gw_addr = 1, gw_id = 4, gw_uri_str = Some ''sip:u@h'', gw_sip_uri = s_uri\<rparr>"

definition s_session :: "bool \<Rightarrow> rtp_session" where
  "s_session used = \<lparr>rts_connected = used, rts_in_use = used, rts_remote = None, rts_telev_recv = False,
     rts_telev = None, rts_arg = used\<rparr>"

text \<open>The shared state with the given sessions free, out of 0 and 1.\<close>

definition s_shared :: "nat list \<Rightarrow> shared" where
  "s_shared free = \<lparr>sh_gateways = [s_gateway], sh_rtp = (\<lambda>i. s_session (i \<notin> set free)), sh_rtp_free = free,
     sh_sqllist = [], sh_invites = [], sh_next = 2\<rparr>"

definition s_env :: "int \<Rightarrow> env" where
  "s_env now = \<lparr>e_now = now, e_rand = 1000, e_rand_seq = 7, e_rand_ssrc = 99, e_file = (\<lambda>_. True),
     e_call_mem = True, e_sdp_session = None, e_sdp_media = None, e_sdp_format = None, e_sdp_telev = None,
     e_sdp_encode = None, e_sip_connect = None, e_rtp_mem = True\<rparr>"

definition s_dest :: "u32 \<Rightarrow> u8 \<Rightarrow> call option \<Rightarrow> destination" where
  "s_dest i tries c = \<lparr>d_id = i, d_dest = Some ''555'', d_last_try = 0, d_call = c, d_try_count = tries,
     d_tmr = (c \<noteq> None)\<rparr>"

definition s_action :: campaign_action where
  "s_action = \<lparr>act_addr = 3, act_key = 5, act_type = 1, act_gateway = None, act_dest = None\<rparr>"

definition s_campaign :: "destination list \<Rightarrow> destination list \<Rightarrow> campaign" where
  "s_campaign waiting active = \<lparr>cp_id = 1, cp_client_id = 1, cp_status = 2, cp_gateway = Some 1,
     cp_pbx_gateway = Some 1, cp_pbx_number = Some ''100'', cp_caller_id = None,
     cp_file_name = Some ''a.wav'', cp_call_limit = 2, cp_retry_delay = 60, cp_max_call_duration = 300,
     cp_max_try = 3, cp_is_running = True, cp_max_play = 2, cp_destinations = waiting,
     cp_processl = active, cp_tmr = True, cp_actions = [s_action]\<rparr>"

text \<open>A call on a session, connected at time 0.\<close>

definition s_call :: "nat \<Rightarrow> 'p call_of" where
  "s_call i = call_zero\<lparr>c_sess := True, c_rtp_sess := Some i, c_pt := 18, c_audio := Some ''/a/a.wav'',
     c_rs := Some \<lparr>rs_seq = 7, rs_ssrc = 99, rs_rtcp = None, rs_rtcp_mux = False\<rparr>\<rparr>"

definition mem_all :: allocator where
  "mem_all = \<lparr>al_ok = (\<lambda>_. True), al_byte = (\<lambda>_. 0)\<rparr>"

lemmas s_defs = s_uri_def s_gateway_def s_session_def s_shared_def s_env_def s_dest_def s_action_def
  s_campaign_def s_call_def mem_all_def

end
