(* ===== verification/Re_List.thy ===== *)
theory Re_List
  imports Prelude "HOL-Library.Multiset"
begin

text \<open>
  The linked list of libre (\<^verbatim>\<open>re/src/list/list.c\<close>) on an explicit store. A \<open>struct le\<close> is
  embedded in its owner, so elements and lists are addresses (\<open>nat\<close>) and the store maps them
  to their contents; a pointer that can be NULL is a \<open>nat option\<close>. The pointer code is
  shown to implement plain sequences: \<open>lrep h l xs\<close> says that the list at \<open>l\<close> holds exactly the
  elements \<open>xs\<close>, in this order, with consistent \<open>prev\<close>, \<open>next\<close>, \<open>head\<close> and \<open>tail\<close> pointers.
\<close>

section \<open>The store\<close>

record le =
  le_prev :: "nat option"
  le_next :: "nat option"
  le_list :: "nat option"
  le_data :: "nat option"

record lst =
  l_head :: "nat option"
  l_tail :: "nat option"

record lheap =
  les :: "nat \<Rightarrow> le"
  lists :: "nat \<Rightarrow> lst"

definition set_le :: "nat \<Rightarrow> (le \<Rightarrow> le) \<Rightarrow> lheap \<Rightarrow> lheap" where
  "set_le e f h = h\<lparr>les := (les h)(e := f (les h e))\<rparr>"

definition set_list :: "nat \<Rightarrow> (lst \<Rightarrow> lst) \<Rightarrow> lheap \<Rightarrow> lheap" where
  "set_list l f h = h\<lparr>lists := (lists h)(l := f (lists h l))\<rparr>"

lemma set_le_sel [simp]:
  "les (set_le e f h) x = (if x = e then f (les h e) else les h x)"
  "lists (set_le e f h) = lists h"
  by (simp_all add: set_le_def)

lemma set_list_sel [simp]:
  "lists (set_list l f h) k = (if k = l then f (lists h l) else lists h k)"
  "les (set_list l f h) = les h"
  by (simp_all add: set_list_def)

section \<open>The operations\<close>

fun list_init :: "nat option \<Rightarrow> lheap \<Rightarrow> lheap" where
  "list_init None h = h"
| "list_init (Some l) h = set_list l (\<lambda>_. \<lparr>l_head = None, l_tail = None\<rparr>) h"

text \<open>
  The loop of \<open>list_flush\<close>: \<open>dh\<close> is the effect of \<open>mem_deref\<close> on the element's data, on the
  store and on any other state \<open>'s\<close> the destructors change. The loop ends only when the chain of
  \<open>next\<close> pointers does, so its result is an option.
\<close>

partial_function (option) list_flush_loop ::
    "(nat option \<Rightarrow> lheap \<times> 's \<Rightarrow> lheap \<times> 's) \<Rightarrow> nat option \<Rightarrow> lheap \<times> 's \<Rightarrow> (lheap \<times> 's) option"
where
  "list_flush_loop dh le hs =
     (case le of
        None \<Rightarrow> Some hs
      | Some e \<Rightarrow>
          (let nxt = le_next (les (fst hs) e);
               dat = le_data (les (fst hs) e);
               h1 = set_le e (\<lambda>r. r\<lparr>le_list := None, le_prev := None, le_next := None,
                                     le_data := None\<rparr>) (fst hs)
           in list_flush_loop dh nxt (dh dat (h1, snd hs))))"

definition list_flush ::
    "(nat option \<Rightarrow> lheap \<times> 's \<Rightarrow> lheap \<times> 's) \<Rightarrow> nat option \<Rightarrow> lheap \<times> 's \<Rightarrow> (lheap \<times> 's) option"
where
  "list_flush dh list hs =
     (case list of
        None \<Rightarrow> Some hs
      | Some l \<Rightarrow>
          map_option (\<lambda>hs'. (list_init (Some l) (fst hs'), snd hs'))
            (list_flush_loop dh (l_head (lists (fst hs) l)) hs))"

definition list_append :: "nat option \<Rightarrow> nat option \<Rightarrow> nat option \<Rightarrow> lheap \<Rightarrow> lheap" where
  "list_append list le dat h =
     (case (list, le) of
        (Some l, Some e) \<Rightarrow>
          if le_list (les h e) \<noteq> None then h
          else
            (let tl = l_tail (lists h l);
                 h1 = set_le e (\<lambda>_. \<lparr>le_prev = tl, le_next = None, le_list = Some l,
                                     le_data = dat\<rparr>) h;
                 h2 = (if l_head (lists h1 l) = None
                       then set_list l (\<lambda>r. r\<lparr>l_head := Some e\<rparr>) h1 else h1);
                 h3 = (case l_tail (lists h2 l) of
                         None \<Rightarrow> h2
                       | Some t \<Rightarrow> set_le t (\<lambda>r. r\<lparr>le_next := Some e\<rparr>) h2)
             in set_list l (\<lambda>r. r\<lparr>l_tail := Some e\<rparr>) h3)
      | _ \<Rightarrow> h)"

definition list_prepend :: "nat option \<Rightarrow> nat option \<Rightarrow> nat option \<Rightarrow> lheap \<Rightarrow> lheap" where
  "list_prepend list le dat h =
     (case (list, le) of
        (Some l, Some e) \<Rightarrow>
          if le_list (les h e) \<noteq> None then h
          else
            (let hd = l_head (lists h l);
                 h1 = set_le e (\<lambda>_. \<lparr>le_prev = None, le_next = hd, le_list = Some l,
                                     le_data = dat\<rparr>) h;
                 h2 = (case l_head (lists h1 l) of
                         None \<Rightarrow> h1
                       | Some t \<Rightarrow> set_le t (\<lambda>r. r\<lparr>le_prev := Some e\<rparr>) h1);
                 h3 = (if l_tail (lists h2 l) = None
                       then set_list l (\<lambda>r. r\<lparr>l_tail := Some e\<rparr>) h2 else h2)
             in set_list l (\<lambda>r. r\<lparr>l_head := Some e\<rparr>) h3)
      | _ \<Rightarrow> h)"

definition list_insert_before ::
    "nat option \<Rightarrow> nat option \<Rightarrow> nat option \<Rightarrow> nat option \<Rightarrow> lheap \<Rightarrow> lheap" where
  "list_insert_before list le ile dat h =
     (case (list, le, ile) of
        (Some l, Some e, Some i) \<Rightarrow>
          if le_list (les h i) \<noteq> None then h
          else
            (let h1 = (case le_prev (les h e) of
                         Some p \<Rightarrow> set_le p (\<lambda>r. r\<lparr>le_next := Some i\<rparr>) h
                       | None \<Rightarrow> if l_head (lists h l) = Some e
                                  then set_list l (\<lambda>r. r\<lparr>l_head := Some i\<rparr>) h else h);
                 pr = le_prev (les h1 e);
                 h2 = set_le i (\<lambda>_. \<lparr>le_prev = pr, le_next = Some e, le_list = Some l,
                                     le_data = dat\<rparr>) h1
             in set_le e (\<lambda>r. r\<lparr>le_prev := Some i\<rparr>) h2)
      | _ \<Rightarrow> h)"

definition list_insert_after ::
    "nat option \<Rightarrow> nat option \<Rightarrow> nat option \<Rightarrow> nat option \<Rightarrow> lheap \<Rightarrow> lheap" where
  "list_insert_after list le ile dat h =
     (case (list, le, ile) of
        (Some l, Some e, Some i) \<Rightarrow>
          if le_list (les h i) \<noteq> None then h
          else
            (let h1 = (case le_next (les h e) of
                         Some n \<Rightarrow> set_le n (\<lambda>r. r\<lparr>le_prev := Some i\<rparr>) h
                       | None \<Rightarrow> if l_tail (lists h l) = Some e
                                  then set_list l (\<lambda>r. r\<lparr>l_tail := Some i\<rparr>) h else h);
                 nx = le_next (les h1 e);
                 h2 = set_le i (\<lambda>_. \<lparr>le_prev = Some e, le_next = nx, le_list = Some l,
                                     le_data = dat\<rparr>) h1
             in set_le e (\<lambda>r. r\<lparr>le_next := Some i\<rparr>) h2)
      | _ \<Rightarrow> h)"

definition list_unlink :: "nat option \<Rightarrow> lheap \<Rightarrow> lheap" where
  "list_unlink le h =
     (case le of
        None \<Rightarrow> h
      | Some e \<Rightarrow>
          (case le_list (les h e) of
             None \<Rightarrow> h
           | Some l \<Rightarrow>
               (let pr = le_prev (les h e);
                    nx = le_next (les h e);
                    h1 = (case pr of
                            Some p \<Rightarrow> set_le p (\<lambda>r. r\<lparr>le_next := nx\<rparr>) h
                          | None \<Rightarrow> set_list l (\<lambda>r. r\<lparr>l_head := nx\<rparr>) h);
                    h2 = (case le_next (les h1 e) of
                            Some n \<Rightarrow> set_le n (\<lambda>r. r\<lparr>le_prev := le_prev (les h1 e)\<rparr>) h1
                          | None \<Rightarrow> set_list l (\<lambda>r. r\<lparr>l_tail := le_prev (les h1 e)\<rparr>) h1)
                in set_le e (\<lambda>r. r\<lparr>le_next := None, le_prev := None, le_list := None\<rparr>) h2)))"

text \<open>
  \<open>list_apply\<close> walks in either direction until the handler says stop. The handler is a predicate
  on the element; \<open>list_apply\<close> is only ever called here with handlers that read.
\<close>

partial_function (option) list_apply_loop ::
    "bool \<Rightarrow> (nat \<Rightarrow> bool) \<Rightarrow> nat option \<Rightarrow> lheap \<Rightarrow> nat option option" where
  "list_apply_loop fwd ah le h =
     (case le of
        None \<Rightarrow> Some None
      | Some cur \<Rightarrow>
          (let nxt = (if fwd then le_next (les h cur) else le_prev (les h cur))
           in if ah cur then Some (Some cur) else list_apply_loop fwd ah nxt h))"

definition list_apply ::
    "nat option \<Rightarrow> bool \<Rightarrow> (nat \<Rightarrow> bool) \<Rightarrow> lheap \<Rightarrow> nat option option" where
  "list_apply list fwd ah h =
     (case list of
        None \<Rightarrow> Some None
      | Some l \<Rightarrow>
          list_apply_loop fwd ah
            (if fwd then l_head (lists h l) else l_tail (lists h l)) h)"

definition list_head :: "nat option \<Rightarrow> lheap \<Rightarrow> nat option" where
  "list_head list h = (case list of None \<Rightarrow> None | Some l \<Rightarrow> l_head (lists h l))"

definition list_tail :: "nat option \<Rightarrow> lheap \<Rightarrow> nat option" where
  "list_tail list h = (case list of None \<Rightarrow> None | Some l \<Rightarrow> l_tail (lists h l))"

partial_function (option) list_count_loop :: "u32 \<Rightarrow> nat option \<Rightarrow> lheap \<Rightarrow> u32 option" where
  "list_count_loop n le h =
     (case le of
        None \<Rightarrow> Some n
      | Some e \<Rightarrow> list_count_loop (n + 1) (le_next (les h e)) h)"

definition list_count :: "nat option \<Rightarrow> lheap \<Rightarrow> u32 option" where
  "list_count list h =
     (case list of None \<Rightarrow> Some 0 | Some l \<Rightarrow> list_count_loop 0 (l_head (lists h l)) h)"

definition list_ledata :: "nat option \<Rightarrow> lheap \<Rightarrow> nat option" where
  "list_ledata le h = (case le of None \<Rightarrow> None | Some e \<Rightarrow> le_data (les h e))"

definition list_contains :: "nat \<Rightarrow> nat option \<Rightarrow> lheap \<Rightarrow> bool" where
  "list_contains l le h = (case le of None \<Rightarrow> False | Some e \<Rightarrow> le_list (les h e) = Some l)"

definition list_isempty :: "nat option \<Rightarrow> lheap \<Rightarrow> bool" where
  "list_isempty list h = (case list of None \<Rightarrow> True | Some l \<Rightarrow> l_head (lists h l) = None)"

text \<open>
  \<open>list_sort\<close>: a pass swaps neighbours the handler calls unsorted, by unlinking the earlier one
  and inserting it after the later one, and passes repeat until none swapped. \<open>sh\<close> is the
  sort handler on two elements.
\<close>

partial_function (option) list_sort_pass ::
    "nat \<Rightarrow> (nat \<Rightarrow> nat \<Rightarrow> bool) \<Rightarrow> nat option \<Rightarrow> bool \<Rightarrow> lheap \<Rightarrow> (bool \<times> lheap) option" where
  "list_sort_pass l sh le srt h =
     (case le of
        None \<Rightarrow> Some (srt, h)
      | Some e \<Rightarrow>
          (case le_next (les h e) of
             None \<Rightarrow> Some (srt, h)
           | Some t \<Rightarrow>
               if sh e t then list_sort_pass l sh (Some t) srt h
               else
                 (let h1 = list_unlink (Some e) h;
                      h2 = list_insert_after (Some l) (Some t) (Some e) (le_data (les h1 e)) h1
                  in list_sort_pass l sh (Some e) True h2)))"

partial_function (option) list_sort ::
    "nat \<Rightarrow> (nat \<Rightarrow> nat \<Rightarrow> bool) \<Rightarrow> lheap \<Rightarrow> lheap option" where
  "list_sort l sh h =
     Option.bind (list_sort_pass l sh (l_head (lists h l)) False h)
       (\<lambda>(srt, h'). if srt then list_sort l sh h' else Some h')"

section \<open>What a list at an address holds\<close>

text \<open>
  \<open>dseg h l p xs n\<close>: the elements \<open>xs\<close> belong to list \<open>l\<close>, are chained in both directions, the
  first one's \<open>prev\<close> is \<open>p\<close> and the last one's \<open>next\<close> is \<open>n\<close>.
\<close>

fun dseg :: "lheap \<Rightarrow> nat \<Rightarrow> nat option \<Rightarrow> nat list \<Rightarrow> nat option \<Rightarrow> bool" where
  "dseg h l p [] n = True"
| "dseg h l p (x # xs) n \<longleftrightarrow>
     le_list (les h x) = Some l \<and> le_prev (les h x) = p \<and> le_next (les h x) = hd_or n xs \<and>
     dseg h l (Some x) xs n"

definition lrep :: "lheap \<Rightarrow> nat \<Rightarrow> nat list \<Rightarrow> bool" where
  "lrep h l xs \<longleftrightarrow> distinct xs \<and> l_head (lists h l) = hd_or None xs \<and>
     l_tail (lists h l) = last_or None xs \<and> dseg h l None xs None"

lemma dseg_append [simp]:
  "dseg h l p (xs @ ys) n \<longleftrightarrow> dseg h l p xs (hd_or n ys) \<and> dseg h l (last_or p xs) ys n"
  by (induction xs arbitrary: p) auto

lemma dseg_list: "dseg h l p xs n \<Longrightarrow> x \<in> set xs \<Longrightarrow> le_list (les h x) = Some l"
  by (induction xs arbitrary: p) auto

lemma dseg_cong:
  "(\<And>x. x \<in> set xs \<Longrightarrow> les h' x = les h x) \<Longrightarrow> dseg h' l p xs n = dseg h l p xs n"
  by (induction xs arbitrary: p) auto

lemma dseg_set_list [heap_frame, simp]: "dseg (set_list k f h) l p xs n = dseg h l p xs n"
  by (rule dseg_cong) simp

lemma dseg_set_le_notin [heap_frame]:
  "e \<notin> set xs \<Longrightarrow> dseg (set_le e f h) l p xs n = dseg h l p xs n"
  by (rule dseg_cong) auto

lemma dseg_set_prev:
  "dseg h l p (x # xs) n \<Longrightarrow> x \<notin> set xs \<Longrightarrow>
   dseg (set_le x (\<lambda>r. r\<lparr>le_prev := q\<rparr>) h) l q (x # xs) n"
  by (simp add: dseg_set_le_notin)

lemma dseg_set_next:
  "dseg h l p (xs @ [x]) n \<Longrightarrow> x \<notin> set xs \<Longrightarrow>
   dseg (set_le x (\<lambda>r. r\<lparr>le_next := m\<rparr>) h) l p (xs @ [x]) m"
  by (simp add: dseg_set_le_notin)

lemma lrep_distinct: "lrep h l xs \<Longrightarrow> distinct xs"
  by (simp add: lrep_def)

lemma lrep_list: "lrep h l xs \<Longrightarrow> x \<in> set xs \<Longrightarrow> le_list (les h x) = Some l"
  by (auto simp: lrep_def intro: dseg_list)

lemma lrep_free: "lrep h l xs \<Longrightarrow> le_list (les h e) = None \<Longrightarrow> e \<notin> set xs"
  by (auto dest: lrep_list)

lemma lrep_other: "lrep h l xs \<Longrightarrow> le_list (les h e) = Some k \<Longrightarrow> k \<noteq> l \<Longrightarrow> e \<notin> set xs"
  by (auto dest: lrep_list)

lemma lrep_head: "lrep h l xs \<Longrightarrow> l_head (lists h l) = hd_or None xs"
  by (simp add: lrep_def)

lemma lrep_tail: "lrep h l xs \<Longrightarrow> l_tail (lists h l) = last_or None xs"
  by (simp add: lrep_def)

lemma lrep_cong:
  assumes "\<And>x. x \<in> set xs \<Longrightarrow> les h' x = les h x" and "lists h' l = lists h l"
  shows "lrep h' l xs = lrep h l xs"
  unfolding lrep_def using dseg_cong [of xs h' h l None None] assms by simp

lemma lrep_next:
  "lrep h l (as @ x # bs) \<Longrightarrow> le_next (les h x) = hd_or None bs"
  by (simp add: lrep_def)

lemma lrep_prev:
  "lrep h l (as @ x # bs) \<Longrightarrow> le_prev (les h x) = last_or None as"
  by (simp add: lrep_def)

section \<open>The operations implement sequences\<close>

lemma list_init_rep: "lrep (list_init (Some l) h) l []"
  by (simp add: lrep_def)

lemma list_append_rep:
  assumes rep: "lrep h l xs" and free: "le_list (les h e) = None"
  shows "lrep (list_append (Some l) (Some e) d h) l (xs @ [e])"
proof -
  have e: "e \<notin> set xs" using rep free by (rule lrep_free)
  show ?thesis
  proof (cases xs rule: rev_cases)
    case Nil
    with rep free show ?thesis
      by (simp add: lrep_def list_append_def Let_def)
  next
    case (snoc ys z)
    with rep free e show ?thesis
      by (auto simp: lrep_def list_append_def Let_def dseg_set_le_notin)
  qed
qed

lemma list_prepend_rep:
  assumes rep: "lrep h l xs" and free: "le_list (les h e) = None"
  shows "lrep (list_prepend (Some l) (Some e) d h) l (e # xs)"
proof -
  have e: "e \<notin> set xs" using rep free by (rule lrep_free)
  with rep free show ?thesis
    by (cases xs) (auto simp: lrep_def list_prepend_def Let_def dseg_set_le_notin last_or_def)
qed

lemma list_insert_after_rep:
  assumes rep: "lrep h l (as @ x # bs)" and free: "le_list (les h e) = None"
  shows "lrep (list_insert_after (Some l) (Some x) (Some e) d h) l (as @ x # e # bs)"
proof -
  have e: "e \<notin> set (as @ x # bs)" using rep free by (rule lrep_free)
  show ?thesis
  proof (cases bs)
    case Nil
    with rep free e show ?thesis
      by (auto simp: lrep_def list_insert_after_def Let_def dseg_set_le_notin)
  next
    case (Cons b bs')
    with rep free e show ?thesis
      by (auto simp: lrep_def list_insert_after_def Let_def dseg_set_le_notin)
  qed
qed

lemma list_insert_before_rep:
  assumes rep: "lrep h l (as @ x # bs)" and free: "le_list (les h e) = None"
  shows "lrep (list_insert_before (Some l) (Some x) (Some e) d h) l (as @ e # x # bs)"
proof -
  have e: "e \<notin> set (as @ x # bs)" using rep free by (rule lrep_free)
  show ?thesis
  proof (cases as rule: rev_cases)
    case Nil
    with rep free e show ?thesis
      by (auto simp: lrep_def list_insert_before_def Let_def dseg_set_le_notin)
  next
    case (snoc ys z)
    with rep free e show ?thesis
      by (auto simp: lrep_def list_insert_before_def Let_def dseg_set_le_notin)
  qed
qed

lemma list_unlink_rep:
  assumes rep: "lrep h l (as @ x # bs)"
  shows "lrep (list_unlink (Some x) h) l (as @ bs)"
proof -
  have x: "le_list (les h x) = Some l" using rep by (auto intro: lrep_list)
  show ?thesis
  proof (cases as rule: rev_cases)
    case Nil
    with rep x show ?thesis
      by (cases bs) (auto simp: lrep_def list_unlink_def Let_def dseg_set_le_notin last_or_def)
  next
    case (snoc ys z)
    with rep x show ?thesis
      by (cases bs) (auto simp: lrep_def list_unlink_def Let_def dseg_set_le_notin last_or_def)
  qed
qed

lemma list_unlink_free: "le_list (les (list_unlink (Some x) h) x) = None"
  by (auto simp: list_unlink_def Let_def split: option.splits)

section \<open>Other lists are left alone\<close>

lemma lrep_disjoint: "lrep h l xs \<Longrightarrow> lrep h k ys \<Longrightarrow> k \<noteq> l \<Longrightarrow> set ys \<inter> set xs = {}"
  by (metis disjoint_iff lrep_list option.inject)

lemma list_append_frame:
  assumes "lrep h l xs" "lrep h k ys" "k \<noteq> l" "le_list (les h e) = None"
  shows "lrep (list_append (Some l) (Some e) d h) k ys"
proof -
  have "e \<notin> set ys" "set ys \<inter> set xs = {}"
    using assms by (auto dest: lrep_free lrep_disjoint)
  moreover have "l_tail (lists h l) = last_or None xs" using assms(1) by (rule lrep_tail)
  ultimately have "lrep (list_append (Some l) (Some e) d h) k ys = lrep h k ys"
    using assms(3)
    by (intro lrep_cong) (cases xs rule: rev_cases; auto simp: list_append_def Let_def)+
  with assms(2) show ?thesis by simp
qed

lemma list_insert_after_frame:
  assumes "lrep h l (as @ x # bs)" "lrep h k ys" "k \<noteq> l" "le_list (les h e) = None"
  shows "lrep (list_insert_after (Some l) (Some x) (Some e) d h) k ys"
proof -
  have "e \<notin> set ys" using assms(2,4) by (rule lrep_free)
  moreover have "set ys \<inter> set (as @ x # bs) = {}" using assms(1-3) by (rule lrep_disjoint)
  moreover have "le_next (les h x) = hd_or None bs" using assms(1) by (rule lrep_next)
  ultimately have "lrep (list_insert_after (Some l) (Some x) (Some e) d h) k ys = lrep h k ys"
    using assms(3)
    by (intro lrep_cong) (cases bs; auto simp: list_insert_after_def Let_def)+
  with assms(2) show ?thesis by simp
qed

lemma list_unlink_frame:
  assumes "lrep h l (as @ x # bs)" "lrep h k ys" "k \<noteq> l"
  shows "lrep (list_unlink (Some x) h) k ys"
proof -
  have "set ys \<inter> set (as @ x # bs) = {}" using assms by (rule lrep_disjoint)
  moreover have "le_next (les h x) = hd_or None bs" using assms(1) by (rule lrep_next)
  moreover have "le_prev (les h x) = last_or None as" using assms(1) by (rule lrep_prev)
  moreover have "le_list (les h x) = Some l" using assms(1) by (auto intro: lrep_list)
  ultimately have "lrep (list_unlink (Some x) h) k ys = lrep h k ys"
    using assms(3)
    by (intro lrep_cong)
      (cases bs; cases as rule: rev_cases; auto simp: list_unlink_def Let_def)+
  with assms(2) show ?thesis by simp
qed

section \<open>Traversals\<close>

lemma list_apply_loop_simps [simp]:
  "list_apply_loop fwd ah None h = Some None"
  "list_apply_loop fwd ah (Some e) h =
     (if ah e then Some (Some e)
      else list_apply_loop fwd ah (if fwd then le_next (les h e) else le_prev (les h e)) h)"
  by (simp_all add: list_apply_loop.simps Let_def)

lemma list_apply_loop_fwd:
  "dseg h l p xs None \<Longrightarrow>
   list_apply_loop True ah (hd_or None xs) h = Some (List.find ah xs)"
  by (induction xs arbitrary: p) auto

lemma list_apply_loop_bwd:
  "dseg h l None xs n \<Longrightarrow>
   list_apply_loop False ah (last_or None xs) h = Some (List.find ah (rev xs))"
  by (induction xs arbitrary: n rule: rev_induct) auto

lemma list_apply_rep:
  "lrep h l xs \<Longrightarrow>
   list_apply (Some l) fwd ah h = Some (List.find ah (if fwd then xs else rev xs))"
  by (auto simp: list_apply_def lrep_def list_apply_loop_fwd list_apply_loop_bwd)

lemma list_count_loop_simps [simp]:
  "list_count_loop n None h = Some n"
  "list_count_loop n (Some e) h = list_count_loop (n + 1) (le_next (les h e)) h"
  by (simp_all add: list_count_loop.simps)

lemma list_count_loop_rep:
  "dseg h l p xs None \<Longrightarrow>
   list_count_loop n (hd_or None xs) h = Some (n + of_nat (length xs))"
  by (induction xs arbitrary: p n) (auto simp: add_ac)

lemma list_count_rep:
  "lrep h l xs \<Longrightarrow> list_count (Some l) h = Some (of_nat (length xs))"
  by (auto simp: list_count_def lrep_def list_count_loop_rep)

lemma list_isempty_rep: "lrep h l xs \<Longrightarrow> list_isempty (Some l) h \<longleftrightarrow> xs = []"
  by (simp add: list_isempty_def lrep_def)

text \<open>
  \<open>list_flush\<close> drops the reference to each element's data once, in list order, provided the
  destructors leave the store of links alone (their own \<open>list_unlink\<close> finds the element
  already unlinked).
\<close>

definition clear_le :: "nat \<Rightarrow> lheap \<Rightarrow> lheap" where
  "clear_le e h = set_le e (\<lambda>r. r\<lparr>le_list := None, le_prev := None, le_next := None,
                                 le_data := None\<rparr>) h"

lemma list_flush_loop_simps [simp]:
  "list_flush_loop dh None hs = Some hs"
  "list_flush_loop dh (Some e) hs =
     list_flush_loop dh (le_next (les (fst hs) e))
       (dh (le_data (les (fst hs) e)) (clear_le e (fst hs), snd hs))"
  by (simp_all add: list_flush_loop.simps clear_le_def Let_def)

lemma clear_le_sel [simp]:
  "x \<noteq> e \<Longrightarrow> les (clear_le e h) x = les h x"
  "le_list (les (clear_le e h) e) = None"
  "lists (clear_le e h) = lists h"
  by (simp_all add: clear_le_def)

lemma clear_le_dseg [heap_frame]: "e \<notin> set xs \<Longrightarrow> dseg (clear_le e h) l p xs n = dseg h l p xs n"
  by (simp add: clear_le_def dseg_set_le_notin)

lemma fold_data_cong:
  "e \<notin> set xs \<Longrightarrow>
   fold (\<lambda>x. g (le_data (les (clear_le e h) x))) xs s = fold (\<lambda>x. g (le_data (les h x))) xs s"
  by (rule fold_cong) (auto simp: clear_le_def)

lemma list_flush_loop_rep:
  assumes keep: "\<And>d h s. dh d (h, s) = (h, g d s)"
  shows "dseg h l p xs None \<Longrightarrow> distinct xs \<Longrightarrow>
    list_flush_loop dh (hd_or None xs) (h, s) =
      Some (fold clear_le xs h, fold (\<lambda>x. g (le_data (les h x))) xs s)"
proof (induction xs arbitrary: h p s)
  case Nil
  then show ?case by simp
next
  case (Cons x xs)
  then have "dseg (clear_le x h) l (Some x) xs None"
    by (simp add: clear_le_dseg)
  with Cons show ?case
    by (simp add: keep fold_data_cong)
qed

lemma fold_clear_lists: "lists (fold clear_le xs h) = lists h"
  by (induction xs arbitrary: h) simp_all

lemma fold_clear_notin: "x \<notin> set xs \<Longrightarrow> les (fold clear_le xs h) x = les h x"
  by (induction xs arbitrary: h) simp_all

lemma fold_clear_free: "x \<in> set xs \<Longrightarrow> le_list (les (fold clear_le xs h) x) = None"
proof (induction xs arbitrary: h)
  case (Cons y xs)
  then show ?case by (cases "x \<in> set xs") (simp_all add: fold_clear_notin)
qed simp

lemma list_flush_rep:
  assumes rep: "lrep h l xs" and keep: "\<And>d h s. dh d (h, s) = (h, g d s)"
  shows "\<exists>h'. list_flush dh (Some l) (h, s) = Some (h', fold (\<lambda>x. g (le_data (les h x))) xs s) \<and>
    lrep h' l [] \<and> (\<forall>x\<in>set xs. le_list (les h' x) = None)"
proof -
  have "list_flush_loop dh (hd_or None xs) (h, s) =
      Some (fold clear_le xs h, fold (\<lambda>x. g (le_data (les h x))) xs s)"
    using rep by (intro list_flush_loop_rep [OF keep]) (auto simp: lrep_def)
  then show ?thesis
    using rep by (auto simp: list_flush_def lrep_head fold_clear_free list_init_rep
        simp del: list_init.simps) (simp add: fold_clear_free)
qed

section \<open>Sorting\<close>

text \<open>What one pass does to the sequence, and whether it swapped.\<close>

fun bubble :: "('a \<Rightarrow> 'a \<Rightarrow> bool) \<Rightarrow> 'a list \<Rightarrow> 'a list" where
  "bubble f (x # y # zs) = (if f x y then x # bubble f (y # zs) else y # bubble f (x # zs))"
| "bubble f xs = xs"

fun bubble_swaps :: "('a \<Rightarrow> 'a \<Rightarrow> bool) \<Rightarrow> 'a list \<Rightarrow> bool" where
  "bubble_swaps f (x # y # zs) \<longleftrightarrow> (if f x y then bubble_swaps f (y # zs) else True)"
| "bubble_swaps f xs \<longleftrightarrow> False"

lemma bubble_mset [simp]: "mset (bubble f xs) = mset xs"
  by (induction f xs rule: bubble.induct) auto

lemma bubble_length [simp]: "length (bubble f xs) = length xs"
  by (metis bubble_mset size_mset)

text \<open>
  With a handler that compares keys, passes end: each one with a swap lowers the number of
  inversions. Equal keys never swap, so the order among them stays.
\<close>

fun inversions :: "('a \<Rightarrow> 'k::linorder) \<Rightarrow> 'a list \<Rightarrow> nat" where
  "inversions key [] = 0"
| "inversions key (x # xs) = length (filter (\<lambda>y. key y < key x) xs) + inversions key xs"

lemma length_filter_bubble:
  "length (filter P (bubble f xs)) = length (filter P xs)"
  by (metis bubble_mset mset_filter size_mset)

lemma inversions_bubble:
  "inversions key (bubble (\<lambda>x y. key x \<le> key y) xs) +
     (if bubble_swaps (\<lambda>x y. key x \<le> key y) xs then 1 else 0) \<le> inversions key xs"
proof (induction "\<lambda>x y. key x \<le> key y" xs rule: bubble.induct)
  case (1 x y zs)
  show ?case
  proof (cases "key x \<le> key y")
    case True
    with 1(1) show ?thesis
      by (auto simp: length_filter_bubble simp del: bubble_swaps.simps(1)
          simp: bubble_swaps.simps(1) [of _ x y zs] split: if_splits)
  next
    case False
    with 1(2) show ?thesis
      by (auto simp: length_filter_bubble split: if_splits)
  qed
qed auto

lemma bubble_sorted:
  "\<not> bubble_swaps (\<lambda>x y. key x \<le> key y) xs \<Longrightarrow>
   sorted (map key xs) \<and> bubble (\<lambda>x y. key x \<le> key y) xs = (xs :: 'a list)"
  for key :: "'a \<Rightarrow> 'k::linorder"
proof (induction "\<lambda>x y. key x \<le> key y" xs rule: bubble.induct)
  case (1 x y zs)
  then show ?case by (auto split: if_splits)
qed auto

lemma bubble_stable:
  "filter (\<lambda>x. key x = k) (bubble (\<lambda>x y. key x \<le> key y) xs) =
   filter (\<lambda>x. key x = (k :: 'k::linorder)) xs"
  by (induction "\<lambda>x y. key x \<le> key y" xs rule: bubble.induct) auto

lemma bubble_sort_key:
  "sort_key key (bubble (\<lambda>x y. key x \<le> key y) xs) = sort_key key xs"
proof (rule sym, rule properties_for_sort_key)
  show "filter (\<lambda>x. key k = key x) (sort_key key (bubble (\<lambda>x y. key x \<le> key y) xs)) =
      filter (\<lambda>x. key k = key x) xs" for k
    by (simp add: sort_key_stable bubble_stable eq_commute [of "key k"])
qed simp_all

lemma sort_key_sorted: "sorted (map key xs) \<Longrightarrow> sort_key key xs = xs"
  by (rule properties_for_sort_key) simp_all

lemma sort_pass_simps [simp]:
  "list_sort_pass l sh None srt h = Some (srt, h)"
  "list_sort_pass l sh (Some e) srt h =
     (case le_next (les h e) of
        None \<Rightarrow> Some (srt, h)
      | Some t \<Rightarrow>
          if sh e t then list_sort_pass l sh (Some t) srt h
          else list_sort_pass l sh (Some e) True
                 (list_insert_after (Some l) (Some t) (Some e)
                    (le_data (les (list_unlink (Some e) h) e)) (list_unlink (Some e) h)))"
  by (simp_all add: list_sort_pass.simps Let_def split: option.splits)

lemma sort_pass_rep:
  "lrep h l (pre @ x # xs) \<Longrightarrow>
   \<exists>h'. list_sort_pass l sh (Some x) b h = Some (b \<or> bubble_swaps sh (x # xs), h') \<and>
     lrep h' l (pre @ bubble sh (x # xs)) \<and>
     (\<forall>k ys. k \<noteq> l \<longrightarrow> lrep h k ys \<longrightarrow> lrep h' k ys)"
proof (induction xs arbitrary: pre x b h)
  case Nil
  then show ?case using lrep_next [of h l pre x "[]"] by auto
next
  case (Cons y zs)
  have nx: "le_next (les h x) = Some y" using lrep_next [OF Cons.prems] by simp
  show ?case
  proof (cases "sh x y")
    case True
    from Cons.prems have "lrep h l ((pre @ [x]) @ y # zs)" by simp
    from Cons.IH [OF this, of b] True nx show ?thesis by simp
  next
    case False
    define h1 where "h1 = list_unlink (Some x) h"
    define h2 where "h2 = list_insert_after (Some l) (Some y) (Some x) (le_data (les h1 x)) h1"
    have h1: "lrep h1 l (pre @ y # zs)" "le_list (les h1 x) = None"
      unfolding h1_def using Cons.prems by (auto intro: list_unlink_rep list_unlink_free)
    then have "lrep h2 l (pre @ y # x # zs)"
      unfolding h2_def by (rule list_insert_after_rep)
    then have h2: "lrep h2 l ((pre @ [y]) @ x # zs)" by simp
    have frame: "\<forall>k ys. k \<noteq> l \<longrightarrow> lrep h k ys \<longrightarrow> lrep h2 k ys"
    proof (intro allI impI)
      fix k ys
      assume k: "k \<noteq> l" and ys: "lrep h k ys"
      have "lrep h1 k ys" unfolding h1_def using Cons.prems ys k by (rule list_unlink_frame)
      with h1 k show "lrep h2 k ys" unfolding h2_def by (blast intro: list_insert_after_frame)
    qed
    from Cons.IH [OF h2, of True] False nx frame show ?thesis
      by (auto simp: h1_def h2_def)
  qed
qed

text \<open>
  \<open>list_sort\<close> with a key-comparing handler ends, and the list then holds the stable sort of
  what it held; other lists are untouched.
\<close>

lemma list_sort_rep:
  fixes key :: "nat \<Rightarrow> 'k::linorder"
  assumes "lrep h l xs"
  shows "\<exists>h'. list_sort l (\<lambda>x y. key x \<le> key y) h = Some h' \<and> lrep h' l (sort_key key xs) \<and>
    (\<forall>k ys. k \<noteq> l \<longrightarrow> lrep h k ys \<longrightarrow> lrep h' k ys)"
  using assms
proof (induction "inversions key xs" arbitrary: xs h rule: less_induct)
  case less
  let ?sh = "\<lambda>x y. key x \<le> key y"
  show ?case
  proof (cases xs)
    case Nil
    with less.prems show ?thesis
      by (auto simp: list_sort.simps [of l ?sh h] lrep_head)
  next
    case (Cons x zs)
    from less.prems Cons have "lrep h l ([] @ x # zs)" by simp
    from sort_pass_rep [OF this, of ?sh False] obtain h' where
      pass: "list_sort_pass l ?sh (Some x) False h = Some (bubble_swaps ?sh xs, h')" and
      rep': "lrep h' l (bubble ?sh xs)" and
      fr: "\<forall>k ys. k \<noteq> l \<longrightarrow> lrep h k ys \<longrightarrow> lrep h' k ys"
      using Cons by auto
    have hd: "l_head (lists h l) = Some x" using less.prems Cons by (simp add: lrep_head)
    show ?thesis
    proof (cases "bubble_swaps ?sh xs")
      case True
      with inversions_bubble [of key xs] have "inversions key (bubble ?sh xs) < inversions key xs"
        by simp
      from less.hyps [OF this rep'] True pass hd fr show ?thesis
        by (auto simp: list_sort.simps [of l ?sh h] bubble_sort_key)
    next
      case False
      with bubble_sorted [of key xs] have "sorted (map key xs)" "bubble ?sh xs = xs" by auto
      with False pass hd rep' fr show ?thesis
        by (auto simp: list_sort.simps [of l ?sh h] sort_key_sorted)
    qed
  qed
qed

section \<open>Owner and data of the elements\<close>

lemma list_append_owner:
  "le_list (les h e) = None \<Longrightarrow>
   le_list (les (list_append (Some l) (Some e) d h) y) = (if y = e then Some l else le_list (les h y))"
  by (auto simp: list_append_def Let_def split: option.splits)

lemma list_append_data:
  "le_list (les h e) = None \<Longrightarrow>
   le_data (les (list_append (Some l) (Some e) d h) y) = (if y = e then d else le_data (les h y))"
  by (auto simp: list_append_def Let_def split: option.splits)

lemma list_prepend_owner:
  "le_list (les h e) = None \<Longrightarrow>
   le_list (les (list_prepend (Some l) (Some e) d h) y) = (if y = e then Some l else le_list (les h y))"
  by (auto simp: list_prepend_def Let_def split: option.splits)

lemma list_prepend_data:
  "le_list (les h e) = None \<Longrightarrow>
   le_data (les (list_prepend (Some l) (Some e) d h) y) = (if y = e then d else le_data (les h y))"
  by (auto simp: list_prepend_def Let_def split: option.splits)

lemma list_insert_after_owner:
  "le_list (les h e) = None \<Longrightarrow>
   le_list (les (list_insert_after (Some l) (Some x) (Some e) d h) y) =
     (if y = e then Some l else le_list (les h y))"
  by (auto simp: list_insert_after_def Let_def split: option.splits)

lemma list_insert_after_data:
  "le_list (les h e) = None \<Longrightarrow>
   le_data (les (list_insert_after (Some l) (Some x) (Some e) d h) y) =
     (if y = e then d else le_data (les h y))"
  by (auto simp: list_insert_after_def Let_def split: option.splits)

lemma list_insert_before_owner:
  "le_list (les h e) = None \<Longrightarrow>
   le_list (les (list_insert_before (Some l) (Some x) (Some e) d h) y) =
     (if y = e then Some l else le_list (les h y))"
  by (auto simp: list_insert_before_def Let_def split: option.splits)

lemma list_insert_before_data:
  "le_list (les h e) = None \<Longrightarrow>
   le_data (les (list_insert_before (Some l) (Some x) (Some e) d h) y) =
     (if y = e then d else le_data (les h y))"
  by (auto simp: list_insert_before_def Let_def split: option.splits)

lemma list_unlink_owner:
  "le_list (les (list_unlink (Some x) h) y) = (if y = x then None else le_list (les h y))"
  by (auto simp: list_unlink_def Let_def split: option.splits)

lemma list_unlink_data: "le_data (les (list_unlink (Some x) h) y) = le_data (les h y)"
  by (auto simp: list_unlink_def Let_def split: option.splits)

section \<open>The interface the other components use\<close>

text \<open>
  A client of the list module sees sequences: an element is owned by at most one list, the
  insertions need an unowned element, and unlinking gives it back. Two client arguments are made
  here once: moving an element to the end of a list (its own or another), and inserting at the
  place an order asks for, by a search from either end.
\<close>

locale linked_list =
  fixes rep :: "'h \<Rightarrow> 'l \<Rightarrow> 'e list \<Rightarrow> bool"
    and owner :: "'h \<Rightarrow> 'e \<Rightarrow> 'l option"
    and ldata :: "'h \<Rightarrow> 'e \<Rightarrow> 'd"
    and append :: "'l \<Rightarrow> 'e \<Rightarrow> 'd \<Rightarrow> 'h \<Rightarrow> 'h"
    and prepend :: "'l \<Rightarrow> 'e \<Rightarrow> 'd \<Rightarrow> 'h \<Rightarrow> 'h"
    and before :: "'l \<Rightarrow> 'e \<Rightarrow> 'e \<Rightarrow> 'd \<Rightarrow> 'h \<Rightarrow> 'h"
    and after :: "'l \<Rightarrow> 'e \<Rightarrow> 'e \<Rightarrow> 'd \<Rightarrow> 'h \<Rightarrow> 'h"
    and unlink :: "'e \<Rightarrow> 'h \<Rightarrow> 'h"
  assumes rep_owner: "rep h l xs \<Longrightarrow> x \<in> set xs \<Longrightarrow> owner h x = Some l"
    and rep_dist: "rep h l xs \<Longrightarrow> distinct xs"
    and append_rep: "rep h l xs \<Longrightarrow> owner h e = None \<Longrightarrow> rep (append l e d h) l (xs @ [e])"
    and prepend_rep: "rep h l xs \<Longrightarrow> owner h e = None \<Longrightarrow> rep (prepend l e d h) l (e # xs)"
    and before_rep: "rep h l (as @ x # bs) \<Longrightarrow> owner h e = None \<Longrightarrow>
          rep (before l x e d h) l (as @ e # x # bs)"
    and after_rep: "rep h l (as @ x # bs) \<Longrightarrow> owner h e = None \<Longrightarrow>
          rep (after l x e d h) l (as @ x # e # bs)"
    and unlink_rep: "rep h l (as @ x # bs) \<Longrightarrow> rep (unlink x h) l (as @ bs)"
    and append_other: "rep h l xs \<Longrightarrow> rep h k ys \<Longrightarrow> k \<noteq> l \<Longrightarrow> owner h e = None \<Longrightarrow>
          rep (append l e d h) k ys"
    and unlink_other: "rep h l (as @ x # bs) \<Longrightarrow> rep h k ys \<Longrightarrow> k \<noteq> l \<Longrightarrow> rep (unlink x h) k ys"
    and append_owner: "owner h e = None \<Longrightarrow>
          owner (append l e d h) y = (if y = e then Some l else owner h y)"
    and prepend_owner: "owner h e = None \<Longrightarrow>
          owner (prepend l e d h) y = (if y = e then Some l else owner h y)"
    and before_owner: "owner h e = None \<Longrightarrow>
          owner (before l x e d h) y = (if y = e then Some l else owner h y)"
    and after_owner: "owner h e = None \<Longrightarrow>
          owner (after l x e d h) y = (if y = e then Some l else owner h y)"
    and unlink_owner: "owner (unlink x h) y = (if y = x then None else owner h y)"
    and append_ldata: "owner h e = None \<Longrightarrow>
          ldata (append l e d h) y = (if y = e then d else ldata h y)"
    and prepend_ldata: "owner h e = None \<Longrightarrow>
          ldata (prepend l e d h) y = (if y = e then d else ldata h y)"
    and before_ldata: "owner h e = None \<Longrightarrow>
          ldata (before l x e d h) y = (if y = e then d else ldata h y)"
    and after_ldata: "owner h e = None \<Longrightarrow>
          ldata (after l x e d h) y = (if y = e then d else ldata h y)"
    and unlink_ldata: "ldata (unlink x h) y = ldata h y"
begin

lemma move_to_end:
  assumes "rep h l (as @ x # bs)"
  shows "rep (append l x d (unlink x h)) l (as @ bs @ [x])"
  using append_rep [OF unlink_rep [OF assms], of x d] by (simp add: unlink_owner)

lemma move_to_other:
  assumes "rep h l (as @ x # bs)" and "rep h k ys" and "k \<noteq> l"
  shows "rep (append k x d (unlink x h)) k (ys @ [x]) \<and> rep (append k x d (unlink x h)) l (as @ bs)"
proof -
  have k: "rep (unlink x h) k ys" using assms by (rule unlink_other)
  have l: "rep (unlink x h) l (as @ bs)" using assms(1) by (rule unlink_rep)
  have free: "owner (unlink x h) x = None" by (simp add: unlink_owner)
  show ?thesis using append_rep [OF k free] append_other [OF k l] assms(3) free by auto
qed

text \<open>Search from the front for the first later key, insert before it; else at the end.\<close>

lemma insert_from_front:
  fixes key :: "'e \<Rightarrow> 'k::linorder"
  assumes "rep h l xs" and "owner h e = None"
  shows "rep (case List.find (\<lambda>x. k < key x) xs of
                Some x \<Rightarrow> before l x e d h | None \<Rightarrow> append l e d h) l
             (takeWhile (\<lambda>x. key x \<le> k) xs @ e # dropWhile (\<lambda>x. key x \<le> k) xs)"
proof (cases "List.find (\<lambda>x. k < key x) xs")
  case None
  then have "\<forall>x\<in>set xs. key x \<le> k" by (auto simp: find_None_iff_all not_less)
  with None assms append_rep show ?thesis
    by (simp add: takeWhile_eq_all_conv [THEN iffD2] dropWhile_eq_Nil_conv [THEN iffD2])
next
  case (Some x)
  then obtain as bs where xs: "xs = as @ x # bs" "k < key x" "\<forall>y\<in>set as. key y \<le> k"
    by (auto simp: find_split not_less)
  then have "takeWhile (\<lambda>x. key x \<le> k) xs = as" "dropWhile (\<lambda>x. key x \<le> k) xs = x # bs"
    by (auto simp: takeWhile_append2 dropWhile_append2)
  with Some assms xs before_rep show ?thesis by simp
qed

text \<open>On a sorted list, searching from the back for the last key not later gives the same place.\<close>

lemma insert_from_back:
  fixes key :: "'e \<Rightarrow> 'k::linorder"
  assumes "rep h l xs" and "owner h e = None" and "sorted (map key xs)"
  shows "rep (case List.find (\<lambda>x. key x \<le> k) (rev xs) of
                Some x \<Rightarrow> after l x e d h | None \<Rightarrow> prepend l e d h) l
             (takeWhile (\<lambda>x. key x \<le> k) xs @ e # dropWhile (\<lambda>x. key x \<le> k) xs)"
proof (cases "List.find (\<lambda>x. key x \<le> k) (rev xs)")
  case None
  then have "\<forall>x\<in>set xs. \<not> key x \<le> k" by (auto simp: find_None_iff_all)
  then have "takeWhile (\<lambda>x. key x \<le> k) xs = []" "dropWhile (\<lambda>x. key x \<le> k) xs = xs"
    by (cases xs; simp)+
  with None assms prepend_rep show ?thesis by simp
next
  case (Some x)
  then obtain as' bs' where rv: "rev xs = as' @ x # bs'" "key x \<le> k" "\<forall>y\<in>set as'. \<not> key y \<le> k"
    by (auto simp: find_split)
  define as bs where "as = rev bs'" and "bs = rev as'"
  have xs: "xs = as @ x # bs"
    using arg_cong [OF rv(1), of rev] by (simp add: as_def bs_def)
  have bs: "\<forall>y\<in>set bs. \<not> key y \<le> k" using rv(3) by (simp add: bs_def)
  have "\<forall>y\<in>set as. key y \<le> k"
    using assms(3) rv(2) by (auto simp: xs sorted_append)
  then have "takeWhile (\<lambda>x. key x \<le> k) xs = as @ [x]" "dropWhile (\<lambda>x. key x \<le> k) xs = bs"
    using rv(2) bs by (cases bs; auto simp: xs takeWhile_append2 dropWhile_append2)+
  with Some assms(1,2) after_rep [of h l as x bs e d] xs show ?thesis by simp
qed

end

text \<open>The pointer implementation meets the interface.\<close>

interpretation re_list: linked_list lrep "\<lambda>h e. le_list (les h e)" "\<lambda>h e. le_data (les h e)"
  "\<lambda>l e d. list_append (Some l) (Some e) d" "\<lambda>l e d. list_prepend (Some l) (Some e) d"
  "\<lambda>l x e d. list_insert_before (Some l) (Some x) (Some e) d"
  "\<lambda>l x e d. list_insert_after (Some l) (Some x) (Some e) d"
  "\<lambda>x. list_unlink (Some x)"
  by unfold_locales
    (blast intro: lrep_list lrep_distinct list_append_rep list_prepend_rep
        list_insert_before_rep list_insert_after_rep list_unlink_rep list_append_frame
        list_unlink_frame list_append_owner list_prepend_owner list_insert_before_owner
        list_insert_after_owner list_unlink_owner list_append_data list_prepend_data
        list_insert_before_data list_insert_after_data list_unlink_data)+

end
