(* ===== verification/Re_Tmr.thy ===== *)
theory Re_Tmr
  imports Re_List
begin

text \<open>
  The timers of libre (\<^verbatim>\<open>re/src/tmr/tmr.c\<close>): a thread's active timers are kept in a linked list
  ordered by expiry. A \<open>struct tmr\<close> embeds its list element, so a timer and its element share an
  address. The clock is read by the caller: \<open>now\<close> is what \<open>tmr_jiffies\<close> returns in the call.
\<close>

section \<open>Timers\<close>

record tmrst =
  theap :: lheap
  tjfs :: "nat \<Rightarrow> u64"
  tth :: "nat \<Rightarrow> nat option"
  targ :: "nat \<Rightarrow> nat option"

text \<open>\<open>gettimeofday\<close> gives seconds and microseconds, or fails.\<close>

definition tmr_jiffies :: "(int \<times> nat) option \<Rightarrow> u64" where
  "tmr_jiffies tv =
     (case tv of
        None \<Rightarrow> 0
      | Some (sec, usec) \<Rightarrow> word_of_int sec * 1000 + of_nat (usec div 1000))"

text \<open>The search handlers read the timer through the element's data pointer.\<close>

definition inspos_handler :: "tmrst \<Rightarrow> u64 \<Rightarrow> nat \<Rightarrow> bool" where
  "inspos_handler s now e =
     (case le_data (les (theap s) e) of None \<Rightarrow> False | Some t \<Rightarrow> tjfs s t \<le> now)"

definition inspos_handler_0 :: "tmrst \<Rightarrow> u64 \<Rightarrow> nat \<Rightarrow> bool" where
  "inspos_handler_0 s now e =
     (case le_data (les (theap s) e) of None \<Rightarrow> False | Some t \<Rightarrow> now < tjfs s t)"

definition tmr_init :: "nat option \<Rightarrow> tmrst \<Rightarrow> tmrst" where
  "tmr_init tmr s =
     (case tmr of
        None \<Rightarrow> s
      | Some t \<Rightarrow>
          s\<lparr>theap := set_le t (\<lambda>_. \<lparr>le_prev = None, le_next = None, le_list = None,
                                    le_data = None\<rparr>) (theap s),
            tjfs := (tjfs s)(t := 0), tth := (tth s)(t := None), targ := (targ s)(t := None)\<rparr>)"

definition tmr_start ::
    "nat \<Rightarrow> nat option \<Rightarrow> u64 \<Rightarrow> nat option \<Rightarrow> nat option \<Rightarrow> u64 \<Rightarrow> tmrst \<Rightarrow> tmrst option" where
  "tmr_start tmrl tmr delay th arg now s =
     (case tmr of
        None \<Rightarrow> Some s
      | Some t \<Rightarrow>
          (let s1 = (if tth s t \<noteq> None then s\<lparr>theap := list_unlink (Some t) (theap s)\<rparr> else s);
               s2 = s1\<lparr>tth := (tth s1)(t := th), targ := (targ s1)(t := arg)\<rparr>
           in if th = None then Some s2
              else
                (let jfs = delay + now;
                     s3 = s2\<lparr>tjfs := (tjfs s2)(t := jfs)\<rparr>;
                     h = theap s3
                 in if delay = 0
                    then map_option
                      (\<lambda>le. s3\<lparr>theap := (case le of
                           Some e \<Rightarrow> list_insert_before (Some tmrl) (Some e) (Some t) (Some t) h
                         | None \<Rightarrow> list_append (Some tmrl) (Some t) (Some t) h)\<rparr>)
                      (list_apply (Some tmrl) True (inspos_handler_0 s3 jfs) h)
                    else map_option
                      (\<lambda>le. s3\<lparr>theap := (case le of
                           Some e \<Rightarrow> list_insert_after (Some tmrl) (Some e) (Some t) (Some t) h
                         | None \<Rightarrow> list_prepend (Some tmrl) (Some t) (Some t) h)\<rparr>)
                      (list_apply (Some tmrl) False (inspos_handler s3 jfs) h))))"

definition tmr_cancel :: "nat \<Rightarrow> nat option \<Rightarrow> u64 \<Rightarrow> tmrst \<Rightarrow> tmrst option" where
  "tmr_cancel tmrl tmr now s = tmr_start tmrl tmr 0 None None now s"

text \<open>
  \<open>tmr_poll\<close> takes expired timers off the head until the head is in the future. A handler can
  start and cancel timers and change the rest of the program's state \<open>'s\<close>; \<open>run\<close> is its effect.
\<close>

partial_function (option) tmr_poll ::
    "nat \<Rightarrow> (nat \<Rightarrow> nat option \<Rightarrow> tmrst \<times> 's \<Rightarrow> tmrst \<times> 's) \<Rightarrow> u64 \<Rightarrow> tmrst \<times> 's
       \<Rightarrow> (tmrst \<times> 's) option"
where
  "tmr_poll tmrl run jfs su =
     (case list_ledata (l_head (lists (theap (fst su)) tmrl)) (theap (fst su)) of
        None \<Rightarrow> Some su
      | Some t \<Rightarrow>
          if jfs < tjfs (fst su) t then Some su
          else
            (let s = fst su; th = tth s t; th_arg = targ s t;
                 s1 = s\<lparr>tth := (tth s)(t := None), theap := list_unlink (Some t) (theap s)\<rparr>
             in case th of
                  None \<Rightarrow> tmr_poll tmrl run jfs (s1, snd su)
                | Some f \<Rightarrow> tmr_poll tmrl run jfs (run f th_arg (s1, snd su))))"

definition tmr_next_timeout :: "nat \<Rightarrow> u64 \<Rightarrow> tmrst \<Rightarrow> u64" where
  "tmr_next_timeout tmrl jif s =
     (case list_ledata (l_head (lists (theap s) tmrl)) (theap s) of
        None \<Rightarrow> 0
      | Some t \<Rightarrow> if tjfs s t \<le> jif then 1 else tjfs s t - jif)"

definition tmr_get_expire :: "nat option \<Rightarrow> u64 \<Rightarrow> tmrst \<Rightarrow> u64" where
  "tmr_get_expire tmr jfs s =
     (case tmr of
        None \<Rightarrow> 0
      | Some t \<Rightarrow> if tth s t = None then 0
                   else if jfs < tjfs s t then tjfs s t - jfs else 0)"

section \<open>The invariant of a timer list\<close>

text \<open>
  The list holds exactly the timers with a handler, in the order of expiry, and each element's
  data is its timer.
\<close>

definition tmr_inv :: "nat \<Rightarrow> tmrst \<Rightarrow> nat list \<Rightarrow> bool" where
  "tmr_inv tmrl s xs \<longleftrightarrow>
     lrep (theap s) tmrl xs \<and> sorted (map (tjfs s) xs) \<and>
     (\<forall>x. le_list (les (theap s) x) = (if x \<in> set xs then Some tmrl else None)) \<and>
     (\<forall>x\<in>set xs. le_data (les (theap s) x) = Some x) \<and>
     (\<forall>x. x \<in> set xs \<longleftrightarrow> tth s x \<noteq> None)"

definition insert_by :: "('a \<Rightarrow> 'k::linorder) \<Rightarrow> 'k \<Rightarrow> 'a \<Rightarrow> 'a list \<Rightarrow> 'a list" where
  "insert_by key k e xs = takeWhile (\<lambda>x. key x \<le> k) xs @ e # dropWhile (\<lambda>x. key x \<le> k) xs"

lemma set_insert_by [simp]: "set (insert_by key k e xs) = insert e (set xs)"
  by (metis (no_types, lifting) Un_insert_right insert_by_def list.simps(15) set_append
      takeWhile_dropWhile_id)

lemma insert_by_cong:
  "(\<And>x. x \<in> set xs \<Longrightarrow> key x = key' x) \<Longrightarrow> insert_by key k e xs = insert_by key' k e xs"
  by (simp add: insert_by_def cong: takeWhile_cong dropWhile_cong)

lemma sorted_insert_by:
  "sorted (map key xs) \<Longrightarrow> key e = k \<Longrightarrow> sorted (map key (insert_by key k e xs))"
  by (induction xs) (auto simp: insert_by_def dest: set_takeWhileD set_dropWhileD)

section \<open>Starting and cancelling\<close>

lemma tmr_inv_distinct: "tmr_inv tm s xs \<Longrightarrow> distinct xs"
  by (auto simp: tmr_inv_def lrep_distinct)

lemma tmr_inv_active: "tmr_inv tm s xs \<Longrightarrow> x \<in> set xs \<Longrightarrow> \<exists>f. tth s x = Some f"
  by (auto simp: tmr_inv_def)

text \<open>The first step of \<open>tmr_start\<close>: an active timer leaves the list.\<close>

definition detached :: "nat \<Rightarrow> tmrst \<Rightarrow> lheap" where
  "detached t s = (if tth s t \<noteq> None then list_unlink (Some t) (theap s) else theap s)"

lemma detach_step:
  "(if tth s t \<noteq> None then s\<lparr>theap := list_unlink (Some t) (theap s)\<rparr> else s) =
   s\<lparr>theap := detached t s\<rparr>"
  by (simp add: detached_def)

lemma tmr_start_Some:
  "tmr_start tm (Some t) delay (Some f) arg now s =
     (let k = delay + now; h = detached t s;
          s3 = s\<lparr>theap := h, tth := (tth s)(t := Some f), targ := (targ s)(t := arg),
                 tjfs := (tjfs s)(t := k)\<rparr>
      in if delay = 0
         then map_option (\<lambda>le. s3\<lparr>theap := (case le of
                Some e \<Rightarrow> list_insert_before (Some tm) (Some e) (Some t) (Some t) h
              | None \<Rightarrow> list_append (Some tm) (Some t) (Some t) h)\<rparr>)
              (list_apply (Some tm) True (inspos_handler_0 s3 k) h)
         else map_option (\<lambda>le. s3\<lparr>theap := (case le of
                Some e \<Rightarrow> list_insert_after (Some tm) (Some e) (Some t) (Some t) h
              | None \<Rightarrow> list_prepend (Some tm) (Some t) (Some t) h)\<rparr>)
              (list_apply (Some tm) False (inspos_handler s3 k) h))"
  unfolding tmr_start_def option.case detach_step Let_def by (simp cong: option.case_cong)

lemma detached_rep:
  assumes inv: "tmr_inv tm s xs"
  shows "lrep (detached t s) tm (remove1 t xs)"
    and "le_list (les (detached t s) x) = (if x \<in> set (remove1 t xs) then Some tm else None)"
    and "le_data (les (detached t s) x) = le_data (les (theap s) x)"
    and "sorted (map (tjfs s) (remove1 t xs))"
proof -
  have dist: "distinct xs" using inv by (rule tmr_inv_distinct)
  show "lrep (detached t s) tm (remove1 t xs)"
  proof (cases "t \<in> set xs")
    case True
    then obtain as bs where xs: "xs = as @ t # bs" by (meson split_list)
    with dist have "remove1 t xs = as @ bs" by (simp add: remove1_append_mid)
    moreover have "tth s t \<noteq> None" "lrep (theap s) tm (as @ t # bs)"
      using inv True xs unfolding tmr_inv_def by blast+
    ultimately show ?thesis by (simp add: detached_def list_unlink_rep)
  next
    case False
    with inv show ?thesis by (auto simp: tmr_inv_def detached_def remove1_idem)
  qed
  show "le_list (les (detached t s) x) = (if x \<in> set (remove1 t xs) then Some tm else None)"
    using inv dist by (auto simp: tmr_inv_def detached_def list_unlink_owner)
  show "le_data (les (detached t s) x) = le_data (les (theap s) x)"
    by (simp add: detached_def list_unlink_data)
  show "sorted (map (tjfs s) (remove1 t xs))"
    using inv by (simp add: tmr_inv_def sorted_map_remove1)
qed

lemma tmr_cancel_inv:
  assumes inv: "tmr_inv tm s xs"
  shows "\<exists>s'. tmr_cancel tm (Some t) now s = Some s' \<and> tmr_inv tm s' (remove1 t xs) \<and>
    tth s' = (tth s)(t := None) \<and> tjfs s' = tjfs s \<and> targ s' = (targ s)(t := None)"
proof -
  let ?s' = "s\<lparr>theap := detached t s, tth := (tth s)(t := None), targ := (targ s)(t := None)\<rparr>"
  have "tmr_cancel tm (Some t) now s = Some ?s'"
    by (simp add: tmr_cancel_def tmr_start_def detached_def)
  moreover have "tmr_inv tm ?s' (remove1 t xs)"
    using detached_rep [OF inv, of t] inv tmr_inv_distinct [OF inv]
    by (auto simp: tmr_inv_def)
  ultimately show ?thesis by auto
qed

text \<open>
  A started timer sits behind every timer that expires no later: both searches find that place,
  the one from the front for delay 0 and the one from the back otherwise.
\<close>

lemma tmr_start_inv:
  assumes inv: "tmr_inv tm s xs"
  shows "\<exists>s'. tmr_start tm (Some t) delay (Some f) arg now s = Some s' \<and>
    tmr_inv tm s' (insert_by (tjfs s) (delay + now) t (remove1 t xs)) \<and>
    tjfs s' = (tjfs s)(t := delay + now) \<and> tth s' = (tth s)(t := Some f) \<and>
    targ s' = (targ s)(t := arg)"
proof -
  define k where "k = delay + now"
  define ys where "ys = remove1 t xs"
  define h where "h = detached t s"
  define s3 where "s3 = s\<lparr>theap := h, tth := (tth s)(t := Some f), targ := (targ s)(t := arg),
    tjfs := (tjfs s)(t := k)\<rparr>"
  note rep = detached_rep [OF inv, of t, folded ys_def h_def]
  have t: "t \<notin> set ys" using tmr_inv_distinct [OF inv] by (simp add: ys_def)
  then have free: "le_list (les h t) = None" using rep(2) [of t] by simp
  have data: "\<forall>x\<in>set ys. le_data (les h x) = Some x"
    using inv rep(3) by (auto simp: tmr_inv_def ys_def notin_set_remove1)
  have key: "inspos_handler s3 k x \<longleftrightarrow> tjfs s x \<le> k"
    "inspos_handler_0 s3 k x \<longleftrightarrow> k < tjfs s x" if "x \<in> set ys" for x
    using that t data by (auto simp: inspos_handler_def inspos_handler_0_def s3_def)
  have find0: "List.find (inspos_handler_0 s3 k) ys = List.find (\<lambda>x. k < tjfs s x) ys"
    by (rule find_cong) (auto simp: key)
  have find1: "List.find (inspos_handler s3 k) (rev ys) = List.find (\<lambda>x. tjfs s x \<le> k) (rev ys)"
    by (rule find_cong) (auto simp: key)
  define h' where "h' = (if delay = 0
      then (case List.find (\<lambda>x. k < tjfs s x) ys of
              Some e \<Rightarrow> list_insert_before (Some tm) (Some e) (Some t) (Some t) h
            | None \<Rightarrow> list_append (Some tm) (Some t) (Some t) h)
      else (case List.find (\<lambda>x. tjfs s x \<le> k) (rev ys) of
              Some e \<Rightarrow> list_insert_after (Some tm) (Some e) (Some t) (Some t) h
            | None \<Rightarrow> list_prepend (Some tm) (Some t) (Some t) h))"
  have start: "tmr_start tm (Some t) delay (Some f) arg now s = Some (s3\<lparr>theap := h'\<rparr>)"
    using rep(1) find0 find1
    unfolding tmr_start_Some Let_def k_def [symmetric] h_def [symmetric] s3_def [symmetric]
    by (simp add: list_apply_rep h'_def)
  have "lrep h' tm (insert_by (tjfs s) k t ys)"
    using re_list.insert_from_front [OF rep(1) free, where key = "tjfs s"]
      re_list.insert_from_back [OF rep(1) free rep(4)]
    by (auto simp: h'_def insert_by_def)
  moreover have "le_list (les h' x) = (if x = t then Some tm else le_list (les h x))" for x
    using free by (simp add: h'_def list_append_owner list_prepend_owner
        list_insert_before_owner list_insert_after_owner split: option.splits)
  moreover have "le_data (les h' x) = (if x = t then Some t else le_data (les h x))" for x
    using free by (simp add: h'_def list_append_data list_prepend_data
        list_insert_before_data list_insert_after_data split: option.splits)
  moreover have "sorted (map ((tjfs s)(t := k)) (insert_by (tjfs s) k t ys))"
  proof -
    have "insert_by (tjfs s) k t ys = insert_by ((tjfs s)(t := k)) k t ys"
      using t by (intro insert_by_cong) auto
    moreover have "map ((tjfs s)(t := k)) ys = map (tjfs s) ys"
      using t by (intro map_cong) auto
    then have "sorted (map ((tjfs s)(t := k)) ys)" using rep(4) by (simp only:)
    ultimately show ?thesis by (metis fun_upd_same sorted_insert_by)
  qed
  moreover have "\<forall>x. x \<in> set (insert_by (tjfs s) k t ys) \<longleftrightarrow> tth s3 x \<noteq> None"
    using inv tmr_inv_distinct [OF inv] by (auto simp: s3_def ys_def tmr_inv_def)
  ultimately have "tmr_inv tm (s3\<lparr>theap := h'\<rparr>) (insert_by (tjfs s) k t ys)"
    using rep(2) data by (auto simp: tmr_inv_def s3_def)
  with start show ?thesis by (simp add: s3_def k_def ys_def)
qed

section \<open>Polling\<close>

lemma tmr_inv_head:
  "tmr_inv tm s xs \<Longrightarrow>
   list_ledata (l_head (lists (theap s) tm)) (theap s) = hd_or None xs"
  by (cases xs) (auto simp: tmr_inv_def lrep_head list_ledata_def)

text \<open>Taking the head off, as \<open>tmr_poll\<close> does before it calls the handler.\<close>

definition popped :: "nat \<Rightarrow> tmrst \<Rightarrow> tmrst" where
  "popped t s = s\<lparr>tth := (tth s)(t := None), theap := list_unlink (Some t) (theap s)\<rparr>"

lemma popped_inv:
  assumes "tmr_inv tm s (t # xs)"
  shows "tmr_inv tm (popped t s) xs"
proof -
  have "theap (popped t s) = detached t s"
    using tmr_inv_active [OF assms, of t] by (auto simp: popped_def detached_def)
  with assms detached_rep [OF assms, of t] tmr_inv_distinct [OF assms] show ?thesis
    by (auto simp: tmr_inv_def popped_def)
qed

lemma popped_sel [simp]:
  "tjfs (popped t s) = tjfs s" "targ (popped t s) = targ s" "tth (popped t s) = (tth s)(t := None)"
  by (simp_all add: popped_def)

lemma tmr_poll_Nil:
  "tmr_inv tm s [] \<Longrightarrow> tmr_poll tm run jfs (s, u) = Some (s, u)"
  by (simp add: tmr_poll.simps [of tm run jfs "(s, u)"] tmr_inv_head)

lemma tmr_poll_future:
  "tmr_inv tm s (t # xs) \<Longrightarrow> jfs < tjfs s t \<Longrightarrow> tmr_poll tm run jfs (s, u) = Some (s, u)"
  by (simp add: tmr_poll.simps [of tm run jfs "(s, u)"] tmr_inv_head)

lemma tmr_poll_due:
  assumes "tmr_inv tm s (t # xs)" and "tjfs s t \<le> jfs" and "tth s t = Some f"
  shows "tmr_poll tm run jfs (s, u) = tmr_poll tm run jfs (run f (targ s t) (popped t s, u))"
  using assms leD [OF assms(2)]
  by (simp add: tmr_poll.simps [of tm run jfs "(s, u)"] tmr_inv_head popped_def Let_def)

text \<open>
  The contract of a handler: after it ran, the timer list is well formed and holds no more
  expired timers than before the call. A handler that starts timers with a positive delay
  (every handler of the application) meets it, as does one that cancels.
\<close>

definition due :: "tmrst \<Rightarrow> u64 \<Rightarrow> nat list \<Rightarrow> nat list" where
  "due s jfs xs = filter (\<lambda>t. tjfs s t \<le> jfs) xs"

definition handler_ok ::
    "nat \<Rightarrow> u64 \<Rightarrow> (nat \<Rightarrow> nat option \<Rightarrow> tmrst \<times> 's \<Rightarrow> tmrst \<times> 's) \<Rightarrow> bool" where
  "handler_ok tm jfs run \<longleftrightarrow>
     (\<forall>f a s u xs. tmr_inv tm s xs \<longrightarrow>
        (\<exists>ys. tmr_inv tm (fst (run f a (s, u))) ys \<and>
           length (due (fst (run f a (s, u))) jfs ys) \<le> length (due s jfs xs)))"

text \<open>With such handlers a poll returns, and then no expired timer is left in the list.\<close>

lemma tmr_poll_returns:
  assumes ok: "handler_ok tm jfs run"
  shows "tmr_inv tm s xs \<Longrightarrow>
    \<exists>s' u' ys. tmr_poll tm run jfs (s, u) = Some (s', u') \<and> tmr_inv tm s' ys \<and> due s' jfs ys = []"
proof (induction "length (due s jfs xs)" arbitrary: s u xs rule: less_induct)
  case less
  show ?case
  proof (cases xs)
    case Nil
    with less.prems show ?thesis by (auto simp: tmr_poll_Nil due_def)
  next
    case (Cons t ts)
    with less.prems have inv: "tmr_inv tm s (t # ts)" by simp
    show ?thesis
    proof (cases "tjfs s t \<le> jfs")
      case False
      then have "due s jfs xs = []"
        using inv Cons by (force simp: due_def tmr_inv_def filter_empty_conv)
      with False inv Cons show ?thesis
        by (auto simp: tmr_poll_future not_le)
    next
      case True
      obtain f where f: "tth s t = Some f" using tmr_inv_active [OF inv, of t] by auto
      obtain s1 u1 where run: "run f (targ s t) (popped t s, u) = (s1, u1)" by force
      with ok popped_inv [OF inv] obtain ys where ys: "tmr_inv tm s1 ys"
        "length (due s1 jfs ys) \<le> length (due (popped t s) jfs ts)"
        unfolding handler_ok_def by (metis fst_conv)
      with True Cons have "length (due s1 jfs ys) < length (due s jfs xs)"
        by (simp add: due_def)
      from less.hyps [OF this ys(1), of u1] True f inv run show ?thesis
        by (simp add: tmr_poll_due)
    qed
  qed
qed

text \<open>
  With handlers that leave the timers alone, a poll calls the handlers of exactly the expired
  timers, once each, in the order of the list, and keeps the rest.
\<close>

lemma tmr_poll_fires:
  assumes pure: "\<And>f a s u. run f a (s, u) = (s, g f a u)"
  shows "tmr_inv tm s xs \<Longrightarrow>
    \<exists>s'. tmr_poll tm run jfs (s, u) =
           Some (s', fold (\<lambda>t. g (the (tth s t)) (targ s t)) (takeWhile (\<lambda>t. tjfs s t \<le> jfs) xs) u) \<and>
         tmr_inv tm s' (dropWhile (\<lambda>t. tjfs s t \<le> jfs) xs)"
proof (induction xs arbitrary: s u)
  case Nil
  then show ?case by (auto simp: tmr_poll_Nil)
next
  case (Cons t ts)
  show ?case
  proof (cases "tjfs s t \<le> jfs")
    case False
    with Cons.prems show ?thesis by (auto simp: tmr_poll_future not_le)
  next
    case True
    obtain f where f: "tth s t = Some f" using tmr_inv_active [OF Cons.prems, of t] by auto
    have t: "t \<notin> set ts" using tmr_inv_distinct [OF Cons.prems] by simp
    have "fold (\<lambda>x. g (the (tth (popped t s) x)) (targ s x)) (takeWhile (\<lambda>t. tjfs s t \<le> jfs) ts) v =
        fold (\<lambda>x. g (the (tth s x)) (targ s x)) (takeWhile (\<lambda>t. tjfs s t \<le> jfs) ts) v" for v
      using t by (intro fold_cong) (auto dest: set_takeWhileD)
    with Cons.IH [OF popped_inv [OF Cons.prems], of "g f (targ s t) u"] True f Cons.prems
    show ?thesis by (simp add: tmr_poll_due pure)
  qed
qed

lemma tmr_next_timeout_zero:
  "tmr_inv tm s xs \<Longrightarrow> tmr_next_timeout tm jif s = 0 \<longleftrightarrow> xs = []"
  by (cases xs) (auto simp: tmr_next_timeout_def tmr_inv_head)

end
