(* ===== verification/Re_Hash.thy ===== *)
theory Re_Hash
  imports Re_Pl
begin

text \<open>
  Hash tables (\<open>src/re/src/hash/hash.c\<close>, \<open>func.c\<close>): buckets of lists, selected by the low bits of a
  key, and the keys of texts. A table is shown to be a list: looking something up under its key
  finds the first element in the order in which they were added. The locale \<open>table\<close> is what the
  clients of a table rely on.
\<close>

section \<open>Keys\<close>

definition joaat_step :: "u32 \<Rightarrow> u32 \<Rightarrow> u32" where
  "joaat_step c h =
    (let h = h + c; h = h + push_bit 10 h in h XOR drop_bit 6 h)"

definition joaat_end :: "u32 \<Rightarrow> u32" where
  "joaat_end h =
    (let h = h + push_bit 3 h; h = h XOR drop_bit 11 h in h + push_bit 15 h)"

text \<open>A byte is unsigned, a \<open>char\<close> is signed.\<close>

definition byte_u32 :: "char \<Rightarrow> u32" where
  "byte_u32 c = of_char c"

definition char_u32 :: "char \<Rightarrow> u32" where
  "char_u32 c = scast (of_char c :: u8)"

definition hash_joaat :: "string \<Rightarrow> u32" where
  "hash_joaat key = joaat_end (fold (\<lambda>c. joaat_step (byte_u32 c)) key 0)"

definition hash_joaat_ci :: "string \<Rightarrow> u32" where
  "hash_joaat_ci str = joaat_end (fold (\<lambda>c. joaat_step (char_u32 (tolower c))) str 0)"

definition hash_joaat_str :: "string \<Rightarrow> u32" where
  "hash_joaat_str str = joaat_end (fold (\<lambda>c. joaat_step (char_u32 c)) str 0)"

definition hash_joaat_str_ci :: "string \<Rightarrow> u32" where
  "hash_joaat_str_ci str = joaat_end (fold (\<lambda>c. joaat_step (char_u32 (tolower c))) str 0)"

definition hash_joaat_pl :: "pl \<Rightarrow> u32" where
  "hash_joaat_pl pl = (case pl of None \<Rightarrow> 0 | Some s \<Rightarrow> hash_joaat s)"

definition hash_joaat_pl_ci :: "pl \<Rightarrow> u32" where
  "hash_joaat_pl_ci pl = (case pl of None \<Rightarrow> 0 | Some s \<Rightarrow> hash_joaat_ci s)"

text \<open>The key of a text does not depend on how it is given, as long as it is ASCII.\<close>

definition ascii :: "string \<Rightarrow> bool" where
  "ascii s \<longleftrightarrow> (\<forall>c\<in>set s. (of_char c :: nat) < 128)"

lemma char_u32_ascii:
  assumes "(of_char c :: nat) < 128"
  shows "char_u32 c = byte_u32 c"
proof -
  define n where "n = (of_char c :: nat)"
  have w: "(of_char c :: u8) = of_nat n" "(of_char c :: u32) = of_nat n" by (simp_all only: n_def of_nat_of_char)
  have "uint (of_nat n :: u8) = int n" using assms by (simp add: uint_nat unat_of_nat flip: n_def)
  then have "sint (of_nat n :: u8) = int n"
    using assms by (simp add: sint_uint signed_take_bit_int_eq_self_iff flip: n_def)
  then show ?thesis unfolding char_u32_def byte_u32_def w by (simp add: scast_eq)
qed

lemma hash_joaat_str_ascii: "ascii s \<Longrightarrow> hash_joaat_str s = hash_joaat s"
proof -
  have "ascii s \<Longrightarrow> fold (\<lambda>c. joaat_step (char_u32 c)) s h = fold (\<lambda>c. joaat_step (byte_u32 c)) s h" for h
    by (induction s arbitrary: h) (simp_all add: ascii_def char_u32_ascii)
  then show "ascii s \<Longrightarrow> ?thesis" by (simp add: hash_joaat_str_def hash_joaat_def)
qed

lemma hash_joaat_ci_case: "List.map tolower s = List.map tolower t \<Longrightarrow> hash_joaat_ci s = hash_joaat_ci t"
proof -
  have "fold (\<lambda>c. joaat_step (char_u32 (tolower c))) s h = fold (\<lambda>c. joaat_step (char_u32 c)) (List.map tolower s) h" for s h
    by (simp add: fold_map o_def)
  then show "List.map tolower s = List.map tolower t \<Longrightarrow> ?thesis" by (simp add: hash_joaat_ci_def)
qed

text \<open>The key computed on integers, for concrete texts.\<close>

definition int_shift :: "nat \<Rightarrow> int \<Rightarrow> int" where
  "int_shift n h = take_bit 32 (h + push_bit n h)"

definition int_step :: "int \<Rightarrow> int \<Rightarrow> int" where
  "int_step c h = (let h = int_shift 10 (h + c) in h XOR drop_bit 6 h)"

definition int_end :: "int \<Rightarrow> int" where
  "int_end h = (let h = int_shift 3 h in int_shift 15 (h XOR drop_bit 11 h))"

lemma int_shift_mod: "int_shift n h = h * (2 ^ n + 1) mod 2 ^ 32"
  by (simp add: int_shift_def take_bit_eq_mod push_bit_eq_mult algebra_simps)

lemma shift_mult: "h + push_bit n h = (h :: u32) * (2 ^ n + 1)"
  by (simp add: push_bit_eq_mult algebra_simps)

lemma uint_mod: "uint (of_int k :: u32) = k mod 2 ^ 32"
  by (simp add: uint_word_of_int)

lemma uint_shift: "uint (h + push_bit n h :: u32) = int_shift n (uint h)"
proof -
  have "h + push_bit n h = of_int (uint h * (2 ^ n + 1))" unfolding shift_mult by simp
  then show ?thesis unfolding int_shift_mod by (simp only: uint_mod)
qed

lemma uint_shift_plus: "int_shift n (uint (a + b :: u32)) = int_shift n (uint a + uint b)"
  unfolding int_shift_mod uint_word_ariths by (simp add: mod_mult_left_eq)

lemma uint_drop: "uint (drop_bit n (w :: u32)) = drop_bit n (uint w)"
  using uint_bounded [of w] by (simp add: unsigned_drop_bit_eq take_bit_int_eq_self)

lemma uint_joaat_step: "uint (joaat_step c h) = int_step (uint c) (uint h)"
  unfolding joaat_step_def int_step_def Let_def unsigned_xor_eq uint_drop uint_shift uint_shift_plus by (simp add: add.commute)

lemma uint_joaat_end: "uint (joaat_end h) = int_end (uint h)"
  unfolding joaat_end_def int_end_def Let_def uint_shift unsigned_xor_eq uint_drop ..

definition low :: "char \<Rightarrow> int" where
  "low c = (let n = of_char c :: nat in if 65 \<le> n \<and> n \<le> 90 then int n + 32 else int n)"

lemma uint_tolower: "(of_char c :: nat) < 128 \<Longrightarrow> uint (char_u32 (tolower c)) = low c"
proof -
  assume c: "(of_char c :: nat) < 128"
  then have l: "(of_char (tolower c) :: nat) < 128" by (simp add: tolower_def Let_def)
  have "uint (byte_u32 d) = int (of_char d)" if "(of_char d :: nat) < 128" for d
  proof -
    have "(of_char d :: u32) = of_nat (of_char d)" by (simp only: of_nat_of_char)
    with that show ?thesis by (simp add: byte_u32_def uint_nat unat_of_nat)
  qed
  moreover have "int (of_char (tolower c)) = low c"
    using c by (simp add: tolower_def low_def Let_def)
  ultimately show ?thesis using l by (simp add: char_u32_ascii)
qed

fun int_joaat :: "int \<Rightarrow> string \<Rightarrow> int" where
  "int_joaat h [] = int_end h"
| "int_joaat h (c # s) = int_joaat (int_step (low c) h) s"

lemma uint_hash_joaat_ci: "ascii s \<Longrightarrow> uint (hash_joaat_ci s) = int_joaat 0 s"
proof -
  have "ascii s \<Longrightarrow> uint (joaat_end (fold (\<lambda>c. joaat_step (char_u32 (tolower c))) s h)) = int_joaat (uint h) s" for h
    by (induction s arbitrary: h) (simp_all add: ascii_def uint_joaat_end uint_joaat_step uint_tolower)
  from this [of 0] show "ascii s \<Longrightarrow> ?thesis" by (simp add: hash_joaat_ci_def)
qed

lemmas joaat_eval = uint_hash_joaat_ci ascii_def low_def int_step_def int_end_def int_shift_def Let_def

section \<open>Tables\<close>

record 'a hash =
  h_bucket :: "'a list list"
  h_bsize :: u32

definition hash_alloc :: "u32 \<Rightarrow> errno + 'a hash" where
  "hash_alloc bsize =
    (if bsize = 0 then Inl EINVAL
     else if bsize AND (bsize - 1) \<noteq> 0 then Inl EINVAL
     else Inr \<lparr>h_bucket = replicate (unat bsize) [], h_bsize = bsize\<rparr>)"

definition bucket_of :: "'a hash \<Rightarrow> u32 \<Rightarrow> nat" where
  "bucket_of h key = unat (key AND (h_bsize h - 1))"

definition hash_append :: "'a hash \<Rightarrow> u32 \<Rightarrow> 'a \<Rightarrow> 'a hash" where
  "hash_append h key a = h\<lparr>h_bucket := (h_bucket h)[bucket_of h key := h_bucket h ! bucket_of h key @ [a]]\<rparr>"

text \<open>An element knows the list it is in; here it is taken out of every bucket.\<close>

definition hash_unlink :: "'a \<Rightarrow> 'a hash \<Rightarrow> 'a hash" where
  "hash_unlink a h = h\<lparr>h_bucket := List.map (filter (\<lambda>b. b \<noteq> a)) (h_bucket h)\<rparr>"

definition hash_list :: "'a hash \<Rightarrow> u32 \<Rightarrow> 'a list" where
  "hash_list h key = h_bucket h ! bucket_of h key"

definition hash_lookup :: "'a hash \<Rightarrow> u32 \<Rightarrow> ('a \<Rightarrow> bool) \<Rightarrow> 'a option" where
  "hash_lookup h key ah = List.find ah (h_bucket h ! bucket_of h key)"

fun hash_apply_loop :: "'a list list \<Rightarrow> ('a \<Rightarrow> bool) \<Rightarrow> 'a option" where
  "hash_apply_loop [] ah = None"
| "hash_apply_loop (b # bs) ah = (case List.find ah b of None \<Rightarrow> hash_apply_loop bs ah | Some a \<Rightarrow> Some a)"

definition hash_apply :: "'a hash \<Rightarrow> ('a \<Rightarrow> bool) \<Rightarrow> 'a option" where
  "hash_apply h ah = hash_apply_loop (h_bucket h) ah"

definition hash_bsize :: "'a hash option \<Rightarrow> u32" where
  "hash_bsize h = (case h of None \<Rightarrow> 0 | Some h \<Rightarrow> h_bsize h)"

definition hash_flush :: "'a hash \<Rightarrow> 'a hash" where
  "hash_flush h = h\<lparr>h_bucket := List.map (\<lambda>_. []) (h_bucket h)\<rparr>"

function valid_size_loop :: "u32 \<Rightarrow> nat \<Rightarrow> nat" where
  "valid_size_loop sz x = (if push_bit x 1 < sz \<and> x < 31 then valid_size_loop sz (Suc x) else x)"
  by auto
termination
  by (relation "measure (\<lambda>(sz, x). 31 - x)") auto

declare valid_size_loop.simps [simp del]

definition hash_valid_size :: "u32 \<Rightarrow> u32" where
  "hash_valid_size sz = push_bit (valid_size_loop sz 0) 1"

section \<open>A table is a list\<close>

text \<open>The buckets hold the elements of a list whose keys have the low bits of the bucket, in order.\<close>

definition hash_rep :: "('a \<Rightarrow> u32) \<Rightarrow> 'a hash \<Rightarrow> 'a list \<Rightarrow> bool" where
  "hash_rep kf h xs \<longleftrightarrow> length (h_bucket h) = unat (h_bsize h) \<and> h_bsize h \<noteq> 0 \<and>
     (\<forall>i<unat (h_bsize h). h_bucket h ! i = filter (\<lambda>x. bucket_of h (kf x) = i) xs)"

lemma bucket_of_less: "h_bsize h \<noteq> 0 \<Longrightarrow> bucket_of h key < unat (h_bsize h)"
proof -
  assume n: "h_bsize h \<noteq> 0"
  have "unat (key AND (h_bsize h - 1)) \<le> unat (h_bsize h - 1)" using word_and_le1 by (simp add: word_le_nat_alt)
  also have "unat (h_bsize h - 1) = unat (h_bsize h) - 1" using n by (rule unat_minus_one)
  also have "\<dots> < unat (h_bsize h)" using n by (simp add: unat_gt_0)
  finally show ?thesis by (simp add: bucket_of_def)
qed

lemma bucket_of_cong: "h_bsize h' = h_bsize h \<Longrightarrow> bucket_of h' key = bucket_of h key"
  by (simp add: bucket_of_def)

lemma hash_alloc_rep: "hash_alloc n = Inr h \<Longrightarrow> hash_rep kf h []"
  by (auto simp: hash_alloc_def hash_rep_def split: if_splits)

lemma hash_append_rep:
  assumes "hash_rep kf h xs"
  shows "hash_rep kf (hash_append h (kf x) x) (xs @ [x])"
proof -
  have b: "bucket_of (hash_append h (kf x) x) k = bucket_of h k" for k by (simp add: bucket_of_def hash_append_def)
  have "bucket_of h (kf x) < length (h_bucket h)" using assms bucket_of_less [of h] by (simp add: hash_rep_def)
  with assms show ?thesis unfolding hash_rep_def b by (auto simp: hash_append_def nth_list_update)
qed

lemma hash_unlink_rep: "hash_rep kf h xs \<Longrightarrow> hash_rep kf (hash_unlink x h) (filter (\<lambda>y. y \<noteq> x) xs)"
  by (auto simp: hash_rep_def hash_unlink_def bucket_of_def conj_commute)

lemma hash_flush_rep: "hash_rep kf h xs \<Longrightarrow> hash_rep kf (hash_flush h) []"
  by (simp add: hash_rep_def hash_flush_def bucket_of_def)

lemma find_filter: "\<forall>x\<in>set xs. p x \<longrightarrow> q x \<Longrightarrow> List.find p (filter q xs) = List.find p xs"
  by (induction xs) auto

lemma hash_lookup_rep:
  assumes "hash_rep kf h xs" and "\<forall>x\<in>set xs. p x \<longrightarrow> kf x = key"
  shows "hash_lookup h key p = List.find p xs"
proof -
  have "h_bucket h ! bucket_of h key = filter (\<lambda>x. bucket_of h (kf x) = bucket_of h key) xs"
    using assms(1) bucket_of_less [of h] by (simp add: hash_rep_def)
  then show ?thesis using assms(2) by (simp add: hash_lookup_def find_filter)
qed

text \<open>Going through all buckets finds something if there is something to find.\<close>

lemma apply_loop_None: "hash_apply_loop bs p = None \<longleftrightarrow> (\<forall>b\<in>set bs. \<forall>x\<in>set b. \<not> p x)"
  by (induction bs) (auto simp: find_None_iff find_Some_iff split: option.splits)

lemma apply_loop_Some: "hash_apply_loop bs p = Some x \<Longrightarrow> p x \<and> (\<exists>b\<in>set bs. x \<in> set b)"
  by (induction bs) (auto simp: find_Some_iff split: option.splits intro: nth_mem)

lemma hash_apply_rep:
  assumes "hash_rep kf h xs"
  shows "hash_apply h p = None \<longleftrightarrow> (\<forall>x\<in>set xs. \<not> p x)" and "hash_apply h p = Some x \<Longrightarrow> p x \<and> x \<in> set xs"
proof -
  have u: "(\<Union>b\<in>set (h_bucket h). set b) = set xs"
  proof -
    have "set (h_bucket h) = (\<lambda>i. h_bucket h ! i) ` {..<unat (h_bsize h)}"
      using assms nth_image [of "unat (h_bsize h)" "h_bucket h"] by (simp add: hash_rep_def lessThan_atLeast0)
    then have "(\<Union>b\<in>set (h_bucket h). set b) = (\<Union>i<unat (h_bsize h). set (h_bucket h ! i))" by simp
    also have "\<dots> = (\<Union>i<unat (h_bsize h). {x \<in> set xs. bucket_of h (kf x) = i})" using assms by (simp add: hash_rep_def)
    also have "\<dots> = set xs" using assms bucket_of_less [of h] by (auto simp: hash_rep_def)
    finally show ?thesis .
  qed
  then show "hash_apply h p = None \<longleftrightarrow> (\<forall>x\<in>set xs. \<not> p x)" by (auto simp: hash_apply_def apply_loop_None)
  show "hash_apply h p = Some x \<Longrightarrow> p x \<and> x \<in> set xs" 
    using u apply_loop_Some [of "h_bucket h" p x] by (auto simp: hash_apply_def)
qed

section \<open>Sizes\<close>

lemma valid_size_le: "x \<le> 31 \<Longrightarrow> valid_size_loop sz x \<le> 31"
  by (induction sz x rule: valid_size_loop.induct) (subst valid_size_loop.simps, simp)

lemma power_of_two_and:
  assumes "k < 32"
  shows "(push_bit k 1 :: u32) AND (push_bit k 1 - 1) = 0 \<and> (push_bit k 1 :: u32) \<noteq> 0"
proof -
  have "(push_bit k 1 :: u32) AND mask k = 0" by (rule bit_word_eqI) (auto simp: bit_simps)
  moreover have "(push_bit k 1 :: u32) \<noteq> 0" using assms by (simp add: push_bit_eq_mult unsigned_eq_0_iff)
  ultimately show ?thesis by (simp add: push_bit_eq_mult mask_eq_exp_minus_1)
qed

lemma hash_valid_size_alloc: "\<exists>h. hash_alloc (hash_valid_size n) = Inr h"
  using power_of_two_and [of "valid_size_loop n 0"] valid_size_le [of 0 n] by (simp add: hash_alloc_def hash_valid_size_def)

lemma valid_size_stop: "x \<le> 31 \<Longrightarrow> \<not> push_bit (valid_size_loop sz x) 1 < sz \<or> valid_size_loop sz x = 31"
  by (induction sz x rule: valid_size_loop.induct) (subst (1 2) valid_size_loop.simps, auto)

lemma hash_valid_size_enough: "n \<le> 2 ^ 31 \<Longrightarrow> n \<le> hash_valid_size n"
  using valid_size_stop [of 0 n] by (auto simp: hash_valid_size_def not_less push_bit_eq_mult)

section \<open>What the clients rely on\<close>

lemma find_only: "i \<in> set xs \<Longrightarrow> P i \<Longrightarrow> \<forall>j\<in>set xs. P j \<longrightarrow> j = i \<Longrightarrow> List.find P xs = Some i"
proof (induction xs)
  case (Cons x xs)
  show ?case
  proof (cases "x = i")
    case True
    then show ?thesis using Cons.prems(2) by (simp only: find.simps if_True)
  next
    case False
    then have "\<not> P x" using Cons.prems(3) by (meson list.set_intros(1))
    moreover have "List.find P xs = Some i"
    proof (rule Cons.IH)
      show "i \<in> set xs" using Cons.prems(1) False by simp
      show "P i" by (rule Cons.prems(2))
      show "\<forall>j\<in>set xs. P j \<longrightarrow> j = i" using Cons.prems(3) unfolding list.set ball_simps by (rule conjunct2)
    qed
    ultimately show ?thesis by (simp only: find.simps if_False)
  qed
qed simp

locale table =
  fixes rep :: "'t \<Rightarrow> 'a list \<Rightarrow> bool" and key :: "'a \<Rightarrow> u32"
    and add :: "'t \<Rightarrow> 'a \<Rightarrow> 't" and rem :: "'a \<Rightarrow> 't \<Rightarrow> 't" and look :: "'t \<Rightarrow> u32 \<Rightarrow> ('a \<Rightarrow> bool) \<Rightarrow> 'a option"
  assumes add: "rep t xs \<Longrightarrow> rep (add t a) (xs @ [a])"
    and rem: "rep t xs \<Longrightarrow> rep (rem a t) (filter (\<lambda>b. b \<noteq> a) xs)"
    and look: "rep t xs \<Longrightarrow> \<forall>a\<in>set xs. p a \<longrightarrow> key a = k \<Longrightarrow> look t k p = List.find p xs"
begin

text \<open>An element that alone matches is found once it is there, and not any more once it is gone.\<close>

lemma look_added:
  assumes "rep t xs" and "\<forall>b\<in>set xs. \<not> p b" and "p a" and "key a = k"
  shows "look (add t a) k p = Some a"
proof -
  have "\<forall>b\<in>set (xs @ [a]). p b \<longrightarrow> key b = k" using assms by auto
  from look [OF add [OF assms(1)] this] have "look (add t a) k p = List.find p (xs @ [a])" .
  also have "\<dots> = Some a" using assms(2,3) by (induction xs) auto
  finally show ?thesis .
qed

lemma look_only:
  assumes "rep t xs" and "\<forall>b\<in>set xs. p b \<longrightarrow> key b = k" and "a \<in> set xs" and "p a" and "\<forall>b\<in>set xs. p b \<longrightarrow> b = a"
  shows "look t k p = Some a"
  unfolding look [OF assms(1,2)] by (rule find_only [OF assms(3-5)])

lemma look_removed:
  assumes "rep t xs" and "\<forall>b\<in>set xs. p b \<longrightarrow> b = a"
  shows "look (rem a t) k p = None"
proof -
  have "\<forall>b\<in>set (filter (\<lambda>b. b \<noteq> a) xs). p b \<longrightarrow> key b = k" using assms(2) by auto
  from look [OF rem [OF assms(1)] this] show ?thesis using assms(2) by (auto simp: find_None_iff)
qed

end

interpretation ht: table "hash_rep kf" kf "\<lambda>h a. hash_append h (kf a) a" hash_unlink hash_lookup for kf
  by unfold_locales (auto intro: hash_append_rep hash_unlink_rep hash_lookup_rep)

section \<open>Tables of distinct elements\<close>

definition hash_holds :: "('a \<Rightarrow> u32) \<Rightarrow> 'a hash \<Rightarrow> 'a set \<Rightarrow> bool" where
  "hash_holds kf h A \<longleftrightarrow> (\<exists>xs. hash_rep kf h xs \<and> distinct xs \<and> set xs = A)"

lemma hash_rep_cong:
  assumes "\<And>x. x \<in> set xs \<Longrightarrow> kf x = kf' x"
  shows "hash_rep kf h xs \<longleftrightarrow> hash_rep kf' h xs"
proof -
  have "filter (\<lambda>x. bucket_of h (kf x) = i) xs = filter (\<lambda>x. bucket_of h (kf' x) = i) xs" for i
    by (rule filter_cong) (use assms in auto)
  then show ?thesis by (simp add: hash_rep_def)
qed

lemma hash_holds_cong: "(\<And>x. x \<in> A \<Longrightarrow> kf x = kf' x) \<Longrightarrow> hash_holds kf h A \<longleftrightarrow> hash_holds kf' h A"
  unfolding hash_holds_def using hash_rep_cong [of _ kf kf' h] by metis

lemma hash_holds_alloc: "hash_alloc n = Inr h \<Longrightarrow> hash_holds kf h {}"
  using hash_alloc_rep [of n h kf] by (auto simp: hash_holds_def)

lemma hash_holds_add:
  assumes "hash_holds kf h A" and "x \<notin> A"
  shows "hash_holds kf (hash_append h (kf x) x) (insert x A)"
proof -
  obtain xs where xs: "hash_rep kf h xs" "distinct xs" "set xs = A" using assms(1) by (auto simp: hash_holds_def)
  show ?thesis unfolding hash_holds_def using ht.add [OF xs(1), of x] xs(2,3) assms(2)
    by (intro exI [of _ "xs @ [x]"]) simp
qed

lemma hash_holds_rem:
  assumes "hash_holds kf h A"
  shows "hash_holds kf (hash_unlink x h) (A - {x})"
proof -
  obtain xs where xs: "hash_rep kf h xs" "distinct xs" "set xs = A" using assms(1) by (auto simp: hash_holds_def)
  show ?thesis unfolding hash_holds_def using ht.rem [OF xs(1), of x] xs(2,3)
    by (intro exI [of _ "filter (\<lambda>y. y \<noteq> x) xs"]) auto
qed

lemma hash_holds_bucket: "hash_holds kf h A \<Longrightarrow> set (hash_list h key) \<subseteq> A"
proof -
  assume "hash_holds kf h A"
  then obtain xs where xs: "hash_rep kf h xs" "set xs = A" by (auto simp: hash_holds_def)
  have "hash_list h key = filter (\<lambda>x. bucket_of h (kf x) = bucket_of h key) xs"
    using xs(1) bucket_of_less [of h key] by (simp add: hash_rep_def hash_list_def)
  then show ?thesis using xs(2) by auto
qed

lemma hash_holds_only:
  assumes "hash_holds kf h A" and "\<forall>y\<in>A. p y \<longrightarrow> kf y = key" and "x \<in> A" and "p x" and "\<forall>y\<in>A. p y \<longrightarrow> y = x"
  shows "hash_lookup h key p = Some x"
proof -
  obtain xs where xs: "hash_rep kf h xs" "set xs = A" using assms(1) by (auto simp: hash_holds_def)
  show ?thesis by (rule ht.look_only [OF xs(1), unfolded xs(2), OF assms(2-5)])
qed

lemma hash_holds_Some:
  assumes "hash_holds kf h A" and "hash_lookup h key p = Some x"
  shows "x \<in> A \<and> p x"
  using hash_holds_bucket [OF assms(1), of key] assms(2) by (auto simp: hash_lookup_def hash_list_def find_Some_iff)

lemma hash_holds_None:
  assumes "hash_holds kf h A" and "\<forall>y\<in>A. p y \<longrightarrow> kf y = key" and "hash_lookup h key p = None"
  shows "\<forall>y\<in>A. \<not> p y"
proof -
  obtain xs where xs: "hash_rep kf h xs" "set xs = A" using assms(1) by (auto simp: hash_holds_def)
  have "List.find p xs = None" using assms(3) ht.look [OF xs(1), of p key] assms(2) xs(2) by simp
  then show ?thesis by (auto simp: find_None_iff xs(2))
qed

end
