(* ===== verification/Re_Sa.thy ===== *)
theory Re_Sa
  imports Re_Uri
begin

text \<open>
  Socket addresses (\<open>src/re/src/sa/sa.c\<close>, \<open>pton.c\<close>, \<open>ntop.c\<close>). The texts of addresses are read and
  written by \<open>inet_pton\<close> and \<open>inet_ntop\<close>: those of the C library where it has them, else the
  implementation the library brings. They are the argument \<open>net\<close>; the locale \<open>inet\<close> is what its
  clients rely on, and \<open>own_net\<close>, the implementation in the two files, is shown to provide it.

  The two kinds of address share the place of the port and nothing else; the length of the
  structure and the flow label are not kept. Addresses are in network order.
\<close>

record sa =
  sa_family :: nat
  sa_sin_port :: u16
  sa_sin_addr :: "u8 list"
  sa_sin6_addr :: "u8 list"

record inet_lib =
  il_pton4 :: "string \<Rightarrow> u8 list option"
  il_pton6 :: "string \<Rightarrow> u8 list option"
  il_ntop4 :: "u8 list \<Rightarrow> nat \<Rightarrow> string option"
  il_ntop6 :: "u8 list \<Rightarrow> nat \<Rightarrow> string option"

section \<open>Reading texts\<close>

text \<open>
  The octets that are complete, the one that is read, whether it has a digit and the number of
  octets begun.
\<close>

fun pton4_loop :: "string \<Rightarrow> u8 list \<Rightarrow> u8 \<Rightarrow> bool \<Rightarrow> nat \<Rightarrow> u8 list option" where
  "pton4_loop [] os cur saw octets = (if octets < 4 then None else Some (os @ [cur]))"
| "pton4_loop (ch # src) os cur saw octets =
    (if ch = CHR 0x00 then (if octets < 4 then None else Some (os @ [cur]))
     else if is_digit ch then
       let newVal = unat cur * 10 + (of_char ch - 48)
       in if newVal > 255 then None
          else if \<not> saw then
            if octets + 1 > 4 then None else pton4_loop src os (of_nat newVal) True (octets + 1)
          else pton4_loop src os (of_nat newVal) saw octets
     else if ch = CHR ''.'' \<and> saw then
       if octets = 4 then None else pton4_loop src (os @ [cur]) 0 False octets
     else None)"

definition inet_pton4 :: "string \<Rightarrow> u8 list option" where
  "inet_pton4 src = pton4_loop src [] 0 False 0"

definition word_bytes :: "u32 \<Rightarrow> u8 list" where
  "word_bytes val = [ucast (drop_bit 8 val), ucast val]"

text \<open>
  \<open>out\<close> are the bytes written, \<open>colonp\<close> their number where two colons stood; the result also has the
  group that is not yet written.
\<close>

fun pton6_loop :: "string \<Rightarrow> string \<Rightarrow> u8 list \<Rightarrow> nat option \<Rightarrow> bool \<Rightarrow> u32 \<Rightarrow>
    (u8 list \<times> nat option \<times> bool \<times> u32) option" where
  "pton6_loop [] curtok out colonp saw val = Some (out, colonp, saw, val)"
| "pton6_loop (ch # src) curtok out colonp saw val =
    (if ch = CHR 0x00 then Some (out, colonp, saw, val)
     else case xdigit ch of
       Some d \<Rightarrow>
         let val = or (push_bit 4 val) (ucast d)
         in if val > 0xffff then None else pton6_loop src curtok out colonp True val
     | None \<Rightarrow>
         if ch = CHR '':'' then
           if \<not> saw then
             if colonp \<noteq> None then None else pton6_loop src src out (Some (length out)) saw val
           else if length out + 2 > 16 then None
           else pton6_loop src src (out @ word_bytes val) colonp False 0
         else if ch = CHR ''.'' \<and> length out + 4 \<le> 16 then
           (case inet_pton4 curtok of
              Some bs \<Rightarrow> Some (out @ bs, colonp, False, val)
            | None \<Rightarrow> None)
         else None)"

text \<open>The bytes behind the two colons move to the end, one by one from the last.\<close>

definition shift6 :: "nat \<Rightarrow> u8 list \<Rightarrow> u8 list" where
  "shift6 c out =
    (let n = length out - c
     in fold (\<lambda>i tmp. tmp[16 - i := tmp ! (c + n - i), c + n - i := 0]) [1..<n + 1]
          (out @ replicate (16 - length out) 0))"

definition pton6_end :: "u8 list \<times> nat option \<times> bool \<times> u32 \<Rightarrow> u8 list option" where
  "pton6_end = (\<lambda>(out, colonp, saw, val).
    if saw \<and> length out + 2 > 16 then None
    else let out = (if saw then out @ word_bytes val else out)
      in case colonp of
           Some c \<Rightarrow> Some (shift6 c out)
         | None \<Rightarrow> if length out \<noteq> 16 then None else Some out)"

definition inet_pton6 :: "string \<Rightarrow> u8 list option" where
  "inet_pton6 src =
    (let go = (\<lambda>src. case pton6_loop src src [] None False 0 of None \<Rightarrow> None | Some r \<Rightarrow> pton6_end r)
     in if src \<noteq> [] \<and> hd src = CHR '':'' then
          if tl src \<noteq> [] \<and> hd (tl src) = CHR '':'' then go (tl src) else None
        else go src)"

section \<open>Writing texts\<close>

definition dec_u8 :: "u8 \<Rightarrow> string" where
  "dec_u8 b = local_itoa (ucast b) 10 False"

definition inet_ntop4 :: "u8 list \<Rightarrow> nat \<Rightarrow> string option" where
  "inet_ntop4 src sz =
    (let ps = [dec_u8 (src ! 0), ''.'', dec_u8 (src ! 1), ''.'', dec_u8 (src ! 2), ''.'', dec_u8 (src ! 3)]
     in if length (concat ps) > sz - 1 then None else Some (re_snprintf sz ps))"

definition words6 :: "u8 list \<Rightarrow> nat list" where
  "words6 src = List.map (\<lambda>i. unat (src ! (2 * i)) * 256 + unat (src ! (2 * i + 1))) [0..<8]"

text \<open>The longest run of zero words, as its base and length.\<close>

definition best6 :: "(nat \<times> nat) option \<Rightarrow> (nat \<times> nat) option \<Rightarrow> (nat \<times> nat) option" where
  "best6 best cur = (case cur of
      None \<Rightarrow> best
    | Some (b, l) \<Rightarrow> (case best of None \<Rightarrow> cur | Some (b', l') \<Rightarrow> if l > l' then cur else best))"

fun runs6 :: "nat \<Rightarrow> nat list \<Rightarrow> (nat \<times> nat) option \<Rightarrow> (nat \<times> nat) option \<Rightarrow> (nat \<times> nat) option" where
  "runs6 i [] best cur = best6 best cur"
| "runs6 i (w # ws) best cur =
    (if w = 0 then runs6 (i + 1) ws best (case cur of None \<Rightarrow> Some (i, 1) | Some (b, l) \<Rightarrow> Some (b, l + 1))
     else runs6 (i + 1) ws (best6 best cur) None)"

definition longest6 :: "nat list \<Rightarrow> (nat \<times> nat) option" where
  "longest6 ws = (case runs6 0 ws None None of Some (b, l) \<Rightarrow> if l < 2 then None else Some (b, l) | None \<Rightarrow> None)"

fun ntop6_loop :: "(nat \<times> nat) option \<Rightarrow> nat list \<Rightarrow> u8 list \<Rightarrow> nat list \<Rightarrow> string" where
  "ntop6_loop best ws src [] = []"
| "ntop6_loop best ws src (i # is) =
    (if (case best of None \<Rightarrow> False | Some (b, l) \<Rightarrow> b \<le> i \<and> i < b + l) then
       (if best \<noteq> None \<and> i = fst (the best) then '':'' else []) @ ntop6_loop best ws src is
     else
       (if i \<noteq> 0 then '':'' else []) @
       (if i = 6 \<and> (case best of None \<Rightarrow> False
            | Some (b, l) \<Rightarrow> b = 0 \<and> (l = 6 \<or> l = 5 \<and> ws ! 5 = 0xffff))
        then (case inet_ntop4 (drop 12 src) 46 of None \<Rightarrow> [] | Some t \<Rightarrow> t)
        else local_itoa (of_nat (ws ! i)) 16 False @ ntop6_loop best ws src is))"

definition inet_ntop6 :: "u8 list \<Rightarrow> nat \<Rightarrow> string option" where
  "inet_ntop6 src sz =
    (let ws = words6 src; best = longest6 ws;
         t = ntop6_loop best ws src [0..<8] @
             (case best of None \<Rightarrow> [] | Some (b, l) \<Rightarrow> if b + l = 8 then '':'' else [])
     in if length t + 1 > sz then None else Some t)"

definition own_net :: inet_lib where
  "own_net = \<lparr>il_pton4 = inet_pton4, il_pton6 = inet_pton6, il_ntop4 = inet_ntop4, il_ntop6 = inet_ntop6\<rparr>"

section \<open>Addresses\<close>

definition sa_init :: "nat \<Rightarrow> sa" where
  "sa_init af = \<lparr>sa_family = af, sa_sin_port = 0, sa_sin_addr = replicate 4 0, sa_sin6_addr = replicate 16 0\<rparr>"

definition v4mapped :: "u8 list \<Rightarrow> bool" where
  "v4mapped bs \<longleftrightarrow> take 12 bs = replicate 10 0 @ [0xff, 0xff]"

definition net_inet_pton :: "inet_lib \<Rightarrow> string \<Rightarrow> sa \<Rightarrow> errno option \<times> sa" where
  "net_inet_pton net addr s = (case il_pton4 net addr of
      Some bs \<Rightarrow> (None, s\<lparr>sa_sin_addr := bs, sa_family := AF_INET\<rparr>)
    | None \<Rightarrow> (case il_pton6 net addr of
        Some bs \<Rightarrow>
          if v4mapped bs then
            (None, s\<lparr>sa_sin6_addr := bs, sa_family := AF_INET, sa_sin_addr := drop 12 bs\<rparr>)
          else (None, s\<lparr>sa_sin6_addr := bs, sa_family := AF_INET6\<rparr>)
      | None \<Rightarrow> (Some EINVAL, s)))"

text \<open>\<open>inet_ntop\<close> without room for the text leaves the buffer unset, and its failure is not noticed.\<close>

definition net_inet_ntop :: "inet_lib \<Rightarrow> sa \<Rightarrow> nat \<Rightarrow> ub + (errno + string)" where
  "net_inet_ntop net s sz =
    (let ntop = (\<lambda>r. case r of None \<Rightarrow> Inl Uninitialised | Some t \<Rightarrow> Inr (Inr t))
     in if sz = 0 then Inr (Inl EINVAL)
        else if sa_family s = AF_INET then ntop (il_ntop4 net (sa_sin_addr s) sz)
        else if sa_family s = AF_INET6 then ntop (il_ntop6 net (sa_sin6_addr s) sz)
        else Inr (Inl EAFNOSUPPORT))"

definition sa_ntop :: "inet_lib \<Rightarrow> sa \<Rightarrow> nat \<Rightarrow> ub + (errno + string)" where
  "sa_ntop = net_inet_ntop"

definition has_port :: "sa \<Rightarrow> bool" where
  "has_port s \<longleftrightarrow> sa_family s = AF_INET \<or> sa_family s = AF_INET6"

definition sa_set_str :: "inet_lib \<Rightarrow> string option \<Rightarrow> u16 \<Rightarrow> sa \<Rightarrow> errno option \<times> sa" where
  "sa_set_str net addr port s = (case addr of
      None \<Rightarrow> (Some EINVAL, s)
    | Some addr \<Rightarrow> (case net_inet_pton net addr s of
        (Some e, s) \<Rightarrow> (Some e, s)
      | (None, s) \<Rightarrow> if has_port s then (None, s\<lparr>sa_sin_port := port\<rparr>) else (Some EAFNOSUPPORT, s)))"

text \<open>The text is copied into a buffer of 64 bytes first, which stays unset without a text.\<close>

definition sa_set :: "inet_lib \<Rightarrow> pl \<Rightarrow> u16 \<Rightarrow> sa \<Rightarrow> ub + errno option \<times> sa" where
  "sa_set net addr port s = (case pl_strcpy addr 64 of
      Inl e \<Rightarrow> Inl Uninitialised
    | Inr buf \<Rightarrow> Inr (sa_set_str net (Some buf) port s))"

text \<open>The family of an address, as \<open>uri_decode\<close> looks it up.\<close>

definition pton_af :: "inet_lib \<Rightarrow> string \<Rightarrow> nat option" where
  "pton_af net h = (case sa_set_str net (Some h) 0 (sa_init AF_UNSPEC) of
      (None, s) \<Rightarrow> Some (sa_family s) | (Some e, s) \<Rightarrow> None)"

definition be_bytes :: "u32 \<Rightarrow> u8 list" where
  "be_bytes w = rev (le_bytes 4 w)"

definition sa_set_in :: "u32 \<Rightarrow> u16 \<Rightarrow> sa \<Rightarrow> sa" where
  "sa_set_in addr port s = s\<lparr>sa_family := AF_INET, sa_sin_addr := be_bytes addr, sa_sin_port := port\<rparr>"

definition sa_set_in6 :: "u8 list \<Rightarrow> u16 \<Rightarrow> sa \<Rightarrow> sa" where
  "sa_set_in6 addr port s = s\<lparr>sa_family := AF_INET6, sa_sin6_addr := addr, sa_sin_port := port\<rparr>"

definition sa_set_port :: "u16 \<Rightarrow> sa \<Rightarrow> sa" where
  "sa_set_port port s = (if has_port s then s\<lparr>sa_sin_port := port\<rparr> else s)"

text \<open>
  Of the form \<open>address:port\<close>. The tests on the rest of the text come after the search for the
  colon or the closing bracket, whose offset is \<open>c\<close>.
\<close>

definition sa_decode :: "inet_lib \<Rightarrow> string option \<Rightarrow> sa \<Rightarrow> ub + errno option \<times> sa" where
  "sa_decode net str s = (case str of
      None \<Rightarrow> Inr (Some EINVAL, s)
    | Some str \<Rightarrow>
        if str = [] then Inr (Some EINVAL, s)
        else
          let port = (\<lambda>addr c.
                if length str < c + 2 then Inr (Some EINVAL, s)
                else if str ! c \<noteq> CHR '':'' then Inr (Some EINVAL, s)
                else sa_set net (Some addr) (ucast (pl_u32 (Some (drop (c + 1) str)))) s)
          in case (if hd str = CHR ''['' then pl_strchr (Some str) (CHR '']'') else None) of
               Some c \<Rightarrow> port (take (c - 1) (drop 1 str)) (c + 1)
             | None \<Rightarrow> (case pl_strchr (Some str) (CHR '':'') of
                   Some c \<Rightarrow> port (take c str) c
                 | None \<Rightarrow> Inr (Some EINVAL, s)))"

definition sa_af :: "sa \<Rightarrow> nat" where
  "sa_af s = sa_family s"

definition be_u32 :: "u8 list \<Rightarrow> u32" where
  "be_u32 bs = of_le_bytes (rev bs)"

definition sa_in :: "sa \<Rightarrow> u32" where
  "sa_in s = be_u32 (sa_sin_addr s)"

definition sa_port :: "sa \<Rightarrow> u16" where
  "sa_port s = (if has_port s then sa_sin_port s else 0)"

definition sa_isset :: "sa \<Rightarrow> bool \<Rightarrow> bool \<Rightarrow> bool" where
  "sa_isset s addr port \<longleftrightarrow> has_port s \<and>
     (addr \<longrightarrow> (if sa_family s = AF_INET then sa_sin_addr s \<noteq> replicate 4 0 else sa_sin6_addr s \<noteq> replicate 16 0)) \<and>
     (port \<longrightarrow> sa_sin_port s \<noteq> 0)"

text \<open>The words of an IPv6 address are read in the order of the machine.\<close>

definition word6 :: "u8 list \<Rightarrow> nat \<Rightarrow> u32" where
  "word6 bs k = of_le_bytes (take 4 (drop (4 * k) bs))"

definition sa_hash :: "sa \<Rightarrow> bool \<Rightarrow> bool \<Rightarrow> u32" where
  "sa_hash s addr port =
    (if \<not> has_port s then 0
     else
       (if addr then
          if sa_family s = AF_INET then sa_in s
          else let a = sa_sin6_addr s in xor (xor (xor (word6 a 0) (word6 a 1)) (word6 a 2)) (word6 a 3)
        else 0) +
       (if port then ucast (sa_sin_port s) else 0))"

definition sa_cmp :: "sa \<Rightarrow> sa \<Rightarrow> bool \<Rightarrow> bool \<Rightarrow> bool" where
  "sa_cmp l r addr port \<longleftrightarrow> sa_family l = sa_family r \<and> has_port l \<and>
     (addr \<longrightarrow> (if sa_family l = AF_INET then sa_sin_addr l = sa_sin_addr r else sa_sin6_addr l = sa_sin6_addr r)) \<and>
     (port \<longrightarrow> sa_sin_port l = sa_sin_port r)"

definition sa_is_linklocal :: "sa \<Rightarrow> bool" where
  "sa_is_linklocal s =
    (if sa_family s = AF_INET then take 2 (sa_sin_addr s) = [0xa9, 0xfe]
     else if sa_family s = AF_INET6 then sa_sin6_addr s ! 0 = 0xfe \<and> and (sa_sin6_addr s ! 1) 0xc0 = 0x80
     else False)"

definition sa_is_loopback :: "sa \<Rightarrow> bool" where
  "sa_is_loopback s =
    (if sa_family s = AF_INET then sa_in s = 0x7f000001
     else if sa_family s = AF_INET6 then sa_sin6_addr s = replicate 15 0 @ [1]
     else False)"

definition sa_is_any :: "sa \<Rightarrow> bool" where
  "sa_is_any s =
    (if sa_family s = AF_INET then sa_in s = 0
     else if sa_family s = AF_INET6 then sa_sin6_addr s = replicate 16 0
     else False)"

section \<open>What was written is read back\<close>

lemma foldl_digits_mono: "(v :: nat) \<le> foldl (\<lambda>v ch. v * 10 + (of_char ch - 48)) v ds"
proof (induction ds arbitrary: v)
  case (Cons c ds)
  have "v \<le> v * 10 + (of_char c - 48)" by simp
  also have "\<dots> \<le> foldl (\<lambda>v ch. v * 10 + (of_char ch - 48)) v (c # ds)" using Cons.IH by simp
  finally show ?case .
qed simp

lemma digit_not_0: "is_digit c \<Longrightarrow> c \<noteq> CHR 0x00"
  by (auto simp: is_digit_def)

lemma pton4_digits_more:
  assumes "\<forall>c\<in>set ds. is_digit c"
  shows "foldl (\<lambda>v ch. v * 10 + (of_char ch - 48)) (unat cur) ds \<le> 255 \<Longrightarrow>
    pton4_loop (ds @ src) os cur True octets =
    pton4_loop src os (of_nat (foldl (\<lambda>v ch. v * 10 + (of_char ch - 48)) (unat cur) ds)) True octets"
  using assms
proof (induction ds arbitrary: cur)
  case (Cons c ds)
  define v where "v = unat cur * 10 + (of_char c - 48)"
  have d: "is_digit c" "c \<noteq> CHR 0x00" using Cons.prems(2) digit_not_0 by auto
  have le: "v \<le> 255" using Cons.prems(1) foldl_digits_mono [of v ds] by (simp add: v_def)
  then have u: "unat (of_nat v :: u8) = v" by (simp add: unat_of_nat)
  have "pton4_loop ((c # ds) @ src) os cur True octets = pton4_loop (ds @ src) os (of_nat v) True octets"
    using d le by (simp add: Let_def flip: v_def)
  with Cons.IH [of "of_nat v"] Cons.prems u show ?case by (simp add: v_def)
qed simp

lemma unat_u8_u64: "unat (ucast (b :: u8) :: u64) = unat b"
proof -
  have "unat b < 2 ^ 64" by (rule order_less_trans [OF unsigned_less]) simp
  then show ?thesis by (simp add: unsigned_ucast_eq take_bit_nat_eq_self)
qed

lemma pton4_octet:
  assumes "octets < 4"
  shows "pton4_loop (dec_u8 b @ src) os 0 False octets = pton4_loop src os b True (octets + 1)"
proof -
  obtain ds where ds: "dec_u8 b = ds" "ds \<noteq> []" "\<forall>c\<in>set ds. is_digit c" "dec_val ds = unat b"
    using local_itoa_10 [of "ucast b" False] unfolding unat_u8_u64 dec_u8_def by blast
  obtain c cs where cs: "ds = c # cs" using ds(2) by (cases ds) auto
  define v where "v = (of_char c - 48 :: nat)"
  have d: "is_digit c" "c \<noteq> CHR 0x00" "\<forall>c\<in>set cs. is_digit c" using ds(3) digit_not_0 by (auto simp: cs)
  then have "v \<le> 255" by (auto simp: v_def is_digit_def)
  then have v: "v \<le> 255" "unat (of_nat v :: u8) = v" by (simp_all add: unat_of_nat)
  have dv: "foldl (\<lambda>v ch. v * 10 + (of_char ch - 48)) v cs = unat b"
    using ds(4) by (simp add: cs dec_val_def v_def)
  have "unat b \<le> 255" using unsigned_less [where 'a = nat and w = b] by simp
  then have m: "foldl (\<lambda>v ch. v * 10 + (of_char ch - 48)) (unat (of_nat v :: u8)) cs \<le> 255" by (simp add: v dv)
  have "pton4_loop (dec_u8 b @ src) os 0 False octets = pton4_loop (cs @ src) os (of_nat v) True (octets + 1)"
    using d v assms by (simp add: ds(1) cs Let_def flip: v_def)
  also have "\<dots> = pton4_loop src os b True (octets + 1)"
    by (subst pton4_digits_more [OF d(3) m]) (simp add: v dv)
  finally show ?thesis .
qed

lemma dec_u8_text: "dec_u8 b \<noteq> [] \<and> (\<forall>c\<in>set (dec_u8 b). is_digit c) \<and> length (dec_u8 b) \<le> 3"
proof -
  have "unat b < 10 ^ Suc 2" using unsigned_less [where 'a = nat and w = b] by simp
  then have "length (dec_u8 b) \<le> 3" using local_itoa_length [of "ucast b" 2 False] by (simp add: dec_u8_def unat_u8_u64)
  then show ?thesis using local_itoa_10 [of "ucast b" False] unfolding dec_u8_def by blast
qed

lemma inet_ntop4_text:
  assumes "16 \<le> sz"
  shows "inet_ntop4 [a, b, c, d] sz = Some (dec_u8 a @ ''.'' @ dec_u8 b @ ''.'' @ dec_u8 c @ ''.'' @ dec_u8 d)"
proof -
  have "length (dec_u8 a) \<le> 3" "length (dec_u8 b) \<le> 3" "length (dec_u8 c) \<le> 3" "length (dec_u8 d) \<le> 3"
    using dec_u8_text by blast+
  then have "length (dec_u8 a) + length (dec_u8 b) + length (dec_u8 c) + length (dec_u8 d) + 3 \<le> sz - 1"
    using assms by simp
  then show ?thesis by (simp add: inet_ntop4_def Let_def re_snprintf_fits)
qed

lemma inet_pton4_ntop4:
  assumes "length bs = 4" and "16 \<le> sz"
  obtains t where "inet_ntop4 bs sz = Some t" "inet_pton4 t = Some bs" "t \<noteq> []" "length t < 16"
    "\<forall>c\<in>set t. is_digit c \<or> c = CHR ''.''"
proof -
  obtain a b c d where bs: "bs = [a, b, c, d]" using assms(1) by (auto simp: length_Suc_conv numeral_eq_Suc)
  let ?t = "dec_u8 a @ ''.'' @ dec_u8 b @ ''.'' @ dec_u8 c @ ''.'' @ dec_u8 d"
  have nd: "\<not> is_digit (CHR ''.'')" by code_simp
  have dot: "pton4_loop (CHR ''.'' # src) os cur True octets =
      (if octets = 4 then None else pton4_loop src (os @ [cur]) 0 False octets)" for src os cur octets
    using nd by simp
  have 4: "pton4_loop (dec_u8 d) os 0 False (Suc (Suc (Suc 0))) = Some (os @ [d])" for os
    using pton4_octet [of 3 d "[]" os] by (simp add: numeral_eq_Suc)
  have "inet_pton4 ?t = Some bs"
    by (simp add: inet_pton4_def pton4_octet dot 4 bs del: pton4_loop.simps)
  moreover have "length ?t < 16" using dec_u8_text [of a] dec_u8_text [of b] dec_u8_text [of c] dec_u8_text [of d] by simp
  moreover have "\<forall>c\<in>set ?t. is_digit c \<or> c = CHR ''.''"
    using dec_u8_text [of a] dec_u8_text [of b] dec_u8_text [of c] dec_u8_text [of d] by auto
  moreover have "?t \<noteq> []" by simp
  ultimately show ?thesis using that inet_ntop4_text [OF assms(2)] by (simp add: bs)
qed

section \<open>What clients rely on\<close>

text \<open>An IPv4 address is written as a text that is read as the same address.\<close>

locale inet =
  fixes net :: inet_lib
  assumes ntop4: "length bs = 4 \<Longrightarrow> 16 \<le> sz \<Longrightarrow> \<exists>t. il_ntop4 net bs sz = Some t \<and> il_pton4 net t = Some bs \<and>
    t \<noteq> [] \<and> length t < 16 \<and> (\<forall>c\<in>set t. is_digit c \<or> c = CHR ''.'')"
begin

lemma sa_ntop_inet:
  assumes "sa_family s = AF_INET" and "length (sa_sin_addr s) = 4" and "16 \<le> sz"
  obtains t where "sa_ntop net s sz = Inr (Inr t)" "t \<noteq> []" "length t < 16" "\<forall>c\<in>set t. is_digit c \<or> c = CHR ''.''"
    "\<And>port s'. sa_set net (Some t) port s' =
      Inr (None, s'\<lparr>sa_sin_addr := sa_sin_addr s, sa_family := AF_INET, sa_sin_port := port\<rparr>)"
proof -
  from ntop4 [OF assms(2,3)] obtain t where t: "il_ntop4 net (sa_sin_addr s) sz = Some t"
    "il_pton4 net t = Some (sa_sin_addr s)" "t \<noteq> []" "length t < 16" "\<forall>c\<in>set t. is_digit c \<or> c = CHR ''.''" by blast
  have "take (min (length t) 63) t = t" using t(4) by simp
  then have "sa_set net (Some t) port s' =
      Inr (None, s'\<lparr>sa_sin_addr := sa_sin_addr s, sa_family := AF_INET, sa_sin_port := port\<rparr>)" for port s'
    by (simp add: sa_set_def pl_strcpy_def sa_set_str_def net_inet_pton_def t(2) has_port_def)
  with t show ?thesis using that assms by (simp add: sa_ntop_def net_inet_ntop_def)
qed

lemma sa_decode_inet:
  assumes "sa_family s = AF_INET" and "length (sa_sin_addr s) = 4" and "sa_ntop net s 64 = Inr (Inr t)"
  shows "sa_decode net (Some (t @ '':'' @ local_itoa (ucast (sa_sin_port s)) 10 False)) s' =
    Inr (None, s'\<lparr>sa_sin_addr := sa_sin_addr s, sa_family := AF_INET, sa_sin_port := sa_sin_port s\<rparr>)"
proof -
  obtain t' where t: "sa_ntop net s 64 = Inr (Inr t')" "t' \<noteq> []" "\<forall>c\<in>set t'. is_digit c \<or> c = CHR ''.''"
    "\<And>port s'. sa_set net (Some t') port s' =
      Inr (None, s'\<lparr>sa_sin_addr := sa_sin_addr s, sa_family := AF_INET, sa_sin_port := port\<rparr>)"
    by (rule sa_ntop_inet [OF assms(1,2), of 64]) auto
  then have tt: "t' = t" using assms(3) by simp
  let ?p = "local_itoa (ucast (sa_sin_port s)) 10 False"
  have p: "?p \<noteq> []" by (rule local_itoa_10 [of "ucast (sa_sin_port s)" False]) auto
  have nc: "CHR '':'' \<notin> set t" "hd t \<noteq> CHR ''[''"
    using t(2,3) by (cases t; auto simp: tt is_digit_def)+
  have c: "strchr_loop i (t @ CHR '':'' # q) (CHR '':'') = Some (i + length t)" for i q
    using nc(1) by (induction t arbitrary: i) auto
  have hd: "hd (t @ '':'' @ ?p) = hd t" using t(2) tt by simp
  have "ucast (pl_u32 (Some ?p)) = sa_sin_port s"
    by (simp add: pl_itoa_roundtrip(2)) (rule bit_word_eqI, auto simp: bit_simps)
  then show ?thesis
    using t(2,4) nc hd p c [of 0] by (simp add: sa_decode_def Let_def pl_strchr_def tt nth_append)
qed

end

lemma own_inet: "inet own_net"
proof
  fix bs :: "u8 list" and sz :: nat
  assume "length bs = 4" "16 \<le> sz"
  from inet_pton4_ntop4 [OF this] show "\<exists>t. il_ntop4 own_net bs sz = Some t \<and> il_pton4 own_net t = Some bs \<and>
    t \<noteq> [] \<and> length t < 16 \<and> (\<forall>c\<in>set t. is_digit c \<or> c = CHR ''.'')"
    by (metis inet_lib.select_convs(1,3) own_net_def)
qed

interpretation own: inet own_net
  by (rule own_inet)

text \<open>Addresses that compare equal have one hash value.\<close>

lemma sa_hash_cmp: "sa_cmp l r addr port \<Longrightarrow> sa_hash l addr port = sa_hash r addr port"
  by (auto simp: sa_cmp_def sa_hash_def has_port_def sa_in_def)

text \<open>A full address with two colons in it loses what is behind them, in the implementation of the library.\<close>

lemma inet_pton6_full: "inet_pton6 ''1:2:3:4:5:6:7::8'' = Some [0, 1, 0, 2, 0, 3, 0, 4, 0, 5, 0, 6, 0, 7, 0, 0]"
  by code_simp

section \<open>Printing\<close>

definition itoa :: "'a::len word \<Rightarrow> string" where
  "itoa w = local_itoa (ucast w) 10 False"

text \<open>\<open>%j\<close> prints the text of an address.\<close>

definition print_addr :: "inet_lib \<Rightarrow> sa \<Rightarrow> ub + string" where
  "print_addr net s = obind (sa_ntop net s 64) (\<lambda>r. Inr (case r of Inl e \<Rightarrow> ''?'' | Inr t \<Rightarrow> t))"

text \<open>\<open>%J\<close> prints the port as well, and an IPv6 address in brackets.\<close>

definition print_addr_port :: "inet_lib \<Rightarrow> sa \<Rightarrow> ub + string" where
  "print_addr_port net s = obind (sa_ntop net s 64) (\<lambda>r. Inr (case r of
      Inl e \<Rightarrow> ''?''
    | Inr t \<Rightarrow> (if sa_family s = AF_INET6 then ''['' @ t @ '']'' else t) @ '':'' @ itoa (sa_port s)))"

end
