(* ===== verification/Re_Sip_Msg.thy ===== *)
theory Re_Sip_Msg
  imports Re_Hash Re_Sa
begin

text \<open>
  Messages of the Session Initiation Protocol (\<open>src/re/src/sip/msg.c\<close>, \<open>via.c\<close>, \<open>cseq.c\<close>, \<open>addr.c\<close>,
  \<open>param.c\<close>): a message is split into its start line and its headers in one pass over the
  characters, and the common headers are taken apart on the way. The message is the text between
  position and end of its buffer; pointers into it are offsets. Allocation is taken to succeed.

  The enumeration of the headers is shown to be the keys of their names; a message of printed
  headers is shown to be read header by header.
\<close>

section \<open>Header identifiers\<close>

definition sip_hdrid :: "(string \<times> int) list" where
  "sip_hdrid = [
    (''ACCEPT'', 3186), (''ACCEPT_CONTACT'', 232), (''ACCEPT_ENCODING'', 708), (''ACCEPT_LANGUAGE'', 2867),
    (''ACCEPT_RESOURCE_PRIORITY'', 1848), (''ALERT_INFO'', 274), (''ALLOW'', 2429), (''ALLOW_EVENTS'', 66),
    (''ANSWER_MODE'', 2905), (''AUTHENTICATION_INFO'', 3144), (''AUTHORIZATION'', 2503), (''CALL_ID'', 3095),
    (''CALL_INFO'', 586), (''CONTACT'', 229), (''CONTENT_DISPOSITION'', 1425), (''CONTENT_ENCODING'', 580),
    (''CONTENT_LANGUAGE'', 3371), (''CONTENT_LENGTH'', 3861), (''CONTENT_TYPE'', 809), (''CSEQ'', 746),
    (''DATE'', 1027), (''ENCRYPTION'', 3125), (''ERROR_INFO'', 21), (''EVENT'', 3286), (''EXPIRES'', 1983),
    (''FLOW_TIMER'', 584), (''FROM'', 1963), (''HIDE'', 283), (''HISTORY_INFO'', 2582), (''IDENTITY'', 2362),
    (''IDENTITY_INFO'', 980), (''IN_REPLY_TO'', 1577), (''JOIN'', 3479), (''MAX_BREADTH'', 3701),
    (''MAX_FORWARDS'', 3549), (''MIME_VERSION'', 3659), (''MIN_EXPIRES'', 1121), (''MIN_SE'', 2847),
    (''ORGANIZATION'', 3247), (''P_ACCESS_NETWORK_INFO'', 1662), (''P_ANSWER_STATE'', 42),
    (''P_ASSERTED_IDENTITY'', 1233), (''P_ASSOCIATED_URI'', 900), (''P_CALLED_PARTY_ID'', 3347),
    (''P_CHARGING_FUNCTION_ADDRESSES'', 2171), (''P_CHARGING_VECTOR'', 25), (''P_DCS_TRACE_PARTY_ID'', 3027),
    (''P_DCS_OSPS'', 1788), (''P_DCS_BILLING_INFO'', 2017), (''P_DCS_LAES'', 693), (''P_DCS_REDIRECT'', 1872),
    (''P_EARLY_MEDIA'', 2622), (''P_MEDIA_AUTHORIZATION'', 1035), (''P_PREFERRED_IDENTITY'', 1263),
    (''P_PROFILE_KEY'', 1904), (''P_REFUSED_URI_LIST'', 1047), (''P_SERVED_USER'', 1588), (''P_USER_DATABASE'', 2827),
    (''P_VISITED_NETWORK_ID'', 3867), (''PATH'', 2741), (''PERMISSION_MISSING'', 1409), (''PRIORITY'', 3520),
    (''PRIV_ANSWER_MODE'', 2476), (''PRIVACY'', 3150), (''PROXY_AUTHENTICATE'', 116), (''PROXY_AUTHORIZATION'', 2363),
    (''PROXY_REQUIRE'', 3562), (''RACK'', 2523), (''REASON'', 3732), (''RECORD_ROUTE'', 278), (''REFER_SUB'', 2458),
    (''REFER_TO'', 1521), (''REFERRED_BY'', 3456), (''REJECT_CONTACT'', 285), (''REPLACES'', 2534),
    (''REPLY_TO'', 2404), (''REQUEST_DISPOSITION'', 3715), (''REQUIRE'', 3905), (''RESOURCE_PRIORITY'', 1643),
    (''RESPONSE_KEY'', 1548), (''RETRY_AFTER'', 409), (''ROUTE'', 661), (''RSEQ'', 445), (''SECURITY_CLIENT'', 1358),
    (''SECURITY_SERVER'', 811), (''SECURITY_VERIFY'', 519), (''SERVER'', 973), (''SERVICE_ROUTE'', 1655),
    (''SESSION_EXPIRES'', 1979), (''SIP_ETAG'', 1997), (''SIP_IF_MATCH'', 3056), (''SUBJECT'', 1043),
    (''SUBSCRIPTION_STATE'', 2884), (''SUPPORTED'', 119), (''TARGET_DIALOG'', 3450), (''TIMESTAMP'', 938),
    (''TO'', 1449), (''TRIGGER_CONSENT'', 3180), (''UNSUPPORTED'', 982), (''USER_AGENT'', 4064), (''VIA'', 3961),
    (''WARNING'', 2108), (''WWW_AUTHENTICATE'', 2763)]"

definition SIP_HDR :: "string \<Rightarrow> int" where
  "SIP_HDR n = the (map_of sip_hdrid n)"

definition SIP_HDR_NONE :: int where
  "SIP_HDR_NONE = -1"

definition compact_hdr :: "(char \<times> string) list" where
  "compact_hdr = [(CHR ''a'', ''ACCEPT_CONTACT''), (CHR ''b'', ''REFERRED_BY''), (CHR ''c'', ''CONTENT_TYPE''),
     (CHR ''d'', ''REQUEST_DISPOSITION''), (CHR ''e'', ''CONTENT_ENCODING''), (CHR ''f'', ''FROM''),
     (CHR ''i'', ''CALL_ID''), (CHR ''j'', ''REJECT_CONTACT''), (CHR ''k'', ''SUPPORTED''),
     (CHR ''l'', ''CONTENT_LENGTH''), (CHR ''m'', ''CONTACT''), (CHR ''n'', ''IDENTITY_INFO''),
     (CHR ''o'', ''EVENT''), (CHR ''r'', ''REFER_TO''), (CHR ''s'', ''SUBJECT''),
     (CHR ''t'', ''TO''), (CHR ''u'', ''ALLOW_EVENTS''), (CHR ''v'', ''VIA''),
     (CHR ''x'', ''SESSION_EXPIRES''), (CHR ''y'', ''IDENTITY'')]"

definition hdr_hash :: "string \<Rightarrow> int" where
  "hdr_hash name =
    (if name = [] then SIP_HDR_NONE
     else if length name > 1 then
       if name ! 0 \<in> {CHR ''x'', CHR ''X''} \<and> name ! 1 = CHR ''-'' then SIP_HDR_NONE
       else uint (hash_joaat_ci name AND 0xfff)
     else (case map_of compact_hdr (tolower (name ! 0)) of Some n \<Rightarrow> SIP_HDR n | None \<Rightarrow> SIP_HDR_NONE))"

definition comma_hdrs :: "string list" where
  "comma_hdrs = [
     ''ACCEPT'', ''ACCEPT_CONTACT'', ''ACCEPT_ENCODING'', ''ACCEPT_LANGUAGE'', ''ACCEPT_RESOURCE_PRIORITY'',
     ''ALERT_INFO'', ''ALLOW'', ''ALLOW_EVENTS'', ''AUTHENTICATION_INFO'', ''CALL_INFO'', ''CONTACT'',
     ''CONTENT_ENCODING'', ''CONTENT_LANGUAGE'', ''ERROR_INFO'', ''HISTORY_INFO'', ''IN_REPLY_TO'',
     ''P_ASSERTED_IDENTITY'', ''P_ASSOCIATED_URI'', ''P_EARLY_MEDIA'', ''P_MEDIA_AUTHORIZATION'',
     ''P_PREFERRED_IDENTITY'', ''P_REFUSED_URI_LIST'', ''P_VISITED_NETWORK_ID'', ''PATH'', ''PERMISSION_MISSING'',
     ''PROXY_REQUIRE'', ''REASON'', ''RECORD_ROUTE'', ''REJECT_CONTACT'', ''REQUEST_DISPOSITION'', ''REQUIRE'',
     ''RESOURCE_PRIORITY'', ''ROUTE'', ''SECURITY_CLIENT'', ''SECURITY_SERVER'', ''SECURITY_VERIFY'',
     ''SERVICE_ROUTE'', ''SUPPORTED'', ''TRIGGER_CONSENT'', ''UNSUPPORTED'', ''VIA'', ''WARNING'']"

definition hdr_comma_separated :: "int \<Rightarrow> bool" where
  "hdr_comma_separated i \<longleftrightarrow> i \<in> set (List.map SIP_HDR comma_hdrs)"

section \<open>Structures\<close>

datatype sip_transp = SIP_TRANSP_NONE | SIP_TRANSP_UDP | SIP_TRANSP_TCP | SIP_TRANSP_TLS

record sip_via =
  via_sentby :: pl
  via_addr :: sa
  via_params :: pl
  via_branch :: pl
  via_val :: pl
  via_tp :: sip_transp

record sip_addr =
  ad_dname :: pl
  ad_auri :: pl
  ad_uri :: uri
  ad_params :: pl

record sip_taddr = sip_addr +
  ta_tag :: pl
  ta_val :: pl

record sip_cseq =
  cs_met :: pl
  cs_num :: u32

record sip_hdr =
  hdr_name :: string
  hdr_val :: string
  hdr_id :: int

record sip_msg =
  sm_src :: sa
  sm_dst :: sa
  sm_ver :: pl
  sm_met :: pl
  sm_ruri :: pl
  sm_uri :: uri
  sm_scode :: u16
  sm_reason :: pl
  sm_hdrl :: "sip_hdr list"
  sm_via :: sip_via
  sm_to :: sip_taddr
  sm_from :: sip_taddr
  sm_cseq :: sip_cseq
  sm_callid :: pl
  sm_maxfwd :: pl
  sm_expires :: pl
  sm_ctype :: pl
  sm_clen :: pl
  sm_hdrht :: "sip_hdr hash"
  sm_tag :: u64
  sm_tp :: sip_transp
  sm_req :: bool

text \<open>Structures filled with zeros; the number 0 is the transport UDP.\<close>

definition sa_zero :: sa where
  "sa_zero = sa_init AF_UNSPEC"

definition via_zero :: sip_via where
  "via_zero = \<lparr>via_sentby = None, via_addr = sa_zero, via_params = None, via_branch = None, via_val = None,
     via_tp = SIP_TRANSP_UDP\<rparr>"

definition addr_zero :: sip_addr where
  "addr_zero = \<lparr>ad_dname = None, ad_auri = None, ad_uri = uri_zero, ad_params = None\<rparr>"

definition taddr_zero :: sip_taddr where
  "taddr_zero = sip_addr.extend addr_zero \<lparr>ta_tag = None, ta_val = None\<rparr>"

definition msg_zero :: "sip_hdr hash \<Rightarrow> sip_msg" where
  "msg_zero ht = \<lparr>sm_src = sa_zero, sm_dst = sa_zero, sm_ver = None, sm_met = None, sm_ruri = None, sm_uri = uri_zero,
     sm_scode = 0, sm_reason = None, sm_hdrl = [], sm_via = via_zero, sm_to = taddr_zero, sm_from = taddr_zero,
     sm_cseq = \<lparr>cs_met = None, cs_num = 0\<rparr>, sm_callid = None, sm_maxfwd = None, sm_expires = None, sm_ctype = None,
     sm_clen = None, sm_hdrht = ht, sm_tag = 0, sm_tp = SIP_TRANSP_UDP, sm_req = False\<rparr>"

section \<open>Single headers\<close>

definition ws4 :: string where
  "ws4 = [CHR '' '', CHR 0x09, CHR 0x0D, CHR 0x0A]"

definition param_expr :: "string \<Rightarrow> string" where
  "param_expr name = re_snprintf 128 ['';['' @ ws4 @ '']*'', name, ''['' @ ws4 @ '']*=['' @ ws4 @ '']*[~'' @ ws4 @ '';]+'']"

definition sip_param_decode :: "pl \<Rightarrow> string \<Rightarrow> pl \<Rightarrow> ub + errno option \<times> pl" where
  "sip_param_decode pl name val =
    obind (re_regex pl (param_expr name)) (\<lambda>(err, c).
      if err \<noteq> None then Inr (Some ENOENT, val) else Inr (None, c 3))"

definition via_expr :: string where
  "via_expr = ''SIP[ '' @ ws4 @ '']*/['' @ ws4 @ '']*2.0['' @ ws4 @ '']*/['' @ ws4 @ '']*'' @
     ''[A-Z]+['' @ ws4 @ '']*[^;'' @ ws4 @ '']+['' @ [CHR '' '', CHR 0x09, CHR 0x0D, CHR 0x08] @ '']*[^]*''"

definition via_transp :: "pl \<Rightarrow> sip_transp" where
  "via_transp tp =
    (if pl_strcmp tp (Some ''TCP'') = None then SIP_TRANSP_TCP
     else if pl_strcmp tp (Some ''TLS'') = None then SIP_TRANSP_TLS
     else if pl_strcmp tp (Some ''UDP'') = None then SIP_TRANSP_UDP
     else SIP_TRANSP_NONE)"

definition sip_via_decode :: "inet_lib \<Rightarrow> sip_via \<Rightarrow> string \<Rightarrow> ub + errno option \<times> sip_via" where
  "sip_via_decode net via pl =
    obind (re_regex (Some pl) via_expr) (\<lambda>(err, c).
      if err \<noteq> None then Inr (err, via)
      else
        let via = via\<lparr>via_sentby := c 6, via_params := c 8, via_tp := via_transp (c 4)\<rparr>
        in obind (decode_hostport (via_sentby via) None None) (\<lambda>(err, host, port).
          if err \<noteq> None then Inr (err, via)
          else obind (sa_set net host 0 (sa_init AF_INET)) (\<lambda>(_, addr).
            let addr = (if pl_isset port then sa_set_port (ucast (pl_u32 port)) addr else addr);
                via = via\<lparr>via_addr := addr, via_val := Some pl\<rparr>
            in obind (sip_param_decode (via_params via) ''branch'' (via_branch via)) (\<lambda>(err, branch).
              Inr (err, via\<lparr>via_branch := branch\<rparr>)))))"

definition sip_cseq_decode :: "sip_cseq \<Rightarrow> string \<Rightarrow> ub + errno option \<times> sip_cseq" where
  "sip_cseq_decode cseq pl =
    obind (re_regex (Some pl) (''[0-9]+['' @ ws4 @ '']+[^'' @ ws4 @ '']+'')) (\<lambda>(err, c).
      if err \<noteq> None then Inr (err, cseq) else Inr (None, cseq\<lparr>cs_met := c 2, cs_num := pl_u32 (c 0)\<rparr>))"

definition or_null :: "pl \<Rightarrow> pl" where
  "or_null pl = (if pl_l pl = 0 then None else pl)"

definition sip_addr_decode :: "inet_lib \<Rightarrow> string \<Rightarrow> ub + errno option \<times> sip_addr" where
  "sip_addr_decode net pl =
    obind (re_regex (Some pl) (''[~'' @ ws4 @ ''<]*['' @ ws4 @ '']*<[^>]+>[^]*'')) (\<lambda>(err, c).
      let go = (\<lambda>addr. obind (uri_decode (pton_af net) (ad_auri addr)) (\<lambda>(err, uri).
            Inr (err, if err = None then addr\<lparr>ad_uri := uri\<rparr> else addr_zero)))
      in if err = None then
           go (addr_zero\<lparr>ad_dname := or_null (c 0), ad_auri := c 2, ad_params := or_null (c 3)\<rparr>)
         else obind (re_regex (Some pl) ''[^;]+[^]*'') (\<lambda>(err, c).
           if err \<noteq> None then Inr (Some EBADMSG, addr_zero)
           else go (addr_zero\<lparr>ad_auri := c 0, ad_params := c 1\<rparr>)))"

text \<open>An address with a tag; the fields behind those of an address stay when it does not decode.\<close>

definition taddr_decode :: "inet_lib \<Rightarrow> sip_taddr \<Rightarrow> string \<Rightarrow> ub + errno option \<times> sip_taddr" where
  "taddr_decode net ta pl =
    obind (sip_addr_decode net pl) (\<lambda>(err, addr).
      let ta = sip_addr.extend addr \<lparr>ta_tag = ta_tag ta, ta_val = ta_val ta\<rparr>
      in if err \<noteq> None then Inr (err, ta)
         else obind (sip_param_decode (ad_params ta) ''tag'' (ta_tag ta)) (\<lambda>(_, tag).
           Inr (None, ta\<lparr>ta_tag := tag, ta_val := Some pl\<rparr>)))"

section \<open>Adding a header\<close>

definition hdr_lists :: "sip_msg \<Rightarrow> sip_hdr \<Rightarrow> bool \<Rightarrow> bool \<Rightarrow> sip_msg" where
  "hdr_lists msg hdr atomic line =
    (let ht = hash_append (sm_hdrht msg) (word_of_int (hdr_id hdr)) hdr; l = sm_hdrl msg @ [hdr]
     in if hdr_id hdr \<in> {SIP_HDR ''VIA'', SIP_HDR ''ROUTE''} then
          if \<not> atomic then msg else msg\<lparr>sm_hdrht := ht, sm_hdrl := l\<rparr>
        else msg\<lparr>sm_hdrht := if atomic then ht else sm_hdrht msg, sm_hdrl := if line then l else sm_hdrl msg\<rparr>)"

definition hdr_parse :: "inet_lib \<Rightarrow> sip_msg \<Rightarrow> sip_hdr \<Rightarrow> bool \<Rightarrow> ub + errno option \<times> sip_msg" where
  "hdr_parse net msg hdr atomic =
    (let i = hdr_id hdr; val = hdr_val hdr
     in if i = SIP_HDR ''VIA'' then
          if \<not> atomic \<or> pl_isset (via_sentby (sm_via msg)) then Inr (None, msg)
          else obind (sip_via_decode net (sm_via msg) val) (\<lambda>(err, via). Inr (err, msg\<lparr>sm_via := via\<rparr>))
        else if i = SIP_HDR ''TO'' then
          obind (taddr_decode net (sm_to msg) val) (\<lambda>(err, ta). Inr (err, msg\<lparr>sm_to := ta\<rparr>))
        else if i = SIP_HDR ''FROM'' then
          obind (taddr_decode net (sm_from msg) val) (\<lambda>(err, ta). Inr (err, msg\<lparr>sm_from := ta\<rparr>))
        else if i = SIP_HDR ''CALL_ID'' then Inr (None, msg\<lparr>sm_callid := Some val\<rparr>)
        else if i = SIP_HDR ''CSEQ'' then
          obind (sip_cseq_decode (sm_cseq msg) val) (\<lambda>(err, cseq). Inr (err, msg\<lparr>sm_cseq := cseq\<rparr>))
        else if i = SIP_HDR ''MAX_FORWARDS'' then Inr (None, msg\<lparr>sm_maxfwd := Some val\<rparr>)
        else if i = SIP_HDR ''CONTENT_TYPE'' then Inr (None, msg\<lparr>sm_ctype := Some val\<rparr>)
        else if i = SIP_HDR ''CONTENT_LENGTH'' then Inr (None, msg\<lparr>sm_clen := Some val\<rparr>)
        else if i = SIP_HDR ''EXPIRES'' then Inr (None, msg\<lparr>sm_expires := Some val\<rparr>)
        else Inr (None, msg))"

definition hdr_add ::
  "inet_lib \<Rightarrow> sip_msg \<Rightarrow> string \<Rightarrow> int \<Rightarrow> string \<Rightarrow> bool \<Rightarrow> bool \<Rightarrow> ub + errno option \<times> sip_msg" where
  "hdr_add net msg name i val atomic line =
    (let hdr = \<lparr>hdr_name = name, hdr_val = val, hdr_id = i\<rparr>
     in hdr_parse net (hdr_lists msg hdr atomic line) hdr atomic)"

section \<open>The pass over the headers\<close>

text \<open>
  Offsets of the name, of the value and of its current part between commas; the length of the name;
  the white space and the line ends seen last.
\<close>

record hscan =
  hs_name :: "nat option"
  hs_nl :: nat
  hs_ws :: nat
  hs_lf :: nat
  hs_comsep :: bool
  hs_quote :: bool
  hs_v :: "nat option"
  hs_cv :: "nat option"
  hs_id :: int

definition hs_init :: hscan where
  "hs_init = \<lparr>hs_name = None, hs_nl = 0, hs_ws = 0, hs_lf = 0, hs_comsep = False, hs_quote = False, hs_v = None,
     hs_cv = None, hs_id = SIP_HDR_NONE\<rparr>"

definition hs_text :: "string \<Rightarrow> nat option \<Rightarrow> nat \<Rightarrow> string" where
  "hs_text t a n = (case a of None \<Rightarrow> [] | Some a \<Rightarrow> take n (drop a t))"

definition hs_value :: "string \<Rightarrow> nat \<Rightarrow> nat \<Rightarrow> nat option \<Rightarrow> string" where
  "hs_value t p ws a = (case a of None \<Rightarrow> [] | Some i \<Rightarrow> hs_text t a (p - i - ws))"

datatype scan_out = Cont hscan sip_msg | Stop "errno option" sip_msg

text \<open>The end of a header, or of a part of its value.\<close>

definition hdr_end :: "inet_lib \<Rightarrow> string \<Rightarrow> nat \<Rightarrow> hscan \<Rightarrow> sip_msg \<Rightarrow> ub + scan_out" where
  "hdr_end net t p st msg =
    (let name = hs_text t (hs_name st) (hs_nl st); lf = hs_lf st \<noteq> 0
     in if hs_nl st = 0 then Inr (Stop (Some EBADMSG) msg)
        else obind (hdr_add net msg name (hs_id st) (hs_value t p (hs_ws st) (hs_cv st)) True (hs_cv st = hs_v st \<and> lf))
          (\<lambda>(err, msg).
            if err \<noteq> None then Inr (Stop err msg)
            else if \<not> lf then Inr (Cont (st\<lparr>hs_cv := None\<rparr>) msg)
            else obind (if hs_cv st \<noteq> hs_v st
                then hdr_add net msg name (hs_id st) (hs_value t p (hs_ws st) (hs_v st)) False True
                else Inr (None, msg))
              (\<lambda>(err, msg).
                if err \<noteq> None then Inr (Stop err msg)
                else if hs_lf st > 1 then Inr (Stop None msg)
                else Inr (Cont (st\<lparr>hs_comsep := False, hs_name := None, hs_cv := None, hs_v := None, hs_lf := 0\<rparr>) msg))))"

text \<open>Any other character: it is of the name, ends the name, or is of the value.\<close>

definition hdr_char :: "string \<Rightarrow> nat \<Rightarrow> char \<Rightarrow> hscan \<Rightarrow> errno + hscan" where
  "hdr_char t p c st =
    (let st = (if hs_name st = None then st\<lparr>hs_name := Some p, hs_nl := 0, hs_ws := 0\<rparr> else st)
     in if hs_nl st = 0 then
          if c \<noteq> CHR '':'' then Inr (st\<lparr>hs_ws := 0\<rparr>)
          else
            let n = p - the (hs_name st) - hs_ws st; i = hdr_hash (hs_text t (hs_name st) n)
            in if n = 0 then Inl EBADMSG
               else Inr (st\<lparr>hs_nl := n, hs_id := i, hs_comsep := hdr_comma_separated i\<rparr>)
        else
          let st = (if hs_cv st = None then st\<lparr>hs_quote := False, hs_cv := Some p\<rparr> else st);
              st = (if hs_v st = None then st\<lparr>hs_v := Some p\<rparr> else st);
              st = (if c = CHR 0x22 then st\<lparr>hs_quote := \<not> hs_quote st\<rparr> else st)
          in Inr (st\<lparr>hs_ws := 0\<rparr>))"

text \<open>The result is the message and the offset behind its headers.\<close>

fun hdr_scan :: "inet_lib \<Rightarrow> string \<Rightarrow> string \<Rightarrow> nat \<Rightarrow> hscan \<Rightarrow> sip_msg \<Rightarrow> ub + (errno + sip_msg \<times> nat)" where
  "hdr_scan net t [] p st msg = Inr (Inl ENODATA)"
| "hdr_scan net t (c # rest) p st msg =
    (if c = CHR '' '' \<or> c = CHR 0x09 then hdr_scan net t rest (p + 1) (st\<lparr>hs_lf := 0, hs_ws := hs_ws st + 1\<rparr>) msg
     else if c = CHR 0x0D then hdr_scan net t rest (p + 1) (st\<lparr>hs_ws := hs_ws st + 1\<rparr>) msg
     else if c = CHR 0x0A \<and> hs_lf st = 0 then
       hdr_scan net t rest (p + 1) (st\<lparr>hs_lf := 1, hs_ws := hs_ws st + 1\<rparr>) msg
     else if c = CHR 0x0A then
       obind (hdr_end net t (p + 1) (st\<lparr>hs_lf := hs_lf st + 1, hs_ws := hs_ws st + 1\<rparr>) msg) (\<lambda>r. case r of
           Stop None msg \<Rightarrow> Inr (Inr (msg, p + 1))
         | Stop (Some e) msg \<Rightarrow> Inr (Inl e)
         | Cont st msg \<Rightarrow> Inr (Inl ENODATA))
     else if hs_lf st \<noteq> 0 \<or> c = CHR '','' \<and> hs_comsep st \<and> \<not> hs_quote st then
       obind (hdr_end net t p st msg) (\<lambda>r. case r of
           Stop None msg \<Rightarrow> Inr (Inr (msg, p))
         | Stop (Some e) msg \<Rightarrow> Inr (Inl e)
         | Cont st' msg \<Rightarrow>
             if hs_lf st = 0 then hdr_scan net t rest (p + 1) st' msg
             else (case hdr_char t p c st' of
                 Inl e \<Rightarrow> Inr (Inl e)
               | Inr st' \<Rightarrow> hdr_scan net t rest (p + 1) st' msg))
     else (case hdr_char t p c st of
         Inl e \<Rightarrow> Inr (Inl e)
       | Inr st \<Rightarrow> hdr_scan net t rest (p + 1) st msg))"

section \<open>Messages\<close>

definition HDR_HASH_SIZE :: u32 where "HDR_HASH_SIZE = 32"
definition STARTLINE_MAX :: nat where "STARTLINE_MAX = 8192"

definition start_expr :: string where
  "start_expr = ''[^'' @ ws4 @ '']+ [^'' @ ws4 @ '']+ [^'' @ [CHR 0x0D, CHR 0x0A] @ '']*['' @ [CHR 0x0D] @ '']*['' @
     [CHR 0x0A] @ '']1''"

text \<open>The start line has to be at the start of the text: only the first attempt of the search counts.\<close>

definition start_line :: "string \<Rightarrow> caps option" where
  "start_line t = (case re_try start_expr t False None 0 (\<lambda>_. None) of Done None c \<Rightarrow> Some c | _ \<Rightarrow> None)"

definition sip_msg_decode :: "inet_lib \<Rightarrow> u64 \<Rightarrow> string \<Rightarrow> ub + (errno + sip_msg \<times> nat)" where
  "sip_msg_decode net rnd t = (case start_line t of
      None \<Rightarrow> Inr (Inl (if length t > STARTLINE_MAX then EBADMSG else ENODATA))
    | Some c \<Rightarrow>
        let x = c 0; y = c 1; z = c 2; p = pl_l x + 1 + pl_l y + 1 + pl_l z + pl_l (c 3) + 1;
            ht = \<lparr>h_bucket = replicate (unat HDR_HASH_SIZE) [], h_bsize = HDR_HASH_SIZE\<rparr>;
            msg = (msg_zero ht)\<lparr>sm_tag := rnd, sm_req := (pl_strcmp z (Some ''SIP/2.0'') = None)\<rparr>
        in if sm_req msg then
             obind (uri_decode (pton_af net) y) (\<lambda>(err, uri).
               if err \<noteq> None then Inr (Inl EBADMSG)
               else hdr_scan net t (drop p t) p hs_init
                 (msg\<lparr>sm_met := x, sm_ruri := y, sm_ver := z, sm_uri := uri\<rparr>))
           else
             let msg = msg\<lparr>sm_ver := x, sm_scode := ucast (pl_u32 y), sm_reason := z\<rparr>
             in if sm_scode msg = 0 then Inr (Inl EBADMSG)
                else hdr_scan net t (drop p t) p hs_init msg)"

section \<open>Looking headers up\<close>

definition sip_msg_hdr_apply :: "sip_msg \<Rightarrow> bool \<Rightarrow> int \<Rightarrow> (sip_hdr \<Rightarrow> bool) option \<Rightarrow> sip_hdr option" where
  "sip_msg_hdr_apply msg fwd i h =
    (let lst = hash_list (sm_hdrht msg) (word_of_int i)
     in List.find (\<lambda>hdr. hdr_id hdr = i \<and> (Option.is_none h \<or> (the h) hdr)) (if fwd then lst else rev lst))"

definition sip_msg_hdr :: "sip_msg \<Rightarrow> int \<Rightarrow> sip_hdr option" where
  "sip_msg_hdr msg i = sip_msg_hdr_apply msg True i None"

definition sip_msg_xhdr_apply :: "sip_msg \<Rightarrow> bool \<Rightarrow> string \<Rightarrow> (sip_hdr \<Rightarrow> bool) option \<Rightarrow> sip_hdr option" where
  "sip_msg_xhdr_apply msg fwd name h =
    (let lst = hash_list (sm_hdrht msg) (word_of_int (hdr_hash name))
     in List.find (\<lambda>hdr. pl_casecmp (Some (hdr_name hdr)) (Some name) = None \<and> (Option.is_none h \<or> (the h) hdr))
          (if fwd then lst else rev lst))"

definition sip_msg_xhdr :: "sip_msg \<Rightarrow> string \<Rightarrow> sip_hdr option" where
  "sip_msg_xhdr msg name = sip_msg_xhdr_apply msg True name None"

definition sip_msg_hdr_count :: "sip_msg \<Rightarrow> int \<Rightarrow> u32" where
  "sip_msg_hdr_count msg i = of_nat (length (filter (\<lambda>hdr. hdr_id hdr = i) (hash_list (sm_hdrht msg) (word_of_int i))))"

definition sip_msg_xhdr_count :: "sip_msg \<Rightarrow> string \<Rightarrow> u32" where
  "sip_msg_xhdr_count msg name = of_nat (length (filter (\<lambda>hdr. pl_casecmp (Some (hdr_name hdr)) (Some name) = None)
     (hash_list (sm_hdrht msg) (word_of_int (hdr_hash name)))))"

definition value_handler :: "string \<Rightarrow> sip_hdr \<Rightarrow> bool" where
  "value_handler value hdr \<longleftrightarrow> pl_strcasecmp (Some (hdr_val hdr)) (Some value) = None"

definition sip_msg_hdr_has_value :: "sip_msg \<Rightarrow> int \<Rightarrow> string \<Rightarrow> bool" where
  "sip_msg_hdr_has_value msg i value \<longleftrightarrow> sip_msg_hdr_apply msg True i (Some (value_handler value)) \<noteq> None"

definition sip_msg_xhdr_has_value :: "sip_msg \<Rightarrow> string \<Rightarrow> string \<Rightarrow> bool" where
  "sip_msg_xhdr_has_value msg name value \<longleftrightarrow> sip_msg_xhdr_apply msg True name (Some (value_handler value)) \<noteq> None"

section \<open>The enumeration of the headers\<close>

text \<open>The name of a header, from the name of its constant.\<close>

definition hdrid_name :: "string \<Rightarrow> string" where
  "hdrid_name n = List.map (\<lambda>c. if c = CHR ''_'' then CHR ''-'' else c) n"

definition hdrid_ok :: "string \<times> int \<Rightarrow> bool" where
  "hdrid_ok x \<longleftrightarrow> hdr_hash (hdrid_name (fst x)) = snd x"

lemma list_all_chunks:
  assumes "\<And>k. k < m \<Longrightarrow> list_all P (take 13 (drop (13 * k) xs))" "length xs \<le> 13 * m"
  shows "list_all P xs"
proof (unfold list_all_length, intro allI impI)
  fix i assume i: "i < length xs"
  have k: "i div 13 < m" using i assms(2) by (simp add: div_less_iff_less_mult mult.commute)
  have i13: "13 * (i div 13) + i mod 13 = i" by simp
  have "take 13 (drop (13 * (i div 13)) xs) ! (i mod 13) = xs ! i" using i i13 by (simp del: i13)
  moreover have "i mod 13 < length (take 13 (drop (13 * (i div 13)) xs))" using i i13 by (simp add: less_diff_conv)
  ultimately show "P (xs ! i)" using assms(1) [OF k] by (metis list_all_length)
qed

lemmas hdrid_eval = sip_hdrid_def hdrid_ok_def hdrid_name_def hdr_hash_def unsigned_and_eq joaat_eval

lemma hdrid_ok_0: "list_all hdrid_ok (take 13 (drop 0 sip_hdrid))"
  by (simp add: hdrid_eval)

lemma hdrid_ok_1: "list_all hdrid_ok (take 13 (drop 13 sip_hdrid))"
  by (simp add: hdrid_eval)

lemma hdrid_ok_2: "list_all hdrid_ok (take 13 (drop 26 sip_hdrid))"
  by (simp add: hdrid_eval)

lemma hdrid_ok_3: "list_all hdrid_ok (take 13 (drop 39 sip_hdrid))"
  by (simp add: hdrid_eval)

lemma hdrid_ok_4: "list_all hdrid_ok (take 13 (drop 52 sip_hdrid))"
  by (simp add: hdrid_eval)

lemma hdrid_ok_5: "list_all hdrid_ok (take 13 (drop 65 sip_hdrid))"
  by (simp add: hdrid_eval)

lemma hdrid_ok_6: "list_all hdrid_ok (take 13 (drop 78 sip_hdrid))"
  by (simp add: hdrid_eval)

lemma hdrid_ok_7: "list_all hdrid_ok (take 13 (drop 91 sip_hdrid))"
  by (simp add: hdrid_eval)

lemma hdrid_hash: "list_all hdrid_ok sip_hdrid"
proof (rule list_all_chunks)
  fix k :: nat assume "k < 8"
  then consider "k = 0" | "k = 1" | "k = 2" | "k = 3" | "k = 4" | "k = 5" | "k = 6" | "k = 7" by linarith
  then show "list_all hdrid_ok (take 13 (drop (13 * k) sip_hdrid))"
    by cases (use hdrid_ok_0 hdrid_ok_1 hdrid_ok_2 hdrid_ok_3 hdrid_ok_4 hdrid_ok_5 hdrid_ok_6 hdrid_ok_7 in simp_all)
qed (simp add: sip_hdrid_def)

lemma hdrid_distinct: "distinct (List.map snd sip_hdrid)" "distinct (List.map fst sip_hdrid)"
  by (simp_all add: sip_hdrid_def)

lemma SIP_HDR_hash: "(n, i) \<in> set sip_hdrid \<Longrightarrow> SIP_HDR n = i \<and> hdr_hash (hdrid_name n) = i"
  using hdrid_hash hdrid_distinct(2) by (auto simp: SIP_HDR_def list_all_iff hdrid_ok_def)

lemma compact_hash: "list_all (\<lambda>(c, n). hdr_hash [c] = SIP_HDR n) compact_hdr"
  by (simp add: compact_hdr_def hdr_hash_def tolower_def Let_def)

section \<open>Printed headers\<close>

definition hdr_line :: "string \<times> string \<Rightarrow> string" where
  "hdr_line h = fst h @ '': '' @ snd h @ crlf"

definition hdr_ok :: "string \<times> string \<Rightarrow> bool" where
  "hdr_ok h \<longleftrightarrow> fst h \<noteq> [] \<and> (\<forall>c\<in>set (fst h). c \<notin> set ws4 \<and> c \<noteq> CHR '':'') \<and>
     (snd h \<noteq> [] \<longrightarrow> hd (snd h) \<notin> set ws4 \<and> last (snd h) \<notin> set ws4) \<and>
     (\<forall>c\<in>set (snd h). c \<noteq> CHR 0x0D \<and> c \<noteq> CHR 0x0A) \<and>
     (hdr_comma_separated (hdr_hash (fst h)) \<longrightarrow> CHR '','' \<notin> set (snd h))"

text \<open>What reading them does: one header after the other, until there is an error.\<close>

fun add_all :: "inet_lib \<Rightarrow> sip_msg \<Rightarrow> (string \<times> string) list \<Rightarrow> ub + errno option \<times> sip_msg" where
  "add_all net msg [] = Inr (None, msg)"
| "add_all net msg (h # hs) =
    obind (hdr_add net msg (fst h) (hdr_hash (fst h)) (snd h) True True) (\<lambda>(err, msg).
      if err \<noteq> None then Inr (err, msg) else add_all net msg hs)"

lemma ws4_simps: "c \<notin> set ws4 \<longleftrightarrow> c \<noteq> CHR '' '' \<and> c \<noteq> CHR 0x09 \<and> c \<noteq> CHR 0x0D \<and> c \<noteq> CHR 0x0A"
  by (simp add: ws4_def)

text \<open>Between headers, and behind the line of a header that starts at \<open>p\<close>.\<close>

definition ready :: "hscan \<Rightarrow> bool" where
  "ready st \<longleftrightarrow> hs_name st = None \<and> hs_lf st = 0 \<and> \<not> hs_comsep st \<and> hs_v st = None \<and> hs_cv st = None"

definition line_read :: "nat \<Rightarrow> string \<times> string \<Rightarrow> hscan \<Rightarrow> bool" where
  "line_read p h st \<longleftrightarrow> hs_name st = Some p \<and> hs_nl st = length (fst h) \<and> hs_lf st = 1 \<and> hs_id st = hdr_hash (fst h) \<and>
     hs_cv st = hs_v st \<and> (if snd h = [] then hs_v st = None
       else hs_v st = Some (p + length (fst h) + 2) \<and> hs_ws st = 2)"

declare hdr_scan.simps(2) [simp del]

lemma scan_char:
  "c \<notin> set ws4 \<Longrightarrow> hs_lf st = 0 \<Longrightarrow> c = CHR '','' \<and> hs_comsep st \<longrightarrow> hs_quote st \<Longrightarrow> hdr_char t p c st = Inr st' \<Longrightarrow>
    hdr_scan net t (c # rest) p st msg = hdr_scan net t rest (p + 1) st' msg"
  unfolding hdr_scan.simps by (auto simp: ws4_simps)

lemma scan_blank:
  "c = CHR '' '' \<or> c = CHR 0x09 \<Longrightarrow>
    hdr_scan net t (c # rest) p st msg = hdr_scan net t rest (p + 1) (st\<lparr>hs_lf := 0, hs_ws := hs_ws st + 1\<rparr>) msg"
  by (simp only: hdr_scan.simps if_True)

lemma scan_crlf:
  "hs_lf st = 0 \<Longrightarrow> hdr_scan net t (crlf @ rest) p st msg = hdr_scan net t rest (p + 2) (st\<lparr>hs_lf := 1, hs_ws := hs_ws st + 2\<rparr>) msg"
proof -
  have "st\<lparr>hs_ws := hs_ws st + 1, hs_lf := 1, hs_ws := hs_ws st + 1 + 1\<rparr> = st\<lparr>hs_lf := 1, hs_ws := hs_ws st + 2\<rparr>"
    by simp
  then show "hs_lf st = 0 \<Longrightarrow> ?thesis" by (simp add: crlf_def hdr_scan.simps)
qed

lemma scan_name:
  "\<forall>c\<in>set ns. c \<notin> set ws4 \<and> c \<noteq> CHR '':'' \<Longrightarrow> hs_name st = Some a \<Longrightarrow> hs_nl st = 0 \<Longrightarrow> hs_lf st = 0 \<Longrightarrow>
    \<not> hs_comsep st \<Longrightarrow> hs_ws st = 0 \<Longrightarrow> hdr_scan net t (ns @ rest) p st msg = hdr_scan net t rest (p + length ns) st msg"
proof (induction ns arbitrary: p)
  case (Cons c ns)
  have "hdr_char t p c st = Inr st" using Cons.prems by (simp add: hdr_char_def)
  with Cons show ?case by (simp add: scan_char)
qed simp

definition trail :: "string \<Rightarrow> nat \<Rightarrow> nat" where
  "trail vs w = fold (\<lambda>c w. if c = CHR '' '' \<or> c = CHR 0x09 then w + 1 else 0) vs w"

definition quotes :: "string \<Rightarrow> bool \<Rightarrow> bool" where
  "quotes vs q = fold (\<lambda>c q. if c = CHR 0x22 then \<not> q else q) vs q"

lemma scan_value:
  "\<forall>c\<in>set vs. c \<noteq> CHR 0x0D \<and> c \<noteq> CHR 0x0A \<Longrightarrow> hs_comsep st \<longrightarrow> CHR '','' \<notin> set vs \<Longrightarrow> hs_name st \<noteq> None \<Longrightarrow>
    hs_nl st \<noteq> 0 \<Longrightarrow> hs_lf st = 0 \<Longrightarrow> hs_cv st \<noteq> None \<Longrightarrow> hs_v st \<noteq> None \<Longrightarrow>
    hdr_scan net t (vs @ rest) p st msg =
      hdr_scan net t rest (p + length vs) (st\<lparr>hs_quote := quotes vs (hs_quote st), hs_ws := trail vs (hs_ws st)\<rparr>) msg"
proof (induction vs arbitrary: p st)
  case Nil
  then show ?case by (simp add: quotes_def trail_def)
next
  case (Cons c vs)
  show ?case
  proof (cases "c = CHR '' '' \<or> c = CHR 0x09")
    case True
    let ?st = "st\<lparr>hs_lf := 0, hs_ws := hs_ws st + 1\<rparr>"
    have "hdr_scan net t ((c # vs) @ rest) p st msg = hdr_scan net t (vs @ rest) (p + 1) ?st msg"
      using True by (simp add: scan_blank)
    also have "\<dots> = hdr_scan net t rest (p + 1 + length vs) (?st\<lparr>hs_quote := quotes vs (hs_quote st),
        hs_ws := trail vs (hs_ws st + 1)\<rparr>) msg"
      using Cons.prems Cons.IH [of ?st "p + 1"] by simp
    also have "?st\<lparr>hs_quote := quotes vs (hs_quote st), hs_ws := trail vs (hs_ws st + 1)\<rparr> =
        st\<lparr>hs_quote := quotes (c # vs) (hs_quote st), hs_ws := trail (c # vs) (hs_ws st)\<rparr>"
      using True Cons.prems by (auto simp: quotes_def trail_def)
    finally show ?thesis by simp
  next
    case False
    define q where "q = (if c = CHR 0x22 then \<not> hs_quote st else hs_quote st)"
    have ch: "hdr_char t p c st = Inr (st\<lparr>hs_quote := q, hs_ws := 0\<rparr>)"
    proof -
      obtain a i j where "hs_name st = Some a" "hs_cv st = Some i" "hs_v st = Some j" using Cons.prems(3,6,7) by blast
      then show ?thesis using Cons.prems(4) by (cases "c = CHR 0x22") (simp_all add: hdr_char_def q_def)
    qed
    have "c \<notin> set ws4" "c = CHR '','' \<and> hs_comsep st \<longrightarrow> hs_quote st"
      using Cons.prems False by (auto simp: ws4_simps)
    then have "hdr_scan net t ((c # vs) @ rest) p st msg = hdr_scan net t (vs @ rest) (p + 1) (st\<lparr>hs_quote := q, hs_ws := 0\<rparr>) msg"
      using Cons.prems ch by (simp add: scan_char)
    also have "\<dots> = hdr_scan net t rest (p + 1 + length vs) ((st\<lparr>hs_quote := q, hs_ws := 0\<rparr>)\<lparr>hs_quote := quotes vs q,
        hs_ws := trail vs 0\<rparr>) msg"
      using Cons.prems Cons.IH [of "st\<lparr>hs_quote := q, hs_ws := 0\<rparr>" "p + 1"] by simp
    finally show ?thesis using False by (simp add: quotes_def trail_def q_def)
  qed
qed

lemma trail_last: "vs \<noteq> [] \<Longrightarrow> last vs \<notin> set ws4 \<Longrightarrow> trail vs w = 0"
  by (cases vs rule: rev_cases) (simp_all add: trail_def ws4_simps)

lemma scan_line:
  assumes st: "ready st" and h: "hdr_ok h" and t: "drop p t = hdr_line h @ rest"
  shows "\<exists>st'. line_read p h st' \<and>
    hdr_scan net t (hdr_line h @ rest) p st msg = hdr_scan net t rest (p + length (hdr_line h)) st' msg"
proof -
  obtain n ns where n: "fst h = n # ns" using h by (cases "fst h") (auto simp: hdr_ok_def)
  define v where "v = snd h"
  have nok: "\<forall>c\<in>set (n # ns). c \<notin> set ws4 \<and> c \<noteq> CHR '':''" using h by (simp add: hdr_ok_def n)
  have line: "hdr_line h @ rest = n # ns @ '': '' @ v @ crlf @ rest" by (simp add: hdr_line_def n v_def)
  define st1 where "st1 = st\<lparr>hs_name := Some p, hs_nl := 0, hs_ws := 0\<rparr>"
  define st2 where "st2 = st1\<lparr>hs_nl := length (fst h), hs_id := hdr_hash (fst h),
    hs_comsep := hdr_comma_separated (hdr_hash (fst h))\<rparr>"
  have s1: "hdr_scan net t (hdr_line h @ rest) p st msg = hdr_scan net t (ns @ '': '' @ v @ crlf @ rest) (p + 1) st1 msg"
    using st nok unfolding line by (simp add: scan_char [where st' = st1] ready_def hdr_char_def st1_def)
  also have "\<dots> = hdr_scan net t ('': '' @ v @ crlf @ rest) (p + 1 + length ns) st1 msg"
    by (rule scan_name) (use st nok in \<open>auto simp: ready_def st1_def\<close>)
  also have "\<dots> = hdr_scan net t ('' '' @ v @ crlf @ rest) (p + 2 + length ns) st2 msg"
  proof -
    have "take (1 + length ns) (drop p t) = fst h" unfolding t line by (simp add: n)
    then have "hdr_char t (p + 1 + length ns) (CHR '':'') st1 = Inr st2"
      by (simp add: hdr_char_def st1_def st2_def hs_text_def n Let_def)
    moreover have "hs_lf st1 = 0" "\<not> hs_comsep st1" using st by (simp_all add: st1_def ready_def)
    ultimately show ?thesis by (simp add: scan_char ws4_def)
  qed
  also have "\<dots> = hdr_scan net t (v @ crlf @ rest) (p + 3 + length ns) (st2\<lparr>hs_ws := 1\<rparr>) msg"
  proof -
    have "st2\<lparr>hs_lf := 0, hs_ws := hs_ws st2 + 1\<rparr> = st2\<lparr>hs_ws := 1\<rparr>"
      using st by (intro hscan.equality) (simp_all add: st2_def st1_def ready_def)
    then show ?thesis by (simp add: scan_blank numeral_3_eq_3)
  qed
  finally have s2: "hdr_scan net t (hdr_line h @ rest) p st msg =
    hdr_scan net t (v @ crlf @ rest) (p + 3 + length ns) (st2\<lparr>hs_ws := 1\<rparr>) msg" .
  have len: "p + length (hdr_line h) = p + 3 + length ns + length v + 2" by (simp add: hdr_line_def n v_def crlf_def)
  show ?thesis
  proof (cases v)
    case Nil
    have "hdr_scan net t (hdr_line h @ rest) p st msg =
        hdr_scan net t rest (p + length (hdr_line h)) (st2\<lparr>hs_lf := 1, hs_ws := 3\<rparr>) msg"
      unfolding s2 len using st by (simp add: Nil scan_crlf st2_def st1_def ready_def numeral_3_eq_3)
    moreover have "line_read p h (st2\<lparr>hs_lf := 1, hs_ws := 3\<rparr>)"
      using st Nil by (simp add: line_read_def st2_def st1_def ready_def v_def)
    ultimately show ?thesis by blast
  next
    case (Cons c vs)
    let ?q = "p + 3 + length ns"
    have vok: "\<forall>c\<in>set v. c \<noteq> CHR 0x0D \<and> c \<noteq> CHR 0x0A" "c \<notin> set ws4" "last v \<notin> set ws4"
      "hdr_comma_separated (hdr_hash (fst h)) \<longrightarrow> CHR '','' \<notin> set v"
      using h Cons by (auto simp: hdr_ok_def v_def)
    define st3 where "st3 = st2\<lparr>hs_quote := c = CHR 0x22, hs_cv := Some ?q, hs_v := Some ?q, hs_ws := 0\<rparr>"
    have ch: "hdr_char t ?q c (st2\<lparr>hs_ws := 1\<rparr>) = Inr st3"
      using st by (simp add: hdr_char_def st2_def st1_def st3_def ready_def n Let_def)
    have "hdr_scan net t (v @ crlf @ rest) ?q (st2\<lparr>hs_ws := 1\<rparr>) msg = hdr_scan net t (vs @ crlf @ rest) (?q + 1) st3 msg"
    proof -
      have "hs_lf st2 = 0" "hs_comsep st2 \<longrightarrow> c \<noteq> CHR '',''" using st vok by (auto simp: st2_def st1_def ready_def Cons)
      with vok ch show ?thesis unfolding Cons append_Cons by (intro scan_char) auto
    qed
    also have "\<dots> = hdr_scan net t (crlf @ rest) (?q + 1 + length vs)
        (st3\<lparr>hs_quote := quotes vs (hs_quote st3), hs_ws := trail vs (hs_ws st3)\<rparr>) msg"
      by (rule scan_value) (use st vok in \<open>auto simp: st3_def st2_def st1_def ready_def Cons n\<close>)
    also have "trail vs (hs_ws st3) = 0" using vok(3) trail_last [of vs] by (cases vs) (auto simp: Cons st3_def trail_def)
    finally have s3: "hdr_scan net t (v @ crlf @ rest) ?q (st2\<lparr>hs_ws := 1\<rparr>) msg = hdr_scan net t (crlf @ rest) (?q + length v)
        (st3\<lparr>hs_quote := quotes vs (hs_quote st3), hs_ws := 0\<rparr>) msg" by (simp add: Cons add.assoc)
    let ?st = "st3\<lparr>hs_quote := quotes vs (hs_quote st3), hs_lf := 1, hs_ws := 2\<rparr>"
    have "hdr_scan net t (hdr_line h @ rest) p st msg = hdr_scan net t rest (p + length (hdr_line h)) ?st msg"
    proof -
      have "(st3\<lparr>hs_quote := quotes vs (hs_quote st3), hs_ws := 0\<rparr>)\<lparr>hs_lf := 1, hs_ws := 0 + 2\<rparr> = ?st"
        by (rule hscan.equality) simp_all
      moreover have "hs_lf st3 = 0" using st by (simp add: st3_def st2_def st1_def ready_def)
      ultimately show ?thesis unfolding s2 s3 len by (simp add: scan_crlf add.assoc numeral_2_eq_2)
    qed
    moreover have "line_read p h ?st"
      using st by (simp add: line_read_def st3_def st2_def st1_def ready_def n v_def [symmetric] Cons)
    ultimately show ?thesis by blast
  qed
qed

text \<open>The header is added when its line is over.\<close>

definition next_st :: "hscan \<Rightarrow> hscan" where
  "next_st st = st\<lparr>hs_comsep := False, hs_name := None, hs_cv := None, hs_v := None, hs_lf := 0\<rparr>"

lemma next_st_ready: "ready (next_st st)"
  by (simp add: ready_def next_st_def)

lemma line_read_end:
  assumes st: "line_read p h st" and h: "hdr_ok h" and t: "drop p t = hdr_line h @ rest"
  shows "hdr_end net t (p + length (hdr_line h) + k) (st\<lparr>hs_lf := lf + 1, hs_ws := hs_ws st + k\<rparr>) msg =
    obind (hdr_add net msg (fst h) (hdr_hash (fst h)) (snd h) True True) (\<lambda>(err, msg).
      Inr (if err \<noteq> None then Stop err msg else if lf > 0 then Stop None msg
        else Cont (next_st (st\<lparr>hs_lf := 1, hs_ws := hs_ws st + k\<rparr>)) msg))"
proof -
  have name: "hs_text t (hs_name st) (hs_nl st) = fst h" "hs_nl st \<noteq> 0"
    using st h by (simp_all add: line_read_def hs_text_def t hdr_line_def hdr_ok_def)
  have val: "hs_value t (p + length (hdr_line h) + k) (hs_ws st + k) (hs_cv st) = snd h"
  proof (cases "snd h = []")
    case False
    have "drop (p + length (fst h) + 2) t = drop (length (fst h) + 2) (drop p t)" by (simp add: add_ac)
    also have "\<dots> = snd h @ crlf @ rest" by (simp add: t hdr_line_def)
    finally show ?thesis using False st by (simp add: line_read_def hs_value_def hs_text_def hdr_line_def crlf_def)
  qed (use st in \<open>simp add: line_read_def hs_value_def\<close>)
  have cv: "hs_cv st = hs_v st" using st by (simp add: line_read_def)
  have nid: "hs_id st = hdr_hash (fst h)" using st by (simp add: line_read_def)
  let ?a = "hdr_add net msg (fst h) (hdr_hash (fst h)) (snd h) True True"
  show ?thesis
  proof (cases ?a)
    case (Inr x)
    obtain err msg' where x: "x = (err, msg')" by fastforce
    show ?thesis using Inr name val cv nid unfolding x
      by (cases err) (simp_all add: hdr_end_def next_st_def)
  qed (use name val cv nid in \<open>simp add: hdr_end_def\<close>)
qed

lemma scan_end:
  assumes st: "line_read p h st" and h: "hdr_ok h" and t: "drop p t = hdr_line h @ rest"
  shows "hdr_scan net t (crlf @ body) (p + length (hdr_line h)) st msg =
    obind (hdr_add net msg (fst h) (hdr_hash (fst h)) (snd h) True True) (\<lambda>(err, msg).
      Inr (case err of Some e \<Rightarrow> Inl e | None \<Rightarrow> Inr (msg, p + length (hdr_line h) + 2)))"
proof -
  let ?a = "hdr_add net msg (fst h) (hdr_hash (fst h)) (snd h) True True" and ?q = "p + length (hdr_line h)"
  have lf: "hs_lf st = 1" using st by (simp add: line_read_def)
  have "hdr_scan net t (crlf @ body) ?q st msg =
      obind (hdr_end net t (?q + 2) (st\<lparr>hs_lf := 1 + 1, hs_ws := hs_ws st + 2\<rparr>) msg) (\<lambda>r. case r of
           Stop None msg \<Rightarrow> Inr (Inr (msg, ?q + 2))
         | Stop (Some e) msg \<Rightarrow> Inr (Inl e)
         | Cont st msg \<Rightarrow> Inr (Inl ENODATA))"
    using lf by (simp add: crlf_def hdr_scan.simps numeral_2_eq_2 cong: scan_out.case_cong option.case_cong)
  also have "\<dots> = obind ?a (\<lambda>(err, msg). Inr (case err of Some e \<Rightarrow> Inl e | None \<Rightarrow> Inr (msg, ?q + 2)))"
    unfolding line_read_end [OF st h t] by (cases ?a) (auto split: option.splits)
  finally show ?thesis .
qed

lemma scan_next:
  assumes st: "line_read p h st" and h: "hdr_ok h" and t: "drop p t = hdr_line h @ rest" and c: "c \<notin> set ws4"
  shows "\<exists>st'. ready st' \<and> hdr_scan net t (c # cs) (p + length (hdr_line h)) st msg =
    obind (hdr_add net msg (fst h) (hdr_hash (fst h)) (snd h) True True) (\<lambda>(err, msg).
      case err of Some e \<Rightarrow> Inr (Inl e) | None \<Rightarrow> hdr_scan net t (c # cs) (p + length (hdr_line h)) st' msg)"
proof -
  let ?a = "hdr_add net msg (fst h) (hdr_hash (fst h)) (snd h) True True" and ?q = "p + length (hdr_line h)"
  let ?st = "next_st (st\<lparr>hs_lf := 1, hs_ws := hs_ws st + 0\<rparr>)"
  have lf: "hs_lf st = 1" using st by (simp add: line_read_def)
  have e: "hdr_end net t ?q st msg = obind ?a (\<lambda>(err, msg). Inr (if err \<noteq> None then Stop err msg else Cont ?st msg))"
  proof -
    have "st\<lparr>hs_lf := 0 + 1, hs_ws := hs_ws st + 0\<rparr> = st" by (rule hscan.equality) (simp_all add: lf)
    with line_read_end [OF st h t, of net 0 0 msg] show ?thesis by (simp cong: if_cong)
  qed
  have again: "hdr_scan net t (c # cs) ?q ?st msg = (case hdr_char t ?q c ?st of
      Inl e \<Rightarrow> Inr (Inl e) | Inr st' \<Rightarrow> hdr_scan net t cs (?q + 1) st' msg)" for msg
    using c next_st_ready unfolding hdr_scan.simps by (auto simp: ws4_simps ready_def)
  have "hdr_scan net t (c # cs) ?q st msg = obind (hdr_end net t ?q st msg) (\<lambda>r. case r of
           Stop None msg \<Rightarrow> Inr (Inr (msg, ?q))
         | Stop (Some e) msg \<Rightarrow> Inr (Inl e)
         | Cont st' msg \<Rightarrow> (case hdr_char t ?q c st' of
                 Inl e \<Rightarrow> Inr (Inl e)
               | Inr st' \<Rightarrow> hdr_scan net t cs (?q + 1) st' msg))"
    using c lf by (simp add: hdr_scan.simps ws4_simps)
  also have "\<dots> = obind ?a (\<lambda>(err, msg). case err of Some e \<Rightarrow> Inr (Inl e) | None \<Rightarrow> hdr_scan net t (c # cs) ?q ?st msg)"
    unfolding e again by (cases ?a) (auto split: option.splits)
  finally show ?thesis using next_st_ready by blast
qed

lemma scan_headers:
  assumes "hs \<noteq> []" "list_all hdr_ok hs" "ready st" "drop p t = concat (List.map hdr_line hs) @ crlf @ body"
  shows "hdr_scan net t (concat (List.map hdr_line hs) @ crlf @ body) p st msg =
    obind (add_all net msg hs) (\<lambda>(err, msg).
      Inr (case err of Some e \<Rightarrow> Inl e | None \<Rightarrow> Inr (msg, p + length (concat (List.map hdr_line hs)) + 2)))"
  using assms
proof (induction hs arbitrary: p st msg)
  case (Cons h hs)
  let ?rest = "concat (List.map hdr_line hs) @ crlf @ body" and ?q = "p + length (hdr_line h)"
  let ?a = "hdr_add net msg (fst h) (hdr_hash (fst h)) (snd h) True True"
  from Cons.prems have h: "hdr_ok h" and hs: "list_all hdr_ok hs" and t: "drop p t = hdr_line h @ ?rest" by simp_all
  obtain st' where st': "line_read p h st'" and s: "hdr_scan net t (hdr_line h @ ?rest) p st msg = hdr_scan net t ?rest ?q st' msg"
    using scan_line [OF Cons.prems(3) h t] by blast
  have goal: "hdr_scan net t (concat (List.map hdr_line (h # hs)) @ crlf @ body) p st msg = hdr_scan net t ?rest ?q st' msg"
    using s by simp
  show ?case
  proof (cases hs)
    case Nil
    have "hdr_scan net t ?rest ?q st' msg =
        obind ?a (\<lambda>(err, msg). Inr (case err of Some e \<Rightarrow> Inl e | None \<Rightarrow> Inr (msg, ?q + 2)))"
      using scan_end [OF st' h t] by (simp add: Nil)
    then show ?thesis unfolding goal by (cases ?a) (auto simp: Nil split: option.splits)
  next
    case (Cons h2 hs2)
    obtain c cs where c: "?rest = c # cs" "c \<notin> set ws4"
      using hs by (cases "fst h2") (auto simp: Cons hdr_line_def hdr_ok_def)
    obtain st2 where st2: "ready st2" and n: "hdr_scan net t ?rest ?q st' msg = obind ?a (\<lambda>(err, msg). case err of
        Some e \<Rightarrow> Inr (Inl e) | None \<Rightarrow> hdr_scan net t ?rest ?q st2 msg)"
      using scan_next [OF st' h t c(2), of net cs msg] unfolding c(1) by blast
    have t2: "drop ?q t = ?rest" using t by (metis append_eq_conv_conj drop_drop add.commute)
    have IH: "hdr_scan net t ?rest ?q st2 msg = obind (add_all net msg hs) (\<lambda>(err, msg).
        Inr (case err of Some e \<Rightarrow> Inl e | None \<Rightarrow> Inr (msg, ?q + length (concat (List.map hdr_line hs)) + 2)))" for msg
      by (rule Cons.IH [OF _ hs st2 t2]) (simp add: Cons)
    show ?thesis unfolding goal n IH by (cases ?a) (auto simp: add.assoc split: option.splits cong: option.case_cong)
  qed
qed simp

end
