(* ===== verification/Re_Sip_Trip.thy ===== *)
theory Re_Sip_Trip
  imports Re_Sip_Msg
begin

text \<open>
  SIP messages are read back (\<open>src/re/src/sip/msg.c\<close>): a printed request or response is read as its
  start line and, one after the other, its headers; the headers of the result are those of the text
  and are found by name and by identifier.
\<close>

section \<open>The start line\<close>

lemma sip_class_chars:
  "\<forall>x\<in>set ws4. class_char x \<and> nonletter x" "\<forall>x\<in>set [CHR 0x0D, CHR 0x0A]. class_char x \<and> nonletter x"
  "\<forall>x\<in>set [CHR 0x0D]. class_char x \<and> nonletter x" "\<forall>x\<in>set [CHR 0x0A]. class_char x \<and> nonletter x"
  by code_simp+

lemma ws4_len: "length ws4 \<le> 60" "CHR '' '' \<in> set ws4"
  by (simp_all add: ws4_def)

lemma start_line_read:
  assumes x: "x \<noteq> []" "set x \<inter> set ws4 = {}" and y: "y \<noteq> []" "set y \<inter> set ws4 = {}"
    and z: "CHR 0x0D \<notin> set z" "CHR 0x0A \<notin> set z" and len: "length (x @ '' '' @ y @ '' '' @ z @ crlf @ r) < 2 ^ 32"
  shows "\<exists>c. start_line (x @ '' '' @ y @ '' '' @ z @ crlf @ r) = Some c \<and> c 0 = Some x \<and> c 1 = Some y \<and>
    c 2 = Some z \<and> c 3 = Some [CHR 0x0D]"
proof -
  let ?c = "(\<lambda>_. None)(0 := Some x)" let ?d = "?c(Suc 0 := Some y)" let ?e = "?d(Suc (Suc 0) := Some z)"
  let ?f = "?e(Suc (Suc (Suc 0)) := Some [CHR 0x0D])"
  have 1: "re_try start_expr (x @ '' '' @ y @ '' '' @ z @ crlf @ r) False None 0 (\<lambda>_. None) =
      re_try ('' [^'' @ ws4 @ '']+ [^'' @ [CHR 0x0D, CHR 0x0A] @ '']*['' @ [CHR 0x0D] @ '']*['' @ [CHR 0x0A] @ '']1'')
        ('' '' @ y @ '' '' @ z @ crlf @ r) False None (Suc 0) ?c"
    using neg_class_split [OF class_chars(3) sip_class_chars(1) ws4_len(1), of x "'' '' @ y @ '' '' @ z @ crlf @ r"
        "'' [^'' @ ws4 @ '']+ [^'' @ [CHR 0x0D, CHR 0x0A] @ '']*['' @ [CHR 0x0D] @ '']*['' @ [CHR 0x0A] @ '']1''"
        0 "\<lambda>_. None"] x len ws4_len(2)
    by (simp add: start_expr_def)
  have 2: "re_try ('' [^'' @ ws4 @ '']+ [^'' @ [CHR 0x0D, CHR 0x0A] @ '']*['' @ [CHR 0x0D] @ '']*['' @ [CHR 0x0A] @ '']1'')
        ('' '' @ y @ '' '' @ z @ crlf @ r) False None (Suc 0) ?c =
      re_try ('' [^'' @ [CHR 0x0D, CHR 0x0A] @ '']*['' @ [CHR 0x0D] @ '']*['' @ [CHR 0x0A] @ '']1'')
        ('' '' @ z @ crlf @ r) False None (Suc (Suc 0)) ?d"
    using neg_class_split [OF class_chars(3) sip_class_chars(1) ws4_len(1), of y "'' '' @ z @ crlf @ r"
        "'' [^'' @ [CHR 0x0D, CHR 0x0A] @ '']*['' @ [CHR 0x0D] @ '']*['' @ [CHR 0x0A] @ '']1''" "Suc 0" ?c] y len ws4_len(2)
    by (simp add: re_try_literal)
  have 3: "re_try ('' [^'' @ [CHR 0x0D, CHR 0x0A] @ '']*['' @ [CHR 0x0D] @ '']*['' @ [CHR 0x0A] @ '']1'')
        ('' '' @ z @ crlf @ r) False None (Suc (Suc 0)) ?d =
      re_try (''['' @ [CHR 0x0D] @ '']*['' @ [CHR 0x0A] @ '']1'') (crlf @ r) False None (Suc (Suc (Suc 0))) ?e"
    using neg_class_split [OF class_chars(2) sip_class_chars(2), of z "crlf @ r"
        "''['' @ [CHR 0x0D] @ '']*['' @ [CHR 0x0A] @ '']1''" "Suc (Suc 0)" ?d] z len
    by (simp add: re_try_literal crlf_def)
  have 4: "re_try (''['' @ [CHR 0x0D] @ '']*['' @ [CHR 0x0A] @ '']1'') (crlf @ r) False None (Suc (Suc (Suc 0))) ?e =
      re_try (''['' @ [CHR 0x0A] @ '']1'') (CHR 0x0A # r) False None (Suc (Suc (Suc (Suc 0)))) ?f"
    using pos_class_split [OF class_chars(2) sip_class_chars(3), of "[CHR 0x0D]" "CHR 0x0A # r"
        "''['' @ [CHR 0x0A] @ '']1''" "Suc (Suc (Suc 0))" ?e] len
    by (simp add: crlf_def)
  have 5: "re_try (''['' @ [CHR 0x0A] @ '']1'') (CHR 0x0A # r) False None (Suc (Suc (Suc (Suc 0)))) ?f =
      Done None (?f(Suc (Suc (Suc (Suc 0))) := Some [CHR 0x0A]))"
    using one_class [OF sip_class_chars(4), of "CHR 0x0A" "[]" r "Suc (Suc (Suc (Suc 0)))" ?f]
    by (simp add: re_try.simps(1))
  have "start_line (x @ '' '' @ y @ '' '' @ z @ crlf @ r) = Some (?f(Suc (Suc (Suc (Suc 0))) := Some [CHR 0x0A]))"
    unfolding start_line_def 1 2 3 4 5 by simp
  then show ?thesis by (intro exI conjI, assumption) (simp_all add: numeral_2_eq_2 numeral_3_eq_3)
qed

section \<open>Whole messages\<close>

definition sip_head :: "string \<Rightarrow> (string \<times> string) list \<Rightarrow> string" where
  "sip_head l hs = l @ crlf @ concat (List.map hdr_line hs) @ crlf"

definition req_line :: "string \<Rightarrow> string \<Rightarrow> string" where
  "req_line met ruri = met @ '' '' @ ruri @ '' SIP/2.0''"

definition resp_line :: "string \<Rightarrow> string \<Rightarrow> string" where
  "resp_line code reason = ''SIP/2.0 '' @ code @ '' '' @ reason"

definition sip_word :: "string \<Rightarrow> bool" where
  "sip_word s \<longleftrightarrow> s \<noteq> [] \<and> list_all (\<lambda>c. c \<notin> set ws4) s"

definition msg_start :: "u64 \<Rightarrow> sip_msg" where
  "msg_start rnd = (msg_zero \<lparr>h_bucket = replicate (unat HDR_HASH_SIZE) [], h_bsize = HDR_HASH_SIZE\<rparr>)\<lparr>sm_tag := rnd\<rparr>"

definition read_headers :: "inet_lib \<Rightarrow> sip_msg \<Rightarrow> (string \<times> string) list \<Rightarrow> nat \<Rightarrow> ub + (errno + sip_msg \<times> nat)" where
  "read_headers net msg hs n = obind (add_all net msg hs) (\<lambda>(err, msg).
     Inr (case err of Some e \<Rightarrow> Inl e | None \<Rightarrow> Inr (msg, n)))"

lemma sip_word: "sip_word s \<longleftrightarrow> s \<noteq> [] \<and> set s \<inter> set ws4 = {}"
  by (auto simp: sip_word_def list_all_iff)

lemma hs_init_ready: "ready hs_init"
  by (simp add: ready_def hs_init_def)

lemma scan_head:
  assumes "hs \<noteq> []" "list_all hdr_ok hs" "p = length l + 2"
  shows "hdr_scan net (sip_head l hs @ body) (drop p (sip_head l hs @ body)) p hs_init msg =
    read_headers net msg hs (length (sip_head l hs))"
proof -
  have d: "drop p (sip_head l hs @ body) = concat (List.map hdr_line hs) @ crlf @ body"
    using assms(3) by (simp add: sip_head_def crlf_def)
  have n: "p + length (concat (List.map hdr_line hs)) + 2 = length (sip_head l hs)"
    using assms(3) by (simp add: sip_head_def crlf_def)
  show ?thesis unfolding d using scan_headers [OF assms(1,2) hs_init_ready d] unfolding n by (simp add: read_headers_def)
qed

lemma request_decode:
  assumes x: "sip_word met" and y: "sip_word ruri" and hs: "hs \<noteq> []" "list_all hdr_ok hs"
    and len: "length (sip_head (req_line met ruri) hs @ body) < 2 ^ 32"
  shows "sip_msg_decode net rnd (sip_head (req_line met ruri) hs @ body) =
    obind (uri_decode (pton_af net) (Some ruri)) (\<lambda>(err, uri).
      if err \<noteq> None then Inr (Inl EBADMSG)
      else read_headers net ((msg_start rnd)\<lparr>sm_req := True, sm_met := Some met, sm_ruri := Some ruri,
        sm_ver := Some ''SIP/2.0'', sm_uri := uri\<rparr>) hs (length (sip_head (req_line met ruri) hs)))"
proof -
  let ?t = "sip_head (req_line met ruri) hs @ body" let ?r = "concat (List.map hdr_line hs) @ crlf @ body"
  have t: "?t = met @ '' '' @ ruri @ '' '' @ ''SIP/2.0'' @ crlf @ ?r" by (simp add: sip_head_def req_line_def)
  obtain c where c: "start_line ?t = Some c" "c 0 = Some met" "c (Suc 0) = Some ruri" "c 2 = Some ''SIP/2.0''" "c 3 = Some [CHR 0x0D]"
    using start_line_read [of met ruri "''SIP/2.0''" ?r] x y len unfolding t sip_word by auto
  have p: "pl_l (c 0) + 1 + pl_l (c 1) + 1 + pl_l (c 2) + pl_l (c 3) + 1 = length (req_line met ruri) + 2"
    by (simp add: c pl_l_def req_line_def)
  have v: "pl_strcmp (c 2) (Some ''SIP/2.0'') = None" by (simp add: c pl_strcmp_eq)
  have s: "hdr_scan net ?t (drop (length (req_line met ruri) + 2) ?t) (length (req_line met ruri) + 2) hs_init msg =
      read_headers net msg hs (length (sip_head (req_line met ruri) hs))" for msg
    by (rule scan_head [OF hs refl])
  show ?thesis unfolding sip_msg_decode_def c(1) option.case Let_def p v s
    by (simp add: c msg_start_def case_prod_unfold cong: if_cong)
qed

lemma response_decode:
  assumes x: "sip_word code" and y: "list_all (\<lambda>c. c \<noteq> CHR 0x0D \<and> c \<noteq> CHR 0x0A) reason" "reason \<noteq> ''SIP/2.0''"
    and hs: "hs \<noteq> []" "list_all hdr_ok hs" and len: "length (sip_head (resp_line code reason) hs @ body) < 2 ^ 32"
  shows "sip_msg_decode net rnd (sip_head (resp_line code reason) hs @ body) =
    (if (ucast (pl_u32 (Some code)) :: u16) = 0 then Inr (Inl EBADMSG)
     else read_headers net ((msg_start rnd)\<lparr>sm_req := False, sm_ver := Some ''SIP/2.0'', sm_scode := ucast (pl_u32 (Some code)),
       sm_reason := Some reason\<rparr>) hs (length (sip_head (resp_line code reason) hs)))"
proof -
  let ?t = "sip_head (resp_line code reason) hs @ body" let ?r = "concat (List.map hdr_line hs) @ crlf @ body"
  have t: "?t = ''SIP/2.0'' @ '' '' @ code @ '' '' @ reason @ crlf @ ?r" by (simp add: sip_head_def resp_line_def)
  have w: "set ''SIP/2.0'' \<inter> set ws4 = {}" by (simp add: ws4_def)
  have x': "code \<noteq> []" "set code \<inter> set ws4 = {}" using x unfolding sip_word by blast+
  have z: "CHR 0x0D \<notin> set reason" "CHR 0x0A \<notin> set reason" using y(1) by (auto simp only: list_all_iff)
  obtain c where c: "start_line ?t = Some c" "c 0 = Some ''SIP/2.0''" "c (Suc 0) = Some code" "c 2 = Some reason" "c 3 = Some [CHR 0x0D]"
    using start_line_read [OF _ w x' z, of ?r] len unfolding t by auto
  have p: "pl_l (c 0) + 1 + pl_l (c 1) + 1 + pl_l (c 2) + pl_l (c 3) + 1 = length (resp_line code reason) + 2"
    by (simp add: c pl_l_def resp_line_def)
  have s: "hdr_scan net ?t (drop (length (resp_line code reason) + 2) ?t) (length (resp_line code reason) + 2) hs_init msg =
      read_headers net msg hs (length (sip_head (resp_line code reason) hs))" for msg
    by (rule scan_head [OF hs refl])
  have "pl_strcmp (c 2) (Some ''SIP/2.0'') \<noteq> None" using y by (simp add: c pl_strcmp_eq)
  then have v': "(pl_strcmp (c 2) (Some ''SIP/2.0'') = None) = False" by blast
  define k where "k = (ucast (pl_u32 (c 1)) :: u16)"
  have k: "ucast (pl_u32 (Some code)) = k" by (simp add: k_def c)
  show ?thesis unfolding sip_msg_decode_def c(1) option.case Let_def p s v' k k_def [symmetric]
    by (simp add: c msg_start_def)
qed

section \<open>The headers of the result\<close>

definition mk_hdr :: "string \<times> string \<Rightarrow> sip_hdr" where
  "mk_hdr h = \<lparr>hdr_name = fst h, hdr_val = snd h, hdr_id = hdr_hash (fst h)\<rparr>"

definition hdr_key :: "sip_hdr \<Rightarrow> u32" where
  "hdr_key h = word_of_int (hdr_id h)"

lemma hdr_parse_lists:
  "hdr_parse net msg hdr atomic = Inr (err, msg') \<Longrightarrow> sm_hdrl msg' = sm_hdrl msg \<and> sm_hdrht msg' = sm_hdrht msg \<and>
    sm_req msg' = sm_req msg \<and> sm_met msg' = sm_met msg \<and> sm_ruri msg' = sm_ruri msg \<and> sm_uri msg' = sm_uri msg \<and>
    sm_scode msg' = sm_scode msg \<and> sm_reason msg' = sm_reason msg \<and> sm_tag msg' = sm_tag msg"
  by (auto simp: hdr_parse_def Let_def obind_Inr_iff split: if_splits)

lemma hdr_add_lists:
  assumes "hdr_add net msg n i v True True = Inr (err, msg')" "hash_rep hdr_key (sm_hdrht msg) (sm_hdrl msg)"
  shows "sm_hdrl msg' = sm_hdrl msg @ [\<lparr>hdr_name = n, hdr_val = v, hdr_id = i\<rparr>] \<and>
    hash_rep hdr_key (sm_hdrht msg') (sm_hdrl msg') \<and>
    sm_req msg' = sm_req msg \<and> sm_met msg' = sm_met msg \<and> sm_ruri msg' = sm_ruri msg \<and> sm_uri msg' = sm_uri msg \<and>
    sm_scode msg' = sm_scode msg \<and> sm_reason msg' = sm_reason msg \<and> sm_tag msg' = sm_tag msg"
proof -
  let ?h = "\<lparr>hdr_name = n, hdr_val = v, hdr_id = i\<rparr>"
  have l: "hdr_lists msg ?h True True = msg\<lparr>sm_hdrht := hash_append (sm_hdrht msg) (hdr_key ?h) ?h, sm_hdrl := sm_hdrl msg @ [?h]\<rparr>"
    by (simp add: hdr_lists_def hdr_key_def Let_def)
  show ?thesis using hdr_parse_lists [of net "hdr_lists msg ?h True True" ?h True err msg'] assms
      ht.add [OF assms(2), of ?h] unfolding hdr_add_def Let_def l by simp
qed

lemma add_all_lists:
  "add_all net msg hs = Inr (None, msg') \<Longrightarrow> hash_rep hdr_key (sm_hdrht msg) (sm_hdrl msg) \<Longrightarrow>
    sm_hdrl msg' = sm_hdrl msg @ List.map mk_hdr hs \<and> hash_rep hdr_key (sm_hdrht msg') (sm_hdrl msg') \<and>
    sm_req msg' = sm_req msg \<and> sm_met msg' = sm_met msg \<and> sm_ruri msg' = sm_ruri msg \<and> sm_uri msg' = sm_uri msg \<and>
    sm_scode msg' = sm_scode msg \<and> sm_reason msg' = sm_reason msg \<and> sm_tag msg' = sm_tag msg"
proof (induction hs arbitrary: msg)
  case (Cons h hs)
  from Cons.prems(1) obtain m where a: "hdr_add net msg (fst h) (hdr_hash (fst h)) (snd h) True True = Inr (None, m)"
    and r: "add_all net m hs = Inr (None, msg')"
    by (auto simp: obind_Inr_iff split: if_splits)
  note m = hdr_add_lists [OF a Cons.prems(2)]
  from Cons.IH [OF r] m have "sm_hdrl msg' = sm_hdrl m @ List.map mk_hdr hs \<and> hash_rep hdr_key (sm_hdrht msg') (sm_hdrl msg') \<and>
    sm_req msg' = sm_req m \<and> sm_met msg' = sm_met m \<and> sm_ruri msg' = sm_ruri m \<and> sm_uri msg' = sm_uri m \<and>
    sm_scode msg' = sm_scode m \<and> sm_reason msg' = sm_reason m \<and> sm_tag msg' = sm_tag m" by blast
  with m show ?case by (auto simp: mk_hdr_def)
qed simp

lemma msg_start_rep: "hash_rep hdr_key (sm_hdrht (msg_start rnd)) (sm_hdrl (msg_start rnd))"
  by (simp add: msg_start_def msg_zero_def hash_rep_def HDR_HASH_SIZE_def)

section \<open>Headers are found\<close>

lemma of_char_tolower: "(of_char (tolower c) :: nat) = (if 65 \<le> (of_char c :: nat) \<and> (of_char c :: nat) \<le> 90 then of_char c + 32 else of_char c)"
  by (simp add: tolower_def Let_def)

lemma of_char_eq: "(of_char c :: nat) = of_char d \<Longrightarrow> c = d"
  by (simp only: of_char_eq_iff)

lemma tolower_x: "tolower c = CHR ''x'' \<longleftrightarrow> c \<in> {CHR ''x'', CHR ''X''}"
proof
  assume "tolower c = CHR ''x''"
  then have "(of_char (tolower c) :: nat) = 120" by simp
  then have "(of_char c :: nat) = 120 \<or> (of_char c :: nat) = 88" unfolding of_char_tolower by (auto split: if_splits)
  then show "c \<in> {CHR ''x'', CHR ''X''}" using of_char_eq [of c "CHR ''x''"] of_char_eq [of c "CHR ''X''"] by auto
next
  have "tolower (CHR ''x'') = CHR ''x''" "tolower (CHR ''X'') = CHR ''x''" by code_simp+
  then show "c \<in> {CHR ''x'', CHR ''X''} \<Longrightarrow> tolower c = CHR ''x''" by auto
qed

lemma tolower_dash: "tolower c = CHR ''-'' \<longleftrightarrow> c = CHR ''-''"
proof
  assume "tolower c = CHR ''-''"
  then have "(of_char (tolower c) :: nat) = 45" by simp
  then have "(of_char c :: nat) = 45" unfolding of_char_tolower by (auto split: if_splits)
  then show "c = CHR ''-''" using of_char_eq [of c "CHR ''-''"] by simp
next
  have "tolower (CHR ''-'') = CHR ''-''" by code_simp
  then show "c = CHR ''-'' \<Longrightarrow> tolower c = CHR ''-''" by simp
qed

text \<open>Names that differ in case only have the same identifier.\<close>

lemma hdr_hash_case:
  assumes "List.map tolower a = List.map tolower b"
  shows "hdr_hash a = hdr_hash b"
proof -
  have l: "length a = length b" using assms by (rule map_eq_imp_length_eq)
  have n: "tolower (a ! i) = tolower (b ! i)" if "i < length a" for i
    using arg_cong [OF assms, of "\<lambda>s. s ! i"] that l by simp
  have x: "a ! 0 \<in> {CHR ''x'', CHR ''X''} \<longleftrightarrow> b ! 0 \<in> {CHR ''x'', CHR ''X''}" if "a \<noteq> []"
    using n [of 0] that tolower_x [of "a ! 0"] tolower_x [of "b ! 0"] by simp
  have d: "a ! 1 = CHR ''-'' \<longleftrightarrow> b ! 1 = CHR ''-''" if "length a > 1"
    using n [of 1] that tolower_dash [of "a ! 1"] tolower_dash [of "b ! 1"] by simp
  show ?thesis
  proof (cases "length a > 1")
    case True
    then have "a \<noteq> []" "b \<noteq> []" using l by auto
    with True x d l hash_joaat_ci_case [OF assms] show ?thesis by (simp add: hdr_hash_def)
  next
    case False
    with n [of 0] l show ?thesis by (cases a; cases b) (simp_all add: hdr_hash_def)
  qed
qed

lemma hdr_found:
  assumes "hash_rep hdr_key (sm_hdrht msg) (sm_hdrl msg)"
  shows "sip_msg_hdr msg i = List.find (\<lambda>h. hdr_id h = i) (sm_hdrl msg)"
proof -
  have "hash_lookup (sm_hdrht msg) (word_of_int i) (\<lambda>h. hdr_id h = i) = List.find (\<lambda>h. hdr_id h = i) (sm_hdrl msg)"
    by (rule ht.look [OF assms]) (simp add: hdr_key_def)
  then show ?thesis by (simp add: sip_msg_hdr_def sip_msg_hdr_apply_def hash_list_def hash_lookup_def)
qed

lemma find_cong_set: "\<forall>x\<in>set xs. p x = q x \<Longrightarrow> List.find p xs = List.find q xs"
  by (induction xs) auto

lemma xhdr_found:
  assumes rep: "hash_rep hdr_key (sm_hdrht msg) (sm_hdrl msg)" and id: "\<forall>h\<in>set (sm_hdrl msg). hdr_id h = hdr_hash (hdr_name h)"
    and nul: "\<forall>h\<in>set (sm_hdrl msg). CHR 0x00 \<notin> set (hdr_name h)"
  shows "sip_msg_xhdr msg name = List.find (\<lambda>h. List.map tolower (hdr_name h) = List.map tolower name) (sm_hdrl msg)"
proof -
  let ?p = "\<lambda>h. pl_casecmp (Some (hdr_name h)) (Some name) = None"
  have p: "?p h \<longleftrightarrow> List.map tolower (hdr_name h) = List.map tolower name" if "h \<in> set (sm_hdrl msg)" for h
    by (rule pl_casecmp_iff) (use nul that in blast)
  have "hash_lookup (sm_hdrht msg) (word_of_int (hdr_hash name)) ?p = List.find ?p (sm_hdrl msg)"
  proof (rule ht.look [OF rep], intro ballI impI)
    fix h assume h: "h \<in> set (sm_hdrl msg)" "?p h"
    then have "hdr_hash (hdr_name h) = hdr_hash name" using p hdr_hash_case by blast
    then show "hdr_key h = word_of_int (hdr_hash name)" using id h by (simp add: hdr_key_def)
  qed
  then have "sip_msg_xhdr msg name = List.find ?p (sm_hdrl msg)"
    by (simp add: sip_msg_xhdr_def sip_msg_xhdr_apply_def hash_list_def hash_lookup_def)
  also have "\<dots> = List.find (\<lambda>h. List.map tolower (hdr_name h) = List.map tolower name) (sm_hdrl msg)"
    by (rule find_cong_set) (use p in blast)
  finally show ?thesis .
qed

text \<open>The identifiers of the headers that are taken apart.\<close>

lemma parsed_ids:
  "SIP_HDR ''VIA'' = 3961" "SIP_HDR ''ROUTE'' = 661" "SIP_HDR ''TO'' = 1449" "SIP_HDR ''FROM'' = 1963"
  "SIP_HDR ''CALL_ID'' = 3095" "SIP_HDR ''CSEQ'' = 746" "SIP_HDR ''MAX_FORWARDS'' = 3549" "SIP_HDR ''CONTENT_TYPE'' = 809"
  "SIP_HDR ''CONTENT_LENGTH'' = 3861" "SIP_HDR ''EXPIRES'' = 1983"
  by (simp_all add: SIP_HDR_def sip_hdrid_def)

end
