(* ===== verification/Re_Ctrans.thy ===== *)
theory Re_Ctrans
  imports Re_Sip_Msg
begin

text \<open>
  Client transactions (\<open>src/re/src/sip/ctrans.c\<close>): a request is sent again until there is a response or
  32 seconds are over, and its user is told how it ended. The structures live in a store, the hash
  table holds their addresses. A timer is the time it expires at. What is sent and what the user is told
  is recorded with the time; what the user does then is a later step. The result of sending is an
  argument of each operation; allocation succeeds.

  The machine is a step relation in which timers may fire late, in the order of their expiry. Shown are
  the invariant of the table, that no shift overflows, that a user is told one final outcome, and how
  often a request without a response is sent.
\<close>

section \<open>Transactions\<close>

datatype ctrans_state = TRYING | CALLING | PROCEEDING | COMPLETED

definition COMPLETE_WAIT :: int where "COMPLETE_WAIT = 32000"
definition SIP_T1 :: int where "SIP_T1 = 500"
definition SIP_T2 :: int where "SIP_T2 = 4000"
definition SIP_T4 :: int where "SIP_T4 = 5000"

record sip_ctrans =
  ct_dst :: sa
  ct_tmr :: "int option"
  ct_tmre :: "int option"
  ct_mb :: string
  ct_mb_ack :: "string option"
  ct_req :: "sip_msg option"
  ct_met :: string
  ct_branch :: string
  ct_tp :: sip_transp
  ct_state :: ctrans_state
  ct_txc :: u32
  ct_invite :: bool

text \<open>A message leaves; the handler of the transaction at an address is called.\<close>

datatype ct_event = Sent sip_transp sa string | Told nat "errno option" "sip_msg option"

record ct_stack =
  sp_ht :: "nat hash"
  sp_ct :: "nat \<Rightarrow> sip_ctrans option"
  sp_next :: nat
  sp_software :: "string option"
  sp_now :: int
  sp_log :: "(int \<times> ct_event) list"

definition put_ct :: "nat \<Rightarrow> sip_ctrans \<Rightarrow> ct_stack \<Rightarrow> ct_stack" where
  "put_ct i ct s = s\<lparr>sp_ct := (sp_ct s)(i := Some ct)\<rparr>"

definition event :: "ct_event \<Rightarrow> ct_stack \<Rightarrow> ct_stack" where
  "event e s = s\<lparr>sp_log := sp_log s @ [(sp_now s, e)]\<rparr>"

definition sip_transp_reliable :: "sip_transp \<Rightarrow> bool" where
  "sip_transp_reliable tp = (case tp of SIP_TRANSP_UDP \<Rightarrow> False | SIP_TRANSP_TCP \<Rightarrow> True | SIP_TRANSP_TLS \<Rightarrow> True | _ \<Rightarrow> False)"

text \<open>Sending, with its result; without a message nothing is sent.\<close>

definition send_mb :: "errno option \<Rightarrow> sip_transp \<Rightarrow> sa \<Rightarrow> string option \<Rightarrow> ct_stack \<Rightarrow> ct_stack" where
  "send_mb e tp dst mb s = (if e = None then (case mb of None \<Rightarrow> s | Some m \<Rightarrow> event (Sent tp dst m) s) else s)"

text \<open>A shift of an \<open>int\<close> to the left.\<close>

definition shl :: "int \<Rightarrow> u32 \<Rightarrow> ub + int" where
  "shl a n = (if unat n < 32 \<and> a * 2 ^ unat n < 2 ^ 31 then Inr (a * 2 ^ unat n) else Inl Shift_overflow)"

section \<open>The messages of a transaction\<close>

definition route_lines :: "sip_msg \<Rightarrow> string" where
  "route_lines req = concat (List.map (\<lambda>h. ''Route: '' @ hdr_val h @ crlf)
     (filter (\<lambda>h. hdr_id h = SIP_HDR ''ROUTE'') (hash_list (sm_hdrht req) (word_of_int (SIP_HDR ''ROUTE'')))))"

definition copy_text :: "string option \<Rightarrow> sip_msg \<Rightarrow> string \<Rightarrow> pl \<Rightarrow> string" where
  "copy_text software req met to =
    met @ '' '' @ pl_text (sm_ruri req) @ '' SIP/2.0'' @ crlf @
    ''Via: '' @ pl_text (via_val (sm_via req)) @ crlf @
    ''Max-Forwards: 70'' @ crlf @
    route_lines req @
    ''To: '' @ pl_text to @ crlf @
    ''From: '' @ pl_text (ta_val (sm_from req)) @ crlf @
    ''Call-ID: '' @ pl_text (sm_callid req) @ crlf @
    ''CSeq: '' @ local_itoa (ucast (cs_num (sm_cseq req))) 10 False @ '' '' @ met @ crlf @
    (case software of None \<Rightarrow> [] | Some sw \<Rightarrow> ''User-Agent: '' @ sw @ crlf) @
    ''Content-Length: 0'' @ crlf @ crlf"

definition request_copy ::
  "inet_lib \<Rightarrow> u64 \<Rightarrow> string option \<Rightarrow> sip_ctrans \<Rightarrow> string \<Rightarrow> sip_msg option \<Rightarrow> ub + (errno + string) \<times> sip_ctrans" where
  "request_copy net rnd software ct met resp =
    obind (case ct_req ct of Some req \<Rightarrow> Inr (Inr req)
        | None \<Rightarrow> obind (sip_msg_decode net rnd (ct_mb ct)) (\<lambda>r. Inr (map_sum id fst r)))
      (\<lambda>r. case r of
          Inl e \<Rightarrow> Inr (Inl e, ct)
        | Inr req \<Rightarrow> Inr (Inr (copy_text software req met (case resp of Some m \<Rightarrow> ta_val (sm_to m) | None \<Rightarrow> ta_val (sm_to req))),
            ct\<lparr>ct_req := Some req\<rparr>))"

section \<open>The end of a transaction\<close>

definition ct_destructor :: "nat \<Rightarrow> ct_stack \<Rightarrow> ct_stack" where
  "ct_destructor i s = s\<lparr>sp_ht := hash_unlink i (sp_ht s), sp_ct := (sp_ct s)(i := None)\<rparr>"

definition ct_terminate :: "nat \<Rightarrow> sip_ctrans \<Rightarrow> errno \<Rightarrow> ct_stack \<Rightarrow> ct_stack" where
  "ct_terminate i ct err s = (if ct_state ct \<in> {TRYING, CALLING, PROCEEDING} then event (Told i (Some err) None) s else s)"

definition transport_handler :: "nat \<Rightarrow> errno \<Rightarrow> ct_stack \<Rightarrow> ub + ct_stack" where
  "transport_handler i err s = (case sp_ct s i of
      None \<Rightarrow> Inl Use_after_free
    | Some ct \<Rightarrow> Inr (ct_destructor i (ct_terminate i ct err s)))"

definition ct_tmr_handler :: "nat \<Rightarrow> ct_stack \<Rightarrow> ub + ct_stack" where
  "ct_tmr_handler i s = (case sp_ct s i of
      None \<Rightarrow> Inl Use_after_free
    | Some ct \<Rightarrow> Inr (ct_destructor i (ct_terminate i ct ETIMEDOUT s)))"

section \<open>Sending again\<close>

definition retransmit_timeout :: "sip_ctrans \<Rightarrow> ub + int option" where
  "retransmit_timeout ct = (case ct_state ct of
      TRYING \<Rightarrow> obind (shl SIP_T1 (ct_txc ct)) (\<lambda>t. Inr (Some (min t SIP_T2)))
    | CALLING \<Rightarrow> obind (shl SIP_T1 (ct_txc ct)) (\<lambda>t. Inr (Some t))
    | PROCEEDING \<Rightarrow> Inr (Some SIP_T2)
    | _ \<Rightarrow> Inr None)"

definition ct_retransmit_handler :: "errno option \<Rightarrow> nat \<Rightarrow> ct_stack \<Rightarrow> ub + ct_stack" where
  "ct_retransmit_handler e i s = (case sp_ct s i of
      None \<Rightarrow> Inl Use_after_free
    | Some ct \<Rightarrow>
        let ct = ct\<lparr>ct_txc := ct_txc ct + 1\<rparr>
        in obind (retransmit_timeout ct) (\<lambda>t. case t of
            None \<Rightarrow> Inr (put_ct i ct s)
          | Some timeout \<Rightarrow>
              let ct = ct\<lparr>ct_tmre := Some (sp_now s + timeout)\<rparr>;
                  s = send_mb e (ct_tp ct) (ct_dst ct) (Some (ct_mb ct)) (put_ct i ct s)
              in (case e of
                  Some err \<Rightarrow> Inr (ct_destructor i (ct_terminate i ct err s))
                | None \<Rightarrow> Inr s)))"

section \<open>Responses\<close>

definition ct_cmp_handler :: "sip_ctrans \<Rightarrow> sip_msg \<Rightarrow> bool" where
  "ct_cmp_handler ct msg =
    (if pl_strcmp (via_branch (sm_via msg)) (Some (ct_branch ct)) \<noteq> None then False
     else if pl_strcmp (cs_met (sm_cseq msg)) (Some (ct_met ct)) \<noteq> None then False
     else True)"

definition invite_response ::
  "inet_lib \<Rightarrow> u64 \<Rightarrow> errno option \<Rightarrow> nat \<Rightarrow> sip_ctrans \<Rightarrow> sip_msg \<Rightarrow> ct_stack \<Rightarrow> ub + ct_stack" where
  "invite_response net rnd e i ct msg s = (case ct_state ct of
      COMPLETED \<Rightarrow>
        if sm_scode msg < 300 then Inr s else Inr (send_mb e (ct_tp ct) (ct_dst ct) (ct_mb_ack ct) s)
    | TRYING \<Rightarrow> Inr s
    | _ \<Rightarrow>
        let ct = (if ct_state ct = CALLING then ct\<lparr>ct_tmr := None, ct_tmre := None\<rparr> else ct)
        in if sm_scode msg < 200 then
             Inr (event (Told i None (Some msg)) (put_ct i (ct\<lparr>ct_state := PROCEEDING\<rparr>) s))
           else if sm_scode msg < 300 then
             Inr (ct_destructor i (event (Told i None (Some msg)) (put_ct i ct s)))
           else
             let ct = ct\<lparr>ct_state := COMPLETED\<rparr>
             in obind (request_copy net rnd (sp_software s) ct ''ACK'' (Some msg)) (\<lambda>(r, ct).
                  let ct = (case r of Inl _ \<Rightarrow> ct | Inr mb \<Rightarrow> ct\<lparr>ct_mb_ack := Some mb\<rparr>);
                      s = send_mb e (ct_tp ct) (ct_dst ct) (ct_mb_ack ct) (put_ct i ct s);
                      s = event (Told i None (Some msg)) s
                  in if sip_transp_reliable (ct_tp ct) then Inr (ct_destructor i s)
                     else Inr (put_ct i (ct\<lparr>ct_tmr := Some (sp_now s + COMPLETE_WAIT)\<rparr>) s)))"

definition other_response :: "nat \<Rightarrow> sip_ctrans \<Rightarrow> sip_msg \<Rightarrow> ct_stack \<Rightarrow> ct_stack" where
  "other_response i ct msg s =
    (if ct_state ct \<notin> {TRYING, PROCEEDING} then s
     else if sm_scode msg < 200 then event (Told i None (Some msg)) (put_ct i (ct\<lparr>ct_state := PROCEEDING\<rparr>) s)
     else
       let ct = ct\<lparr>ct_state := COMPLETED\<rparr>; s = event (Told i None (Some msg)) (put_ct i ct s)
       in if sip_transp_reliable (ct_tp ct) then ct_destructor i s
          else put_ct i (ct\<lparr>ct_tmr := Some (sp_now s + SIP_T4), ct_tmre := None\<rparr>) s)"

definition ct_matches :: "ct_stack \<Rightarrow> sip_msg \<Rightarrow> nat \<Rightarrow> bool" where
  "ct_matches s msg i = (case sp_ct s i of None \<Rightarrow> False | Some ct \<Rightarrow> ct_cmp_handler ct msg)"

definition ct_response_handler ::
  "inet_lib \<Rightarrow> u64 \<Rightarrow> errno option \<Rightarrow> sip_msg \<Rightarrow> ct_stack \<Rightarrow> ub + bool \<times> ct_stack" where
  "ct_response_handler net rnd e msg s =
    (let key = hash_joaat_pl (via_branch (sm_via msg))
     in if \<exists>i\<in>set (hash_list (sp_ht s) key). sp_ct s i = None then Inl Use_after_free
        else (case hash_lookup (sp_ht s) key (ct_matches s msg) of
            None \<Rightarrow> Inr (False, s)
          | Some i \<Rightarrow> obind (deref (sp_ct s i)) (\<lambda>ct.
              if ct_invite ct then obind (invite_response net rnd e i ct msg s) (\<lambda>s. Inr (True, s))
              else Inr (True, other_response i ct msg s))))"

section \<open>Requests\<close>

definition sip_ctrans_request ::
  "sip_transp \<Rightarrow> sa \<Rightarrow> string \<Rightarrow> string \<Rightarrow> string \<Rightarrow> errno option \<Rightarrow> ct_stack \<Rightarrow> (errno + nat) \<times> ct_stack" where
  "sip_ctrans_request tp dst met branch mb e s =
    (let i = sp_next s; invite = (met = ''INVITE'');
         ct = \<lparr>ct_dst = dst, ct_tmr = None, ct_tmre = None, ct_mb = mb, ct_mb_ack = None, ct_req = None, ct_met = met,
           ct_branch = branch, ct_tp = tp, ct_state = if invite then CALLING else TRYING, ct_txc = 0, ct_invite = invite\<rparr>;
         s = put_ct i ct (s\<lparr>sp_ht := hash_append (sp_ht s) (hash_joaat_str branch) i\<rparr>);
         s = send_mb e tp dst (Some mb) s
     in case e of
         Some err \<Rightarrow> (Inl err, ct_destructor i s)
       | None \<Rightarrow>
           let ct = ct\<lparr>ct_tmr := Some (sp_now s + 64 * SIP_T1),
             ct_tmre := if sip_transp_reliable tp then None else Some (sp_now s + SIP_T1)\<rparr>
           in (Inr i, (put_ct i ct s)\<lparr>sp_next := i + 1\<rparr>))"

definition sip_ctrans_cancel :: "inet_lib \<Rightarrow> u64 \<Rightarrow> errno option \<Rightarrow> nat \<Rightarrow> ct_stack \<Rightarrow> ub + errno option \<times> ct_stack" where
  "sip_ctrans_cancel net rnd e i s = (case sp_ct s i of
      None \<Rightarrow> Inl Use_after_free
    | Some ct \<Rightarrow>
        if \<not> ct_invite ct then Inr (None, s)
        else if ct_state ct \<noteq> PROCEEDING then Inr (Some EPROTO, s)
        else
          obind (request_copy net rnd (sp_software s) (ct\<lparr>ct_tmr := Some (sp_now s + 64 * SIP_T1)\<rparr>) ''CANCEL'' None) (\<lambda>(r, ct).
            let s = put_ct i ct s
            in case r of
                Inl err \<Rightarrow> Inr (Some err, s)
              | Inr mb \<Rightarrow> (case sip_ctrans_request (ct_tp ct) (ct_dst ct) ''CANCEL'' (ct_branch ct) mb e s of
                  (Inl err, s) \<Rightarrow> Inr (Some err, s)
                | (Inr _, s) \<Rightarrow> Inr (None, s))))"

section \<open>Steps\<close>

text \<open>No timer of the transactions expires before \<open>t\<close>.\<close>

definition first_due :: "ct_stack \<Rightarrow> int \<Rightarrow> bool" where
  "first_due s t \<longleftrightarrow> t \<le> sp_now s \<and> (\<forall>i ct. sp_ct s i = Some ct \<longrightarrow>
     (\<forall>t'. ct_tmr ct = Some t' \<longrightarrow> t \<le> t') \<and> (\<forall>t'. ct_tmre ct = Some t' \<longrightarrow> t \<le> t'))"

inductive ct_step :: "inet_lib \<Rightarrow> ct_stack \<Rightarrow> ct_stack \<Rightarrow> bool" for net where
  Request: "sip_ctrans_request tp dst met branch mb e s = (r, s') \<Longrightarrow> ct_step net s s'"
| Response: "ct_response_handler net rnd e msg s = Inr (b, s') \<Longrightarrow> ct_step net s s'"
| Cancel: "sip_ctrans_cancel net rnd e i s = Inr (r, s') \<Longrightarrow> ct_step net s s'"
| Lost: "transport_handler i err s = Inr s' \<Longrightarrow> ct_step net s s'"
| Expires: "sp_ct s i = Some ct \<Longrightarrow> ct_tmr ct = Some t \<Longrightarrow> first_due s t \<Longrightarrow>
    ct_tmr_handler i (put_ct i (ct\<lparr>ct_tmr := None\<rparr>) s) = Inr s' \<Longrightarrow> ct_step net s s'"
| Again: "sp_ct s i = Some ct \<Longrightarrow> ct_tmre ct = Some t \<Longrightarrow> first_due s t \<Longrightarrow>
    ct_retransmit_handler e i (put_ct i (ct\<lparr>ct_tmre := None\<rparr>) s) = Inr s' \<Longrightarrow> ct_step net s s'"
| Time: "0 \<le> d \<Longrightarrow> ct_step net s (s\<lparr>sp_now := sp_now s + d\<rparr>)"

text \<open>Reachable states, with the transactions that their users have given up.\<close>

definition ct_init :: "ct_stack \<Rightarrow> bool" where
  "ct_init s \<longleftrightarrow> (\<exists>n. hash_alloc n = Inr (sp_ht s)) \<and> (\<forall>i. sp_ct s i = None) \<and> sp_next s = 0 \<and> sp_log s = []"

inductive ct_reach :: "inet_lib \<Rightarrow> nat set \<Rightarrow> ct_stack \<Rightarrow> bool" for net where
  Start: "ct_init s \<Longrightarrow> ct_reach net {} s"
| Step: "ct_reach net R s \<Longrightarrow> ct_step net s s' \<Longrightarrow> ct_reach net R s'"
| Release: "ct_reach net R s \<Longrightarrow> sp_ct s i \<noteq> None \<Longrightarrow> ct_reach net (insert i R) (ct_destructor i s)"

section \<open>What holds in all reachable states\<close>

text \<open>The final outcomes a user was told.\<close>

definition is_final :: "nat \<Rightarrow> int \<times> ct_event \<Rightarrow> bool" where
  "is_final i x = (case snd x of
      Told j err msg \<Rightarrow> j = i \<and> (err \<noteq> None \<or> (case msg of None \<Rightarrow> False | Some m \<Rightarrow> 200 \<le> sm_scode m))
    | Sent _ _ _ \<Rightarrow> False)"

definition finals :: "nat \<Rightarrow> ct_stack \<Rightarrow> nat" where
  "finals i s = length (filter (is_final i) (sp_log s))"

text \<open>The table holds the living transactions.\<close>

definition ct_key :: "ct_stack \<Rightarrow> nat \<Rightarrow> u32" where
  "ct_key s i = hash_joaat_str (case sp_ct s i of None \<Rightarrow> [] | Some ct \<Rightarrow> ct_branch ct)"

definition tab_inv :: "ct_stack \<Rightarrow> bool" where
  "tab_inv s \<longleftrightarrow> hash_holds (ct_key s) (sp_ht s) {i. sp_ct s i \<noteq> None}"

text \<open>How far the timer for sending again has got, when the transaction ends at \<open>T\<close>.\<close>

definition pace :: "sip_ctrans \<Rightarrow> int \<Rightarrow> int \<Rightarrow> bool" where
  "pace ct T t \<longleftrightarrow> (let n = unat (ct_txc ct) in
     if ct_state ct = CALLING then T - 64 * SIP_T1 + SIP_T1 * (2 ^ (n + 1) - 1) \<le> t
     else T - 64 * SIP_T1 + (if n = 0 then SIP_T1 else 2000 * int n - 500) \<le> t)"

definition ct_ok :: "sip_ctrans \<Rightarrow> bool" where
  "ct_ok ct \<longleftrightarrow> (if ct_invite ct then ct_state ct \<noteq> TRYING else ct_state ct \<noteq> CALLING) \<and>
     (ct_tmr ct = None \<longrightarrow> ct_invite ct \<and> ct_state ct = PROCEEDING) \<and>
     (ct_state ct = COMPLETED \<longrightarrow> \<not> sip_transp_reliable (ct_tp ct) \<and> ct_tmre ct = None) \<and>
     (ct_invite ct \<and> ct_state ct = PROCEEDING \<longrightarrow> ct_tmre ct = None) \<and>
     (ct_state ct \<in> {TRYING, CALLING} \<longrightarrow> (\<forall>t. ct_tmre ct = Some t \<longrightarrow> pace ct (the (ct_tmr ct)) t))"

definition local_ok :: "nat set \<Rightarrow> nat \<Rightarrow> ct_stack \<Rightarrow> bool" where
  "local_ok R i s = (case sp_ct s i of
      Some ct \<Rightarrow> i < sp_next s \<and> ct_ok ct \<and> finals i s = (if ct_state ct = COMPLETED then 1 else 0)
    | None \<Rightarrow> if sp_next s \<le> i then finals i s = 0 else if i \<in> R then finals i s \<le> 1 else finals i s = 1)"

definition ct_inv :: "nat set \<Rightarrow> ct_stack \<Rightarrow> bool" where
  "ct_inv R s \<longleftrightarrow> tab_inv s \<and> (\<forall>i. local_ok R i s)"

lemma local_ok_cong:
  "sp_ct s' i = sp_ct s i \<Longrightarrow> finals i s' = finals i s \<Longrightarrow> (sp_next s' \<le> i \<longleftrightarrow> sp_next s \<le> i) \<Longrightarrow> (i \<in> R' \<longleftrightarrow> i \<in> R) \<Longrightarrow>
    local_ok R' i s' \<longleftrightarrow> local_ok R i s"
  by (simp only: local_ok_def not_le [symmetric])

text \<open>Changes of a single transaction.\<close>

definition acts :: "nat \<Rightarrow> ct_stack \<Rightarrow> ct_stack \<Rightarrow> bool" where
  "acts i s s' \<longleftrightarrow> (\<forall>j. j \<noteq> i \<longrightarrow> sp_ct s' j = sp_ct s j \<and> finals j s' = finals j s) \<and> sp_next s' = sp_next s \<and>
     sp_now s' = sp_now s \<and> (tab_inv s \<longrightarrow> tab_inv s')"

lemma acts_refl [simp]: "acts i s s"
  by (simp add: acts_def)

lemma acts_trans: "acts i s s' \<Longrightarrow> acts i s' s'' \<Longrightarrow> acts i s s''"
  by (simp add: acts_def)

lemma tab_inv_cong:
  assumes "sp_ht s' = sp_ht s" and "\<And>i. sp_ct s' i = None \<longleftrightarrow> sp_ct s i = None" and "\<And>i. ct_key s' i = ct_key s i"
  shows "tab_inv s' \<longleftrightarrow> tab_inv s"
proof -
  have "ct_key s' = ct_key s" using assms(3) by blast
  then show ?thesis using assms(1,2) by (simp add: tab_inv_def)
qed

lemma event_sel [simp]:
  "sp_ht (event e s) = sp_ht s" "sp_ct (event e s) = sp_ct s" "sp_next (event e s) = sp_next s"
  "sp_software (event e s) = sp_software s" "sp_now (event e s) = sp_now s" "sp_log (event e s) = sp_log s @ [(sp_now s, e)]"
  by (simp_all add: event_def)

lemma put_sel [simp]:
  "sp_ht (put_ct i ct s) = sp_ht s" "sp_ct (put_ct i ct s) = (sp_ct s)(i := Some ct)" "sp_next (put_ct i ct s) = sp_next s"
  "sp_software (put_ct i ct s) = sp_software s" "sp_now (put_ct i ct s) = sp_now s" "sp_log (put_ct i ct s) = sp_log s"
  by (simp_all add: put_ct_def)

lemma destructor_sel [simp]:
  "sp_ht (ct_destructor i s) = hash_unlink i (sp_ht s)" "sp_ct (ct_destructor i s) = (sp_ct s)(i := None)"
  "sp_next (ct_destructor i s) = sp_next s" "sp_software (ct_destructor i s) = sp_software s"
  "sp_now (ct_destructor i s) = sp_now s" "sp_log (ct_destructor i s) = sp_log s"
  by (simp_all add: ct_destructor_def)

lemma send_sel [simp]:
  "sp_ht (send_mb e tp dst mb s) = sp_ht s" "sp_ct (send_mb e tp dst mb s) = sp_ct s"
  "sp_next (send_mb e tp dst mb s) = sp_next s" "sp_software (send_mb e tp dst mb s) = sp_software s"
  "sp_now (send_mb e tp dst mb s) = sp_now s"
  by (simp_all add: send_mb_def split: option.splits)

lemma finals_simps [simp]:
  "finals i (event e s) = finals i s + (if is_final i (sp_now s, e) then 1 else 0)"
  "finals i (put_ct j ct s) = finals i s" "finals i (ct_destructor j s) = finals i s"
  "finals i (send_mb e' tp dst mb s) = finals i s"
  by (simp_all add: finals_def send_mb_def is_final_def split: option.splits)

lemma is_final_Told [simp]:
  "is_final i (t, Told j err msg) \<longleftrightarrow> j = i \<and> (err \<noteq> None \<or> (case msg of None \<Rightarrow> False | Some m \<Rightarrow> 200 \<le> sm_scode m))"
  by (simp add: is_final_def)

lemma acts_event: "acts i s (event (Told i err msg) s)"
proof -
  have "tab_inv (event (Told i err msg) s) \<longleftrightarrow> tab_inv s" by (rule tab_inv_cong) (simp_all add: ct_key_def)
  then show ?thesis by (simp add: acts_def)
qed

lemma acts_send: "acts i s (send_mb e tp dst mb s)"
proof -
  have "tab_inv (send_mb e tp dst mb s) \<longleftrightarrow> tab_inv s" by (rule tab_inv_cong) (simp_all add: ct_key_def)
  then show ?thesis by (simp add: acts_def)
qed

lemma acts_put: "sp_ct s i = Some ct \<Longrightarrow> ct_branch ct' = ct_branch ct \<Longrightarrow> acts i s (put_ct i ct' s)"
proof -
  assume a: "sp_ct s i = Some ct" "ct_branch ct' = ct_branch ct"
  then have "tab_inv (put_ct i ct' s) \<longleftrightarrow> tab_inv s" by (intro tab_inv_cong) (auto simp: ct_key_def)
  then show ?thesis by (simp add: acts_def)
qed

lemma acts_destructor: "acts i s (ct_destructor i s)"
proof -
  have "tab_inv s \<longrightarrow> tab_inv (ct_destructor i s)"
  proof
    assume "tab_inv s"
    then have "hash_holds (ct_key s) (hash_unlink i (sp_ht s)) ({i. sp_ct s i \<noteq> None} - {i})"
      unfolding tab_inv_def by (rule hash_holds_rem)
    moreover have "{i. sp_ct s i \<noteq> None} - {i} = {j. sp_ct (ct_destructor i s) j \<noteq> None}" by auto
    ultimately show "tab_inv (ct_destructor i s)"
      unfolding tab_inv_def by (subst hash_holds_cong [where kf' = "ct_key s"]) (auto simp: ct_key_def)
  qed
  then show ?thesis by (simp add: acts_def)
qed

lemma acts_terminate: "acts i s (ct_terminate i ct err s)"
  by (simp add: ct_terminate_def acts_event)

lemma acts_inv:
  assumes "ct_inv R s" and "acts i s s'" and "local_ok R i s'"
  shows "ct_inv R s'"
proof -
  have "local_ok R j s'" for j
  proof (cases "j = i")
    case False
    then have "local_ok R j s' \<longleftrightarrow> local_ok R j s" using assms(2) by (intro local_ok_cong) (simp_all add: acts_def)
    then show ?thesis using assms(1) by (simp add: ct_inv_def)
  qed (use assms(3) in simp)
  then show ?thesis using assms by (simp add: ct_inv_def acts_def)
qed

lemma ct_invD: "ct_inv R s \<Longrightarrow> sp_ct s i = Some ct \<Longrightarrow> i < sp_next s \<and> ct_ok ct \<and> finals i s = (if ct_state ct = COMPLETED then 1 else 0)"
  by (auto simp: ct_inv_def local_ok_def dest: spec [of _ i] split: option.splits)

lemma kept:
  assumes "ct_inv R s" "sp_ct s i = Some ct" "acts i s s'" "sp_ct s' i = Some ct'" "ct_ok ct'"
    and "finals i s' = (if ct_state ct' = COMPLETED then 1 else 0)"
  shows "ct_inv R s'"
proof (rule acts_inv [OF assms(1,3)])
  have "i < sp_next s'" using ct_invD [OF assms(1,2)] assms(3) by (simp add: acts_def)
  then show "local_ok R i s'" using assms(4-6) by (simp add: local_ok_def)
qed

lemma ended:
  assumes "ct_inv R s" "sp_ct s i = Some ct" "acts i s s'" "finals i s' = 1"
  shows "ct_inv R (ct_destructor i s')"
proof (rule acts_inv [OF assms(1) acts_trans [OF assms(3) acts_destructor]])
  have "i < sp_next s'" using ct_invD [OF assms(1,2)] assms(3) by (simp add: acts_def)
  then show "local_ok R i (ct_destructor i s')" using assms(4) by (simp add: local_ok_def)
qed

lemma terminated:
  assumes "ct_inv R s" "sp_ct s i = Some ct" "acts i s s'" "finals i s' = finals i s" "ct_state ct' = ct_state ct"
  shows "ct_inv R (ct_destructor i (ct_terminate i ct' err s'))"
proof (rule ended [OF assms(1,2) acts_trans [OF assms(3) acts_terminate]])
  show "finals i (ct_terminate i ct' err s') = 1"
    using ct_invD [OF assms(1,2)] assms(4,5) by (cases "ct_state ct") (simp_all add: ct_terminate_def)
qed

lemma transport_inv: "ct_inv R s \<Longrightarrow> transport_handler i err s = Inr s' \<Longrightarrow> ct_inv R s'"
  using terminated [OF _ _ acts_refl refl refl] by (auto simp: transport_handler_def split: option.splits)

lemma tmr_inv:
  assumes "ct_inv R s" "sp_ct s i = Some ct" "ct_tmr_handler i (put_ct i (ct\<lparr>ct_tmr := None\<rparr>) s) = Inr s'"
  shows "ct_inv R s'"
proof -
  have "acts i s (put_ct i (ct\<lparr>ct_tmr := None\<rparr>) s)" by (rule acts_put [OF assms(2)]) simp
  from terminated [OF assms(1,2) this, of "ct\<lparr>ct_tmr := None\<rparr>" ETIMEDOUT] assms(3) show ?thesis
    by (auto simp: ct_tmr_handler_def)
qed

text \<open>The shifts do not overflow, since the transaction ends before.\<close>

lemma shl_T1: "n \<le> 17 \<Longrightarrow> unat w = n \<Longrightarrow> shl SIP_T1 w = Inr (500 * 2 ^ n)"
proof -
  assume n: "n \<le> 17" "unat w = n"
  have "(2::int) ^ n \<le> 2 ^ 17" using n(1) by (rule power_increasing) simp
  then show ?thesis using n by (simp add: shl_def SIP_T1_def)
qed

lemma calling_pace:
  assumes "T - 32000 + 500 * (2 ^ (n + 1) - 1) \<le> t" and "t \<le> (T :: int)"
  shows "n \<le> 5"
proof (rule ccontr)
  assume "\<not> n \<le> 5"
  then have "(2::int) ^ 7 \<le> 2 ^ (n + 1)" by (intro power_increasing) simp_all
  then show False using assms by simp
qed

lemma again_timeout:
  assumes ok: "ct_ok ct" and t: "ct_tmre ct = Some t" "\<forall>T. ct_tmr ct = Some T \<longrightarrow> t \<le> T" "t \<le> now"
  shows "\<exists>d. retransmit_timeout (ct\<lparr>ct_tmre := None, ct_txc := ct_txc ct + 1\<rparr>) = Inr (Some d) \<and>
    ct_ok (ct\<lparr>ct_txc := ct_txc ct + 1, ct_tmre := Some (now + d)\<rparr>)"
proof (cases "ct_state ct")
  case TRYING
  with ok obtain T where T: "ct_tmr ct = Some T" by (auto simp: ct_ok_def)
  have ni: "\<not> ct_invite ct" using ok TRYING by (auto simp: ct_ok_def)
  define n where "n = unat (ct_txc ct)"
  have p: "T - 32000 + (if n = 0 then 500 else 2000 * int n - 500) \<le> t"
    using ok t(1) T TRYING by (auto simp: ct_ok_def pace_def SIP_T1_def n_def Let_def split: if_splits)
  then have n: "n \<le> 16" using t(2) T by (auto split: if_splits)
  then have w: "unat (ct_txc ct + 1) = n + 1" by (simp add: n_def unat_word_ariths)
  have d: "shl SIP_T1 (ct_txc ct + 1) = Inr (500 * 2 ^ (n + 1))" by (rule shl_T1) (use n w in simp_all)
  have "(2::int) ^ 1 \<le> 2 ^ n" if "n \<noteq> 0" using that by (intro power_increasing) simp_all
  then have "T - 32000 + (2000 * int (n + 1) - 500) \<le> now + min (500 * 2 ^ (n + 1)) 4000" using p t(3) by (cases "n = 0") auto
  then show ?thesis using ok ni TRYING T d w by (simp add: retransmit_timeout_def ct_ok_def pace_def SIP_T1_def SIP_T2_def Let_def)
next
  case CALLING
  with ok obtain T where T: "ct_tmr ct = Some T" by (auto simp: ct_ok_def)
  define n where "n = unat (ct_txc ct)"
  have inv: "ct_invite ct" using ok CALLING by (auto simp: ct_ok_def split: if_splits)
  have p: "T - 32000 + 500 * (2 ^ (n + 1) - 1) \<le> t"
    using ok t(1) T CALLING by (simp add: ct_ok_def pace_def SIP_T1_def n_def Let_def)
  have n: "n \<le> 5" by (rule calling_pace [OF p]) (use t(2) T in simp)
  then have w: "unat (ct_txc ct + 1) = n + 1" by (simp add: n_def unat_word_ariths)
  have d: "shl SIP_T1 (ct_txc ct + 1) = Inr (500 * 2 ^ (n + 1))" by (rule shl_T1) (use n w in simp_all)
  have "T - 32000 + 500 * (2 ^ (n + 1 + 1) - 1) \<le> now + 500 * 2 ^ (n + 1)" using p t(3) by simp
  then show ?thesis using ok inv CALLING T d w by (simp add: retransmit_timeout_def ct_ok_def pace_def SIP_T1_def Let_def)
next
  case PROCEEDING
  then show ?thesis using ok t(1) by (auto simp: retransmit_timeout_def ct_ok_def)
next
  case COMPLETED
  then show ?thesis using ok t(1) by (simp add: ct_ok_def)
qed

lemma again_inv:
  assumes inv: "ct_inv R s" and ct: "sp_ct s i = Some ct" "ct_tmre ct = Some t" "first_due s t"
  shows "\<exists>s'. ct_retransmit_handler e i (put_ct i (ct\<lparr>ct_tmre := None\<rparr>) s) = Inr s' \<and> ct_inv R s'"
proof -
  let ?ct = "ct\<lparr>ct_tmre := None, ct_txc := ct_txc ct + 1\<rparr>"
  note iv = ct_invD [OF inv ct(1)]
  have "\<forall>T. ct_tmr ct = Some T \<longrightarrow> t \<le> T" "t \<le> sp_now s" using ct by (auto simp: first_due_def)
  with again_timeout [OF _ ct(2), of "sp_now s"] iv obtain d where d: "retransmit_timeout ?ct = Inr (Some d)"
    and ok: "ct_ok (ct\<lparr>ct_txc := ct_txc ct + 1, ct_tmre := Some (sp_now s + d)\<rparr>)" by blast
  let ?ct' = "ct\<lparr>ct_txc := ct_txc ct + 1, ct_tmre := Some (sp_now s + d)\<rparr>"
  let ?s = "send_mb e (ct_tp ct) (ct_dst ct) (Some (ct_mb ct)) (put_ct i ?ct' (put_ct i (ct\<lparr>ct_tmre := None\<rparr>) s))"
  have a: "acts i s ?s"
  proof (rule acts_trans [OF acts_trans [OF acts_put acts_put] acts_send])
    show "sp_ct s i = Some ct" by (rule ct(1))
    show "sp_ct (put_ct i (ct\<lparr>ct_tmre := None\<rparr>) s) i = Some (ct\<lparr>ct_tmre := None\<rparr>)" by simp
  qed simp_all
  have upd: "?ct\<lparr>ct_tmre := Some (sp_now s + d)\<rparr> = ?ct'" by (rule sip_ctrans.equality) simp_all
  show ?thesis
  proof (cases e)
    case None
    have "ct_inv R ?s" by (rule kept [OF inv ct(1) a _ ok]) (use iv in simp_all)
    then show ?thesis using None d upd by (simp add: ct_retransmit_handler_def)
  next
    case (Some err)
    have "ct_inv R (ct_destructor i (ct_terminate i ?ct' err ?s))" by (rule terminated [OF inv ct(1) a]) simp_all
    then show ?thesis using Some d upd by (simp add: ct_retransmit_handler_def Let_def)
  qed
qed

lemma request_copy_same:
  assumes "request_copy net rnd sw ct met resp = Inr (r, ct')"
  shows "\<exists>q. ct' = ct\<lparr>ct_req := q\<rparr>"
proof -
  obtain x where "(case x of Inl e \<Rightarrow> Inr (Inl e, ct)
      | Inr req \<Rightarrow> Inr (Inr (copy_text sw req met (case resp of Some m \<Rightarrow> ta_val (sm_to m) | None \<Rightarrow> ta_val (sm_to req))),
          ct\<lparr>ct_req := Some req\<rparr>)) = (Inr (r, ct') :: ub + _)"
    using assms unfolding request_copy_def obind_Inr_iff by blast
  then show ?thesis by (cases x) (auto intro: exI [of _ "ct_req ct"])
qed

lemma invite_inv:
  assumes inv: "ct_inv R s" and ct: "sp_ct s i = Some ct" "ct_invite ct" and r: "invite_response net rnd e i ct msg s = Inr s'"
  shows "ct_inv R s'"
proof (cases "ct_state ct = COMPLETED \<or> ct_state ct = TRYING")
  case True
  note iv = ct_invD [OF inv ct(1)]
  have "ct_inv R (send_mb e (ct_tp ct) (ct_dst ct) (ct_mb_ack ct) s)"
    by (rule kept [OF inv ct(1) acts_send, of _ _ _ _ ct]) (use iv ct(1) in simp_all)
  with True r inv show ?thesis by (auto simp: invite_response_def split: if_splits)
next
  case False
  note iv = ct_invD [OF inv ct(1)]
  define ct1 where "ct1 = (if ct_state ct = CALLING then ct\<lparr>ct_tmr := None, ct_tmre := None\<rparr> else ct)"
  have ct1: "ct_branch ct1 = ct_branch ct" "ct_invite ct1" "ct_state ct1 = ct_state ct" "ct_tp ct1 = ct_tp ct" "ct_tmre ct1 = None"
    using iv False ct(2) by (cases "ct_state ct"; simp add: ct1_def ct_ok_def)+
  have f0: "finals i s = 0" using iv False by simp
  consider "sm_scode msg < 200" | "200 \<le> sm_scode msg" "sm_scode msg < 300" | "300 \<le> sm_scode msg" by fastforce
  then show ?thesis
  proof cases
    case 1
    let ?s = "event (Told i None (Some msg)) (put_ct i (ct1\<lparr>ct_state := PROCEEDING\<rparr>) s)"
    have s': "s' = ?s" using r False 1 by (cases "ct_state ct") (simp_all add: invite_response_def ct1_def Let_def)
    have "acts i s ?s" by (rule acts_trans [OF acts_put [OF ct(1)] acts_event]) (simp add: ct1)
    then show ?thesis unfolding s'
      by (rule kept [OF inv ct(1), of _ "ct1\<lparr>ct_state := PROCEEDING\<rparr>"]) (use ct1 f0 1 in \<open>simp_all add: ct_ok_def\<close>)
  next
    case 2
    let ?s = "event (Told i None (Some msg)) (put_ct i ct1 s)"
    have "\<not> sm_scode msg < 200" using 2 by auto
    then have s': "s' = ct_destructor i ?s" using r False 2 by (cases "ct_state ct") (simp_all add: invite_response_def ct1_def Let_def)
    have "acts i s ?s" by (rule acts_trans [OF acts_put [OF ct(1)] acts_event]) (simp add: ct1)
    then show ?thesis unfolding s' by (rule ended [OF inv ct(1)]) (use f0 2 in simp)
  next
    case 3
    moreover have "(200 :: u16) \<le> 300" by simp
    ultimately have nlt: "\<not> sm_scode msg < 200" "\<not> sm_scode msg < 300" by (meson not_less order_trans)+
    let ?ct = "ct1\<lparr>ct_state := COMPLETED\<rparr>"
    define fin where "fin = (\<lambda>(ct2 :: sip_ctrans). event (Told i None (Some msg)) (send_mb e (ct_tp ct2) (ct_dst ct2) (ct_mb_ack ct2) (put_ct i ct2 s)))"
    obtain r2 ctq where rc: "request_copy net rnd (sp_software s) ?ct ''ACK'' (Some msg) = Inr (r2, ctq)"
      and s': "s' = (let ct2 = (case r2 of Inl _ \<Rightarrow> ctq | Inr mb \<Rightarrow> ctq\<lparr>ct_mb_ack := Some mb\<rparr>) in
        if sip_transp_reliable (ct_tp ct2) then ct_destructor i (fin ct2)
        else put_ct i (ct2\<lparr>ct_tmr := Some (sp_now s + COMPLETE_WAIT)\<rparr>) (fin ct2))"
      using r False nlt by (cases "ct_state ct") (auto simp: invite_response_def ct1_def fin_def obind_Inr_iff Let_def split: if_splits)
    define ct2 where "ct2 = (case r2 of Inl _ \<Rightarrow> ctq | Inr mb \<Rightarrow> ctq\<lparr>ct_mb_ack := Some mb\<rparr>)"
    obtain q where q: "ctq = ?ct\<lparr>ct_req := q\<rparr>" using request_copy_same [OF rc] by blast
    have ct2: "ct_branch ct2 = ct_branch ct" "ct_invite ct2" "ct_state ct2 = COMPLETED" "ct_tp ct2 = ct_tp ct" "ct_tmre ct2 = None"
      using ct1 by (simp_all add: ct2_def q split: sum.splits)
    have a: "acts i s (fin ct2)" unfolding fin_def
      by (rule acts_trans [OF acts_trans [OF acts_put [OF ct(1)] acts_send] acts_event]) (simp add: ct2)
    have f: "finals i (fin ct2) = 1" using f0 nlt(1) by (simp add: fin_def not_less)
    show ?thesis
    proof (cases "sip_transp_reliable (ct_tp ct2)")
      case True
      then show ?thesis using ended [OF inv ct(1) a f] by (simp add: s' ct2_def Let_def)
    next
      case False
      let ?ct' = "ct2\<lparr>ct_tmr := Some (sp_now s + COMPLETE_WAIT)\<rparr>"
      have "acts i s (put_ct i ?ct' (fin ct2))"
        by (rule acts_trans [OF a acts_put [of _ _ ct2]]) (simp_all add: fin_def)
      then have "ct_inv R (put_ct i ?ct' (fin ct2))"
        by (rule kept [OF inv ct(1), of _ ?ct']) (use ct2 f False in \<open>simp_all add: ct_ok_def\<close>)
      then show ?thesis using False by (simp add: s' ct2_def Let_def)
    qed
  qed
qed

lemma other_inv:
  assumes inv: "ct_inv R s" and ct: "sp_ct s i = Some ct" "\<not> ct_invite ct"
  shows "ct_inv R (other_response i ct msg s)"
proof (cases "ct_state ct \<in> {TRYING, PROCEEDING}")
  case True
  note iv = ct_invD [OF inv ct(1)]
  have f0: "finals i s = 0" using iv True by auto
  have tmr: "ct_tmr ct \<noteq> None" using iv ct(2) by (auto simp: ct_ok_def)
  show ?thesis
  proof (cases "sm_scode msg < 200")
    case lt: True
    let ?ct = "ct\<lparr>ct_state := PROCEEDING\<rparr>"
    have "acts i s (event (Told i None (Some msg)) (put_ct i ?ct s))"
      by (rule acts_trans [OF acts_put [OF ct(1)] acts_event]) simp
    then have "ct_inv R (event (Told i None (Some msg)) (put_ct i ?ct s))"
      by (rule kept [OF inv ct(1), of _ ?ct]) (use ct tmr f0 lt in \<open>simp_all add: ct_ok_def\<close>)
    then show ?thesis using True lt by (simp add: other_response_def)
  next
    case ge: False
    let ?ct = "ct\<lparr>ct_state := COMPLETED\<rparr>" let ?s = "event (Told i None (Some msg)) (put_ct i (ct\<lparr>ct_state := COMPLETED\<rparr>) s)"
    have a: "acts i s ?s" by (rule acts_trans [OF acts_put [OF ct(1)] acts_event]) simp
    have f: "finals i ?s = 1" using f0 ge by simp
    show ?thesis
    proof (cases "sip_transp_reliable (ct_tp ct)")
      case rel: True
      then show ?thesis using ended [OF inv ct(1) a f] True ge by (simp add: other_response_def Let_def)
    next
      case rel: False
      let ?ct' = "?ct\<lparr>ct_tmr := Some (sp_now s + SIP_T4), ct_tmre := None\<rparr>"
      have "acts i s (put_ct i ?ct' ?s)" by (rule acts_trans [OF a acts_put [of _ _ ?ct]]) simp_all
      then have "ct_inv R (put_ct i ?ct' ?s)"
        by (rule kept [OF inv ct(1), of _ ?ct']) (use ct f rel in \<open>simp_all add: ct_ok_def\<close>)
      then show ?thesis using True ge rel by (simp add: other_response_def Let_def)
    qed
  qed
qed (use inv in \<open>simp add: other_response_def\<close>)

lemma response_inv:
  assumes inv: "ct_inv R s" and r: "ct_response_handler net rnd e msg s = Inr (b, s')"
  shows "ct_inv R s'"
proof (cases "hash_lookup (sp_ht s) (hash_joaat_pl (via_branch (sm_via msg))) (ct_matches s msg)")
  case None
  then show ?thesis using r inv by (simp add: ct_response_handler_def Let_def split: if_splits)
next
  case (Some i)
  then obtain ct where ct: "sp_ct s i = Some ct"
    using r by (cases "sp_ct s i") (simp_all add: ct_response_handler_def Let_def split: if_splits)
  show ?thesis
  proof (cases "ct_invite ct")
    case True
    then have "invite_response net rnd e i ct msg s = Inr s'"
      using r Some ct by (auto simp: ct_response_handler_def Let_def obind_Inr_iff split: if_splits)
    then show ?thesis by (rule invite_inv [OF inv ct True])
  next
    case False
    then have "s' = other_response i ct msg s" using r Some ct by (simp add: ct_response_handler_def Let_def split: if_splits)
    then show ?thesis using other_inv [OF inv ct False] by simp
  qed
qed

lemma tab_append:
  assumes "tab_inv s" and "sp_ct s i = None"
  shows "tab_inv (put_ct i ct (s\<lparr>sp_ht := hash_append (sp_ht s) (hash_joaat_str (ct_branch ct)) i\<rparr>))" (is "tab_inv ?s")
proof -
  have k: "ct_key ?s j = (if j = i then hash_joaat_str (ct_branch ct) else ct_key s j)" for j by (simp add: ct_key_def)
  have "hash_holds (ct_key ?s) (sp_ht s) {i. sp_ct s i \<noteq> None}"
    using assms unfolding tab_inv_def by (subst hash_holds_cong [where kf' = "ct_key s"]) (auto simp: k)
  from hash_holds_add [OF this, of i] assms(2)
  have "hash_holds (ct_key ?s) (sp_ht ?s) (insert i {i. sp_ct s i \<noteq> None})" by (simp add: k)
  moreover have "insert i {i. sp_ct s i \<noteq> None} = {j. sp_ct ?s j \<noteq> None}" by auto
  ultimately show ?thesis unfolding tab_inv_def by simp
qed

lemma request_inv:
  assumes inv: "ct_inv R s" and r: "sip_ctrans_request tp dst met branch mb e s = (r, s')"
  shows "ct_inv R s'"
proof -
  define i where "i = sp_next s"
  have "local_ok R i s" using inv by (simp add: ct_inv_def)
  then have none: "sp_ct s i = None" and f0: "finals i s = 0" by (auto simp: local_ok_def i_def split: option.splits if_splits)
  define ct where "ct = \<lparr>ct_dst = dst, ct_tmr = None, ct_tmre = None, ct_mb = mb, ct_mb_ack = None, ct_req = None, ct_met = met,
    ct_branch = branch, ct_tp = tp, ct_state = if met = ''INVITE'' then CALLING else TRYING, ct_txc = 0, ct_invite = (met = ''INVITE'')\<rparr>"
  define s1 where "s1 = put_ct i ct (s\<lparr>sp_ht := hash_append (sp_ht s) (hash_joaat_str branch) i\<rparr>)"
  define s2 where "s2 = send_mb e tp dst (Some mb) s1"
  have t1: "tab_inv s1" using tab_append [of s i ct] inv none by (simp add: s1_def ct_def ct_inv_def)
  have t2: "tab_inv s2" using t1 acts_send [of i s1] by (simp add: s2_def acts_def)
  have sel: "sp_ct s2 = (sp_ct s)(i := Some ct)" "sp_next s2 = sp_next s" "sp_now s2 = sp_now s" by (simp_all add: s2_def s1_def)
  have fin: "finals j s2 = finals j s" for j by (simp add: s2_def s1_def) (simp add: finals_def)
  have code: "sip_ctrans_request tp dst met branch mb e s = (case e of
      Some err \<Rightarrow> (Inl err, ct_destructor i s2)
    | None \<Rightarrow> (Inr i, (put_ct i (ct\<lparr>ct_tmr := Some (sp_now s2 + 64 * SIP_T1),
        ct_tmre := if sip_transp_reliable tp then None else Some (sp_now s2 + SIP_T1)\<rparr>) s2)\<lparr>sp_next := i + 1\<rparr>))"
    by (simp only: sip_ctrans_request_def s2_def s1_def ct_def i_def Let_def)
  show ?thesis
  proof (cases e)
    case (Some err)
    have s': "s' = ct_destructor i s2" using r Some code by simp
    have t: "tab_inv s'" using t2 acts_destructor [of i s2] by (simp add: s' acts_def)
    have "sp_ct s' = sp_ct s" using none by (auto simp: s' sel)
    then have "local_ok R j s' \<longleftrightarrow> local_ok R j s" for j by (intro local_ok_cong) (simp_all add: s' sel fin)
    then show ?thesis using t inv by (simp add: ct_inv_def)
  next
    case None
    define ct' where "ct' = ct\<lparr>ct_tmr := Some (sp_now s2 + 64 * SIP_T1),
        ct_tmre := if sip_transp_reliable tp then None else Some (sp_now s2 + SIP_T1)\<rparr>"
    have s': "s' = (put_ct i ct' s2)\<lparr>sp_next := i + 1\<rparr>" using r None code by (simp add: ct'_def)
    have "acts i s2 (put_ct i ct' s2)" by (rule acts_put) (simp_all add: sel ct'_def)
    then have "tab_inv (put_ct i ct' s2)" using t2 by (simp add: acts_def)
    then have t: "tab_inv s'" unfolding s' by (subst tab_inv_cong [where s = "put_ct i ct' s2"]) (simp_all add: ct_key_def)
    have ok: "ct_ok ct'" by (simp add: ct'_def ct_def ct_ok_def pace_def SIP_T1_def)
    have f: "finals j s' = finals j s" for j
    proof -
      have "finals j s' = finals j (put_ct i ct' s2)" by (simp add: s' finals_def)
      then show ?thesis by (simp add: fin)
    qed
    have "local_ok R j s'" for j
    proof (cases "j = i")
      case True
      moreover have "sp_ct s' i = Some ct'" "i < sp_next s'" "ct_state ct' \<noteq> COMPLETED" by (simp_all add: s' ct'_def ct_def)
      ultimately show ?thesis using ok f0 by (simp add: local_ok_def f)
    next
      case False
      have "local_ok R j s' \<longleftrightarrow> local_ok R j s"
        by (rule local_ok_cong) (use False f in \<open>auto simp: s' sel i_def\<close>)
      then show ?thesis using inv by (simp add: ct_inv_def)
    qed
    with t show ?thesis by (simp add: ct_inv_def)
  qed
qed

lemma cancel_inv:
  assumes inv: "ct_inv R s" and r: "sip_ctrans_cancel net rnd e i s = Inr (x, s')"
  shows "ct_inv R s'"
proof -
  obtain ct where ct: "sp_ct s i = Some ct" using r by (cases "sp_ct s i") (simp_all add: sip_ctrans_cancel_def)
  show ?thesis
  proof (cases "ct_invite ct \<and> ct_state ct = PROCEEDING")
    case False
    then show ?thesis using r ct inv by (auto simp: sip_ctrans_cancel_def split: if_splits)
  next
    case True
    let ?ct = "ct\<lparr>ct_tmr := Some (sp_now s + 64 * SIP_T1)\<rparr>"
    let ?rc = "request_copy net rnd (sp_software s) ?ct ''CANCEL'' None"
    obtain c ct' where rc: "?rc = Inr (c, ct')"
      using r ct True by (cases ?rc) (auto simp: sip_ctrans_cancel_def)
    have s': "case c of Inl err \<Rightarrow> s' = put_ct i ct' s
      | Inr mb \<Rightarrow> \<exists>r. sip_ctrans_request (ct_tp ct') (ct_dst ct') ''CANCEL'' (ct_branch ct') mb e (put_ct i ct' s) = (r, s')"
    proof (cases c)
      case (Inr mb)
      obtain r1 s1 where q: "sip_ctrans_request (ct_tp ct') (ct_dst ct') ''CANCEL'' (ct_branch ct') mb e (put_ct i ct' s) = (r1, s1)"
        by fastforce
      then show ?thesis using r ct True rc Inr by (cases r1) (simp_all add: sip_ctrans_cancel_def)
    qed (use r ct True rc in \<open>simp add: sip_ctrans_cancel_def\<close>)
    obtain q where q: "ct' = ?ct\<lparr>ct_req := q\<rparr>" using request_copy_same [OF rc] by blast
    note iv = ct_invD [OF inv ct]
    have "acts i s (put_ct i ct' s)" by (rule acts_put [OF ct]) (simp add: q)
    then have "ct_inv R (put_ct i ct' s)"
      by (rule kept [OF inv ct, of _ ct']) (use iv True in \<open>simp_all add: q ct_ok_def\<close>)
    then show ?thesis using s' request_inv by (auto split: sum.splits)
  qed
qed

lemma ct_step_inv: "ct_step net s s' \<Longrightarrow> ct_inv R s \<Longrightarrow> ct_inv R s'"
proof (induction rule: ct_step.induct)
  case (Again s i ct t e s')
  then show ?case using again_inv [of R s i ct t e] by auto
next
  case (Time d s)
  have "tab_inv (s\<lparr>sp_now := sp_now s + d\<rparr>) \<longleftrightarrow> tab_inv s" by (rule tab_inv_cong) (simp_all add: ct_key_def)
  moreover have "local_ok R i (s\<lparr>sp_now := sp_now s + d\<rparr>) \<longleftrightarrow> local_ok R i s" for i
    by (rule local_ok_cong) (simp_all add: finals_def)
  ultimately show ?case using Time by (simp add: ct_inv_def)
qed (blast intro: request_inv response_inv cancel_inv transport_inv tmr_inv)+

lemma release_inv:
  assumes "ct_inv R s" "sp_ct s i \<noteq> None"
  shows "ct_inv (insert i R) (ct_destructor i s)"
proof -
  obtain ct where ct: "sp_ct s i = Some ct" using assms(2) by blast
  have "tab_inv (ct_destructor i s)" using acts_destructor [of i s] assms(1) by (simp add: ct_inv_def acts_def)
  moreover have "local_ok (insert i R) j (ct_destructor i s)" for j
  proof (cases "j = i")
    case True
    then show ?thesis using ct_invD [OF assms(1) ct] by (simp add: local_ok_def split: if_splits)
  next
    case False
    then have "local_ok (insert i R) j (ct_destructor i s) \<longleftrightarrow> local_ok R j s" by (intro local_ok_cong) simp_all
    then show ?thesis using assms(1) by (simp add: ct_inv_def)
  qed
  ultimately show ?thesis by (simp add: ct_inv_def)
qed

lemma ct_reach_inv: "ct_reach net R s \<Longrightarrow> ct_inv R s"
proof (induction rule: ct_reach.induct)
  case (Start s)
  then obtain n where "hash_alloc n = Inr (sp_ht s)" by (auto simp: ct_init_def)
  from hash_holds_alloc [OF this] have "tab_inv s" using Start by (simp add: tab_inv_def ct_init_def)
  then show ?case using Start by (simp add: ct_inv_def local_ok_def ct_init_def finals_def)
qed (blast intro: ct_step_inv release_inv)+

section \<open>A request without a response\<close>

text \<open>Waiting for the next timer of a transaction, which fires on time, while messages can be sent.\<close>

definition ct_wake :: "nat \<Rightarrow> ct_stack \<Rightarrow> ub + ct_stack" where
  "ct_wake i s = (case sp_ct s i of
      None \<Rightarrow> Inr s
    | Some ct \<Rightarrow>
        (case ct_tmre ct of
            Some t \<Rightarrow>
              (if \<exists>T. ct_tmr ct = Some T \<and> T < t
               then ct_tmr_handler i (put_ct i (ct\<lparr>ct_tmr := None\<rparr>) (s\<lparr>sp_now := the (ct_tmr ct)\<rparr>))
               else ct_retransmit_handler None i (put_ct i (ct\<lparr>ct_tmre := None\<rparr>) (s\<lparr>sp_now := t\<rparr>)))
          | None \<Rightarrow>
              (case ct_tmr ct of
                  Some T \<Rightarrow> ct_tmr_handler i (put_ct i (ct\<lparr>ct_tmr := None\<rparr>) (s\<lparr>sp_now := T\<rparr>))
                | None \<Rightarrow> Inr s)))"

fun ct_wakes :: "nat \<Rightarrow> nat \<Rightarrow> ct_stack \<Rightarrow> ub + ct_stack" where
  "ct_wakes 0 i s = Inr s"
| "ct_wakes (Suc n) i s = obind (ct_wakes n i s) (ct_wake i)"

lemma retransmit_timeout_cong:
  "ct_state ct' = ct_state ct \<Longrightarrow> ct_txc ct' = ct_txc ct \<Longrightarrow> retransmit_timeout ct' = retransmit_timeout ct"
  by (cases "ct_state ct") (simp_all add: retransmit_timeout_def)

lemma wake_again:
  assumes "sp_ct s i = Some ct" "ct_tmre ct = Some t" "\<forall>T. ct_tmr ct = Some T \<longrightarrow> t \<le> T"
    and "retransmit_timeout (ct\<lparr>ct_txc := ct_txc ct + 1\<rparr>) = Inr (Some d)"
  shows "\<exists>s'. ct_wake i s = Inr s' \<and> sp_ct s' i = Some (ct\<lparr>ct_txc := ct_txc ct + 1, ct_tmre := Some (t + d)\<rparr>) \<and>
    sp_log s' = sp_log s @ [(t, Sent (ct_tp ct) (ct_dst ct) (ct_mb ct))]"
proof -
  have r: "retransmit_timeout (ct\<lparr>ct_tmre := None, ct_txc := ct_txc ct + 1\<rparr>) = Inr (Some d)"
    using assms(4) retransmit_timeout_cong [of "ct\<lparr>ct_tmre := None, ct_txc := ct_txc ct + 1\<rparr>" "ct\<lparr>ct_txc := ct_txc ct + 1\<rparr>"] by simp
  have n: "\<not> (\<exists>T. ct_tmr ct = Some T \<and> T < t)" using assms(3) by auto
  have "ct_wake i s = ct_retransmit_handler None i (put_ct i (ct\<lparr>ct_tmre := None\<rparr>) (s\<lparr>sp_now := t\<rparr>))"
    unfolding ct_wake_def assms(1,2) option.case if_not_P [OF n] ..
  then show ?thesis by (simp add: ct_retransmit_handler_def r send_mb_def Let_def)
qed

lemma wake_expires:
  assumes "sp_ct s i = Some ct" "ct_tmre ct = Some t" "ct_tmr ct = Some T" "T < t" "ct_state ct \<noteq> COMPLETED"
  shows "\<exists>s'. ct_wake i s = Inr s' \<and> sp_ct s' i = None \<and> sp_log s' = sp_log s @ [(T, Told i (Some ETIMEDOUT) None)]"
  using assms by (cases "ct_state ct") (simp_all add: ct_wake_def ct_tmr_handler_def ct_terminate_def)

text \<open>Sent again at the times \<open>\<tau>\<close> behind \<open>a\<close>, as long as these are not later than the end.\<close>

lemma schedule:
  assumes ct: "sp_ct s i = Some ct" "ct_tmr ct = Some (a + 32000)" "ct_tmre ct = Some (a + \<tau> 1)" "ct_txc ct = 0"
      "ct_state ct \<noteq> COMPLETED"
    and \<tau>: "\<And>k. k < n \<Longrightarrow> \<tau> (k + 1) \<le> 32000" "32000 < \<tau> (n + 1)"
    and d: "\<And>k. k < n \<Longrightarrow> retransmit_timeout (ct\<lparr>ct_txc := of_nat (k + 1)\<rparr>) = Inr (Some (\<tau> (k + 2) - \<tau> (k + 1)))"
  shows "\<exists>s'. ct_wakes (n + 1) i s = Inr s' \<and> sp_ct s' i = None \<and>
    sp_log s' = sp_log s @ List.map (\<lambda>k. (a + \<tau> (k + 1), Sent (ct_tp ct) (ct_dst ct) (ct_mb ct))) [0..<n] @
      [(a + 32000, Told i (Some ETIMEDOUT) None)]"
proof -
  have "k \<le> n \<Longrightarrow> \<exists>s'. ct_wakes k i s = Inr s' \<and> sp_ct s' i = Some (ct\<lparr>ct_txc := of_nat k, ct_tmre := Some (a + \<tau> (k + 1))\<rparr>) \<and>
    sp_log s' = sp_log s @ List.map (\<lambda>k. (a + \<tau> (k + 1), Sent (ct_tp ct) (ct_dst ct) (ct_mb ct))) [0..<k]" for k
  proof (induction k)
    case 0
    have "ct = ct\<lparr>ct_txc := of_nat 0, ct_tmre := Some (a + \<tau> (0 + 1))\<rparr>"
      using ct by (intro sip_ctrans.equality) simp_all
    then show ?case using ct(1) by simp
  next
    case (Suc k)
    then obtain s' where s': "ct_wakes k i s = Inr s'" "sp_ct s' i = Some (ct\<lparr>ct_txc := of_nat k, ct_tmre := Some (a + \<tau> (k + 1))\<rparr>)"
      "sp_log s' = sp_log s @ List.map (\<lambda>k. (a + \<tau> (k + 1), Sent (ct_tp ct) (ct_dst ct) (ct_mb ct))) [0..<k]" by auto
    let ?ct = "ct\<lparr>ct_txc := of_nat k, ct_tmre := Some (a + \<tau> (k + 1))\<rparr>"
    have "retransmit_timeout (?ct\<lparr>ct_txc := ct_txc ?ct + 1\<rparr>) = retransmit_timeout (ct\<lparr>ct_txc := of_nat (k + 1)\<rparr>)"
      by (rule retransmit_timeout_cong) (simp_all add: add.commute)
    then have r: "retransmit_timeout (?ct\<lparr>ct_txc := ct_txc ?ct + 1\<rparr>) = Inr (Some (\<tau> (k + 2) - \<tau> (k + 1)))"
      using d [of k] Suc.prems by simp
    have t: "\<forall>T. ct_tmr ?ct = Some T \<longrightarrow> a + \<tau> (k + 1) \<le> T" using ct(2) \<tau>(1) [of k] Suc.prems by simp
    have u: "?ct\<lparr>ct_txc := ct_txc ?ct + 1, ct_tmre := Some (a + \<tau> (k + 1) + (\<tau> (k + 2) - \<tau> (k + 1)))\<rparr> =
        ct\<lparr>ct_txc := of_nat (Suc k), ct_tmre := Some (a + \<tau> (Suc k + 1))\<rparr>"
      by (rule sip_ctrans.equality) (simp_all add: add.commute)
    have e: "ct_tmre ?ct = Some (a + \<tau> (k + 1))" by simp
    from wake_again [OF s'(2) e t r] s'(1,3) show ?case by (auto simp: u)
  qed
  from this [of n] obtain s' where s': "ct_wakes n i s = Inr s'" "sp_ct s' i = Some (ct\<lparr>ct_txc := of_nat n, ct_tmre := Some (a + \<tau> (n + 1))\<rparr>)"
    "sp_log s' = sp_log s @ List.map (\<lambda>k. (a + \<tau> (k + 1), Sent (ct_tp ct) (ct_dst ct) (ct_mb ct))) [0..<n]" by auto
  from wake_expires [OF s'(2), of "a + \<tau> (n + 1)" "a + 32000"] ct(2,5) \<tau>(2) s'(1,3) show ?thesis by auto
qed

definition invite_times :: "nat \<Rightarrow> int" where "invite_times k = 500 * (2 ^ k - 1)"
definition other_times :: "nat \<Rightarrow> int" where "other_times k = (if k \<le> 3 then 500 * (2 ^ k - 1) else 4000 * int k - 8500)"

lemma less_cases: "k < 6 \<Longrightarrow> k \<in> {0, 1, 2, 3, 4, 5 :: nat}" "k < 10 \<Longrightarrow> k \<in> {0, 1, 2, 3, 4, 5, 6, 7, 8, 9 :: nat}"
  by auto

lemma times_map:
  "List.map (\<lambda>k. (a + invite_times (k + 1), x)) [0..<6] = List.map (\<lambda>t. (a + t, x)) [500, 1500, 3500, 7500, 15500, 31500]"
  "List.map (\<lambda>k. (a + other_times (k + 1), x)) [0..<10] =
    List.map (\<lambda>t. (a + t, x)) [500, 1500, 3500, 7500, 11500, 15500, 19500, 23500, 27500, 31500]"
proof -
  have u: "[0..<6] = [0, 1, 2, 3, 4, 5 :: nat]" "[0..<10] = [0, 1, 2, 3, 4, 5, 6, 7, 8, 9 :: nat]" by code_simp+
  show "List.map (\<lambda>k. (a + invite_times (k + 1), x)) [0..<6] = List.map (\<lambda>t. (a + t, x)) [500, 1500, 3500, 7500, 15500, 31500]"
    by (simp add: u invite_times_def)
  show "List.map (\<lambda>k. (a + other_times (k + 1), x)) [0..<10] =
      List.map (\<lambda>t. (a + t, x)) [500, 1500, 3500, 7500, 11500, 15500, 19500, 23500, 27500, 31500]"
    by (simp add: u other_times_def)
qed

lemma request_unanswered:
  assumes r: "sip_ctrans_request tp dst met branch mb None s = (Inr i, s0)" and u: "\<not> sip_transp_reliable tp"
  shows "\<exists>s'. ct_wakes (if met = ''INVITE'' then 7 else 11) i s0 = Inr s' \<and> sp_ct s' i = None \<and>
    sp_log s' = sp_log s @ List.map (\<lambda>t. (sp_now s + t, Sent tp dst mb))
        (if met = ''INVITE'' then [0, 500, 1500, 3500, 7500, 15500, 31500]
         else [0, 500, 1500, 3500, 7500, 11500, 15500, 19500, 23500, 27500, 31500]) @
      [(sp_now s + 32000, Told i (Some ETIMEDOUT) None)]"
proof -
  obtain ct where ct: "sp_ct s0 i = Some ct" "ct_tmr ct = Some (sp_now s + 32000)" "ct_tmre ct = Some (sp_now s + 500)"
    "ct_txc ct = 0" "ct_state ct = (if met = ''INVITE'' then CALLING else TRYING)" "ct_tp ct = tp" "ct_dst ct = dst" "ct_mb ct = mb"
    and log: "sp_log s0 = sp_log s @ [(sp_now s, Sent tp dst mb)]"
    using r u by (auto simp: sip_ctrans_request_def Let_def SIP_T1_def send_mb_def)
  show ?thesis
  proof (cases "met = ''INVITE''")
    case True
    have "\<exists>s'. ct_wakes (6 + 1) i s0 = Inr s' \<and> sp_ct s' i = None \<and>
      sp_log s' = sp_log s0 @ List.map (\<lambda>k. (sp_now s + invite_times (k + 1), Sent (ct_tp ct) (ct_dst ct) (ct_mb ct))) [0..<6] @
        [(sp_now s + 32000, Told i (Some ETIMEDOUT) None)]"
    proof (rule schedule [OF ct(1,2)])
      fix k :: nat assume "k < 6"
      from less_cases(1) [OF this] show "retransmit_timeout (ct\<lparr>ct_txc := of_nat (k + 1)\<rparr>) = Inr (Some (invite_times (k + 2) - invite_times (k + 1)))"
        and "invite_times (k + 1) \<le> 32000"
        using ct(5) True by (auto simp: retransmit_timeout_def shl_def SIP_T1_def invite_times_def)
    qed (use ct True in \<open>simp_all add: invite_times_def\<close>)
    then show ?thesis using True log by (simp add: ct times_map [simplified])
  next
    case False
    have "\<exists>s'. ct_wakes (10 + 1) i s0 = Inr s' \<and> sp_ct s' i = None \<and>
      sp_log s' = sp_log s0 @ List.map (\<lambda>k. (sp_now s + other_times (k + 1), Sent (ct_tp ct) (ct_dst ct) (ct_mb ct))) [0..<10] @
        [(sp_now s + 32000, Told i (Some ETIMEDOUT) None)]"
    proof (rule schedule [OF ct(1,2)])
      fix k :: nat assume "k < 10"
      from less_cases(2) [OF this] show "retransmit_timeout (ct\<lparr>ct_txc := of_nat (k + 1)\<rparr>) = Inr (Some (other_times (k + 2) - other_times (k + 1)))"
        and "other_times (k + 1) \<le> 32000"
        using ct(5) False by (auto simp: retransmit_timeout_def shl_def SIP_T1_def SIP_T2_def other_times_def)
    qed (use ct False in \<open>simp_all add: other_times_def\<close>)
    then show ?thesis using False log by (simp add: ct times_map [simplified])
  qed
qed

section \<open>Responses find their transaction\<close>

lemma response_found:
  assumes inv: "ct_inv R s" and ct: "sp_ct s i = Some ct" and b: "via_branch (sm_via msg) = Some (ct_branch ct)" "ascii (ct_branch ct)"
    and m: "cs_met (sm_cseq msg) = Some (ct_met ct)"
    and one: "\<And>j c. sp_ct s j = Some c \<Longrightarrow> ct_branch c = ct_branch ct \<Longrightarrow> ct_met c = ct_met ct \<Longrightarrow> j = i"
  shows "ct_response_handler net rnd e msg s =
    (if ct_invite ct then obind (invite_response net rnd e i ct msg s) (\<lambda>s. Inr (True, s)) else Inr (True, other_response i ct msg s))"
proof -
  have tab: "hash_holds (ct_key s) (sp_ht s) {i. sp_ct s i \<noteq> None}" using inv by (simp add: ct_inv_def tab_inv_def)
  let ?key = "hash_joaat_pl (via_branch (sm_via msg))"
  have key: "?key = hash_joaat_str (ct_branch ct)" using b hash_joaat_str_ascii [of "ct_branch ct"] by (simp add: hash_joaat_pl_def)
  have mt: "ct_matches s msg j \<longleftrightarrow> (\<exists>c. sp_ct s j = Some c \<and> ct_branch c = ct_branch ct \<and> ct_met c = ct_met ct)" for j
    using b m by (auto simp: ct_matches_def ct_cmp_handler_def split: option.splits)
  have l: "hash_lookup (sp_ht s) ?key (ct_matches s msg) = Some i"
  proof (rule hash_holds_only [OF tab])
    show "\<forall>j\<in>{i. sp_ct s i \<noteq> None}. ct_matches s msg j \<longrightarrow> ct_key s j = ?key" by (auto simp: mt key ct_key_def)
    show "i \<in> {i. sp_ct s i \<noteq> None}" "ct_matches s msg i" using ct by (simp_all add: mt)
    show "\<forall>j\<in>{i. sp_ct s i \<noteq> None}. ct_matches s msg j \<longrightarrow> j = i" using one unfolding mt by blast
  qed
  have alive: "\<not> (\<exists>j\<in>set (hash_list (sp_ht s) ?key). sp_ct s j = None)" using hash_holds_bucket [OF tab] by blast
  show ?thesis unfolding ct_response_handler_def Let_def if_not_P [OF alive] l by (simp add: ct deref_def)
qed

end
