(* ===== verification/Re_Reply.thy ===== *)
theory Re_Reply
  imports Re_Sip_Msg Re_Print
begin

text \<open>
  Responses to SIP requests (\<open>src/re/src/sip/reply.c\<close>) and the parameter whose place in a text is
  needed for them (\<open>param.c\<close>): the headers of the request that belong into a response are
  copied, and the first Via header is told where the request came from. Allocation succeeds, and
  the text a caller puts behind the headers is given as it is printed.
\<close>

section \<open>The place of a parameter\<close>

text \<open>The search of the matcher, with the offset it has got to.\<close>

fun re_search_at :: "string \<Rightarrow> string \<Rightarrow> caps \<Rightarrow> nat \<Rightarrow> re_out \<times> nat" where
  "re_search_at expr [] caps n = (Done (if expr \<noteq> [] then Some ENOENT else None) caps, n)"
| "re_search_at expr (c # p) caps n = (case re_try expr (c # p) False None 0 caps of
      Again caps' \<Rightarrow> re_search_at expr p caps' (n + 1)
    | out \<Rightarrow> (out, n))"

lemma re_search_at_fst: "fst (re_search_at expr p caps n) = re_search expr p caps"
  by (induction p arbitrary: caps n) (simp_all split: re_out.splits)

definition exists_expr :: "string \<Rightarrow> string" where
  "exists_expr name = re_snprintf 128 ['';['' @ ws4 @ '']*'', name, ''['' @ ws4 @ '';=]*'']"

text \<open>The start of the parameter, from its semicolon on, and its length.\<close>

definition sip_param_exists :: "pl \<Rightarrow> string \<Rightarrow> ub + (errno + nat \<times> nat)" where
  "sip_param_exists pl name = (case pl of
      None \<Rightarrow> Inr (Inl ENOENT)
    | Some s \<Rightarrow> (case re_search_at (exists_expr name) s (\<lambda>_. None) 0 of
          (Overflow, _) \<Rightarrow> Inl Out_of_bounds
        | (Again _, _) \<Rightarrow> Inr (Inl ENOENT)
        | (Done err c, p) \<Rightarrow>
            let v2 = p + 1 + pl_l (c 0) + length name
            in if err \<noteq> None then Inr (Inl ENOENT)
               else if pl_l (c 1) = 0 \<and> v2 < length s then Inr (Inl ENOENT)
               else Inr (Inr (p, v2 - p))))"

section \<open>The headers of a response\<close>

text \<open>
  The parameters of the first Via header are the rest of its value from some character on, so their
  place in it is known from their length.
\<close>

definition via_reply :: "inet_lib \<Rightarrow> sip_msg \<Rightarrow> string \<Rightarrow> bool \<Rightarrow> ub + string \<times> bool" where
  "via_reply net msg val rport =
    obind (sip_param_exists (via_params (sm_via msg)) ''rport'') (\<lambda>r.
      let (t, rport) = (case r of
            Inr (off, l) \<Rightarrow>
              let start = length val - pl_l (via_params (sm_via msg)) + off
              in (take start val @ drop (start + l) val @ '';rport='' @ itoa (sa_port (sm_src msg)), True)
          | Inl _ \<Rightarrow> (val, rport))
      in if rport \<or> \<not> sa_cmp (sm_src msg) (via_addr (sm_via msg)) True False
         then obind (print_addr net (sm_src msg)) (\<lambda>a. Inr (t @ '';received='' @ a, rport))
         else Inr (t, rport))"

definition hex16 :: "u64 \<Rightarrow> string" where
  "hex16 w = concat (write_padded (local_itoa w 16 False) 16 (CHR ''0'') False None)"

fun reply_hdrs :: "inet_lib \<Rightarrow> sip_msg \<Rightarrow> bool \<Rightarrow> u16 \<Rightarrow> sip_hdr list \<Rightarrow> u32 \<Rightarrow> bool \<Rightarrow> ub + string \<times> bool" where
  "reply_hdrs net msg rec_route scode [] viac rport = Inr ([], rport)"
| "reply_hdrs net msg rec_route scode (h # hs) viac rport =
    (let i = hdr_id h; line = hdr_name h @ '': ''
     in if i = SIP_HDR ''VIA'' then
          obind (if viac \<noteq> 0 then Inr (hdr_val h, rport) else via_reply net msg (hdr_val h) rport) (\<lambda>(v, rport).
            obind (reply_hdrs net msg rec_route scode hs (viac + 1) rport) (\<lambda>(t, rport). Inr (line @ v @ crlf @ t, rport)))
        else
          obind (reply_hdrs net msg rec_route scode hs viac rport) (\<lambda>(t, rport).
            Inr (if i = SIP_HDR ''TO'' then
                line @ hdr_val h @ (if \<not> pl_isset (ta_tag (sm_to msg)) \<and> scode > 100 then '';tag='' @ hex16 (sm_tag msg) else []) @
                  crlf @ t
              else if i = SIP_HDR ''RECORD_ROUTE'' \<and> rec_route \<or>
                  i \<in> {SIP_HDR ''FROM'', SIP_HDR ''CALL_ID'', SIP_HDR ''CSEQ''} then line @ hdr_val h @ crlf @ t
              else t, rport)))"

definition reply_text :: "inet_lib \<Rightarrow> string option \<Rightarrow> sip_msg \<Rightarrow> bool \<Rightarrow> u16 \<Rightarrow> string \<Rightarrow> string option \<Rightarrow> ub + string \<times> bool" where
  "reply_text net software msg rec_route scode reason fmt =
    obind (reply_hdrs net msg rec_route scode (sm_hdrl msg) 0 False) (\<lambda>(t, rport).
      Inr (''SIP/2.0 '' @ itoa scode @ '' '' @ reason @ crlf @ t @
        (case software of None \<Rightarrow> [] | Some sw \<Rightarrow> ''Server: '' @ sw @ crlf) @
        (case fmt of Some b \<Rightarrow> b | None \<Rightarrow> ''Content-Length: 0'' @ crlf @ crlf), rport))"

section \<open>Where a response goes\<close>

definition SIP_PORT :: u16 where "SIP_PORT = 5060"
definition SIP_PORT_TLS :: u16 where "SIP_PORT_TLS = 5061"

definition sip_transp_port :: "sip_transp \<Rightarrow> u16 \<Rightarrow> u16" where
  "sip_transp_port tp port =
    (if port \<noteq> 0 then port
     else case tp of
         SIP_TRANSP_UDP \<Rightarrow> SIP_PORT
       | SIP_TRANSP_TCP \<Rightarrow> SIP_PORT
       | SIP_TRANSP_TLS \<Rightarrow> SIP_PORT_TLS
       | _ \<Rightarrow> 0)"

definition sip_reply_addr :: "inet_lib \<Rightarrow> sip_msg \<Rightarrow> bool \<Rightarrow> ub + sa" where
  "sip_reply_addr net msg rport =
    (let port = sa_port (via_addr (sm_via msg)); addr = sm_src msg;
         own = sa_set_port (sip_transp_port (sm_tp msg) port) addr
     in case sm_tp msg of
         SIP_TRANSP_UDP \<Rightarrow>
           obind (sip_param_decode (via_params (sm_via msg)) ''maddr'' None) (\<lambda>(err, pl).
             if err = None then obind (sa_set net pl (sip_transp_port (sm_tp msg) port) addr) (\<lambda>(_, addr). Inr addr)
             else Inr (if rport then addr else own))
       | SIP_TRANSP_TCP \<Rightarrow> Inr own
       | SIP_TRANSP_TLS \<Rightarrow> Inr own
       | _ \<Rightarrow> Inr addr)"

end
