(* ===== verification/Re_Strans.thy ===== *)
theory Re_Strans
  imports Re_Ctrans Re_Reply
begin

text \<open>
  Server transactions (\<open>src/re/src/sip/strans.c\<close>) and the responses sent by them (\<open>reply.c\<close>): a request that comes
  again gets the response it got before, and a negative response to an INVITE is sent until there is
  an ACK. As for client transactions the structures live in a store, the hash table holds their addresses,
  a timer is the time it expires at, and the result of sending is an argument.

  The machine is a step relation with the addresses its users hold. Shown are that a transaction is held by its user
  until it is answered and has a timer that ends it from then on, that no shift overflows,
  and how responses are repeated.
\<close>

section \<open>Transactions\<close>

datatype strans_state = TRYING_S | PROCEEDING_S | ACCEPTED_S | COMPLETED_S | CONFIRMED_S

record sip_strans =
  st_tmr :: "int option"
  st_tmrg :: "int option"
  st_dst :: sa
  st_msg :: sip_msg
  st_mb :: "string option"
  st_state :: strans_state
  st_txc :: u32
  st_invite :: bool

text \<open>A message leaves; the user is told that the request at an address is cancelled.\<close>

datatype st_event = Reply_sent sip_transp sa string | Cancel_told nat

record st_stack =
  ss_ht :: "nat hash"
  ss_st :: "nat \<Rightarrow> sip_strans option"
  ss_next :: nat
  ss_software :: "string option"
  ss_now :: int
  ss_log :: "(int \<times> st_event) list"

definition put_st :: "nat \<Rightarrow> sip_strans \<Rightarrow> st_stack \<Rightarrow> st_stack" where
  "put_st i st s = s\<lparr>ss_st := (ss_st s)(i := Some st)\<rparr>"

definition st_note :: "st_event \<Rightarrow> st_stack \<Rightarrow> st_stack" where
  "st_note e s = s\<lparr>ss_log := ss_log s @ [(ss_now s, e)]\<rparr>"

definition st_send :: "errno option \<Rightarrow> sip_transp \<Rightarrow> sa \<Rightarrow> string option \<Rightarrow> st_stack \<Rightarrow> st_stack" where
  "st_send e tp dst mb s = (if e = None then (case mb of None \<Rightarrow> s | Some m \<Rightarrow> st_note (Reply_sent tp dst m) s) else s)"

definition st_destructor :: "nat \<Rightarrow> st_stack \<Rightarrow> st_stack" where
  "st_destructor i s = s\<lparr>ss_ht := hash_unlink i (ss_ht s), ss_st := (ss_st s)(i := None)\<rparr>"

section \<open>Which transaction a request belongs to\<close>

definition strans_cmp :: "sip_msg \<Rightarrow> sip_msg \<Rightarrow> bool" where
  "strans_cmp msg1 msg2 =
    (if pl_cmp (via_branch (sm_via msg1)) (via_branch (sm_via msg2)) \<noteq> None then False
     else if pl_cmp (via_sentby (sm_via msg1)) (via_sentby (sm_via msg2)) \<noteq> None then False
     else True)"

definition st_cmp_handler :: "sip_strans \<Rightarrow> sip_msg \<Rightarrow> bool" where
  "st_cmp_handler st msg =
    (if \<not> strans_cmp (st_msg st) msg then False
     else if pl_cmp (cs_met (sm_cseq (st_msg st))) (cs_met (sm_cseq msg)) \<noteq> None then False
     else True)"

definition cmp_ack_handler :: "sip_strans \<Rightarrow> sip_msg \<Rightarrow> bool" where
  "cmp_ack_handler st msg =
    (if \<not> strans_cmp (st_msg st) msg then False
     else if pl_strcmp (cs_met (sm_cseq (st_msg st))) (Some ''INVITE'') \<noteq> None then False
     else True)"

definition cmp_cancel_handler :: "sip_strans \<Rightarrow> sip_msg \<Rightarrow> bool" where
  "cmp_cancel_handler st msg =
    (if \<not> strans_cmp (st_msg st) msg then False
     else if pl_strcmp (cs_met (sm_cseq (st_msg st))) (Some ''CANCEL'') = None then False
     else True)"

text \<open>The search in the table looks at the transactions of one list.\<close>

definition st_matches :: "(sip_strans \<Rightarrow> sip_msg \<Rightarrow> bool) \<Rightarrow> st_stack \<Rightarrow> sip_msg \<Rightarrow> nat \<Rightarrow> bool" where
  "st_matches cmp s msg i = (case ss_st s i of None \<Rightarrow> False | Some st \<Rightarrow> cmp st msg)"

definition st_lookup :: "(sip_strans \<Rightarrow> sip_msg \<Rightarrow> bool) \<Rightarrow> sip_msg \<Rightarrow> st_stack \<Rightarrow> ub + (nat \<times> sip_strans) option" where
  "st_lookup cmp msg s =
    (let key = hash_joaat_pl (via_branch (sm_via msg))
     in if \<exists>i\<in>set (hash_list (ss_ht s) key). ss_st s i = None then Inl Use_after_free
        else case hash_lookup (ss_ht s) key (st_matches cmp s msg) of
            None \<Rightarrow> Inr None
          | Some i \<Rightarrow> obind (deref (ss_st s i)) (\<lambda>st. Inr (Some (i, st))))"

section \<open>Timers\<close>

definition st_tmr_handler :: "nat \<Rightarrow> st_stack \<Rightarrow> ub + st_stack" where
  "st_tmr_handler i s = obind (deref (ss_st s i)) (\<lambda>st. Inr (st_destructor i s))"

definition st_retransmit_handler :: "errno option \<Rightarrow> nat \<Rightarrow> st_stack \<Rightarrow> ub + st_stack" where
  "st_retransmit_handler e i s = obind (deref (ss_st s i)) (\<lambda>st.
     let s = st_send e (sm_tp (st_msg st)) (st_dst st) (st_mb st) s;
         st = st\<lparr>st_txc := st_txc st + 1\<rparr>
     in obind (shl SIP_T1 (st_txc st)) (\<lambda>t.
          Inr (put_st i (st\<lparr>st_tmrg := Some (ss_now s + min t SIP_T2)\<rparr>) s)))"

section \<open>Responses\<close>

definition sip_strans_alloc :: "sip_msg \<Rightarrow> st_stack \<Rightarrow> nat \<times> st_stack" where
  "sip_strans_alloc msg s =
    (let i = ss_next s;
         st = \<lparr>st_tmr = None, st_tmrg = None, st_dst = sa_zero, st_msg = msg, st_mb = None, st_state = TRYING_S, st_txc = 0,
           st_invite = (pl_strcmp (sm_met msg) (Some ''INVITE'') = None)\<rparr>
     in (i, (put_st i st (s\<lparr>ss_ht := hash_append (ss_ht s) (hash_joaat_pl (via_branch (sm_via msg))) i\<rparr>))\<lparr>ss_next := i + 1\<rparr>))"

text \<open>
  The argument \<open>stp\<close> is the pointer to the variable of the caller, with its value; it is
  returned as it is then. The state a response leaves its transaction in, with its timers:
\<close>

definition replied :: "nat \<Rightarrow> sip_strans \<Rightarrow> u16 \<Rightarrow> st_stack \<Rightarrow> st_stack" where
  "replied i st scode s =
    (let reliable = sip_transp_reliable (sm_tp (st_msg st))
     in if st_invite st then
          if scode < 200 then put_st i (st\<lparr>st_state := PROCEEDING_S\<rparr>) s
          else
            let st = st\<lparr>st_tmr := Some (ss_now s + 64 * SIP_T1)\<rparr>
            in if scode < 300 then put_st i (st\<lparr>st_state := ACCEPTED_S\<rparr>) s
               else put_st i (st\<lparr>st_state := COMPLETED_S,
                 st_tmrg := if \<not> reliable then Some (ss_now s + SIP_T1) else st_tmrg st\<rparr>) s
        else if scode < 200 then put_st i (st\<lparr>st_state := PROCEEDING_S\<rparr>) s
        else if \<not> reliable then put_st i (st\<lparr>st_tmr := Some (ss_now s + 64 * SIP_T1), st_state := COMPLETED_S\<rparr>) s
        else st_destructor i s)"

definition sip_strans_reply ::
  "nat option option \<Rightarrow> sip_msg \<Rightarrow> sa \<Rightarrow> u16 \<Rightarrow> string \<Rightarrow> errno option \<Rightarrow> st_stack \<Rightarrow> ub + errno option \<times> nat option option \<times> st_stack" where
  "sip_strans_reply stp msg dst scode mb e s =
    (if scode < 200 \<and> stp = None then Inr (Some EINVAL, stp, s)
     else
       let (i, s) = (case Option.bind stp id of Some i \<Rightarrow> (i, s) | None \<Rightarrow> sip_strans_alloc msg s)
       in obind (deref (ss_st s i)) (\<lambda>st.
            let st = st\<lparr>st_mb := Some mb, st_dst := dst\<rparr>;
                s = st_send e (sm_tp (st_msg st)) dst (Some mb) (put_st i st s);
                stp = map_option (\<lambda>_. if e \<noteq> None \<or> 200 \<le> scode then None else Some i) stp
            in Inr (if e \<noteq> None then (e, stp, st_destructor i s) else (None, stp, replied i st scode s))))"

definition vreplyf ::
  "inet_lib \<Rightarrow> nat option option \<Rightarrow> bool \<Rightarrow> sip_msg \<Rightarrow> bool \<Rightarrow> u16 \<Rightarrow> string \<Rightarrow> string option \<Rightarrow> errno option \<Rightarrow> st_stack \<Rightarrow>
    ub + errno option \<times> nat option option \<times> st_stack" where
  "vreplyf net stp stateful msg rec_route scode reason fmt e s =
    (if pl_strcmp (sm_met msg) (Some ''ACK'') = None then Inr (None, stp, s)
     else obind (reply_text net (ss_software s) msg rec_route scode reason fmt) (\<lambda>(mb, rport).
       obind (sip_reply_addr net msg rport) (\<lambda>dst.
         obind (if stateful then sip_strans_reply stp msg dst scode mb e s
             else Inr (e, stp, st_send e (sm_tp msg) dst (Some mb) s)) (\<lambda>(err, stp, s).
           if err = None then Inr (None, stp, s)
           else case Option.bind stp id of
               Some i \<Rightarrow> obind (deref (ss_st s i)) (\<lambda>_. Inr (err, Some None, st_destructor i s))
             | None \<Rightarrow> Inr (err, stp, s)))))"

definition sip_treplyf ::
  "inet_lib \<Rightarrow> nat option option \<Rightarrow> sip_msg \<Rightarrow> bool \<Rightarrow> u16 \<Rightarrow> string \<Rightarrow> string option \<Rightarrow> errno option \<Rightarrow> st_stack \<Rightarrow>
    ub + errno option \<times> nat option option \<times> st_stack" where
  "sip_treplyf net stp msg rec_route scode reason fmt e s = vreplyf net stp True msg rec_route scode reason fmt e s"

definition sip_treply ::
  "inet_lib \<Rightarrow> nat option option \<Rightarrow> sip_msg \<Rightarrow> u16 \<Rightarrow> string \<Rightarrow> errno option \<Rightarrow> st_stack \<Rightarrow>
    ub + errno option \<times> nat option option \<times> st_stack" where
  "sip_treply net stp msg scode reason e s = sip_treplyf net stp msg False scode reason None e s"

definition sip_replyf ::
  "inet_lib \<Rightarrow> sip_msg \<Rightarrow> u16 \<Rightarrow> string \<Rightarrow> string option \<Rightarrow> errno option \<Rightarrow> st_stack \<Rightarrow> ub + errno option \<times> st_stack" where
  "sip_replyf net msg scode reason fmt e s =
    obind (vreplyf net None False msg False scode reason fmt e s) (\<lambda>(err, stp, s). Inr (err, s))"

definition sip_reply :: "inet_lib \<Rightarrow> errno option \<Rightarrow> sip_msg \<Rightarrow> u16 \<Rightarrow> string \<Rightarrow> st_stack \<Rightarrow> ub + errno option \<times> st_stack" where
  "sip_reply net e msg scode reason s = sip_replyf net msg scode reason None e s"

section \<open>Requests\<close>

definition ack_handler :: "sip_msg \<Rightarrow> st_stack \<Rightarrow> ub + bool \<times> st_stack" where
  "ack_handler msg s = obind (st_lookup cmp_ack_handler msg s) (\<lambda>r. case r of
      None \<Rightarrow> Inr (False, s)
    | Some (i, st) \<Rightarrow> (case st_state st of
          ACCEPTED_S \<Rightarrow> Inr (False, s)
        | COMPLETED_S \<Rightarrow>
            if sip_transp_reliable (sm_tp (st_msg st)) then Inr (True, st_destructor i s)
            else Inr (True, put_st i (st\<lparr>st_tmr := Some (ss_now s + SIP_T4), st_tmrg := None, st_state := CONFIRMED_S\<rparr>) s)
        | _ \<Rightarrow> Inr (True, s)))"

definition cancel_handler :: "inet_lib \<Rightarrow> errno option \<Rightarrow> sip_msg \<Rightarrow> st_stack \<Rightarrow> ub + bool \<times> st_stack" where
  "cancel_handler net e msg s = obind (st_lookup cmp_cancel_handler msg s) (\<lambda>r. case r of
      None \<Rightarrow> Inr (False, s)
    | Some (i, st) \<Rightarrow>
        let msg = msg\<lparr>sm_tag := sm_tag (st_msg st)\<rparr>
        in obind (sip_reply net e msg 200 ''OK'' s) (\<lambda>(_, s).
             Inr (True, if st_state st \<in> {TRYING_S, PROCEEDING_S} then st_note (Cancel_told i) s else s)))"

definition st_request_handler :: "inet_lib \<Rightarrow> errno option \<Rightarrow> sip_msg \<Rightarrow> st_stack \<Rightarrow> ub + bool \<times> st_stack" where
  "st_request_handler net e msg s =
    (if pl_strcmp (sm_met msg) (Some ''ACK'') = None then ack_handler msg s
     else obind (st_lookup st_cmp_handler msg s) (\<lambda>r. case r of
         Some (i, st) \<Rightarrow>
           Inr (True, if st_state st \<in> {PROCEEDING_S, COMPLETED_S}
             then st_send e (sm_tp (st_msg st)) (st_dst st) (st_mb st) s else s)
       | None \<Rightarrow> if pl_strcmp (sm_met msg) (Some ''CANCEL'') = None then cancel_handler net e msg s else Inr (False, s)))"

section \<open>Steps\<close>

definition st_due :: "st_stack \<Rightarrow> int \<Rightarrow> bool" where
  "st_due s t \<longleftrightarrow> t \<le> ss_now s \<and> (\<forall>i st. ss_st s i = Some st \<longrightarrow>
     (\<forall>t'. st_tmr st = Some t' \<longrightarrow> t \<le> t') \<and> (\<forall>t'. st_tmrg st = Some t' \<longrightarrow> t \<le> t'))"

definition held_after :: "nat option option \<Rightarrow> nat option option \<Rightarrow> nat set \<Rightarrow> nat set" where
  "held_after stp stp' H = (H - {i. stp = Some (Some i)}) \<union> {i. stp' = Some (Some i)}"

inductive st_step :: "inet_lib \<Rightarrow> nat set \<times> st_stack \<Rightarrow> nat set \<times> st_stack \<Rightarrow> bool" for net where
  Request: "st_request_handler net e msg s = Inr (b, s') \<Longrightarrow> st_step net (H, s) (H, s')"
| Take: "sip_strans_alloc msg s = (i, s') \<Longrightarrow> st_step net (H, s) (insert i H, s')"
| Reply: "\<forall>i. stp = Some (Some i) \<longrightarrow> i \<in> H \<Longrightarrow> sip_treplyf net stp msg rec_route scode reason fmt e s = Inr (err, stp', s') \<Longrightarrow>
    st_step net (H, s) (held_after stp stp' H, s')"
| Drop: "i \<in> H \<Longrightarrow> st_step net (H, s) (H - {i}, st_destructor i s)"
| Expires: "ss_st s i = Some st \<Longrightarrow> st_tmr st = Some t \<Longrightarrow> st_due s t \<Longrightarrow>
    st_tmr_handler i (put_st i (st\<lparr>st_tmr := None\<rparr>) s) = Inr s' \<Longrightarrow> st_step net (H, s) (H, s')"
| Again: "ss_st s i = Some st \<Longrightarrow> st_tmrg st = Some t \<Longrightarrow> st_due s t \<Longrightarrow>
    st_retransmit_handler e i (put_st i (st\<lparr>st_tmrg := None\<rparr>) s) = Inr s' \<Longrightarrow> st_step net (H, s) (H, s')"
| Time: "0 \<le> d \<Longrightarrow> st_step net (H, s) (H, s\<lparr>ss_now := ss_now s + d\<rparr>)"

definition st_init :: "st_stack \<Rightarrow> bool" where
  "st_init s \<longleftrightarrow> (\<exists>n. hash_alloc n = Inr (ss_ht s)) \<and> (\<forall>i. ss_st s i = None) \<and> ss_next s = 0 \<and> ss_log s = []"

inductive st_reach :: "inet_lib \<Rightarrow> nat set \<times> st_stack \<Rightarrow> bool" for net where
  Start: "st_init s \<Longrightarrow> st_reach net ({}, s)"
| Step: "st_reach net x \<Longrightarrow> st_step net x y \<Longrightarrow> st_reach net y"

section \<open>What holds in all reachable states\<close>

text \<open>
  A transaction its user holds has no timers. Any other has been answered, and the timer that ends it
  runs; the timer for sending again runs besides for a negative response to an INVITE that was not acknowledged, with
  at least the distances of the first times.
\<close>

definition st_pace :: "sip_strans \<Rightarrow> int \<Rightarrow> int \<Rightarrow> bool" where
  "st_pace st T t \<longleftrightarrow> (let n = unat (st_txc st) in T - 64 * SIP_T1 + (if n = 0 then SIP_T1 else 2000 * int n - 500) \<le> t)"

definition st_ok :: "bool \<Rightarrow> sip_strans \<Rightarrow> bool" where
  "st_ok held st \<longleftrightarrow>
     (held \<longleftrightarrow> st_state st \<in> {TRYING_S, PROCEEDING_S}) \<and> (held \<longleftrightarrow> st_tmr st = None) \<and>
     (st_mb st = None \<longrightarrow> st_state st = TRYING_S) \<and>
     (st_state st = ACCEPTED_S \<longrightarrow> st_invite st) \<and>
     (st_state st = COMPLETED_S \<and> \<not> st_invite st \<longrightarrow> \<not> sip_transp_reliable (sm_tp (st_msg st))) \<and>
     (st_tmrg st = None \<longleftrightarrow> \<not> (st_state st = COMPLETED_S \<and> st_invite st \<and> \<not> sip_transp_reliable (sm_tp (st_msg st)))) \<and>
     (\<forall>t. st_tmrg st = Some t \<longrightarrow> st_pace st (the (st_tmr st)) t) \<and> (held \<longrightarrow> st_txc st = 0)"

definition st_key :: "st_stack \<Rightarrow> nat \<Rightarrow> u32" where
  "st_key s i = hash_joaat_pl (case ss_st s i of None \<Rightarrow> None | Some st \<Rightarrow> via_branch (sm_via (st_msg st)))"

definition st_alive :: "st_stack \<Rightarrow> nat set" where
  "st_alive s = {i. ss_st s i \<noteq> None}"

definition st_inv :: "nat set \<Rightarrow> st_stack \<Rightarrow> bool" where
  "st_inv H s \<longleftrightarrow> hash_holds (st_key s) (ss_ht s) (st_alive s) \<and> H \<subseteq> st_alive s \<and>
     (\<forall>i st. ss_st s i = Some st \<longrightarrow> i < ss_next s \<and> st_ok (i \<in> H) st)"

lemma st_put_sel [simp]:
  "ss_ht (put_st i st s) = ss_ht s" "ss_st (put_st i st s) = (ss_st s)(i := Some st)" "ss_next (put_st i st s) = ss_next s"
  "ss_software (put_st i st s) = ss_software s" "ss_now (put_st i st s) = ss_now s" "ss_log (put_st i st s) = ss_log s"
  by (simp_all add: put_st_def)

lemma st_note_sel [simp]:
  "ss_ht (st_note e s) = ss_ht s" "ss_st (st_note e s) = ss_st s" "ss_next (st_note e s) = ss_next s"
  "ss_software (st_note e s) = ss_software s" "ss_now (st_note e s) = ss_now s" "ss_log (st_note e s) = ss_log s @ [(ss_now s, e)]"
  by (simp_all add: st_note_def)

lemma st_send_sel [simp]:
  "ss_ht (st_send e tp dst mb s) = ss_ht s" "ss_st (st_send e tp dst mb s) = ss_st s"
  "ss_next (st_send e tp dst mb s) = ss_next s" "ss_software (st_send e tp dst mb s) = ss_software s"
  "ss_now (st_send e tp dst mb s) = ss_now s"
  by (simp_all add: st_send_def split: option.splits)

lemma st_destructor_sel [simp]:
  "ss_ht (st_destructor i s) = hash_unlink i (ss_ht s)" "ss_st (st_destructor i s) = (ss_st s)(i := None)"
  "ss_next (st_destructor i s) = ss_next s" "ss_software (st_destructor i s) = ss_software s"
  "ss_now (st_destructor i s) = ss_now s" "ss_log (st_destructor i s) = ss_log s"
  by (simp_all add: st_destructor_def)

text \<open>The invariant is of the table and the store only.\<close>

lemma st_inv_cong: "ss_ht s' = ss_ht s \<Longrightarrow> ss_st s' = ss_st s \<Longrightarrow> ss_next s' = ss_next s \<Longrightarrow> st_inv H s' \<longleftrightarrow> st_inv H s"
proof -
  assume a: "ss_ht s' = ss_ht s" "ss_st s' = ss_st s" "ss_next s' = ss_next s"
  have "st_key s' = st_key s" by (rule ext) (simp add: st_key_def a)
  then show ?thesis by (simp add: st_inv_def st_alive_def a)
qed

lemma st_inv_send [simp]: "st_inv H (st_send e tp dst mb s) \<longleftrightarrow> st_inv H s" "st_inv H (st_note x s) \<longleftrightarrow> st_inv H s"
  by (rule st_inv_cong; simp)+

lemma st_invD: "st_inv H s \<Longrightarrow> ss_st s i = Some st \<Longrightarrow> i < ss_next s \<and> st_ok (i \<in> H) st"
  by (simp add: st_inv_def)

lemma st_put_inv:
  assumes "st_inv H s" and "ss_st s i = Some st" and "st_msg st' = st_msg st" and "st_ok (i \<in> H') st'" and "H' - {i} = H - {i}"
  shows "st_inv H' (put_st i st' s)"
proof -
  have a: "st_alive (put_st i st' s) = st_alive s" using assms(2) by (auto simp: st_alive_def)
  have k: "st_key (put_st i st' s) = st_key s" using assms(2,3) by (auto simp: st_key_def fun_eq_iff)
  have h: "j \<in> H' \<longleftrightarrow> j \<in> H" if "j \<noteq> i" for j using assms(5) that by blast
  have "H' \<subseteq> insert i H" using assms(5) by blast
  then have "H' \<subseteq> st_alive s" using assms(1,2) by (auto simp: st_inv_def st_alive_def)
  then show ?thesis using assms(1,4) h st_invD [OF assms(1,2)] by (auto simp: st_inv_def a k)
qed

lemma st_destructor_inv:
  assumes "st_inv H s"
  shows "st_inv (H - {i}) (st_destructor i s)"
proof -
  have a: "st_alive (st_destructor i s) = st_alive s - {i}" by (auto simp: st_alive_def)
  have "hash_holds (st_key s) (ss_ht (st_destructor i s)) (st_alive s - {i})"
    using assms hash_holds_rem [of "st_key s" "ss_ht s" "st_alive s" i] by (simp add: st_inv_def)
  then have "hash_holds (st_key (st_destructor i s)) (ss_ht (st_destructor i s)) (st_alive s - {i})"
    by (subst hash_holds_cong [where kf' = "st_key s"]) (auto simp: st_key_def)
  then show ?thesis using assms by (auto simp: st_inv_def a)
qed

lemma st_alloc_inv:
  assumes inv: "st_inv H s" and r: "sip_strans_alloc msg s = (i, s')"
  shows "st_inv (insert i H) s' \<and> i \<notin> st_alive s \<and> i \<notin> H \<and> ss_now s' = ss_now s \<and> ss_log s' = ss_log s \<and> ss_software s' = ss_software s \<and>
    ss_st s' = (ss_st s)(i := Some \<lparr>st_tmr = None, st_tmrg = None, st_dst = sa_zero, st_msg = msg, st_mb = None, st_state = TRYING_S, st_txc = 0,
           st_invite = (pl_strcmp (sm_met msg) (Some ''INVITE'') = None)\<rparr>)"
proof -
  define st where "st = \<lparr>st_tmr = None, st_tmrg = None, st_dst = sa_zero, st_msg = msg, st_mb = None, st_state = TRYING_S, st_txc = 0,
           st_invite = (pl_strcmp (sm_met msg) (Some ''INVITE'') = None)\<rparr>"
  let ?k = "hash_joaat_pl (via_branch (sm_via msg))"
  have i: "i = ss_next s" and s': "s' = (put_st i st (s\<lparr>ss_ht := hash_append (ss_ht s) ?k i\<rparr>))\<lparr>ss_next := i + 1\<rparr>"
    using r unfolding sip_strans_alloc_def st_def Let_def by auto
  have f: "ss_st s i = None" using st_invD [OF inv, of i] by (cases "ss_st s i") (auto simp: i)
  have k: "st_key s' j = (if j = i then ?k else st_key s j)" for j by (simp add: s' st_key_def st_def)
  have "hash_holds (st_key s') (ss_ht s) (st_alive s)"
    using inv f unfolding st_inv_def by (subst hash_holds_cong [where kf' = "st_key s"]) (auto simp: k st_alive_def)
  from hash_holds_add [OF this, of i] have "hash_holds (st_key s') (ss_ht s') (insert i (st_alive s))"
    using f by (simp add: k) (simp add: s' st_alive_def)
  moreover have "st_alive s' = insert i (st_alive s)" by (auto simp: s' st_alive_def)
  moreover have "st_ok True st" by (simp add: st_ok_def st_def)
  moreover have "j < Suc i \<and> st_ok (j = i \<or> j \<in> H) st'" if "ss_st s' j = Some st'" for j st'
    using that st_invD [OF inv, of j st'] calculation(3) by (auto simp: s' i split: if_splits)
  ultimately have "st_inv (insert i H) s'" using inv by (auto simp: st_inv_def s')
  moreover have "i \<notin> H" using inv f by (auto simp: st_inv_def st_alive_def)
  ultimately show ?thesis using f by (simp add: s' st_alive_def st_def)
qed

lemma st_lookup_Some:
  assumes "st_inv H s" and "st_lookup cmp msg s = Inr (Some (i, st))"
  shows "ss_st s i = Some st \<and> cmp st msg"
proof -
  let ?key = "hash_joaat_pl (via_branch (sm_via msg))"
  have tab: "hash_holds (st_key s) (ss_ht s) (st_alive s)" using assms(1) by (simp add: st_inv_def)
  obtain j where j: "hash_lookup (ss_ht s) ?key (st_matches cmp s msg) = Some j" and d: "deref (ss_st s j) = Inr st" "j = i"
    using assms(2) by (auto simp: st_lookup_def Let_def obind_Inr_iff split: if_splits option.splits)
  from d have "ss_st s i = Some st" by (simp add: deref_def split: option.splits)
  with hash_holds_Some [OF tab j] d(2) show ?thesis by (simp add: st_matches_def)
qed

lemma st_lookup_def_iff:
  assumes "st_inv H s"
  shows "st_lookup cmp msg s = (case hash_lookup (ss_ht s) (hash_joaat_pl (via_branch (sm_via msg))) (st_matches cmp s msg) of
    None \<Rightarrow> Inr None | Some i \<Rightarrow> Inr (Some (i, the (ss_st s i))))"
proof -
  let ?key = "hash_joaat_pl (via_branch (sm_via msg))"
  have tab: "hash_holds (st_key s) (ss_ht s) (st_alive s)" using assms(1) by (simp add: st_inv_def)
  have alive: "\<not> (\<exists>j\<in>set (hash_list (ss_ht s) ?key). ss_st s j = None)"
    using hash_holds_bucket [OF tab, of ?key] by (auto simp: st_alive_def)
  show ?thesis
  proof (cases "hash_lookup (ss_ht s) ?key (st_matches cmp s msg)")
    case (Some i)
    then obtain st where "ss_st s i = Some st" using hash_holds_Some [OF tab Some] by (auto simp: st_alive_def)
    then show ?thesis unfolding st_lookup_def Let_def if_not_P [OF alive] Some by (simp add: deref_def)
  next
    case None
    then show ?thesis unfolding st_lookup_def Let_def if_not_P [OF alive] None by simp
  qed
qed

section \<open>Every step keeps it\<close>

lemma ack_inv:
  assumes inv: "st_inv H s" and r: "ack_handler msg s = Inr (b, s')"
  shows "st_inv H s'"
proof -
  obtain q where q: "st_lookup cmp_ack_handler msg s = Inr q"
    using r by (auto simp: ack_handler_def obind_Inr_iff)
  show ?thesis
  proof (cases q)
    case None
    then show ?thesis using r q inv by (simp add: ack_handler_def)
  next
    case (Some p)
    obtain i st where p: "p = (i, st)" by (cases p)
    have st: "ss_st s i = Some st" using st_lookup_Some [OF inv] q Some p by blast
    note ok = st_invD [OF inv st]
    show ?thesis
    proof (cases "st_state st = COMPLETED_S")
      case False
      then show ?thesis using r q Some p inv by (auto simp: ack_handler_def split: strans_state.splits)
    next
      case c: True
      then have nh: "i \<notin> H" "H - {i} = H" using ok by (auto simp: st_ok_def)
      show ?thesis
      proof (cases "sip_transp_reliable (sm_tp (st_msg st))")
        case True
        then show ?thesis using r q Some p c st_destructor_inv [OF inv, of i] nh by (auto simp: ack_handler_def)
      next
        case False
        let ?st = "st\<lparr>st_tmr := Some (ss_now s + SIP_T4), st_tmrg := None, st_state := CONFIRMED_S\<rparr>"
        have "st_inv H (put_st i ?st s)" by (rule st_put_inv [OF inv st]) (use ok nh c in \<open>auto simp: st_ok_def\<close>)
        then show ?thesis using r q Some p c False by (simp add: ack_handler_def)
      qed
    qed
  qed
qed

lemma sip_reply_inv: "sip_reply net e msg scode reason s = Inr (err, s') \<Longrightarrow> st_inv H s' \<longleftrightarrow> st_inv H s"
  by (auto simp: sip_reply_def sip_replyf_def vreplyf_def obind_Inr_iff split: if_splits)

lemma cancel_handler_inv:
  assumes inv: "st_inv H s" and r: "cancel_handler net e msg s = Inr (b, s')"
  shows "st_inv H s'"
proof -
  obtain q where q: "st_lookup cmp_cancel_handler msg s = Inr q"
    using r by (auto simp: cancel_handler_def obind_Inr_iff)
  show ?thesis
  proof (cases q)
    case None
    then show ?thesis using r q inv by (simp add: cancel_handler_def)
  next
    case (Some p)
    obtain i st where p: "p = (i, st)" by (cases p)
    let ?m = "msg\<lparr>sm_tag := sm_tag (st_msg st)\<rparr>"
    obtain err s1 where s1: "sip_reply net e ?m 200 ''OK'' s = Inr (err, s1)"
      and s': "s' = (if st_state st \<in> {TRYING_S, PROCEEDING_S} then st_note (Cancel_told i) s1 else s1)"
      using r q Some p by (auto simp: cancel_handler_def obind_Inr_iff)
    show ?thesis using inv sip_reply_inv [OF s1, of H] by (simp add: s')
  qed
qed

lemma st_request_inv:
  assumes inv: "st_inv H s" and r: "st_request_handler net e msg s = Inr (b, s')"
  shows "st_inv H s'"
proof (cases "pl_strcmp (sm_met msg) (Some ''ACK'') = None")
  case True
  then show ?thesis using r ack_inv [OF inv] by (simp add: st_request_handler_def)
next
  case False
  then obtain q where q: "st_lookup st_cmp_handler msg s = Inr q"
    using r by (auto simp: st_request_handler_def obind_Inr_iff)
  show ?thesis
  proof (cases q)
    case None
    then show ?thesis using r q False inv cancel_handler_inv [OF inv] by (auto simp: st_request_handler_def split: if_splits)
  next
    case (Some p)
    then show ?thesis using r q False inv by (cases p) (auto simp: st_request_handler_def)
  qed
qed

lemma replied_inv:
  assumes inv: "st_inv H s" and st: "ss_st s i = Some st" and held: "i \<in> H" and mb: "st_mb st \<noteq> None"
  shows "st_inv (if 200 \<le> scode then H - {i} else H) (replied i st scode s)"
proof -
  note ok = st_invD [OF inv st]
  have n: "st_tmr st = None" "st_tmrg st = None" "st_txc st = 0" using ok held by (auto simp: st_ok_def)
  have put: "st_inv H' (put_st i st' s)" if "st_msg st' = st_msg st" "st_ok (i \<in> H') st'" "H' - {i} = H - {i}" for H' st'
    by (rule st_put_inv [OF inv st that])
  consider "scode < 200" | "200 \<le> scode" "scode < 300" "st_invite st" | "300 \<le> scode" "st_invite st"
      | "200 \<le> scode" "\<not> st_invite st" "\<not> sip_transp_reliable (sm_tp (st_msg st))"
      | "200 \<le> scode" "\<not> st_invite st" "sip_transp_reliable (sm_tp (st_msg st))"
    by (meson not_less)
  then show ?thesis
  proof cases
    case 1
    have "st_inv H (put_st i (st\<lparr>st_state := PROCEEDING_S\<rparr>) s)" by (rule put) (use held n mb in \<open>auto simp: st_ok_def\<close>)
    then show ?thesis using 1 by (simp add: replied_def Let_def not_le [symmetric])
  next
    case 2
    have "st_inv (H - {i}) (put_st i (st\<lparr>st_tmr := Some (ss_now s + 64 * SIP_T1), st_state := ACCEPTED_S\<rparr>) s)"
      by (rule put) (use 2 n mb in \<open>auto simp: st_ok_def\<close>)
    then show ?thesis using 2 by (simp add: replied_def Let_def not_le [symmetric])
  next
    case 3
    have ge: "200 \<le> scode" using 3(1) by (rule order_trans [rotated]) simp
    have "st_inv (H - {i}) (put_st i (st\<lparr>st_tmr := Some (ss_now s + 64 * SIP_T1), st_state := COMPLETED_S,
        st_tmrg := if \<not> sip_transp_reliable (sm_tp (st_msg st)) then Some (ss_now s + SIP_T1) else st_tmrg st\<rparr>) s)"
      by (rule put) (use 3 n mb in \<open>auto simp: st_ok_def st_pace_def SIP_T1_def\<close>)
    then show ?thesis using 3 ge
      by (cases "sip_transp_reliable (sm_tp (st_msg st))") (simp_all add: replied_def Let_def not_le [symmetric])
  next
    case 4
    have "st_inv (H - {i}) (put_st i (st\<lparr>st_tmr := Some (ss_now s + 64 * SIP_T1), st_state := COMPLETED_S\<rparr>) s)"
      by (rule put) (use 4 n mb in \<open>auto simp: st_ok_def\<close>)
    then show ?thesis using 4 by (simp add: replied_def Let_def not_le [symmetric])
  next
    case 5
    then show ?thesis using st_destructor_inv [OF inv, of i] by (simp add: replied_def Let_def not_le [symmetric])
  qed
qed

lemma strans_reply_inv:
  assumes inv: "st_inv H s" and held: "\<forall>i. stp = Some (Some i) \<longrightarrow> i \<in> H"
    and r: "sip_strans_reply stp msg dst scode mb e s = Inr (err, stp', s')"
  shows "st_inv (held_after stp stp' H) s' \<and> (err \<noteq> None \<longrightarrow> (\<forall>i. stp' \<noteq> Some (Some i)))"
proof (cases "scode < 200 \<and> stp = None")
  case True
  then show ?thesis using r inv by (simp add: sip_strans_reply_def held_after_def)
next
  case False
  define H1 where "H1 = (case Option.bind stp id of Some i \<Rightarrow> H | None \<Rightarrow> insert (ss_next s) H)"
  obtain i s1 where q: "(case Option.bind stp id of Some i \<Rightarrow> (i, s) | None \<Rightarrow> sip_strans_alloc msg s) = (i, s1)" by fastforce
  have i1: "st_inv H1 s1" "i \<in> H1" "H1 - {i} = H - {j. stp = Some (Some j)}"
  proof -
    show "st_inv H1 s1" and m: "i \<in> H1"
      using q inv held st_alloc_inv [OF inv, of msg i s1]
      by (cases stp; cases "the stp"; auto simp: H1_def sip_strans_alloc_def Let_def)+
    show "H1 - {i} = H - {j. stp = Some (Some j)}"
      using q st_alloc_inv [OF inv, of msg i s1] by (cases stp; cases "the stp"; auto simp: H1_def sip_strans_alloc_def Let_def)
  qed
  obtain st where st: "ss_st s1 i = Some st" using i1(1,2) by (auto simp: st_inv_def st_alive_def)
  define st1 where "st1 = st\<lparr>st_mb := Some mb, st_dst := dst\<rparr>"
  define s2 where "s2 = st_send e (sm_tp (st_msg st1)) dst (Some mb) (put_st i st1 s1)"
  define stp2 where "stp2 = map_option (\<lambda>_. if e \<noteq> None \<or> 200 \<le> scode then None else Some i) stp"
  have res: "(err, stp', s') = (if e \<noteq> None then (e, stp2, st_destructor i s2) else (None, stp2, replied i st1 scode s2))"
    using r unfolding sip_strans_reply_def if_not_P [OF False] q prod.case deref_def st option.case obind.simps Let_def
    by (simp only: st1_def s2_def stp2_def sum.inject)
  have m: "ss_st s2 i = Some st1" by (simp add: s2_def)
  have "st_inv H1 (put_st i st1 s1)"
    by (rule st_put_inv [OF i1(1) st]) (use st_invD [OF i1(1) st] i1(2) in \<open>auto simp: st1_def st_ok_def\<close>)
  then have inv2: "st_inv H1 s2" by (simp add: s2_def)
  have gone: "held_after stp stp2 H = H1 - {i}" if "e \<noteq> None \<or> 200 \<le> scode"
    using that unfolding i1(3) held_after_def stp2_def by (cases stp) auto
  have kept: "held_after stp stp2 H = H1" if "\<not> (e \<noteq> None \<or> 200 \<le> scode)"
  proof -
    have "stp \<noteq> None" using that False by (auto simp: not_le)
    then have "{j. stp2 = Some (Some j)} = {i}" using that by (auto simp: stp2_def)
    then show ?thesis using i1(2) unfolding held_after_def i1(3) [symmetric] by auto
  qed
  show ?thesis
  proof (cases e)
    case (Some x)
    then have "s' = st_destructor i s2" "stp' = stp2" using res by simp_all
    then show ?thesis using Some gone st_destructor_inv [OF inv2, of i] by (auto simp: stp2_def)
  next
    case None
    then have s': "s' = replied i st1 scode s2" "stp' = stp2" "err = None" using res by simp_all
    have "st_mb st1 \<noteq> None" by (simp add: st1_def)
    from replied_inv [OF inv2 m i1(2) this, of scode] show ?thesis
      using gone kept None by (auto simp: s' split: if_splits)
  qed
qed

lemma vreplyf_inv:
  assumes inv: "st_inv H s" and held: "\<forall>i. stp = Some (Some i) \<longrightarrow> i \<in> H"
    and r: "sip_treplyf net stp msg rec_route scode reason fmt e s = Inr (err, stp', s')"
  shows "st_inv (held_after stp stp' H) s'"
proof (cases "pl_strcmp (sm_met msg) (Some ''ACK'') = None")
  case True
  then have "s' = s" "stp' = stp" using r by (simp_all add: sip_treplyf_def vreplyf_def)
  moreover have "held_after stp stp H = H" using held by (auto simp: held_after_def)
  ultimately show ?thesis using inv by simp
next
  case False
  then obtain dst mb err1 stp1 s1 where q: "sip_strans_reply stp msg dst scode mb e s = Inr (err1, stp1, s1)"
    and o: "(if err1 = None then Inr (None, stp1, s1)
           else case Option.bind stp1 id of
               Some i \<Rightarrow> obind (deref (ss_st s1 i)) (\<lambda>_. Inr (err1, Some None, st_destructor i s1))
             | None \<Rightarrow> Inr (err1, stp1, s1)) = Inr (err, stp', s')"
    using r unfolding sip_treplyf_def vreplyf_def if_True by (auto simp: obind_Inr_iff)
  note i = strans_reply_inv [OF inv held q]
  have "s' = s1 \<and> stp' = stp1"
  proof (cases err1)
    case None
    then show ?thesis using o by simp
  next
    case (Some x)
    then have "Option.bind stp1 id = None" using i by (cases stp1; cases "the stp1"; auto)
    then show ?thesis using o Some by simp
  qed
  then show ?thesis using i by simp
qed

lemma st_again:
  assumes inv: "st_inv H s" and st: "ss_st s i = Some st" "st_tmrg st = Some t" "st_due s t"
  shows "\<exists>s'. st_retransmit_handler e i (put_st i (st\<lparr>st_tmrg := None\<rparr>) s) = Inr s' \<and> st_inv H s'"
proof -
  note ok = st_invD [OF inv st(1)]
  define n where "n = unat (st_txc st)"
  have nh: "i \<notin> H" using ok st(2) by (auto simp: st_ok_def)
  then obtain T where T: "st_tmr st = Some T" using ok by (auto simp: st_ok_def)
  have t: "t \<le> T" "t \<le> ss_now s" using st T by (auto simp: st_due_def)
  have p: "T - 32000 + (if n = 0 then 500 else 2000 * int n - 500) \<le> t"
    using ok st(2) T by (auto simp: st_ok_def st_pace_def SIP_T1_def n_def Let_def split: if_splits)
  then have n: "n \<le> 16" using t(1) by (auto split: if_splits)
  then have w: "unat (st_txc st + 1) = n + 1" by (simp add: n_def unat_word_ariths)
  have d: "shl SIP_T1 (st_txc st + 1) = Inr (500 * 2 ^ (n + 1))" by (rule shl_T1) (use n w in simp_all)
  have "(2::int) ^ 1 \<le> 2 ^ n" if "n \<noteq> 0" using that by (intro power_increasing) simp_all
  then have q: "T - 32000 + (2000 * int (n + 1) - 500) \<le> ss_now s + min (500 * 2 ^ (n + 1)) 4000" using p t(2) by (cases "n = 0") auto
  let ?st = "st\<lparr>st_tmrg := None, st_txc := st_txc st + 1, st_tmrg := Some (ss_now s + min (500 * 2 ^ (n + 1)) SIP_T2)\<rparr>"
  let ?base = "put_st i (st\<lparr>st_tmrg := None\<rparr>) s"
  let ?s = "st_send e (sm_tp (st_msg st)) (st_dst st) (st_mb st) ?base"
  have "st_inv H (put_st i ?st s)"
    by (rule st_put_inv [OF inv st(1)])
      (use ok nh q w T st(2) in \<open>auto simp: st_ok_def st_pace_def SIP_T1_def SIP_T2_def Let_def\<close>)
  also have "st_inv H (put_st i ?st s) \<longleftrightarrow> st_inv H (put_st i ?st ?s)"
    by (rule st_inv_cong) simp_all
  finally have "st_inv H (put_st i ?st ?s)" .
  moreover have "st_retransmit_handler e i ?base = Inr (put_st i ?st ?s)"
    by (simp add: st_retransmit_handler_def deref_def d Let_def)
  ultimately show ?thesis by blast
qed

lemma st_step_inv: "st_step net (H, s) (H', s') \<Longrightarrow> st_inv H s \<Longrightarrow> st_inv H' s'"
proof (induction "(H, s)" "(H', s')" rule: st_step.induct)
  case (Request e msg b)
  then show ?case using st_request_inv by blast
next
  case (Take msg i)
  then show ?case using st_alloc_inv by blast
next
  case (Reply stp msg rec_route scode reason fmt e err stp')
  then show ?case using vreplyf_inv by blast
next
  case (Drop i)
  then show ?case using st_destructor_inv by blast
next
  case (Expires i st t)
  then have nh: "i \<notin> H" using st_invD [OF Expires.prems Expires.hyps(1)] by (auto simp: st_ok_def)
  let ?s = "put_st i (st\<lparr>st_tmr := None\<rparr>) s"
  have s': "s' = st_destructor i ?s" using Expires.hyps by (simp add: st_tmr_handler_def deref_def)
  have "st_inv H (st_destructor i s)" using st_destructor_inv [OF Expires.prems, of i] nh by simp
  also have "st_inv H (st_destructor i s) \<longleftrightarrow> st_inv H s'" unfolding s' by (rule st_inv_cong) simp_all
  finally show ?case using Expires.hyps by simp
next
  case (Again i st t e)
  then show ?case using st_again [OF Again.prems Again.hyps(1-3), of e] by auto
next
  case (Time d)
  then show ?case by (subst st_inv_cong [where s = s]) auto
qed

lemma st_reach_inv: "st_reach net x \<Longrightarrow> st_inv (fst x) (snd x)"
proof (induction rule: st_reach.induct)
  case (Start s)
  then obtain n where "hash_alloc n = Inr (ss_ht s)" by (auto simp: st_init_def)
  from hash_holds_alloc [OF this] Start show ?case by (simp add: st_inv_def st_alive_def st_init_def)
next
  case (Step x y)
  then show ?case using st_step_inv [of net "fst x" "snd x" "fst y" "snd y"] by simp
qed

section \<open>A request that comes again\<close>

lemma pl_cmp_key: "pl_cmp a b = None \<Longrightarrow> hash_joaat_pl a = hash_joaat_pl b"
  by (cases a; cases b)
    (auto simp: pl_cmp_def hash_joaat_pl_def pl_l_def hash_joaat_def joaat_end_def split: if_splits)

lemma st_lookup_only:
  assumes inv: "st_inv H s" and cmp: "\<And>st. cmp st msg \<Longrightarrow> strans_cmp (st_msg st) msg"
    and st: "ss_st s i = Some st" "cmp st msg" and one: "\<forall>j st'. ss_st s j = Some st' \<and> cmp st' msg \<longrightarrow> j = i"
  shows "st_lookup cmp msg s = Inr (Some (i, st))"
proof -
  have tab: "hash_holds (st_key s) (ss_ht s) (st_alive s)" using inv by (simp add: st_inv_def)
  have "hash_lookup (ss_ht s) (hash_joaat_pl (via_branch (sm_via msg))) (st_matches cmp s msg) = Some i"
  proof (rule hash_holds_only [OF tab])
    show "\<forall>j\<in>st_alive s. st_matches cmp s msg j \<longrightarrow> st_key s j = hash_joaat_pl (via_branch (sm_via msg))"
    proof (intro ballI impI)
      fix j assume "j \<in> st_alive s" "st_matches cmp s msg j"
      then obtain c where c: "ss_st s j = Some c" "cmp c msg" by (auto simp: st_matches_def split: option.splits)
      from cmp [OF c(2)] have "pl_cmp (via_branch (sm_via (st_msg c))) (via_branch (sm_via msg)) = None"
        by (simp add: strans_cmp_def split: if_splits)
      then show "st_key s j = hash_joaat_pl (via_branch (sm_via msg))" using c(1) by (simp add: st_key_def pl_cmp_key)
    qed
    show "i \<in> st_alive s" "st_matches cmp s msg i" using st by (simp_all add: st_alive_def st_matches_def)
    show "\<forall>j\<in>st_alive s. st_matches cmp s msg j \<longrightarrow> j = i"
      using one by (fastforce simp: st_matches_def split: option.splits)
  qed
  then show ?thesis using st by (simp add: st_lookup_def_iff [OF inv])
qed

lemma request_again:
  assumes inv: "st_inv H s" and st: "ss_st s i = Some st" "st_cmp_handler st msg"
    and one: "\<forall>j st'. ss_st s j = Some st' \<and> st_cmp_handler st' msg \<longrightarrow> j = i"
    and na: "pl_strcmp (sm_met msg) (Some ''ACK'') \<noteq> None"
  shows "st_request_handler net e msg s = Inr (True, if st_state st \<in> {PROCEEDING_S, COMPLETED_S}
    then st_send e (sm_tp (st_msg st)) (st_dst st) (st_mb st) s else s)"
proof -
  have "st_lookup st_cmp_handler msg s = Inr (Some (i, st))"
    by (rule st_lookup_only [where cmp = st_cmp_handler, OF inv _ st one]) (simp add: st_cmp_handler_def split: if_splits)
  then show ?thesis unfolding st_request_handler_def if_not_P [OF na] by simp
qed

section \<open>A negative response without an ACK\<close>

definition st_wake :: "nat \<Rightarrow> st_stack \<Rightarrow> ub + st_stack" where
  "st_wake i s = (case ss_st s i of
      None \<Rightarrow> Inr s
    | Some st \<Rightarrow>
        (case st_tmrg st of
            Some t \<Rightarrow>
              (if \<exists>T. st_tmr st = Some T \<and> T < t
               then st_tmr_handler i (put_st i (st\<lparr>st_tmr := None\<rparr>) (s\<lparr>ss_now := the (st_tmr st)\<rparr>))
               else st_retransmit_handler None i (put_st i (st\<lparr>st_tmrg := None\<rparr>) (s\<lparr>ss_now := t\<rparr>)))
          | None \<Rightarrow>
              (case st_tmr st of
                  Some T \<Rightarrow> st_tmr_handler i (put_st i (st\<lparr>st_tmr := None\<rparr>) (s\<lparr>ss_now := T\<rparr>))
                | None \<Rightarrow> Inr s)))"

fun st_wakes :: "nat \<Rightarrow> nat \<Rightarrow> st_stack \<Rightarrow> ub + st_stack" where
  "st_wakes 0 i s = Inr s"
| "st_wakes (Suc n) i s = obind (st_wakes n i s) (st_wake i)"

lemma st_wake_again:
  assumes "ss_st s i = Some st" "st_tmrg st = Some t" "\<forall>T. st_tmr st = Some T \<longrightarrow> t \<le> T" "shl SIP_T1 (st_txc st + 1) = Inr d"
    and "st_mb st = Some mb"
  shows "\<exists>s'. st_wake i s = Inr s' \<and> ss_st s' i = Some (st\<lparr>st_txc := st_txc st + 1, st_tmrg := Some (t + min d SIP_T2)\<rparr>) \<and>
    ss_log s' = ss_log s @ [(t, Reply_sent (sm_tp (st_msg st)) (st_dst st) mb)]"
proof -
  have n: "\<not> (\<exists>T. st_tmr st = Some T \<and> T < t)" using assms(3) by auto
  have "st_wake i s = st_retransmit_handler None i (put_st i (st\<lparr>st_tmrg := None\<rparr>) (s\<lparr>ss_now := t\<rparr>))"
    unfolding st_wake_def assms(1,2) option.case if_not_P [OF n] ..
  then show ?thesis using assms(4,5) by (simp add: st_retransmit_handler_def deref_def st_send_def Let_def)
qed

lemma st_schedule:
  assumes st: "ss_st s i = Some st" "st_tmr st = Some (a + 32000)" "st_tmrg st = Some (a + 500)" "st_txc st = 0" "st_mb st = Some mb"
  shows "\<exists>s'. st_wakes 11 i s = Inr s' \<and> ss_st s' i = None \<and>
    ss_log s' = ss_log s @ List.map (\<lambda>t. (a + t, Reply_sent (sm_tp (st_msg st)) (st_dst st) mb))
      [500, 1500, 3500, 7500, 11500, 15500, 19500, 23500, 27500, 31500]"
proof -
  have o: "other_times 1 = 500" "other_times 11 = 35500" by (simp_all add: other_times_def)
  have "k \<le> 10 \<Longrightarrow> \<exists>s'. st_wakes k i s = Inr s' \<and> ss_st s' i = Some (st\<lparr>st_txc := of_nat k, st_tmrg := Some (a + other_times (k + 1))\<rparr>) \<and>
    ss_log s' = ss_log s @ List.map (\<lambda>k. (a + other_times (k + 1), Reply_sent (sm_tp (st_msg st)) (st_dst st) mb)) [0..<k]" for k
  proof (induction k)
    case 0
    have "st = st\<lparr>st_txc := of_nat 0, st_tmrg := Some (a + other_times (0 + 1))\<rparr>"
      using st by (intro sip_strans.equality) (simp_all add: o [simplified])
    then show ?case using st(1) by simp
  next
    case (Suc k)
    then obtain s' where s': "st_wakes k i s = Inr s'" "ss_st s' i = Some (st\<lparr>st_txc := of_nat k, st_tmrg := Some (a + other_times (k + 1))\<rparr>)"
      "ss_log s' = ss_log s @ List.map (\<lambda>k. (a + other_times (k + 1), Reply_sent (sm_tp (st_msg st)) (st_dst st) mb)) [0..<k]" by auto
    let ?st = "st\<lparr>st_txc := of_nat k, st_tmrg := Some (a + other_times (k + 1))\<rparr>"
    from Suc.prems less_cases(2) [of k]
    have d: "shl SIP_T1 (of_nat k + 1) = Inr (500 * 2 ^ (k + 1))" and e: "min (500 * 2 ^ (k + 1)) SIP_T2 = other_times (k + 2) - other_times (k + 1)"
      and l: "other_times (k + 1) \<le> 32000"
      by (auto simp: shl_def SIP_T1_def SIP_T2_def other_times_def)
    have t: "\<forall>T. st_tmr ?st = Some T \<longrightarrow> a + other_times (k + 1) \<le> T" using st(2) l by simp
    have u: "?st\<lparr>st_txc := st_txc ?st + 1, st_tmrg := Some (a + other_times (k + 1) + min (500 * 2 ^ (k + 1)) SIP_T2)\<rparr> =
        st\<lparr>st_txc := of_nat (Suc k), st_tmrg := Some (a + other_times (Suc k + 1))\<rparr>"
      unfolding e by (rule sip_strans.equality) (simp_all add: add.commute)
    have m: "st_tmrg ?st = Some (a + other_times (k + 1))" "shl SIP_T1 (st_txc ?st + 1) = Inr (500 * 2 ^ (k + 1))" "st_mb ?st = Some mb"
      using d st(5) by simp_all
    from st_wake_again [OF s'(2) m(1) t m(2,3)] obtain s2 where
      "st_wake i s' = Inr s2" "ss_st s2 i = Some (st\<lparr>st_txc := of_nat (Suc k), st_tmrg := Some (a + other_times (Suc k + 1))\<rparr>)"
      "ss_log s2 = ss_log s' @ [(a + other_times (k + 1), Reply_sent (sm_tp (st_msg ?st)) (st_dst ?st) mb)]"
      unfolding u by blast
    then show ?case using s'(1,3) by simp
  qed
  from this [of 10] obtain s' where s': "st_wakes 10 i s = Inr s'" "ss_st s' i = Some (st\<lparr>st_txc := of_nat 10, st_tmrg := Some (a + 35500)\<rparr>)"
    "ss_log s' = ss_log s @ List.map (\<lambda>k. (a + other_times (k + 1), Reply_sent (sm_tp (st_msg st)) (st_dst st) mb)) [0..<10]" by (auto simp: o)
  have "\<exists>s2. st_wake i s' = Inr s2 \<and> ss_st s2 i = None \<and> ss_log s2 = ss_log s'"
    using st(2) by (simp add: st_wake_def s'(2) st_tmr_handler_def deref_def)
  moreover have "st_wakes 11 i s = st_wake i s'" using s'(1) by (simp add: eval_nat_numeral)
  ultimately show ?thesis using s'(3) by (simp add: times_map [simplified])
qed

lemma strans_reply_code:
  assumes st: "ss_st s i = Some st"
  shows "sip_strans_reply (Some (Some i)) msg dst scode mb None s =
    Inr (None, Some (if 200 \<le> scode then None else Some i), replied i (st\<lparr>st_mb := Some mb, st_dst := dst\<rparr>) scode
      (st_note (Reply_sent (sm_tp (st_msg st)) dst mb) (put_st i (st\<lparr>st_mb := Some mb, st_dst := dst\<rparr>) s)))"
  using st by (simp add: sip_strans_reply_def deref_def st_send_def Let_def)

lemma unacknowledged:
  assumes inv: "st_inv H s" and st: "ss_st s i = Some st" "i \<in> H" "st_invite st" "\<not> sip_transp_reliable (sm_tp (st_msg st))"
    and c: "300 \<le> scode" and r: "sip_strans_reply (Some (Some i)) msg dst scode mb None s = Inr (err, stp, s0)"
  shows "\<exists>s'. st_wakes 11 i s0 = Inr s' \<and> ss_st s' i = None \<and>
    ss_log s' = ss_log s @ List.map (\<lambda>t. (ss_now s + t, Reply_sent (sm_tp (st_msg st)) dst mb))
      [0, 500, 1500, 3500, 7500, 11500, 15500, 19500, 23500, 27500, 31500]"
proof -
  have z: "st_txc st = 0" using st_invD [OF inv st(1)] st(2) by (simp add: st_ok_def)
  have ge: "200 \<le> scode" using c by (rule order_trans [rotated]) simp
  let ?st = "st\<lparr>st_mb := Some mb, st_dst := dst, st_tmr := Some (ss_now s + 32000), st_state := COMPLETED_S, st_tmrg := Some (ss_now s + 500)\<rparr>"
  have s0: "ss_st s0 i = Some ?st" "ss_log s0 = ss_log s @ [(ss_now s, Reply_sent (sm_tp (st_msg st)) dst mb)]"
    using r unfolding strans_reply_code [OF st(1)] replied_def
    using st c ge by (auto simp: Let_def SIP_T1_def not_le [symmetric])
  from st_schedule [OF s0(1), of "ss_now s" mb] show ?thesis by (simp add: z s0(2))
qed

text \<open>With the ACK the response is not sent any more, and the transaction is gone five seconds later.\<close>

lemma acknowledged:
  assumes inv: "st_inv H s" and st: "ss_st s i = Some st" "st_state st = COMPLETED_S" "\<not> sip_transp_reliable (sm_tp (st_msg st))"
    and a: "pl_strcmp (sm_met msg) (Some ''ACK'') = None" "cmp_ack_handler st msg"
    and one: "\<forall>j st'. ss_st s j = Some st' \<and> cmp_ack_handler st' msg \<longrightarrow> j = i"
  shows "\<exists>s1 s'. st_request_handler net e msg s = Inr (True, s1) \<and> st_wake i s1 = Inr s' \<and> ss_st s' i = None \<and> ss_log s' = ss_log s \<and>
    ss_now s' = ss_now s + 5000"
proof -
  have l: "st_lookup cmp_ack_handler msg s = Inr (Some (i, st))"
    by (rule st_lookup_only [where cmp = cmp_ack_handler, OF inv _ st(1) a(2) one]) (simp add: cmp_ack_handler_def split: if_splits)
  let ?st = "st\<lparr>st_tmr := Some (ss_now s + SIP_T4), st_tmrg := None, st_state := CONFIRMED_S\<rparr>"
  have "st_request_handler net e msg s = Inr (True, put_st i ?st s)"
    using a(1) st(2,3) l by (simp add: st_request_handler_def ack_handler_def)
  moreover have "\<exists>s'. st_wake i (put_st i ?st s) = Inr s' \<and> ss_st s' i = None \<and> ss_log s' = ss_log s \<and> ss_now s' = ss_now s + 5000"
    by (simp add: st_wake_def st_tmr_handler_def deref_def SIP_T4_def)
  ultimately show ?thesis by blast
qed

end
