(* ===== verification/Re_Conf.thy ===== *)
theory Re_Conf
  imports Re_Uri Re_Mbuf
begin

text \<open>
  Configuration files (\<open>src/re/src/conf/conf.c\<close>): the file is kept as one buffer with a newline
  before it, and an entry is found by a regular expression. The lemmas show that looking up a name
  in a file of lines with a name and a value is looking it up in the list of these entries, up to
  the case of letters. \<open>conf_apply\<close> is left out: it needs the positions of captured texts.
\<close>

section \<open>Loading\<close>

text \<open>
  A file is the error of opening it, or the chunks read from it and the error of the last read.
  The errors of the writes are ored; an error of reading replaces them.
\<close>

type_synonym source = "errno + u8 list list \<times> errno option"

fun load_chunks :: "allocator \<Rightarrow> mbuf \<Rightarrow> u8 list list \<Rightarrow> errno option \<times> mbuf" where
  "load_chunks A mb [] = (None, mb)"
| "load_chunks A mb (bs # chunks) =
    (let (e, mb) = mbuf_write_mem A mb (Some bs); (e', mb) = load_chunks A mb chunks in (err_or e e', mb))"

definition load_file :: "allocator \<Rightarrow> mbuf \<Rightarrow> source \<Rightarrow> errno option \<times> mbuf" where
  "load_file A mb f = (case f of
      Inl e \<Rightarrow> (Some e, mb)
    | Inr (chunks, rd) \<Rightarrow>
        let (err, mb) = load_chunks A mb chunks in (case rd of Some e \<Rightarrow> Some e | None \<Rightarrow> err, mb))"

text \<open>A configuration is its buffer; the result is an error or the configuration.\<close>

definition conf_alloc :: "allocator \<Rightarrow> bool \<Rightarrow> source option \<Rightarrow> errno + mbuf" where
  "conf_alloc A mem filename =
    (if \<not> mem then Inl ENOMEM
     else case mbuf_alloc A 1024 of
         None \<Rightarrow> Inl ENOMEM
       | Some mb \<Rightarrow>
           let (err, mb) = mbuf_write_u8 A mb 10;
               (err', mb) = (case filename of None \<Rightarrow> (None, mb) | Some f \<Rightarrow> load_file A mb f)
           in case err_or err err' of Some e \<Rightarrow> Inl e | None \<Rightarrow> Inr mb)"

definition conf_alloc_buf :: "allocator \<Rightarrow> bool \<Rightarrow> u8 list option \<Rightarrow> errno + mbuf" where
  "conf_alloc_buf A mem buf = (case conf_alloc A mem None of
      Inl e \<Rightarrow> Inl e
    | Inr mb \<Rightarrow> (case mbuf_write_mem A mb buf of (Some e, mb) \<Rightarrow> Inl e | (None, mb) \<Rightarrow> Inr mb))"

section \<open>Looking up\<close>

definition conf_expr :: "string \<Rightarrow> string" where
  "conf_expr name = re_snprintf 512 [[CHR ''['', CHR 0x0D, CHR 0x0A] @ '']+[ '' @ [CHR 0x09] @ '']*'', name,
     ''[ '' @ [CHR 0x09] @ '']+[~ '' @ [CHR 0x09, CHR 0x0D, CHR 0x0A] @ '']+'']"

definition conf_text :: "mbuf \<Rightarrow> string" where
  "conf_text mb = string_of (take (mb_end mb) (mb_buf mb))"

definition conf_get :: "mbuf \<Rightarrow> string \<Rightarrow> pl \<Rightarrow> ub + errno option \<times> pl" where
  "conf_get conf name pl =
    obind (re_regex (Some (conf_text conf)) (conf_expr name)) (\<lambda>(err, caps). Inr (err, capture pl (caps 3)))"

definition conf_get_str :: "mbuf \<Rightarrow> string \<Rightarrow> nat \<Rightarrow> ub + (errno + string)" where
  "conf_get_str conf name sz =
    (if sz = 0 then Inr (Inl EINVAL)
     else obind (conf_get conf name None) (\<lambda>(err, pl). Inr (case err of
         Some e \<Rightarrow> Inl e | None \<Rightarrow> pl_strcpy pl sz)))"

definition conf_get_u32 :: "mbuf \<Rightarrow> string \<Rightarrow> ub + (errno + u32)" where
  "conf_get_u32 conf name =
    obind (conf_get conf name None) (\<lambda>(err, pl). Inr (case err of
      Some e \<Rightarrow> Inl e | None \<Rightarrow> Inr (pl_u32 pl)))"

definition conf_get_bool :: "mbuf \<Rightarrow> string \<Rightarrow> ub + (errno + bool)" where
  "conf_get_bool conf name =
    obind (conf_get conf name None) (\<lambda>(err, pl). Inr (case err of
      Some e \<Rightarrow> Inl e
    | None \<Rightarrow> Inr (pl_strcasecmp pl (Some ''true'') = None \<or> pl_strcasecmp pl (Some ''yes'') = None \<or>
        pl_strcasecmp pl (Some ''1'') = None)))"

section \<open>Files of entries\<close>

definition blank :: "char \<Rightarrow> bool" where
  "blank c \<longleftrightarrow> c \<in> {CHR '' '', CHR 0x09, CHR 0x0D, CHR 0x0A}"

text \<open>Names that are their own expression, and values without blanks, quotes and backslashes.\<close>

definition entry_ok :: "string \<times> string \<Rightarrow> bool" where
  "entry_ok e \<longleftrightarrow> fst e \<noteq> [] \<and> (\<forall>c\<in>set (fst e). \<not> blank c) \<and> snd e \<noteq> [] \<and>
     (\<forall>c\<in>set (snd e). \<not> blank c \<and> c \<noteq> CHR 0x22 \<and> c \<noteq> CHR 0x5C)"

definition entry_line :: "string \<times> string \<Rightarrow> string" where
  "entry_line e = fst e @ CHR '' '' # snd e @ [CHR 0x0A]"

definition name_ok :: "string \<Rightarrow> bool" where
  "name_ok n \<longleftrightarrow> plain n \<and> n \<noteq> [] \<and> (\<forall>c\<in>set n. \<not> blank c) \<and> length n < 400"

lemma tolower_blank:
  assumes "blank c"
  shows "tolower c = c" and "tolower x = c \<longleftrightarrow> x = c"
proof -
  have "nonletter c" using assms by (auto simp: blank_def nonletter_def Let_def)
  then show "tolower c = c" and "tolower x = c \<longleftrightarrow> x = c" by (rule tolower_nonletter)+
qed

text \<open>The parts of the expression.\<close>

definition conf_pre :: string where
  "conf_pre = CHR ''['' # [CHR 0x0D, CHR 0x0A] @ CHR '']'' # CHR ''+'' # CHR ''['' # [CHR '' '', CHR 0x09] @ CHR '']'' # ''*''"

definition conf_value :: string where
  "conf_value = CHR ''['' # CHR ''~'' # [CHR '' '', CHR 0x09, CHR 0x0D, CHR 0x0A] @ CHR '']'' # ''+''"

definition conf_post :: string where
  "conf_post = CHR ''['' # [CHR '' '', CHR 0x09] @ CHR '']'' # CHR ''+'' # conf_value"

lemma conf_expr_parts: "name_ok name \<Longrightarrow> conf_expr name = conf_pre @ name @ conf_post"
  unfolding conf_expr_def name_ok_def
  by (subst re_snprintf_fits) (simp_all add: conf_pre_def conf_post_def conf_value_def)

lemma blank_classes:
  "\<forall>x\<in>set [CHR 0x0D, CHR 0x0A]. class_char x \<and> nonletter x"
  "\<forall>x\<in>set [CHR '' '', CHR 0x09]. class_char x \<and> nonletter x"
  "\<forall>x\<in>set [CHR '' '', CHR 0x09, CHR 0x0D, CHR 0x0A]. class_char x \<and> nonletter x"
  by (simp_all add: class_char_def nonletter_def)

text \<open>An attempt that does not begin at a newline.\<close>

lemma conf_try_inside:
  assumes "name_ok name" and "c \<noteq> CHR 0x0D" and "c \<noteq> CHR 0x0A" and "length (c # p) < 2 ^ 32"
  shows "re_try (conf_expr name) (c # p) False None 0 caps = Again caps"
  using pos_class [OF class_chars(3) blank_classes(1) _ assms(4)] assms(2,3)
  by (simp add: conf_expr_parts [OF assms(1)] conf_pre_def)

lemma conf_search_inside:
  assumes "name_ok name"
  shows "\<forall>c\<in>set s. c \<noteq> CHR 0x0D \<and> c \<noteq> CHR 0x0A \<Longrightarrow> length (s @ p) < 2 ^ 32 \<Longrightarrow>
    re_search (conf_expr name) (s @ p) caps = re_search (conf_expr name) p caps"
  by (induction s) (use conf_try_inside [OF assms] in auto)

text \<open>One that does: the newline is taken, and the name is compared.\<close>

lemma conf_try_newline:
  assumes "name_ok name" and "p = [] \<or> \<not> blank (hd p)" and "length (CHR 0x0A # p) < 2 ^ 32"
  shows "re_try (conf_expr name) (CHR 0x0A # p) False None 0 caps =
    re_try (name @ conf_post) p False None 2 (caps(0 := Some [CHR 0x0A], 1 := Some []))"
proof -
  have "re_try (conf_expr name) ([CHR 0x0A] @ p) False None 0 caps =
      re_try (CHR ''['' # [CHR '' '', CHR 0x09] @ CHR '']'' # CHR ''*'' # name @ conf_post) p False None 1
        (caps(0 := Some [CHR 0x0A]))"
    unfolding conf_expr_parts [OF assms(1)] conf_pre_def
    using pos_class_split [OF class_chars(3) blank_classes(1), of "[CHR 0x0A]" p] assms(2,3)
    by (auto simp: blank_def)
  also have "\<dots> = re_try (name @ conf_post) p False None 2 (caps(0 := Some [CHR 0x0A], 1 := Some []))"
    using pos_class_split [OF class_chars(2) blank_classes(2), of "[]" p "name @ conf_post" 1] assms(2,3)
    by (auto simp: blank_def numeral_2_eq_2)
  finally show ?thesis by simp
qed

lemma re_try_name:
  assumes "\<forall>c\<in>set name. \<not> blank c \<and> c \<noteq> CHR ''['' \<and> c \<noteq> CHR 0x5C"
  shows "re_try (name @ ep) (n @ CHR '' '' # r) False None k caps =
    (if List.map tolower name = List.map tolower n then re_try ep (CHR '' '' # r) False None k caps
     else if List.map tolower name = take (length name) (List.map tolower n)
       then re_try ep (drop (length name) n @ CHR '' '' # r) False None k caps
     else Again caps)"
  using assms
proof (induction name arbitrary: n)
  case Nil
  then show ?case by simp
next
  case (Cons e name)
  then have e: "\<not> blank e" "e \<noteq> CHR ''[''" "e \<noteq> CHR 0x5C" by simp_all
  show ?case
  proof (cases n)
    case Nil
    have b: "blank (CHR '' '')" by (simp add: blank_def)
    have "tolower e \<noteq> CHR '' ''" using tolower_blank(2) [OF b, of e] e(1) b by metis
    with e Nil tolower_blank(1) [OF b] show ?thesis by (simp add: re_try.simps(2))
  next
    case (Cons c n')
    have step: "re_try (e # name @ ep) (c # n' @ CHR '' '' # r) False None k caps =
        (if tolower e = tolower c then re_try (name @ ep) (n' @ CHR '' '' # r) False None k caps else Again caps)"
      using e by (simp add: re_try.simps(2))
    have "\<forall>c\<in>set name. \<not> blank c \<and> c \<noteq> CHR ''['' \<and> c \<noteq> CHR 0x5C" using Cons.prems by simp
    from Cons.IH [OF this, of n'] show ?thesis
      by (cases "tolower e = tolower c") (simp_all add: step \<open>n = c # n'\<close>)
  qed
qed

text \<open>The value: no quote begins in it.\<close>

lemma cls_run_unquoted:
  assumes "\<forall>c\<in>set a. c \<noteq> CHR 0x22 \<and> c \<noteq> CHR 0x5C \<and> expr_match (cls_chr cl) (tolower c) (cls_neg cl)"
    and "b = [] \<or> hd b \<noteq> CHR 0x22 \<and> hd b \<noteq> CHR 0x5C \<and> \<not> expr_match (cls_chr cl) (tolower (hd b)) (cls_neg cl)"
  shows "length (a @ b) \<le> unat n \<Longrightarrow> cls_run cl False False n (a @ b) = (a, b)"
  using assms(1)
proof (induction a arbitrary: n)
  case Nil
  then show ?case using assms(2) by (cases b) auto
next
  case (Cons c a)
  have len: "length ((c # a) @ b) \<le> unat n" by (rule Cons.prems)
  then have n: "n \<noteq> 0" by auto
  with len have l: "length (a @ b) \<le> unat (n - 1)" by (simp add: unat_minus_one)
  have c: "c \<noteq> CHR 0x22" "c \<noteq> CHR 0x5C" "expr_match (cls_chr cl) (tolower c) (cls_neg cl)"
    and a: "\<forall>c\<in>set a. c \<noteq> CHR 0x22 \<and> c \<noteq> CHR 0x5C \<and> expr_match (cls_chr cl) (tolower c) (cls_neg cl)"
    using Cons.prems by auto
  show ?case using c n Cons.IH [OF l a] by simp
qed

lemma conf_try_value:
  assumes "v \<noteq> []" and "\<forall>c\<in>set v. \<not> blank c \<and> c \<noteq> CHR 0x22 \<and> c \<noteq> CHR 0x5C" and "length (v @ CHR 0x0A # r) < 2 ^ 32"
  shows "re_try conf_value (v @ CHR 0x0A # r) False None k caps = Done None (caps(k := Some v))"
proof -
  let ?xs = "[CHR '' '', CHR 0x09, CHR 0x0D, CHR 0x0A]"
  define cl where "cl = cls_init\<lparr>cls_neg := True, cls_qesc := True, cls_ec := True,
    cls_chr := List.map (\<lambda>x. (tolower x, tolower x)) ?xs\<rparr>"
  have m: "expr_match (cls_chr cl) (tolower c) (cls_neg cl) \<longleftrightarrow> \<not> blank c" for c
  proof -
    have "tolower c \<in> tolower ` set ?xs \<longleftrightarrow> c \<in> set ?xs"
      by (rule tolower_image_nonletter) (use blank_classes(3) in blast)
    moreover have "cls_chr cl = List.map (\<lambda>x. (tolower x, tolower x)) ?xs" "cls_neg cl" by (simp_all add: cl_def)
    ultimately show ?thesis by (simp only: expr_match_singles) (auto simp: blank_def)
  qed
  have n: "length (v @ CHR 0x0A # r) \<le> unat (-1 :: u32)" by (rule length_le_max [OF assms(3)])
  have run: "cls_run cl False False (-1) (v @ CHR 0x0A # r) = (v, CHR 0x0A # r)"
    by (rule cls_run_unquoted [OF _ _ n]) (use assms(2) in \<open>auto simp: m blank_def\<close>)
  have st: "strip_quotes cl v = v" using assms(1,2) by (cases v) (auto simp: strip_quotes_def)
  have "length v < 2 ^ 32" "0 < length v" using assms(1,3) by simp_all
  then have nm: "\<not> (of_nat (length v) :: u32) < 1" by (simp add: word_less_nat_alt unat_of_nat)
  have "re_try conf_value (v @ CHR 0x0A # r) False None k caps =
      re_try (?xs @ CHR '']'' # ''+'') (v @ CHR 0x0A # r) False (Some (cls_init\<lparr>cls_qesc := True, cls_neg := True\<rparr>)) k caps"
    by (simp add: conf_value_def re_try.simps cls_char_def cls_init_def)
  also have "\<dots> = re_try ''+'' (v @ CHR 0x0A # r) False (Some cl) k caps"
    by (subst re_try_class_body) (use blank_classes(3) in \<open>simp_all add: cls_init_def chrv_size_def re_try.simps cls_char_def cl_def\<close>)
  also have "\<dots> = Done None (caps(k := Some v))"
    using run st nm by (simp add: re_try.simps open_quantifier [OF class_chars(3)] Let_def) (simp add: cl_def)
  finally show ?thesis .
qed

section \<open>Looking up is looking up\<close>

text \<open>An entry: found when the names agree, else the search goes on behind it.\<close>

lemma conf_try_entry:
  assumes name: "name_ok name" and e: "entry_ok (n, v)" and len: "length (CHR 0x0A # n @ CHR '' '' # v @ CHR 0x0A # r) < 2 ^ 32"
  shows "\<exists>caps'. caps' 3 = caps 3 \<and> re_try (conf_expr name) (CHR 0x0A # n @ CHR '' '' # v @ CHR 0x0A # r) False None 0 caps =
    (if List.map tolower name = List.map tolower n then Done None (caps'(3 := Some v)) else Again caps')"
proof -
  let ?c = "caps(0 := Some [CHR 0x0A], 1 := Some [])"
  have nb: "n \<noteq> []" "\<forall>c\<in>set n. \<not> blank c" and v: "v \<noteq> []" "\<forall>c\<in>set v. \<not> blank c \<and> c \<noteq> CHR 0x22 \<and> c \<noteq> CHR 0x5C"
    using e by (simp_all add: entry_ok_def)
  have nm: "\<forall>c\<in>set name. \<not> blank c \<and> c \<noteq> CHR ''['' \<and> c \<noteq> CHR 0x5C"
    using name by (auto simp: name_ok_def plain_def)
  have hd: "n @ CHR '' '' # v @ CHR 0x0A # r = [] \<or> \<not> blank (hd (n @ CHR '' '' # v @ CHR 0x0A # r))"
    using nb by (cases n) auto
  have 1: "re_try (conf_expr name) (CHR 0x0A # n @ CHR '' '' # v @ CHR 0x0A # r) False None 0 caps =
      re_try (name @ conf_post) (n @ CHR '' '' # v @ CHR 0x0A # r) False None 2 ?c"
    by (rule conf_try_newline [OF name hd]) (use len in simp)
  note 2 = re_try_name [OF nm, of conf_post n "v @ CHR 0x0A # r" 2 ?c]
  have 3: "re_try conf_post ([CHR '' ''] @ v @ CHR 0x0A # r) False None 2 c =
      re_try conf_value (v @ CHR 0x0A # r) False None 3 (c(2 := Some '' ''))" for c
    unfolding conf_post_def
    using pos_class_split [OF class_chars(3) blank_classes(2), of "'' ''" "v @ CHR 0x0A # r" conf_value 2 c] v len
    by (cases v) (auto simp: blank_def numeral_3_eq_3 numeral_2_eq_2)
  have 4: "re_try conf_value (v @ CHR 0x0A # r) False None 3 c = Done None (c(3 := Some v))" for c
    by (rule conf_try_value [OF v]) (use len in simp)
  have 5: "re_try conf_post (x # p) False None 2 c = Again c" if "\<not> blank x" "length (x # p) < 2 ^ 32" for x p c
    unfolding conf_post_def
    using pos_class [OF class_chars(3) blank_classes(2) _ that(2), of conf_value 2 c] that(1) by (simp add: blank_def)
  show ?thesis
  proof (cases "List.map tolower name = List.map tolower n")
    case True
    then have "re_try (conf_expr name) (CHR 0x0A # n @ CHR '' '' # v @ CHR 0x0A # r) False None 0 caps =
        Done None (?c(2 := Some '' '', 3 := Some v))"
      using 1 2 3 [of ?c] 4 by simp
    with True show ?thesis by (intro exI [of _ "?c(2 := Some '' '')"]) simp
  next
    case False
    have "re_try (conf_expr name) (CHR 0x0A # n @ CHR '' '' # v @ CHR 0x0A # r) False None 0 caps = Again ?c"
    proof (cases "List.map tolower name = take (length name) (List.map tolower n)")
      case pre: True
      then have "length name < length n" using False by (metis length_map not_le_imp_less take_all)
      then obtain x p where x: "drop (length name) n = x # p" by (metis Cons_nth_drop_Suc)
      then have "x \<in> set n" by (metis in_set_dropD list.set_intros(1))
      with nb have "\<not> blank x" by blast
      moreover have "length (x # p @ CHR '' '' # v @ CHR 0x0A # r) < 2 ^ 32"
        using arg_cong [OF x, of length] len by simp
      ultimately show ?thesis using 1 2 pre False 5 [of x "p @ CHR '' '' # v @ CHR 0x0A # r" ?c] x by simp
    next
      case npre: False
      with 1 2 False show ?thesis by simp
    qed
    with False show ?thesis by (intro exI [of _ ?c]) simp
  qed
qed

lemma conf_search_entries:
  assumes name: "name_ok name"
  shows "\<forall>e\<in>set es. entry_ok e \<Longrightarrow> length (CHR 0x0A # concat (List.map entry_line es)) < 2 ^ 32 \<Longrightarrow>
    \<exists>caps'. re_search (conf_expr name) (CHR 0x0A # concat (List.map entry_line es)) caps =
      (case List.find (\<lambda>e. List.map tolower (fst e) = List.map tolower name) es of
         None \<Rightarrow> Done (Some ENOENT) caps'
       | Some e \<Rightarrow> Done None (caps'(3 := Some (snd e)))) \<and> caps' 3 = caps 3"
proof (induction es arbitrary: caps)
  case Nil
  obtain x xs where n: "name = x # xs" "x \<noteq> CHR ''[''" "x \<noteq> CHR 0x5C"
    using name by (cases name) (auto simp: name_ok_def plain_def)
  have "re_try (conf_expr name) [CHR 0x0A] False None 0 caps =
      Done (Some ENOENT) (caps(0 := Some [CHR 0x0A], 1 := Some []))"
    using conf_try_newline [OF name, of "[]" caps] n by (simp add: re_try.simps(2))
  then show ?case by auto
next
  case (Cons e es)
  obtain n v where e: "e = (n, v)" by (cases e)
  define r where "r = concat (List.map entry_line es)"
  have tx: "CHR 0x0A # concat (List.map entry_line (e # es)) = CHR 0x0A # n @ CHR '' '' # v @ CHR 0x0A # r"
    by (simp add: e entry_line_def r_def)
  have ok: "entry_ok (n, v)" and len: "length (CHR 0x0A # n @ CHR '' '' # v @ CHR 0x0A # r) < 2 ^ 32"
    using Cons.prems unfolding tx by (simp_all add: e)
  from conf_try_entry [OF name ok len, of caps] obtain c where c: "c 3 = caps 3"
    "re_try (conf_expr name) (CHR 0x0A # n @ CHR '' '' # v @ CHR 0x0A # r) False None 0 caps =
      (if List.map tolower name = List.map tolower n then Done None (c(3 := Some v)) else Again c)" by blast
  show ?case
  proof (cases "List.map tolower name = List.map tolower n")
    case True
    with c have "re_search (conf_expr name) (CHR 0x0A # n @ CHR '' '' # v @ CHR 0x0A # r) caps = Done None (c(3 := Some v))"
      by simp
    with True c(1) show ?thesis unfolding tx by (auto simp: e)
  next
    case False
    have nl: "\<forall>x\<in>set (n @ CHR '' '' # v). x \<noteq> CHR 0x0D \<and> x \<noteq> CHR 0x0A"
      using ok by (auto simp: entry_ok_def blank_def)
    have "re_search (conf_expr name) ((n @ CHR '' '' # v) @ CHR 0x0A # r) c = re_search (conf_expr name) (CHR 0x0A # r) c"
      by (rule conf_search_inside [OF name nl]) (use len in simp)
    with False c have "re_search (conf_expr name) (CHR 0x0A # n @ CHR '' '' # v @ CHR 0x0A # r) caps =
        re_search (conf_expr name) (CHR 0x0A # r) c" by simp
    moreover from Cons.IH [of c] Cons.prems len obtain c' where
      "re_search (conf_expr name) (CHR 0x0A # r) c =
        (case List.find (\<lambda>e. List.map tolower (fst e) = List.map tolower name) es of
           None \<Rightarrow> Done (Some ENOENT) c' | Some e \<Rightarrow> Done None (c'(3 := Some (snd e))))" "c' 3 = c 3"
      by (auto simp flip: r_def)
    moreover have "List.map tolower n \<noteq> List.map tolower name" using False by auto
    ultimately show ?thesis unfolding tx using c(1) by (intro exI [of _ c']) (simp add: e)
  qed
qed

lemma conf_get_lookup:
  assumes "conf_text conf = CHR 0x0A # concat (List.map entry_line es)" and "\<forall>e\<in>set es. entry_ok e"
    and "name_ok name" and "length (conf_text conf) < 2 ^ 32"
  shows "conf_get conf name pl = Inr (case List.find (\<lambda>e. List.map tolower (fst e) = List.map tolower name) es of
      None \<Rightarrow> (Some ENOENT, pl) | Some e \<Rightarrow> (None, Some (snd e)))"
proof -
  from conf_search_entries [OF assms(3,2), of "\<lambda>_. None"] assms(1,4) obtain c where
    "re_search (conf_expr name) (conf_text conf) (\<lambda>_. None) =
      (case List.find (\<lambda>e. List.map tolower (fst e) = List.map tolower name) es of
         None \<Rightarrow> Done (Some ENOENT) c | Some e \<Rightarrow> Done None (c(3 := Some (snd e))))" "c 3 = None" by auto
  then show ?thesis by (simp add: conf_get_def re_regex_def capture_def split: option.splits)
qed

end
