(* ===== verification/App_Main.thy ===== *)
theory App_Main
  imports App_System App_Pull Re_Conf Re_Sa
begin

text \<open>
  Starting up (\<open>main\<close> of \<open>src/src/main.c\<close>): the settings read from the configuration file, the pool
  of RTP sessions made by \<open>rtp_session_allocate\<close> (\<open>src/src/call.c\<close>), and the rounds of the database
  thread. The lemmas show that the address of the database in the file is the one that is connected
  to, and that the state the dialler starts in satisfies the invariant of its campaigns.
\<close>

section \<open>Settings\<close>

definition conf_path :: "string option \<Rightarrow> string" where
  "conf_path cwd = (case cwd of
      Some d \<Rightarrow> re_snprintf 1024 [d, ''/autodialer.conf'']
    | None \<Rightarrow> re_snprintf 1024 [''/etc/autodailer.conf''])"

text \<open>The name of the database is the scheme of its address.\<close>

definition dup_or_unset :: "allocator \<Rightarrow> pl \<Rightarrow> pl" where
  "dup_or_unset A pl = (case pl_dup A pl of Inl e \<Rightarrow> None | Inr t \<Rightarrow> Some t)"

definition db_config_of :: "allocator \<Rightarrow> uri \<Rightarrow> db_config" where
  "db_config_of A uri = \<lparr>cfg_user = dup_or_unset A (uri_user uri), cfg_pass = dup_or_unset A (uri_password uri),
     cfg_db = dup_or_unset A (uri_scheme uri), cfg_host = dup_or_unset A (uri_host uri)\<rparr>"

record 'q settings =
  set_db :: "'q db"
  set_server :: uri
  set_sa :: sa
  set_audio :: "string option"

text \<open>
  From the configuration file to the network. The result on the left is the exit status with which
  \<open>main\<close> gives up; a failed connection leaves the 0 of the lookup before it.
\<close>

definition main_server ::
  "allocator \<Rightarrow> inet_lib \<Rightarrow> mbuf \<Rightarrow> 'q db \<Rightarrow> ub + (errno option + 'q settings)" where
  "main_server A net conf db =
    obind (conf_get conf ''server'' None) (\<lambda>(err, pl). case err of
      Some e \<Rightarrow> Inr (Inl (Some e))
    | None \<Rightarrow> obind (uri_decode (pton_af net) pl) (\<lambda>(err, server). case err of
        Some e \<Rightarrow> Inr (Inl (Some e))
      | None \<Rightarrow> obind (sa_set net (uri_host server) (uri_port server) (sa_init AF_INET)) (\<lambda>(err, sa). case err of
          Some e \<Rightarrow> Inr (Inl (Some e))
        | None \<Rightarrow> obind (conf_get conf ''audio_path'' None) (\<lambda>(err, pl). Inr (Inr
            \<lparr>set_db = db, set_server = server, set_sa = sa,
             set_audio = (if err = None then (case pl_strdup A pl of Inl e \<Rightarrow> None | Inr t \<Rightarrow> Some t) else None)\<rparr>)))))"

definition main_settings ::
  "allocator \<Rightarrow> bool \<Rightarrow> inet_lib \<Rightarrow> bool \<Rightarrow> (string list \<Rightarrow> bool) \<Rightarrow> source \<Rightarrow>
    ub + (errno option + 'q settings)" where
  "main_settings A mem net init conn file = (case conf_alloc A mem (Some file) of
      Inl e \<Rightarrow> Inr (Inl (Some e))
    | Inr conf \<Rightarrow>
        obind (conf_get conf ''mysql'' None) (\<lambda>(err, pl). case err of
          Some e \<Rightarrow> Inr (Inl (Some e))
        | None \<Rightarrow> obind (uri_decode (pton_af net) pl) (\<lambda>(_, uri).
            obind (db_connect init conn (db_config_of A uri)) (\<lambda>(_, db). case db of
              None \<Rightarrow> Inr (Inl None)
            | Some db \<Rightarrow> main_server A net conf db))))"

section \<open>The pool of RTP sessions\<close>

text \<open>
  One session: up to 64 random ports are tried. \<open>rnd k\<close> is the random number of the try with \<open>k\<close>
  tries left, \<open>udp k p\<close> the result of listening on port \<open>p\<close> in it.
\<close>

fun session_listen :: "(nat \<Rightarrow> u16) \<Rightarrow> (nat \<Rightarrow> u16 \<Rightarrow> errno option) \<Rightarrow> u16 \<Rightarrow> u16 \<Rightarrow> nat \<Rightarrow> errno option \<Rightarrow>
    errno option \<times> u16 option" where
  "session_listen rnd udp min_port max_port 0 err = (err, None)"
| "session_listen rnd udp min_port max_port (Suc tries) err =
    (let port = pick_port min_port max_port (rnd tries)
     in case udp tries port of
         Some e \<Rightarrow> session_listen rnd udp min_port max_port tries (Some e)
       | None \<Rightarrow> (None, Some port))"

definition session_zero :: rtp_session where
  "session_zero = \<lparr>rts_connected = False, rts_in_use = False, rts_remote = None, rts_telev_recv = False,
     rts_telev = None, rts_arg = False\<rparr>"

definition session_alloc ::
  "(nat \<Rightarrow> bool) \<Rightarrow> (nat \<Rightarrow> nat \<Rightarrow> u16) \<Rightarrow> (nat \<Rightarrow> nat \<Rightarrow> u16 \<Rightarrow> errno option) \<Rightarrow> nat \<Rightarrow> shared \<Rightarrow> shared" where
  "session_alloc mem rnd udp i g =
    (if mem i \<and> fst (session_listen (rnd i) (udp i) 8000 20000 64 None) = None
     then g\<lparr>sh_rtp := (sh_rtp g)(i := session_zero), sh_rtp_free := sh_rtp_free g @ [i]\<rparr> else g)"

definition rtp_session_allocate ::
  "(nat \<Rightarrow> bool) \<Rightarrow> (nat \<Rightarrow> nat \<Rightarrow> u16) \<Rightarrow> (nat \<Rightarrow> nat \<Rightarrow> u16 \<Rightarrow> errno option) \<Rightarrow> shared \<Rightarrow> shared" where
  "rtp_session_allocate mem rnd udp g = fold (session_alloc mem rnd udp) [0..<100] (g\<lparr>sh_rtp_free := []\<rparr>)"

section \<open>The database thread\<close>

text \<open>What the surroundings answer in one round.\<close>

record round =
  rd_ping :: bool
  rd_init :: bool
  rd_conn :: "string list \<Rightarrow> bool"
  rd_gateways :: "row list option"
  rd_campaigns :: "row list option"
  rd_calls :: "u32 \<Rightarrow> row list option"
  rd_actions :: "u32 \<Rightarrow> row list option"

text \<open>
  \<open>db_sync\<close> takes the queue of the shared state; then \<open>pull_groups\<close> returns the campaigns posted to
  the main thread.
\<close>

definition db_round ::
  "(string \<Rightarrow> nat option) \<Rightarrow> db_config \<Rightarrow> round \<Rightarrow> query db \<Rightarrow> campaign list \<Rightarrow> shared \<Rightarrow>
    ub + u32 list \<times> query db \<times> campaign list \<times> shared" where
  "db_round pton cfg r s services g =
    obind (db_sync (rd_ping r) (rd_init r) (rd_conn r) cfg (s\<lparr>db_sqllist := sh_sqllist g\<rparr>)) (\<lambda>s.
    obind (pull_groups pton (rd_gateways r) (rd_campaigns r) (rd_calls r) (rd_actions r) services
        (g\<lparr>sh_sqllist := db_sqllist s\<rparr>)) (\<lambda>(ms, services, g). Inr (ms, s, services, g)))"

fun DbThread ::
  "(string \<Rightarrow> nat option) \<Rightarrow> db_config \<Rightarrow> round list \<Rightarrow> query db \<Rightarrow> campaign list \<Rightarrow> shared \<Rightarrow>
    ub + u32 list \<times> query db \<times> campaign list \<times> shared" where
  "DbThread pton cfg [] s services g = Inr ([], s, services, g)"
| "DbThread pton cfg (r # rs) s services g =
    obind (db_round pton cfg r s services g) (\<lambda>(ms, s, services, g).
    obind (DbThread pton cfg rs s services g) (\<lambda>(ms', s, services, g). Inr (ms @ ms', s, services, g)))"

section \<open>What is started with\<close>

lemma session_alloc_pool:
  assumes "pool_ok g []" and "\<forall>j\<in>set (sh_rtp_free g). j < i"
  shows "pool_ok (session_alloc mem rnd udp i g) []" and "\<forall>j\<in>set (sh_rtp_free (session_alloc mem rnd udp i g)). j < Suc i"
  using assms by (auto simp: pool_ok_def session_alloc_def session_zero_def less_Suc_eq)

lemma sessions_alloc_pool:
  assumes "pool_ok g []" and "\<forall>j\<in>set (sh_rtp_free g). j < i"
  shows "pool_ok (fold (session_alloc mem rnd udp) [i..<i + n] g) []"
  using assms
proof (induction n arbitrary: g i)
  case (Suc n)
  have "[i..<i + Suc n] = i # [Suc i..<Suc i + n]" by (simp add: upt_conv_Cons)
  then show ?case using Suc.IH [OF session_alloc_pool [OF Suc.prems]] by simp
qed simp

text \<open>The pool is in order, whatever memory and ports there are.\<close>

lemma rtp_session_allocate_pool: "pool_ok (rtp_session_allocate mem rnd udp g) []"
  unfolding rtp_session_allocate_def using sessions_alloc_pool [of "g\<lparr>sh_rtp_free := []\<rparr>" 0 mem rnd udp 100]
  by (simp add: pool_ok_def)

lemma sessions_alloc_free:
  "set (sh_rtp_free (fold (session_alloc mem rnd udp) is g)) \<subseteq> set (sh_rtp_free g) \<union> {i \<in> set is. mem i}"
proof (induction "is" arbitrary: g)
  case (Cons i "is")
  from Cons.IH [of "session_alloc mem rnd udp i g"] show ?case by (auto simp: session_alloc_def split: if_splits)
qed simp

lemma rtp_session_allocate_free: "set (sh_rtp_free (rtp_session_allocate mem rnd udp g)) \<subseteq> {i. i < 100 \<and> mem i}"
  using sessions_alloc_free [of mem rnd udp "[0..<100]" "g\<lparr>sh_rtp_free := []\<rparr>"] by (auto simp: rtp_session_allocate_def)

lemma session_listen_port:
  assumes "lo < hi" and "even (unat lo)"
  shows "session_listen rnd udp lo hi n err = (e, Some p) \<Longrightarrow> e = None \<and> lo \<le> p \<and> p < hi \<and> even (unat p)"
proof (induction n arbitrary: err)
  case (Suc n)
  then show ?case using pick_port_range [OF assms, of "rnd n"] by (auto simp: Let_def split: option.splits)
qed simp

section \<open>The settings of a file\<close>

text \<open>A file of entries, once loaded.\<close>

lemma load_chunks_text:
  assumes A: "\<And>n. al_ok A n"
  shows "mbuf_ok mb \<Longrightarrow> mb_rest mb = [] \<Longrightarrow> mb_pos mb + length (concat chunks) < 2 ^ 64 \<Longrightarrow>
    \<exists>mb'. load_chunks A mb chunks = (None, mb') \<and> mbuf_ok mb' \<and> mb_rest mb' = [] \<and>
      mb_before mb' = mb_before mb @ concat chunks"
proof (induction chunks arbitrary: mb)
  case (Cons bs chunks)
  have "mb_pos mb + length bs < 2 ^ 64" using Cons.prems(3) by simp
  from mbuf_write_mem_cursor [OF Cons.prems(1) this, of A] A obtain m where
    m: "mbuf_write_mem A mb (Some bs) = (None, m)" "mbuf_ok m" "mb_before m = mb_before mb @ bs" "mb_rest m = []"
    using Cons.prems(2) by auto
  have "mb_pos m = mb_pos mb + length bs"
    using m(3) length_mb_before [OF m(2)] length_mb_before [OF Cons.prems(1)] by simp
  with Cons.IH [OF m(2,4)] Cons.prems(3) m show ?case by simp
qed simp

lemma conf_alloc_text:
  assumes A: "\<And>n. al_ok A n" and len: "length (concat chunks) < 2 ^ 32"
  shows "\<exists>mb. conf_alloc A True (Some (Inr (chunks, None))) = Inr mb \<and> conf_text mb = CHR 0x0A # string_of (concat chunks)"
proof -
  from mbuf_alloc_buf_ok [OF A, of 1024] obtain mb where mb: "mbuf_alloc A 1024 = Some mb" "buf_ok mb" "mb_pos mb = 0" by auto
  then have m0: "mbuf_ok mb" "mb_rest mb = []" "mb_before mb = []"
    by (simp_all add: buf_ok_def mbuf_ok_def mb_rest_def mb_before_def)
  have "mb_pos mb + length [10 :: u8] < 2 ^ 64" using mb(3) by simp
  from mbuf_write_mem_cursor [OF m0(1) this, of A] A m0 obtain m where
    m: "mbuf_write_mem A mb (Some [10]) = (None, m)" "mbuf_ok m" "mb_before m = [10]" "mb_rest m = []" by auto
  have nl: "mbuf_write_u8 A mb 10 = (None, m)" using m(1) by (simp add: mbuf_write_u8_def)
  have "mb_pos m = 1" using length_mb_before [OF m(2)] m(3) by simp
  then have "mb_pos m + length (concat chunks) < 2 ^ 64" using len by simp
  from load_chunks_text [OF A m(2,4) this] m(3) obtain m' where
    m': "load_chunks A m chunks = (None, m')" "mbuf_ok m'" "mb_rest m' = []" "mb_before m' = 10 # concat chunks" by auto
  have "take (mb_end m') (mb_buf m') = mb_before m' @ mb_rest m'"
    using m'(2) by (simp add: mb_before_def mb_rest_def mbuf_ok_def flip: take_add)
  moreover have "char_of (10 :: nat) = CHR 0x0A" by code_simp
  ultimately have "conf_text m' = CHR 0x0A # string_of (concat chunks)"
    by (simp add: conf_text_def m' string_of_def)
  moreover have "conf_alloc A True (Some (Inr (chunks, None))) = Inr m'"
    by (simp add: conf_alloc_def mb(1) nl load_file_def m')
  ultimately show ?thesis by blast
qed

text \<open>The first entry of a name, up to the case of letters.\<close>

definition entry_of :: "string \<Rightarrow> (string \<times> string) list \<Rightarrow> string option" where
  "entry_of name es = map_option snd (List.find (\<lambda>e. List.map tolower (fst e) = List.map tolower name) es)"

lemma entry_of_length:
  assumes "entry_of name es = Some s"
  shows "length s \<le> length (concat (List.map entry_line es))"
proof -
  from assms obtain e where e: "List.find (\<lambda>e. List.map tolower (fst e) = List.map tolower name) es = Some e" "s = snd e"
    by (auto simp: entry_of_def)
  then have "e \<in> set es" by (auto simp: find_Some_iff)
  then have "length (entry_line e) \<le> length (concat (List.map entry_line es))"
    by (induction es) auto
  then show ?thesis by (simp add: e(2) entry_line_def)
qed

lemma conf_get_entry:
  assumes "conf_text conf = CHR 0x0A # concat (List.map entry_line es)" and "\<forall>e\<in>set es. entry_ok e"
    and "name_ok name" and "length (conf_text conf) < 2 ^ 32"
  shows "conf_get conf name pl = Inr (case entry_of name es of None \<Rightarrow> (Some ENOENT, pl) | Some v \<Rightarrow> (None, Some v))"
  using conf_get_lookup [OF assms] by (simp add: entry_of_def split: option.splits)

lemma names_ok: "name_ok ''mysql''" "name_ok ''server''" "name_ok ''audio_path''"
  by (simp_all add: name_ok_def plain_def blank_def)

text \<open>The address of the database, printed into the file, is the one connected to.\<close>

lemma db_credentials_printed:
  assumes "\<And>n. al_ok A n" and "uri_printable u"
  shows "db_credentials (db_config_of A (uri_decoded pton u)) =
    Inr [pl_text (uri_user u), pl_text (uri_password u), pl_text (uri_scheme u), pl_text (uri_host u)]"
  using assms by (auto simp: db_credentials_def db_config_of_def dup_or_unset_def pl_dup_def uri_decoded_def
      uri_printable_def pl_isset_def pl_text_def split: option.splits)

lemma main_settings_printed:
  assumes A: "\<And>n. al_ok A n" and fil: "string_of (concat chunks) = concat (List.map entry_line es)"
    and es: "\<forall>e\<in>set es. entry_ok e" and len: "length (concat chunks) < 2 ^ 32 - 1"
    and my: "entry_of ''mysql'' es = Some s" "uri_printable u" "uri_encode u = Inr s"
    and srv: "entry_of ''server'' es = Some t" "uri_printable v" "uri_encode v = Inr t"
    and sa: "uri_host v = Some h" "length h < 64" "net_inet_pton net h (sa_init AF_INET) = (None, s0)"
  shows "main_settings A True net init conn (Inr (chunks, None)) = Inr
    (if init \<and> conn [pl_text (uri_user u), pl_text (uri_password u), pl_text (uri_scheme u), pl_text (uri_host u)]
     then Inr \<lparr>set_db = \<lparr>db_con = Open, db_sqllist = [], db_sent = []\<rparr>, set_server = uri_decoded (pton_af net) v,
       set_sa = s0\<lparr>sa_sin_port := uri_port v\<rparr>, set_audio = entry_of ''audio_path'' es\<rparr>
     else Inl None)"
proof -
  have "length (concat chunks) < 2 ^ 32" using len by simp
  from conf_alloc_text [OF A this] fil obtain mb where
    mb: "conf_alloc A True (Some (Inr (chunks, None))) = Inr mb" "conf_text mb = CHR 0x0A # concat (List.map entry_line es)"
    by auto
  have lf: "length (concat (List.map entry_line es)) < 2 ^ 32 - 1"
    using len arg_cong [OF fil, of length] by (simp add: string_of_def)
  then have l: "length (conf_text mb) < 2 ^ 32" by (simp add: mb(2))
  note get = conf_get_entry [OF mb(2) es _ l]
  have "length s < 2 ^ 32" "length t < 2 ^ 32"
    using entry_of_length [OF my(1)] entry_of_length [OF srv(1)] lf by simp_all
  then have dec: "uri_decode pton (Some s) = Inr (None, uri_decoded pton u)"
    "uri_decode pton (Some t) = Inr (None, uri_decoded pton v)" for pton
    using uri_decode_encode my srv by blast+
  have f: "has_port s0" using sa(3) by (auto simp: net_inet_pton_def has_port_def split: option.splits if_splits)
  have "take (min (length h) 63) h = h" using sa(2) by simp
  then have "sa_set net (uri_host (uri_decoded pton v)) (uri_port (uri_decoded pton v)) (sa_init AF_INET) =
      Inr (None, s0\<lparr>sa_sin_port := uri_port v\<rparr>)" for pton
    using sa f by (simp add: uri_decoded_def sa_set_def pl_strcpy_def sa_set_str_def)
  then have "main_server A net mb db = Inr (Inr \<lparr>set_db = db, set_server = uri_decoded (pton_af net) v,
      set_sa = s0\<lparr>sa_sin_port := uri_port v\<rparr>, set_audio = entry_of ''audio_path'' es\<rparr>)" for db :: "'a db"
    using A by (simp add: main_server_def get names_ok srv(1) dec pl_strdup_def split: option.splits)
  then show ?thesis
    by (simp add: main_settings_def mb(1) get names_ok my(1) dec db_connect_def db_credentials_printed [OF A my(2)])
qed

text \<open>Without an address of the database nothing is started.\<close>

lemma main_settings_no_database:
  assumes A: "\<And>n. al_ok A n" and fil: "string_of (concat chunks) = concat (List.map entry_line es)"
    and es: "\<forall>e\<in>set es. entry_ok e" and len: "length (concat chunks) < 2 ^ 32 - 1"
    and my: "entry_of ''mysql'' es = None"
  shows "main_settings A True net init conn (Inr (chunks, None)) = Inr (Inl (Some ENOENT))"
proof -
  have "length (concat chunks) < 2 ^ 32" using len by simp
  from conf_alloc_text [OF A this] fil obtain mb where
    mb: "conf_alloc A True (Some (Inr (chunks, None))) = Inr mb" "conf_text mb = CHR 0x0A # concat (List.map entry_line es)"
    by auto
  have "length (concat (List.map entry_line es)) < 2 ^ 32 - 1"
    using len arg_cong [OF fil, of length] by (simp add: string_of_def)
  then have l: "length (conf_text mb) < 2 ^ 32" by (simp add: mb(2))
  show ?thesis by (simp add: main_settings_def mb(1) conf_get_entry [OF mb(2) es names_ok(1) l] my)
qed

end
