(* ===== verification/Re_Sdp.thy ===== *)
theory Re_Sdp
  imports Re_Sa "HOL-Library.Multiset"
begin

text \<open>
  Session descriptions (\<open>src/re/src/sdp/attr.c\<close>, \<open>format.c\<close>, \<open>media.c\<close>, \<open>session.c\<close>, \<open>str.c\<close>): the
  structures, their operations, and the alignment of local and remote formats by which offerer and
  answerer agree on a codec. The messages are in \<open>Re_Sdp_Msg\<close>.

  A session owns its media lines and a media line its formats, so they are values in lists; a media
  line is in one of the two lists of its session. Allocation is taken to succeed. Formatted values
  of attributes and parameters are given as the text they print. The data of a format is a number;
  its reference count is not kept.
\<close>

section \<open>Structures\<close>

definition RTP_DYNPT_START :: int where "RTP_DYNPT_START = 96"
definition RTP_DYNPT_END :: int where "RTP_DYNPT_END = 127"

datatype sdp_dir = SDP_INACTIVE | SDP_RECVONLY | SDP_SENDONLY | SDP_SENDRECV

fun dir_recv :: "sdp_dir \<Rightarrow> bool" where
  "dir_recv d \<longleftrightarrow> d = SDP_RECVONLY \<or> d = SDP_SENDRECV"

fun dir_send :: "sdp_dir \<Rightarrow> bool" where
  "dir_send d \<longleftrightarrow> d = SDP_SENDONLY \<or> d = SDP_SENDRECV"

definition dir_of :: "bool \<Rightarrow> bool \<Rightarrow> sdp_dir" where
  "dir_of recv send = (if recv then if send then SDP_SENDRECV else SDP_RECVONLY
     else if send then SDP_SENDONLY else SDP_INACTIVE)"

text \<open>The numbers of the directions are sets of two bits; this is their \<open>&\<close>.\<close>

definition dir_and :: "sdp_dir \<Rightarrow> sdp_dir \<Rightarrow> sdp_dir" where
  "dir_and a b = dir_of (dir_recv a \<and> dir_recv b) (dir_send a \<and> dir_send b)"

definition sdp_dir_name :: "sdp_dir \<Rightarrow> string" where
  "sdp_dir_name d = (case d of SDP_INACTIVE \<Rightarrow> ''inactive'' | SDP_RECVONLY \<Rightarrow> ''recvonly''
     | SDP_SENDONLY \<Rightarrow> ''sendonly'' | SDP_SENDRECV \<Rightarrow> ''sendrecv'')"

datatype sdp_bandwidth = SDP_BANDWIDTH_CT | SDP_BANDWIDTH_AS | SDP_BANDWIDTH_RS | SDP_BANDWIDTH_RR | SDP_BANDWIDTH_TIAS

definition sdp_bandwidth_name :: "sdp_bandwidth \<Rightarrow> string" where
  "sdp_bandwidth_name t = (case t of SDP_BANDWIDTH_CT \<Rightarrow> ''CT'' | SDP_BANDWIDTH_AS \<Rightarrow> ''AS''
     | SDP_BANDWIDTH_RS \<Rightarrow> ''RS'' | SDP_BANDWIDTH_RR \<Rightarrow> ''RR'' | SDP_BANDWIDTH_TIAS \<Rightarrow> ''TIAS'')"

type_synonym bwv = "sdp_bandwidth \<Rightarrow> u32"

definition bw_none :: bwv where
  "bw_none = (\<lambda>_. -1)"

record sdp_attr =
  at_name :: string
  at_val :: "string option"

type_synonym fmtp_cmp = "string option \<Rightarrow> string option \<Rightarrow> nat option \<Rightarrow> bool"

record sdp_format =
  fm_id :: string
  fm_params :: "string option"
  fm_name :: "string option"
  fm_cmph :: "fmtp_cmp option"
  fm_data :: "nat option"
  fm_ref :: bool
  fm_sup :: bool
  fm_pt :: int
  fm_srate :: u32
  fm_ch :: u8

record sdp_media =
  md_lfmtl :: "sdp_format list"
  md_rfmtl :: "sdp_format list"
  md_lattrl :: "sdp_attr list"
  md_rattrl :: "sdp_attr list"
  md_laddr :: sa
  md_raddr :: sa
  md_laddr_rtcp :: sa
  md_raddr_rtcp :: sa
  md_lbwv :: bwv
  md_rbwv :: bwv
  md_name :: string
  md_proto :: string
  md_ldir :: sdp_dir
  md_rdir :: sdp_dir
  md_disabled :: bool
  md_dynpt :: int

record sdp_session =
  ss_lmedial :: "sdp_media list"
  ss_medial :: "sdp_media list"
  ss_lattrl :: "sdp_attr list"
  ss_rattrl :: "sdp_attr list"
  ss_laddr :: sa
  ss_raddr :: sa
  ss_lbwv :: bwv
  ss_rbwv :: bwv
  ss_id :: u32
  ss_ver :: u32
  ss_rdir :: sdp_dir

section \<open>Attributes\<close>

definition sdp_attr_add :: "sdp_attr list \<Rightarrow> string \<Rightarrow> pl \<Rightarrow> sdp_attr list" where
  "sdp_attr_add lst name val = lst @ [\<lparr>at_name = name, at_val = (if pl_isset val then val else None)\<rparr>]"

definition sdp_attr_addv :: "sdp_attr list \<Rightarrow> string \<Rightarrow> string option \<Rightarrow> sdp_attr list" where
  "sdp_attr_addv lst name val = lst @ [\<lparr>at_name = name, at_val = (if pl_isset val then val else None)\<rparr>]"

definition sdp_attr_del :: "sdp_attr list \<Rightarrow> string \<Rightarrow> sdp_attr list" where
  "sdp_attr_del lst name = filter (\<lambda>a. str_casecmp (Some name) (Some (at_name a))) lst"

fun sdp_attr_apply :: "sdp_attr list \<Rightarrow> string option \<Rightarrow> (string \<Rightarrow> string \<Rightarrow> bool) option \<Rightarrow> string option" where
  "sdp_attr_apply [] name attrh = None"
| "sdp_attr_apply (a # lst) name attrh =
    (if name \<noteq> None \<and> name \<noteq> Some (at_name a) then sdp_attr_apply lst name attrh
     else if Option.is_none attrh \<or> (the attrh) (at_name a) (pl_text (at_val a)) then Some (pl_text (at_val a))
     else sdp_attr_apply lst name attrh)"

text \<open>The text it prints.\<close>

definition sdp_attr_print :: "sdp_attr \<Rightarrow> string" where
  "sdp_attr_print a = (case at_val a of
      Some v \<Rightarrow> ''a='' @ at_name a @ '':'' @ v @ crlf
    | None \<Rightarrow> ''a='' @ at_name a @ crlf)"

section \<open>Formats\<close>

text \<open>
  \<open>atoi\<close> of the C library: blanks, a sign and digits. Out of the range of \<open>long\<close> it saturates, and
  the result is cut to 32 bits.
\<close>

definition isspace :: "char \<Rightarrow> bool" where
  "isspace c \<longleftrightarrow> c \<in> {CHR '' '', CHR 0x09, CHR 0x0A, CHR 0x0B, CHR 0x0C, CHR 0x0D}"

definition atoi :: "string \<Rightarrow> int" where
  "atoi s =
    (let s = dropWhile isspace s;
         neg = (s \<noteq> [] \<and> hd s = CHR ''-'');
         s = (if s \<noteq> [] \<and> (hd s = CHR ''-'' \<or> hd s = CHR ''+'') then tl s else s);
         v = int (dec_val (takeWhile is_digit s));
         v = max (- (2 ^ 63)) (min (2 ^ 63 - 1) (if neg then - v else v))
     in sint (word_of_int v :: u32))"

definition format_zero :: "string \<Rightarrow> sdp_format" where
  "format_zero i = \<lparr>fm_id = i, fm_params = None, fm_name = None, fm_cmph = None, fm_data = None, fm_ref = False,
     fm_sup = False, fm_pt = atoi i, fm_srate = 0, fm_ch = 0\<rparr>"

definition sdp_format_add ::
  "sdp_media \<Rightarrow> bool \<Rightarrow> string option \<Rightarrow> string option \<Rightarrow> u32 \<Rightarrow> u8 \<Rightarrow> fmtp_cmp option \<Rightarrow> nat option \<Rightarrow> bool \<Rightarrow>
    string option \<Rightarrow> errno option \<times> sdp_media" where
  "sdp_format_add m prepend i name srate ch cmph dat ref params =
    (if i = None \<and> md_dynpt m > RTP_DYNPT_END then (Some ERANGE, m)
     else
       let (i, m) = (case i of
               Some i \<Rightarrow> (i, m)
             | None \<Rightarrow> (local_itoa (word_of_int (md_dynpt m)) 10 False, m\<lparr>md_dynpt := md_dynpt m + 1\<rparr>));
           fmt = (format_zero i)\<lparr>fm_params := params, fm_name := name, fm_cmph := cmph, fm_data := dat,
             fm_ref := ref, fm_sup := True, fm_srate := srate, fm_ch := ch\<rparr>
       in (None, m\<lparr>md_lfmtl := if prepend then fmt # md_lfmtl m else md_lfmtl m @ [fmt]\<rparr>))"

definition sdp_format_radd :: "sdp_media \<Rightarrow> string \<Rightarrow> sdp_media" where
  "sdp_format_radd m i = m\<lparr>md_rfmtl := md_rfmtl m @ [format_zero i]\<rparr>"

text \<open>The index of the first format with an identifier.\<close>

fun sdp_format_find :: "sdp_format list \<Rightarrow> pl \<Rightarrow> nat option" where
  "sdp_format_find [] i = None"
| "sdp_format_find (fmt # lst) i =
    (if pl_strcmp i (Some (fm_id fmt)) \<noteq> None then map_option Suc (sdp_format_find lst i) else Some 0)"

definition sdp_format_set_params :: "sdp_format \<Rightarrow> string option \<Rightarrow> sdp_format" where
  "sdp_format_set_params fmt params = fmt\<lparr>fm_params := params\<rparr>"

definition sdp_format_cmp :: "sdp_format \<Rightarrow> sdp_format \<Rightarrow> bool" where
  "sdp_format_cmp f1 f2 =
    (if fm_pt f1 < RTP_DYNPT_START \<and> fm_pt f2 < RTP_DYNPT_START then fm_id f1 = fm_id f2
     else if str_casecmp (fm_name f1) (fm_name f2) then False
     else if fm_srate f1 \<noteq> fm_srate f2 then False
     else if fm_ch f1 \<noteq> fm_ch f2 then False
     else (case fm_cmph f1 of None \<Rightarrow> True | Some h \<Rightarrow> h (fm_params f1) (fm_params f2) (fm_data f1)) \<and>
       (case fm_cmph f2 of None \<Rightarrow> True | Some h \<Rightarrow> h (fm_params f2) (fm_params f1) (fm_data f2)))"

section \<open>Media lines\<close>

definition media_alloc :: sdp_media where
  "media_alloc = \<lparr>md_lfmtl = [], md_rfmtl = [], md_lattrl = [], md_rattrl = [], md_laddr = sa_init AF_INET,
     md_raddr = sa_init AF_INET, md_laddr_rtcp = sa_init AF_INET, md_raddr_rtcp = sa_init AF_INET,
     md_lbwv = bw_none, md_rbwv = bw_none, md_name = [], md_proto = [], md_ldir = SDP_SENDRECV,
     md_rdir = SDP_SENDRECV, md_disabled = False, md_dynpt = RTP_DYNPT_START\<rparr>"

definition sdp_media_add :: "sdp_session \<Rightarrow> string \<Rightarrow> u16 \<Rightarrow> string \<Rightarrow> sdp_session" where
  "sdp_media_add sess name port proto = sess\<lparr>ss_lmedial := ss_lmedial sess @
     [media_alloc\<lparr>md_name := name, md_proto := proto, md_laddr := sa_set_port port (md_laddr media_alloc)\<rparr>]\<rparr>"

definition sdp_media_radd :: "sdp_session \<Rightarrow> string \<Rightarrow> string \<Rightarrow> sdp_session" where
  "sdp_media_radd sess name proto = sess\<lparr>ss_medial := ss_medial sess @
     [media_alloc\<lparr>md_disabled := True, md_name := name, md_proto := proto\<rparr>]\<rparr>"

definition sdp_media_rreset :: "sdp_media \<Rightarrow> sdp_media" where
  "sdp_media_rreset m = m\<lparr>md_raddr := sa_init AF_INET, md_raddr_rtcp := sa_init AF_INET, md_rfmtl := [],
     md_rattrl := [], md_rdir := SDP_SENDRECV, md_rbwv := bw_none\<rparr>"

fun media_find :: "sdp_media list \<Rightarrow> pl \<Rightarrow> pl \<Rightarrow> nat option" where
  "media_find [] name proto = None"
| "media_find (m # ms) name proto =
    (if pl_strcmp name (Some (md_name m)) \<noteq> None then map_option Suc (media_find ms name proto)
     else if pl_strcmp proto (Some (md_proto m)) \<noteq> None then map_option Suc (media_find ms name proto)
     else Some 0)"

definition sdp_media_find :: "sdp_session \<Rightarrow> pl \<Rightarrow> pl \<Rightarrow> nat option" where
  "sdp_media_find sess name proto = media_find (ss_lmedial sess) name proto"

text \<open>
  Aligning: for each remote format the first local one that compares equal. Of an offer, the local
  format takes its identifier and goes to the end of the list.
\<close>

fun find_cmp :: "sdp_format list \<Rightarrow> sdp_format \<Rightarrow> nat option" where
  "find_cmp [] rfmt = None"
| "find_cmp (lfmt # ls) rfmt = (if sdp_format_cmp lfmt rfmt then Some 0 else map_option Suc (find_cmp ls rfmt))"

fun align_loop :: "bool \<Rightarrow> sdp_format list \<Rightarrow> sdp_format list \<Rightarrow> sdp_format list \<times> sdp_format list" where
  "align_loop offer [] lf = ([], lf)"
| "align_loop offer (rfmt # rf) lf = (case find_cmp lf rfmt of
      None \<Rightarrow> (let (rf, lf) = align_loop offer rf lf in (rfmt\<lparr>fm_sup := False\<rparr> # rf, lf))
    | Some i \<Rightarrow>
        let lfmt = (lf ! i)\<lparr>fm_sup := True\<rparr>;
            rfmt = rfmt\<lparr>fm_sup := True, fm_data := fm_data lfmt, fm_ref := fm_ref lfmt\<rparr>;
            lf = (if offer
              then take i lf @ drop (Suc i) lf @ [lfmt\<lparr>fm_id := fm_id rfmt, fm_pt := atoi (fm_id rfmt)\<rparr>]
              else lf[i := lfmt]);
            (rf, lf) = align_loop offer rf lf
        in (rfmt # rf, lf))"

text \<open>The walk from the last format to the first: what is before the current one, reversed, and what is behind it.\<close>

fun sup_first :: "sdp_format list \<Rightarrow> sdp_format list \<Rightarrow> sdp_format list" where
  "sup_first [] behind = behind"
| "sup_first (lfmt # front) behind =
    (if fm_sup lfmt then sup_first front (lfmt # behind) else sup_first front (behind @ [lfmt]))"

definition sdp_media_align_formats :: "sdp_media \<Rightarrow> bool \<Rightarrow> sdp_media" where
  "sdp_media_align_formats m offer =
    (if md_disabled m \<or> sa_port (md_raddr m) = 0 then m
     else
       let lf = List.map (\<lambda>lfmt. lfmt\<lparr>fm_sup := False\<rparr>) (md_lfmtl m);
           (rf, lf) = align_loop offer (md_rfmtl m) lf;
           lf = (if offer then sup_first (rev lf) [] else lf)
       in m\<lparr>md_rfmtl := rf, md_lfmtl := lf\<rparr>)"

definition sdp_media_set_disabled :: "sdp_media \<Rightarrow> bool \<Rightarrow> sdp_media" where
  "sdp_media_set_disabled m disabled = m\<lparr>md_disabled := disabled\<rparr>"

definition sdp_media_set_lport :: "sdp_media \<Rightarrow> u16 \<Rightarrow> sdp_media" where
  "sdp_media_set_lport m port = m\<lparr>md_laddr := sa_set_port port (md_laddr m)\<rparr>"

definition sdp_media_set_laddr :: "sdp_media \<Rightarrow> sa \<Rightarrow> sdp_media" where
  "sdp_media_set_laddr m laddr = m\<lparr>md_laddr := laddr\<rparr>"

definition sdp_media_set_lbandwidth :: "sdp_media \<Rightarrow> sdp_bandwidth \<Rightarrow> u32 \<Rightarrow> sdp_media" where
  "sdp_media_set_lbandwidth m t bw = m\<lparr>md_lbwv := (md_lbwv m)(t := bw)\<rparr>"

definition sdp_media_set_lport_rtcp :: "sdp_media \<Rightarrow> u16 \<Rightarrow> sdp_media" where
  "sdp_media_set_lport_rtcp m port = m\<lparr>md_laddr_rtcp := sa_set_port port (md_laddr_rtcp m)\<rparr>"

definition sdp_media_set_laddr_rtcp :: "sdp_media \<Rightarrow> sa \<Rightarrow> sdp_media" where
  "sdp_media_set_laddr_rtcp m laddr = m\<lparr>md_laddr_rtcp := laddr\<rparr>"

definition sdp_media_set_ldir :: "sdp_media \<Rightarrow> sdp_dir \<Rightarrow> sdp_media" where
  "sdp_media_set_ldir m dir = m\<lparr>md_ldir := dir\<rparr>"

definition sdp_media_set_lattr :: "sdp_media \<Rightarrow> bool \<Rightarrow> string \<Rightarrow> string option \<Rightarrow> sdp_media" where
  "sdp_media_set_lattr m replace name val = m\<lparr>md_lattrl :=
     sdp_attr_addv (if replace then sdp_attr_del (md_lattrl m) name else md_lattrl m) name val\<rparr>"

definition sdp_media_del_lattr :: "sdp_media \<Rightarrow> string \<Rightarrow> sdp_media" where
  "sdp_media_del_lattr m name = m\<lparr>md_lattrl := sdp_attr_del (md_lattrl m) name\<rparr>"

definition sdp_media_rport :: "sdp_media option \<Rightarrow> u16" where
  "sdp_media_rport m = (case m of None \<Rightarrow> 0 | Some m \<Rightarrow> sa_port (md_raddr m))"

definition sdp_media_raddr :: "sdp_media option \<Rightarrow> sa option" where
  "sdp_media_raddr m = map_option md_raddr m"

definition sdp_media_raddr_rtcp :: "sdp_media \<Rightarrow> sa" where
  "sdp_media_raddr_rtcp m =
    (if sa_isset (md_raddr_rtcp m) True True then md_raddr_rtcp m
     else if sa_isset (md_raddr_rtcp m) False True then sa_set_port (sa_port (md_raddr_rtcp m)) (md_raddr m)
     else let port = sa_port (md_raddr m) in sa_set_port (if port \<noteq> 0 then port + 1 else 0) (md_raddr m))"

definition sdp_media_rbandwidth :: "sdp_media option \<Rightarrow> sdp_bandwidth \<Rightarrow> u32" where
  "sdp_media_rbandwidth m t = (case m of None \<Rightarrow> 0 | Some m \<Rightarrow> md_rbwv m t)"

definition sdp_media_ldir :: "sdp_media option \<Rightarrow> sdp_dir" where
  "sdp_media_ldir m = (case m of None \<Rightarrow> SDP_INACTIVE | Some m \<Rightarrow> md_ldir m)"

definition sdp_media_rdir :: "sdp_media option \<Rightarrow> sdp_dir" where
  "sdp_media_rdir m = (case m of None \<Rightarrow> SDP_INACTIVE | Some m \<Rightarrow> md_rdir m)"

definition sdp_media_dir :: "sdp_media option \<Rightarrow> sdp_dir" where
  "sdp_media_dir m = (case m of None \<Rightarrow> SDP_INACTIVE | Some m \<Rightarrow> dir_and (md_ldir m) (md_rdir m))"

definition sdp_media_lformat :: "sdp_media option \<Rightarrow> int \<Rightarrow> sdp_format option" where
  "sdp_media_lformat m pt = (case m of None \<Rightarrow> None | Some m \<Rightarrow> List.find (\<lambda>fmt. pt = fm_pt fmt) (md_lfmtl m))"

definition sdp_media_rformat :: "sdp_media option \<Rightarrow> string option \<Rightarrow> sdp_format option" where
  "sdp_media_rformat m name = (case m of
      None \<Rightarrow> None
    | Some m \<Rightarrow>
        if sa_port (md_raddr m) = 0 then None
        else List.find (\<lambda>fmt. fm_sup fmt \<and> \<not> (name \<noteq> None \<and> str_casecmp name (fm_name fmt))) (md_rfmtl m))"

text \<open>Negative numbers stand for any payload type, rate or number of channels.\<close>

definition sdp_media_format_apply ::
  "sdp_media option \<Rightarrow> bool \<Rightarrow> string option \<Rightarrow> int \<Rightarrow> string option \<Rightarrow> int \<Rightarrow> int \<Rightarrow> (sdp_format \<Rightarrow> bool) option \<Rightarrow>
    sdp_format option" where
  "sdp_media_format_apply m loc i pt name srate ch fmth = (case m of
      None \<Rightarrow> None
    | Some m \<Rightarrow> List.find (\<lambda>fmt.
        \<not> (i \<noteq> None \<and> i \<noteq> Some (fm_id fmt)) \<and>
        \<not> (pt \<ge> 0 \<and> pt \<noteq> fm_pt fmt) \<and>
        \<not> (name \<noteq> None \<and> str_casecmp name (fm_name fmt)) \<and>
        \<not> (srate \<ge> 0 \<and> word_of_int srate \<noteq> fm_srate fmt) \<and>
        \<not> (ch \<ge> 0 \<and> word_of_int ch \<noteq> fm_ch fmt) \<and>
        (Option.is_none fmth \<or> (the fmth) fmt)) (if loc then md_lfmtl m else md_rfmtl m))"

definition sdp_media_format ::
  "sdp_media option \<Rightarrow> bool \<Rightarrow> string option \<Rightarrow> int \<Rightarrow> string option \<Rightarrow> int \<Rightarrow> int \<Rightarrow> sdp_format option" where
  "sdp_media_format m loc i pt name srate ch = sdp_media_format_apply m loc i pt name srate ch None"

definition sdp_media_format_lst :: "sdp_media option \<Rightarrow> bool \<Rightarrow> sdp_format list option" where
  "sdp_media_format_lst m loc = map_option (if loc then md_lfmtl else md_rfmtl) m"

definition sdp_media_rattr :: "sdp_media option \<Rightarrow> string option \<Rightarrow> string option" where
  "sdp_media_rattr m name = (case (m, name) of
      (Some m, Some n) \<Rightarrow> sdp_attr_apply (md_rattrl m) (Some n) None | _ \<Rightarrow> None)"

definition sdp_media_rattr_apply ::
  "sdp_media option \<Rightarrow> string option \<Rightarrow> (string \<Rightarrow> string \<Rightarrow> bool) option \<Rightarrow> string option" where
  "sdp_media_rattr_apply m name attrh = (case m of None \<Rightarrow> None | Some m \<Rightarrow> sdp_attr_apply (md_rattrl m) name attrh)"

definition sdp_media_name :: "sdp_media option \<Rightarrow> string option" where
  "sdp_media_name m = map_option md_name m"

section \<open>Sessions\<close>

text \<open>The random numbers for its identifier and version are arguments.\<close>

definition sdp_session_alloc :: "sa \<Rightarrow> u32 \<Rightarrow> u32 \<Rightarrow> sdp_session" where
  "sdp_session_alloc laddr rid rver = \<lparr>ss_lmedial = [], ss_medial = [], ss_lattrl = [], ss_rattrl = [],
     ss_laddr = laddr, ss_raddr = sa_init AF_INET, ss_lbwv = bw_none, ss_rbwv = bw_none, ss_id = rid,
     ss_ver = and rver 0x7fffffff, ss_rdir = SDP_SENDRECV\<rparr>"

definition sdp_session_rreset :: "sdp_session \<Rightarrow> sdp_session" where
  "sdp_session_rreset sess = sess\<lparr>ss_raddr := sa_init AF_INET, ss_rattrl := [], ss_rdir := SDP_SENDRECV,
     ss_rbwv := bw_none\<rparr>"

definition sdp_session_set_laddr :: "sdp_session \<Rightarrow> sa \<Rightarrow> sdp_session" where
  "sdp_session_set_laddr sess laddr = sess\<lparr>ss_laddr := laddr\<rparr>"

definition sdp_session_set_lbandwidth :: "sdp_session \<Rightarrow> sdp_bandwidth \<Rightarrow> u32 \<Rightarrow> sdp_session" where
  "sdp_session_set_lbandwidth sess t bw = sess\<lparr>ss_lbwv := (ss_lbwv sess)(t := bw)\<rparr>"

definition sdp_session_set_lattr :: "sdp_session \<Rightarrow> bool \<Rightarrow> string \<Rightarrow> string option \<Rightarrow> sdp_session" where
  "sdp_session_set_lattr sess replace name val = sess\<lparr>ss_lattrl :=
     sdp_attr_addv (if replace then sdp_attr_del (ss_lattrl sess) name else ss_lattrl sess) name val\<rparr>"

definition sdp_session_del_lattr :: "sdp_session \<Rightarrow> string \<Rightarrow> sdp_session" where
  "sdp_session_del_lattr sess name = sess\<lparr>ss_lattrl := sdp_attr_del (ss_lattrl sess) name\<rparr>"

definition sdp_session_rbandwidth :: "sdp_session option \<Rightarrow> sdp_bandwidth \<Rightarrow> u32" where
  "sdp_session_rbandwidth sess t = (case sess of None \<Rightarrow> 0 | Some s \<Rightarrow> ss_rbwv s t)"

definition sdp_session_rattr :: "sdp_session option \<Rightarrow> string option \<Rightarrow> string option" where
  "sdp_session_rattr sess name = (case (sess, name) of
      (Some s, Some n) \<Rightarrow> sdp_attr_apply (ss_rattrl s) (Some n) None | _ \<Rightarrow> None)"

definition sdp_session_rattr_apply ::
  "sdp_session option \<Rightarrow> string option \<Rightarrow> (string \<Rightarrow> string \<Rightarrow> bool) option \<Rightarrow> string option" where
  "sdp_session_rattr_apply sess name attrh =
    (case sess of None \<Rightarrow> None | Some s \<Rightarrow> sdp_attr_apply (ss_rattrl s) name attrh)"

definition sdp_session_medial :: "sdp_session option \<Rightarrow> bool \<Rightarrow> sdp_media list option" where
  "sdp_session_medial sess loc = map_option (if loc then ss_lmedial else ss_medial) sess"

section \<open>Agreeing on formats\<close>

text \<open>What aligning leaves as it is: all of a remote format but its support and data, all of a local one
  but its support.\<close>

definition same_remote :: "sdp_format \<Rightarrow> sdp_format \<Rightarrow> bool" where
  "same_remote r r' \<longleftrightarrow> r' = r\<lparr>fm_sup := fm_sup r', fm_data := fm_data r', fm_ref := fm_ref r'\<rparr>"

abbreviation unsup :: "sdp_format \<Rightarrow> sdp_format" where
  "unsup f \<equiv> f\<lparr>fm_sup := False\<rparr>"

lemma cmp_sup [simp]:
  "sdp_format_cmp (l\<lparr>fm_sup := b\<rparr>) r = sdp_format_cmp l r" "sdp_format_cmp l (r\<lparr>fm_sup := b\<rparr>) = sdp_format_cmp l r"
  by (auto simp: sdp_format_cmp_def split: option.splits)

lemma cmp_unsup: "unsup l = unsup l' \<Longrightarrow> sdp_format_cmp l r = sdp_format_cmp l' r"
  using cmp_sup(1) [of False l r] cmp_sup(1) [of False l' r] by simp

lemma find_cmp_None: "find_cmp lf r = None \<longleftrightarrow> (\<forall>l\<in>set lf. \<not> sdp_format_cmp l r)"
  by (induction lf) auto

lemma find_cmp_Some: "find_cmp lf r = Some i \<Longrightarrow> i < length lf \<and> sdp_format_cmp (lf ! i) r"
  by (induction lf arbitrary: i) (auto split: if_splits)

text \<open>
  When formats that compare equal have one identifier, the local formats stay what they are but for
  their support and order, and a remote format is supported when some local one compares equal.
\<close>

definition one_id :: "sdp_format list \<Rightarrow> sdp_format list \<Rightarrow> bool" where
  "one_id rf lf \<longleftrightarrow> (\<forall>r\<in>set rf. \<forall>l\<in>set lf. sdp_format_cmp l r \<longrightarrow> fm_id r = fm_id l \<and> fm_pt l = atoi (fm_id l))"

lemma one_id_cong:
  assumes "one_id (r # rf) lf" and "mset (List.map unsup lf') = mset (List.map unsup lf)"
  shows "one_id rf lf'"
  unfolding one_id_def
proof (intro ballI impI)
  fix r' l' assume r': "r' \<in> set rf" and l': "l' \<in> set lf'" and c: "sdp_format_cmp l' r'"
  have "unsup l' \<in> unsup ` set lf" using l' arg_cong [OF assms(2), of set_mset] by auto
  then obtain l where l: "l \<in> set lf" "unsup l' = unsup l" by blast
  have "fm_id r' = fm_id l \<and> fm_pt l = atoi (fm_id l)"
    using assms(1) r' l(1) c cmp_unsup [OF l(2)] by (auto simp: one_id_def)
  moreover have "fm_id l' = fm_id l" "fm_pt l' = fm_pt l" using l(2) by (metis sdp_format.select_convs(1,8) sdp_format.update_convs(7) sdp_format.surjective)+
  ultimately show "fm_id r' = fm_id l' \<and> fm_pt l' = atoi (fm_id l')" by simp
qed

lemma ex_cmp_cong:
  assumes "mset (List.map unsup lf') = mset (List.map unsup lf)"
  shows "(\<exists>l\<in>set lf'. sdp_format_cmp l r) = (\<exists>l\<in>set lf. sdp_format_cmp l r)"
proof -
  have "unsup ` set lf' = unsup ` set lf" using arg_cong [OF assms, of set_mset] by simp
  then show ?thesis by (metis (no_types, lifting) cmp_unsup image_iff)
qed

lemma align_loop_agrees:
  "align_loop offer rf lf = (rf', lf') \<Longrightarrow> offer \<longrightarrow> one_id rf lf \<Longrightarrow>
    mset (List.map unsup lf') = mset (List.map unsup lf) \<and>
    list_all2 (\<lambda>r r'. same_remote r r' \<and> (fm_sup r' \<longleftrightarrow> (\<exists>l\<in>set lf. sdp_format_cmp l r))) rf rf'"
proof (induction rf arbitrary: lf rf' lf')
  case (Cons r rf)
  show ?case
  proof (cases "find_cmp lf r")
    case None
    obtain rf1 lf1 where 1: "align_loop offer rf lf = (rf1, lf1)" by fastforce
    have "offer \<longrightarrow> one_id rf lf" using Cons.prems(2) by (auto simp: one_id_def)
    from Cons.IH [OF 1 this] Cons.prems(1) None 1 find_cmp_None [of lf r] show ?thesis
      by (auto simp: same_remote_def)
  next
    case (Some i)
    then have i: "i < length lf" "sdp_format_cmp (lf ! i) r" using find_cmp_Some by auto
    define lfmt where "lfmt = (lf ! i)\<lparr>fm_sup := True\<rparr>"
    define lf0 where "lf0 = (if offer
      then take i lf @ drop (Suc i) lf @ [lfmt\<lparr>fm_id := fm_id r, fm_pt := atoi (fm_id r)\<rparr>] else lf[i := lfmt])"
    have split: "lf = take i lf @ lf ! i # drop (Suc i) lf" by (rule id_take_nth_drop [OF i(1)])
    have l: "unsup (lfmt\<lparr>fm_id := fm_id r, fm_pt := atoi (fm_id r)\<rparr>) = unsup (lf ! i)" if offer
    proof -
      have "fm_id r = fm_id (lf ! i)" "fm_pt (lf ! i) = atoi (fm_id (lf ! i))"
        using Cons.prems(2) that i nth_mem [OF i(1)] by (auto simp: one_id_def)
      then show ?thesis by (simp add: lfmt_def)
    qed
    have ms: "mset (List.map unsup lf0) = mset (List.map unsup lf)"
    proof (cases offer)
      case True
      have "mset (List.map unsup lf0) = mset (List.map unsup (take i lf @ lf ! i # drop (Suc i) lf))"
        using l [OF True] by (simp add: lf0_def True)
      then show ?thesis by (simp only: split [symmetric])
    next
      case False
      have "List.map unsup lf0 = (List.map unsup lf)[i := unsup lfmt]" by (simp add: lf0_def False map_update)
      also have "\<dots> = List.map unsup lf" using i(1) by (simp add: lfmt_def list_update_same_conv)
      finally show ?thesis by simp
    qed
    obtain rf1 lf1 where 1: "align_loop offer rf lf0 = (rf1, lf1)" by fastforce
    have o: "offer \<longrightarrow> one_id rf lf0" using one_id_cong [OF _ ms] Cons.prems(2) by blast
    have res: "rf' = r\<lparr>fm_sup := True, fm_data := fm_data lfmt, fm_ref := fm_ref lfmt\<rparr> # rf1" "lf' = lf1"
      using Cons.prems(1) Some 1 by (simp_all add: Let_def lf0_def lfmt_def split: if_splits prod.splits)
    have m: "\<exists>l\<in>set lf. sdp_format_cmp l r" using i nth_mem by blast
    from Cons.IH [OF 1 o] res ms m ex_cmp_cong [OF ms] show ?thesis by (auto simp: same_remote_def)
  qed
qed auto

lemma sup_first_eq:
  "sup_first (rev lf) behind = filter fm_sup lf @ behind @ rev (filter (\<lambda>f. \<not> fm_sup f) lf)"
  by (induction lf arbitrary: behind rule: rev_induct) auto

lemma same_remote_id: "same_remote r r' \<Longrightarrow> fm_id r' = fm_id r \<and> fm_pt r' = fm_pt r \<and> fm_name r' = fm_name r"
  unfolding same_remote_def by (metis sdp_format.select_convs(1,3,8) sdp_format.surjective sdp_format.update_convs(5,6,7))

lemma find_all2:
  assumes "list_all2 (\<lambda>r r'. R r r' \<and> (P r' \<longleftrightarrow> Q r)) rf rf'"
  shows "rel_option R (List.find Q rf) (List.find P rf')"
  using assms by (induction rule: list_all2_induct) auto

text \<open>The format that is agreed on: the first remote one with a local counterpart.\<close>

lemma agreed_format:
  assumes "\<not> md_disabled m" and "sa_port (md_raddr m) \<noteq> 0" and "offer \<longrightarrow> one_id (md_rfmtl m) (md_lfmtl m)"
  shows "rel_option same_remote (List.find (\<lambda>r. \<exists>l\<in>set (md_lfmtl m). sdp_format_cmp l r) (md_rfmtl m))
    (sdp_media_rformat (Some (sdp_media_align_formats m offer)) None)"
proof -
  let ?lf = "List.map unsup (md_lfmtl m)"
  obtain rf lf where 1: "align_loop offer (md_rfmtl m) ?lf = (rf, lf)" by fastforce
  have "offer \<longrightarrow> one_id (md_rfmtl m) ?lf" using assms(3) by (auto simp: one_id_def)
  from align_loop_agrees [OF 1 this]
  have "list_all2 (\<lambda>r r'. same_remote r r' \<and> (fm_sup r' \<longleftrightarrow> (\<exists>l\<in>set (md_lfmtl m). sdp_format_cmp l r))) (md_rfmtl m) rf"
    by simp
  from find_all2 [OF this] show ?thesis
    using assms(1,2) 1 by (simp add: sdp_media_align_formats_def sdp_media_rformat_def)
qed

text \<open>
  Whatever compares equal, aligning an offer puts the supported formats first, and keeps every local
  format but for its support, identifier and payload type.
\<close>

abbreviation unid :: "sdp_format \<Rightarrow> sdp_format" where
  "unid f \<equiv> f\<lparr>fm_sup := False, fm_id := [], fm_pt := 0\<rparr>"

lemma align_loop_keeps:
  "align_loop offer rf lf = (rf', lf') \<Longrightarrow> mset (List.map unid lf') = mset (List.map unid lf)"
proof (induction rf arbitrary: lf rf' lf')
  case (Cons r rf)
  show ?case
  proof (cases "find_cmp lf r")
    case None
    then show ?thesis using Cons by (auto split: prod.splits)
  next
    case (Some i)
    then have i: "i < length lf" using find_cmp_Some by auto
    define lfmt where "lfmt = (lf ! i)\<lparr>fm_sup := True\<rparr>"
    define lf0 where "lf0 = (if offer
      then take i lf @ drop (Suc i) lf @ [lfmt\<lparr>fm_id := fm_id r, fm_pt := atoi (fm_id r)\<rparr>] else lf[i := lfmt])"
    have split: "lf = take i lf @ lf ! i # drop (Suc i) lf" by (rule id_take_nth_drop [OF i])
    have ms: "mset (List.map unid lf0) = mset (List.map unid lf)"
    proof (cases offer)
      case True
      have "mset (List.map unid lf0) = mset (List.map unid (take i lf @ lf ! i # drop (Suc i) lf))"
        by (simp add: lf0_def True lfmt_def)
      then show ?thesis by (simp only: split [symmetric])
    next
      case False
      have "List.map unid lf0 = (List.map unid lf)[i := unid lfmt]" by (simp add: lf0_def False map_update)
      also have "\<dots> = List.map unid lf" using i by (simp add: lfmt_def list_update_same_conv)
      finally show ?thesis by simp
    qed
    obtain rf1 lf1 where 1: "align_loop offer rf lf0 = (rf1, lf1)" by fastforce
    have "lf' = lf1" using Cons.prems Some 1 by (simp add: Let_def lf0_def lfmt_def split: if_splits prod.splits)
    with Cons.IH [OF 1] ms show ?thesis by simp
  qed
qed auto

lemma align_formats_keeps:
  "mset (List.map unid (md_lfmtl (sdp_media_align_formats m offer))) = mset (List.map unid (md_lfmtl m))"
proof -
  let ?lf = "List.map unsup (md_lfmtl m)"
  obtain rf lf where 1: "align_loop offer (md_rfmtl m) ?lf = (rf, lf)" by fastforce
  have 2: "mset (List.map unid lf) = mset (List.map unid (md_lfmtl m))" using align_loop_keeps [OF 1] by (simp add: o_def)
  have "mset (sup_first (rev lf) []) = mset lf" unfolding sup_first_eq by (simp add: multiset_partition [symmetric])
  then have "mset (List.map unid (sup_first (rev lf) [])) = mset (List.map unid lf)" by (simp only: mset_map)
  with 1 2 show ?thesis by (simp add: sdp_media_align_formats_def)
qed

lemma align_offer_supported_first:
  assumes "\<not> md_disabled m" and "sa_port (md_raddr m) \<noteq> 0"
  shows "\<exists>sup rest. md_lfmtl (sdp_media_align_formats m True) = sup @ rest \<and> (\<forall>f\<in>set sup. fm_sup f) \<and> (\<forall>f\<in>set rest. \<not> fm_sup f)"
proof -
  obtain rf lf where 1: "align_loop True (md_rfmtl m) (List.map unsup (md_lfmtl m)) = (rf, lf)" by fastforce
  then show ?thesis using assms
    by (intro exI [of _ "filter fm_sup lf"] exI [of _ "rev (filter (\<lambda>f. \<not> fm_sup f) lf)"])
      (simp add: sdp_media_align_formats_def sup_first_eq)
qed

end
