(* ===== verification/Re_Sdp_Msg.thy ===== *)
theory Re_Sdp_Msg
  imports Re_Sdp
begin

text \<open>
  Messages of session descriptions (\<open>src/re/src/sdp/msg.c\<close>): reading one into the remote side of a
  session, and printing the local side. The message is the text between position and end of its
  buffer. The media line that is read is an index into the list of the session. The printed text
  is the result of encoding; allocation is taken to succeed.
\<close>

section \<open>Reading\<close>

definition attr_decode_fmtp :: "sdp_media option \<Rightarrow> pl \<Rightarrow> ub + errno option \<times> sdp_media option" where
  "attr_decode_fmtp m pl = (case m of
      None \<Rightarrow> Inr (None, None)
    | Some m \<Rightarrow> obind (re_regex pl ''[^ ]+ [^]*'') (\<lambda>(err, c).
        if err \<noteq> None then Inr (Some EBADMSG, Some m)
        else (case sdp_format_find (md_rfmtl m) (c 0) of
            None \<Rightarrow> Inr (None, Some m)
          | Some i \<Rightarrow>
              let fmt = (md_rfmtl m ! i)\<lparr>fm_params := c 1\<rparr>
              in Inr (if c 1 = None then Some EINVAL else None, Some (m\<lparr>md_rfmtl := (md_rfmtl m)[i := fmt]\<rparr>)))))"

definition attr_decode_rtcp :: "inet_lib \<Rightarrow> sdp_media option \<Rightarrow> pl \<Rightarrow> ub + errno option \<times> sdp_media option" where
  "attr_decode_rtcp net m pl = (case m of
      None \<Rightarrow> Inr (None, None)
    | Some m \<Rightarrow> obind (re_regex pl ''[0-9]+ IN IP[46]1 [^ ]+'') (\<lambda>(err, c).
        if err = None then
          obind (sa_set net (c 2) (ucast (pl_u32 (c 0))) (md_raddr_rtcp m)) (\<lambda>(_, s).
            Inr (None, Some (m\<lparr>md_raddr_rtcp := s\<rparr>)))
        else obind (re_regex pl ''[0-9]+'') (\<lambda>(err, c).
          if err = None then
            Inr (None, Some (m\<lparr>md_raddr_rtcp := sa_set_port (ucast (pl_u32 (c 0))) (md_raddr_rtcp m)\<rparr>))
          else Inr (Some EBADMSG, Some m))))"

definition attr_decode_rtpmap :: "sdp_media option \<Rightarrow> pl \<Rightarrow> ub + errno option \<times> sdp_media option" where
  "attr_decode_rtpmap m pl = (case m of
      None \<Rightarrow> Inr (None, None)
    | Some m \<Rightarrow> obind (re_regex pl ''[^ ]+ [^/]+/[0-9]+[/]*[^]*'') (\<lambda>(err, c).
        if err \<noteq> None then Inr (Some EBADMSG, Some m)
        else (case sdp_format_find (md_rfmtl m) (c 0) of
            None \<Rightarrow> Inr (None, Some m)
          | Some i \<Rightarrow>
              if c 1 = None then
                Inr (Some EINVAL, Some (m\<lparr>md_rfmtl := (md_rfmtl m)[i := (md_rfmtl m ! i)\<lparr>fm_name := None\<rparr>]\<rparr>))
              else
                let fmt = (md_rfmtl m ! i)\<lparr>fm_name := c 1, fm_srate := pl_u32 (c 2),
                      fm_ch := if pl_l (c 4) \<noteq> 0 then ucast (pl_u32 (c 4)) else 1\<rparr>
                in Inr (None, Some (m\<lparr>md_rfmtl := (md_rfmtl m)[i := fmt]\<rparr>)))))"

text \<open>The direction belongs to the media line if there is one.\<close>

definition set_rdir :: "sdp_dir \<Rightarrow> sdp_session \<Rightarrow> sdp_media option \<Rightarrow> sdp_session \<times> sdp_media option" where
  "set_rdir d sess m = (case m of
      None \<Rightarrow> (sess\<lparr>ss_rdir := d\<rparr>, None) | Some m \<Rightarrow> (sess, Some (m\<lparr>md_rdir := d\<rparr>)))"

definition attr_decode ::
  "inet_lib \<Rightarrow> sdp_session \<Rightarrow> sdp_media option \<Rightarrow> string \<Rightarrow> ub + errno option \<times> sdp_session \<times> sdp_media option" where
  "attr_decode net sess m pl =
    obind (re_regex (Some pl) ''[^:]+:[^]+'') (\<lambda>(err, c).
      let name = (if err \<noteq> None then Some pl else c 0);
          val = (if err \<noteq> None then None else c 1);
          is = (\<lambda>t. pl_strcmp name (Some t) = None);
          with_sess = (\<lambda>r. obind r (\<lambda>(err, m). Inr (err, sess, m)))
      in if is ''fmtp'' then with_sess (attr_decode_fmtp m val)
         else if is ''inactive'' then Inr (None, set_rdir SDP_INACTIVE sess m)
         else if is ''recvonly'' then Inr (None, set_rdir SDP_SENDONLY sess m)
         else if is ''rtcp'' then with_sess (attr_decode_rtcp net m val)
         else if is ''rtpmap'' then with_sess (attr_decode_rtpmap m val)
         else if is ''sendonly'' then Inr (None, set_rdir SDP_RECVONLY sess m)
         else if is ''sendrecv'' then Inr (None, set_rdir SDP_SENDRECV sess m)
         else (case m of
             None \<Rightarrow> Inr (None, sess\<lparr>ss_rattrl := sdp_attr_add (ss_rattrl sess) (pl_text name) val\<rparr>, None)
           | Some m \<Rightarrow> Inr (None, sess, Some (m\<lparr>md_rattrl := sdp_attr_add (md_rattrl m) (pl_text name) val\<rparr>))))"

definition bandwidth_decode :: "bwv \<Rightarrow> string \<Rightarrow> ub + errno option \<times> bwv" where
  "bandwidth_decode bw pl =
    obind (re_regex (Some pl) ''[^:]+:[0-9]+'') (\<lambda>(err, c).
      if err \<noteq> None then Inr (Some EBADMSG, bw)
      else
        let is = (\<lambda>t. pl_strcmp (c 0) (Some t) = None); v = pl_u32 (c 1)
        in Inr (None,
          if is ''CT'' then bw(SDP_BANDWIDTH_CT := v)
          else if is ''AS'' then bw(SDP_BANDWIDTH_AS := v)
          else if is ''RS'' then bw(SDP_BANDWIDTH_RS := v)
          else if is ''RR'' then bw(SDP_BANDWIDTH_RR := v)
          else if is ''TIAS'' then bw(SDP_BANDWIDTH_TIAS := v)
          else bw))"

definition conn_decode :: "inet_lib \<Rightarrow> sa \<Rightarrow> string \<Rightarrow> ub + errno option \<times> sa" where
  "conn_decode net s pl =
    obind (re_regex (Some pl) ''IN IP[46]1 [^ ]+'') (\<lambda>(err, c).
      if err \<noteq> None then Inr (Some EBADMSG, s)
      else obind (sa_set net (c 1) (sa_port s) s) (\<lambda>(_, s). Inr (None, s)))"

text \<open>
  The formats of a media line. A format lies where a space is followed by something else, and the
  search goes on behind it.
\<close>

fun space_word :: "string \<Rightarrow> nat" where
  "space_word [] = 0"
| "space_word (c # p) = (if c = CHR '' '' \<and> p \<noteq> [] \<and> hd p \<noteq> CHR '' '' then 1 else Suc (space_word p))"

lemma space_word_pos: "p \<noteq> [] \<Longrightarrow> 0 < space_word p"
  by (cases p) auto

function media_formats :: "string \<Rightarrow> ub + string list" where
  "media_formats fmtv = (case re_regex (Some fmtv) '' [^ ]+'' of
      Inl u \<Rightarrow> Inl u
    | Inr (Some e, c) \<Rightarrow> Inr []
    | Inr (None, c) \<Rightarrow>
        obind (media_formats (pl_advance fmtv (space_word fmtv + pl_l (c 0)))) (\<lambda>fs. Inr (pl_text (c 0) # fs)))"
  by pat_completeness auto
termination
proof (relation "measure length")
  have "fmtv \<noteq> []" if "re_regex (Some fmtv) '' [^ ]+'' = Inr (None, c)" for fmtv c
    using that by (auto simp: re_regex_def)
  then show "re_regex (Some fmtv) '' [^ ]+'' = Inr p \<Longrightarrow> (x, c) = p \<Longrightarrow> x = None \<Longrightarrow>
    (pl_advance fmtv (space_word fmtv + pl_l (c 0)), fmtv) \<in> measure length" for fmtv p x c
    using space_word_pos [of fmtv] by (fastforce simp: pl_advance_def)
qed simp

declare media_formats.simps [simp del]

text \<open>The media line at index \<open>i\<close> takes the formats, and the address and direction of the session.\<close>

definition media_enter :: "sdp_session \<Rightarrow> nat \<Rightarrow> pl \<Rightarrow> pl \<Rightarrow> ub + errno option \<times> nat option \<times> sdp_session" where
  "media_enter sess i port fmtv =
    obind (media_formats (pl_text fmtv)) (\<lambda>ids.
      let m = fold (\<lambda>i m. sdp_format_radd m i) ids (ss_medial sess ! i);
          m = m\<lparr>md_raddr := sa_set_port (ucast (pl_u32 port)) (ss_raddr sess), md_rdir := ss_rdir sess\<rparr>
      in Inr (None, Some i, sess\<lparr>ss_medial := (ss_medial sess)[i := m]\<rparr>))"

definition media_decode ::
  "sdp_session \<Rightarrow> nat option \<Rightarrow> bool \<Rightarrow> string \<Rightarrow> ub + errno option \<times> nat option \<times> sdp_session" where
  "media_decode sess cur offer pl =
    obind (re_regex (Some pl) ''[a-z]+ [^ ]+ [^ ]+[^]*'') (\<lambda>(err, c).
      if err \<noteq> None then Inr (Some EBADMSG, cur, sess)
      else
        let i = (case cur of None \<Rightarrow> 0 | Some i \<Rightarrow> Suc i)
        in if i < length (ss_medial sess) then
             if pl_strcmp (c 0) (Some (md_name (ss_medial sess ! i))) \<noteq> None then
               Inr (Some (if offer then ENOTSUP else EPROTO), cur, sess)
             else if pl_strcmp (c 2) (Some (md_proto (ss_medial sess ! i))) \<noteq> None then
               Inr (Some ENOTSUP, cur, sess)
             else media_enter sess i (c 1) (c 3)
           else if \<not> offer then Inr (Some EPROTO, cur, sess)
           else (case sdp_media_find sess (c 0) (c 2) of
               None \<Rightarrow> media_enter (sdp_media_radd sess (pl_text (c 0)) (pl_text (c 2))) i (c 1) (c 3)
             | Some k \<Rightarrow>
                 let m = ss_lmedial sess ! k;
                     sess = sess\<lparr>ss_lmedial := take k (ss_lmedial sess) @ drop (Suc k) (ss_lmedial sess),
                       ss_medial := ss_medial sess @ [m]\<rparr>
                 in media_enter sess i (c 1) (c 3)))"

definition version_decode :: "string \<Rightarrow> errno option" where
  "version_decode pl = (if pl_strcmp (Some pl) (Some ''0'') \<noteq> None then Some ENOSYS else None)"

text \<open>One line: its letter and its value.\<close>

definition cur_media :: "sdp_session \<Rightarrow> nat option \<Rightarrow> sdp_media option" where
  "cur_media sess cur = map_option (\<lambda>i. ss_medial sess ! i) cur"

definition put_media :: "sdp_session \<Rightarrow> nat option \<Rightarrow> sdp_media option \<Rightarrow> sdp_session" where
  "put_media sess cur m = (case (cur, m) of
      (Some i, Some m) \<Rightarrow> sess\<lparr>ss_medial := (ss_medial sess)[i := m]\<rparr> | _ \<Rightarrow> sess)"

definition decode_line ::
  "inet_lib \<Rightarrow> bool \<Rightarrow> char \<Rightarrow> string \<Rightarrow> nat option \<Rightarrow> sdp_session \<Rightarrow> ub + errno option \<times> nat option \<times> sdp_session" where
  "decode_line net offer ty val cur sess =
    (if ty = CHR ''a'' then
       obind (attr_decode net sess (cur_media sess cur) val) (\<lambda>(err, sess, m). Inr (err, cur, put_media sess cur m))
     else if ty = CHR ''b'' then
       (case cur_media sess cur of
          None \<Rightarrow> obind (bandwidth_decode (ss_rbwv sess) val) (\<lambda>(err, bw). Inr (err, cur, sess\<lparr>ss_rbwv := bw\<rparr>))
        | Some m \<Rightarrow> obind (bandwidth_decode (md_rbwv m) val) (\<lambda>(err, bw).
            Inr (err, cur, put_media sess cur (Some (m\<lparr>md_rbwv := bw\<rparr>)))))
     else if ty = CHR ''c'' then
       (case cur_media sess cur of
          None \<Rightarrow> obind (conn_decode net (ss_raddr sess) val) (\<lambda>(err, s). Inr (err, cur, sess\<lparr>ss_raddr := s\<rparr>))
        | Some m \<Rightarrow> obind (conn_decode net (md_raddr m) val) (\<lambda>(err, s).
            Inr (err, cur, put_media sess cur (Some (m\<lparr>md_raddr := s\<rparr>)))))
     else if ty = CHR ''m'' then media_decode sess cur offer val
     else if ty = CHR ''v'' then Inr (version_decode val, cur, sess)
     else Inr (None, cur, sess))"

text \<open>
  The loop over the characters: the letter of the line, a 0 byte between lines, and the value read so
  far. The letter left at the end comes back.
\<close>

fun decode_loop ::
  "inet_lib \<Rightarrow> bool \<Rightarrow> string \<Rightarrow> char \<Rightarrow> string \<Rightarrow> nat option \<Rightarrow> sdp_session \<Rightarrow> ub + errno option \<times> char \<times> sdp_session" where
  "decode_loop net offer [] ty val cur sess = Inr (None, ty, sess)"
| "decode_loop net offer (c # p) ty val cur sess =
    (if c = CHR 0x0D \<or> c = CHR 0x0A then
       if ty = CHR 0x00 then decode_loop net offer p ty val cur sess
       else obind (decode_line net offer ty val cur sess) (\<lambda>(err, cur, sess).
         if err \<noteq> None then Inr (err, CHR 0x00, sess)
         else decode_loop net offer p (CHR 0x00) [] cur sess)
     else if ty \<noteq> CHR 0x00 then decode_loop net offer p ty (val @ [c]) cur sess
     else (case p of
         [] \<Rightarrow> Inr (Some EBADMSG, ty, sess)
       | e # p \<Rightarrow> if e \<noteq> CHR ''='' then Inr (Some EBADMSG, ty, sess) else decode_loop net offer p c [] cur sess))"

definition sdp_decode ::
  "inet_lib \<Rightarrow> sdp_session \<Rightarrow> string \<Rightarrow> bool \<Rightarrow> ub + errno option \<times> sdp_session" where
  "sdp_decode net sess txt offer =
    (let sess = sdp_session_rreset sess;
         sess = sess\<lparr>ss_medial := List.map sdp_media_rreset (ss_medial sess)\<rparr>
     in obind (decode_loop net offer txt (CHR 0x00) [] None sess) (\<lambda>(err, ty, sess).
       if err \<noteq> None then Inr (err, sess)
       else if ty \<noteq> CHR 0x00 then Inr (Some EBADMSG, sess)
       else Inr (None, sess\<lparr>ss_medial := List.map (\<lambda>m. sdp_media_align_formats m offer) (ss_medial sess)\<rparr>)))"

section \<open>Printing\<close>

definition ipver :: "sa \<Rightarrow> string" where
  "ipver s = (if sa_af s = AF_INET then ''4'' else ''6'')"

definition conn_encode :: "inet_lib \<Rightarrow> sa \<Rightarrow> ub + string" where
  "conn_encode net s = obind (print_addr net s) (\<lambda>a. Inr (''c=IN IP'' @ ipver s @ '' '' @ a @ crlf))"

definition bandwidths :: "sdp_bandwidth list" where
  "bandwidths = [SDP_BANDWIDTH_CT, SDP_BANDWIDTH_AS, SDP_BANDWIDTH_RS, SDP_BANDWIDTH_RR, SDP_BANDWIDTH_TIAS]"

definition bandwidth_encode :: "bwv \<Rightarrow> string" where
  "bandwidth_encode bw = concat (List.map (\<lambda>t. if bw t <s 0 then []
     else ''b='' @ sdp_bandwidth_name t @ '':'' @ itoa (bw t) @ crlf) bandwidths)"

definition format_encode :: "sdp_format \<Rightarrow> string" where
  "format_encode fmt =
    (if \<not> fm_sup fmt \<or> \<not> pl_isset (fm_name fmt) then []
     else ''a=rtpmap:'' @ fm_id fmt @ '' '' @ pl_text (fm_name fmt) @ ''/'' @ itoa (fm_srate fmt) @
       (if fm_ch fmt > 1 then ''/'' @ itoa (fm_ch fmt) else []) @ crlf @
       (if pl_isset (fm_params fmt) then ''a=fmtp:'' @ fm_id fmt @ '' '' @ pl_text (fm_params fmt) @ crlf else []))"

definition rtcp_encode :: "inet_lib \<Rightarrow> sa \<Rightarrow> ub + string" where
  "rtcp_encode net s =
    (if sa_isset s True True then
       obind (print_addr net s) (\<lambda>a. Inr (''a=rtcp:'' @ itoa (sa_port s) @ '' IN IP'' @ ipver s @ '' '' @ a @ crlf))
     else if sa_isset s False True then Inr (''a=rtcp:'' @ itoa (sa_port s) @ crlf)
     else Inr [])"

definition media_encode :: "inet_lib \<Rightarrow> sdp_media \<Rightarrow> bool \<Rightarrow> ub + string" where
  "media_encode net m offer =
    (let disabled = (md_disabled m \<or> filter fm_sup (md_lfmtl m) = [] \<or> \<not> offer \<and> sa_port (md_raddr m) = 0);
         port = (if disabled then 0 else sa_port (md_laddr m));
         head = ''m='' @ md_name m @ '' '' @ itoa port @ '' '' @ md_proto m
     in if disabled then Inr (head @ '' 0'' @ crlf)
        else
          obind (if sa_isset (md_laddr m) True False then conn_encode net (md_laddr m) else Inr []) (\<lambda>conn.
          obind (rtcp_encode net (md_laddr_rtcp m)) (\<lambda>rtcp.
          Inr (head @ concat (List.map (\<lambda>fmt. '' '' @ fm_id fmt) (filter fm_sup (md_lfmtl m))) @ crlf @ conn @
            bandwidth_encode (md_lbwv m) @ concat (List.map format_encode (md_lfmtl m)) @ rtcp @
            ''a='' @ sdp_dir_name (if offer then md_ldir m else dir_and (md_ldir m) (md_rdir m)) @ crlf @
            concat (List.map sdp_attr_print (md_lattrl m))))))"

fun medial_encode :: "inet_lib \<Rightarrow> sdp_media list \<Rightarrow> bool \<Rightarrow> ub + string" where
  "medial_encode net [] offer = Inr []"
| "medial_encode net (m # ms) offer =
    obind (media_encode net m offer) (\<lambda>t. obind (medial_encode net ms offer) (\<lambda>ts. Inr (t @ ts)))"

definition sdp_encode :: "inet_lib \<Rightarrow> sdp_session \<Rightarrow> bool \<Rightarrow> ub + string \<times> sdp_session" where
  "sdp_encode net sess offer =
    obind (print_addr net (ss_laddr sess)) (\<lambda>a.
    obind (conn_encode net (ss_laddr sess)) (\<lambda>conn.
      let head = ''v=0'' @ crlf @ ''o=- '' @ itoa (ss_id sess) @ '' '' @ itoa (ss_ver sess) @ '' IN IP'' @
            ipver (ss_laddr sess) @ '' '' @ a @ crlf @ ''s=-'' @ crlf @ conn @ bandwidth_encode (ss_lbwv sess) @
            ''t=0 0'' @ crlf @ concat (List.map sdp_attr_print (ss_lattrl sess));
          sess = sess\<lparr>ss_ver := ss_ver sess + 1\<rparr>;
          sess = (if offer then sess\<lparr>ss_lmedial := filter md_disabled (ss_lmedial sess),
                      ss_medial := ss_medial sess @ filter (\<lambda>m. \<not> md_disabled m) (ss_lmedial sess)\<rparr>
                  else sess)
      in obind (medial_encode net (ss_medial sess) offer) (\<lambda>t. Inr (head @ t, sess))))"

end
