(* ===== verification/Re_Sdp_Trip.thy ===== *)
theory Re_Sdp_Trip
  imports Re_Sdp_Msg
begin

text \<open>
  What was printed is read: the local side of a session, printed and read by another, becomes its
  remote side. A message is shown to be a list of lines first; then each kind of line is read.
\<close>

section \<open>Messages are lines\<close>

definition sdp_line :: "char \<times> string \<Rightarrow> string" where
  "sdp_line l = fst l # ''='' @ snd l @ crlf"

definition eol :: "char \<Rightarrow> bool" where
  "eol c \<longleftrightarrow> c = CHR 0x0D \<or> c = CHR 0x0A"

definition line_ok :: "char \<times> string \<Rightarrow> bool" where
  "line_ok l \<longleftrightarrow> fst l \<noteq> CHR 0x00 \<and> \<not> eol (fst l) \<and> (\<forall>c\<in>set (snd l). \<not> eol c)"

fun decode_lines ::
  "inet_lib \<Rightarrow> bool \<Rightarrow> (char \<times> string) list \<Rightarrow> nat option \<Rightarrow> sdp_session \<Rightarrow> ub + errno option \<times> nat option \<times> sdp_session" where
  "decode_lines net offer [] cur sess = Inr (None, cur, sess)"
| "decode_lines net offer (l # ls) cur sess =
    obind (decode_line net offer (fst l) (snd l) cur sess) (\<lambda>(err, cur, sess).
      if err \<noteq> None then Inr (err, cur, sess) else decode_lines net offer ls cur sess)"

lemma decode_value:
  "\<forall>c\<in>set v. \<not> eol c \<Longrightarrow> ty \<noteq> CHR 0x00 \<Longrightarrow>
    decode_loop net offer (v @ rest) ty val cur sess = decode_loop net offer rest ty (val @ v) cur sess"
  by (induction v arbitrary: val) (auto simp: eol_def)

lemma decode_loop_line:
  assumes "line_ok l"
  shows "decode_loop net offer (sdp_line l @ rest) (CHR 0x00) [] cur sess =
    obind (decode_line net offer (fst l) (snd l) cur sess) (\<lambda>(err, cur, sess).
      if err \<noteq> None then Inr (err, CHR 0x00, sess) else decode_loop net offer rest (CHR 0x00) [] cur sess)"
proof -
  have ok: "fst l \<noteq> CHR 0x00" "fst l \<noteq> CHR 0x0D" "fst l \<noteq> CHR 0x0A" "\<forall>c\<in>set (snd l). \<not> eol c"
    using assms by (auto simp: line_ok_def eol_def)
  have "decode_loop net offer (sdp_line l @ rest) (CHR 0x00) [] cur sess =
      decode_loop net offer (snd l @ CHR 0x0D # CHR 0x0A # rest) (fst l) [] cur sess"
    using ok by (simp add: sdp_line_def crlf_def)
  also have "\<dots> = decode_loop net offer (CHR 0x0D # CHR 0x0A # rest) (fst l) (snd l) cur sess"
    using decode_value [OF ok(4,1)] by simp
  also have "\<dots> = obind (decode_line net offer (fst l) (snd l) cur sess) (\<lambda>(err, cur, sess).
      if err \<noteq> None then Inr (err, CHR 0x00, sess) else decode_loop net offer rest (CHR 0x00) [] cur sess)"
    using ok by (simp add: case_prod_beta cong: if_cong)
  finally show ?thesis .
qed

lemma decode_loop_lines:
  "\<forall>l\<in>set ls. line_ok l \<Longrightarrow> decode_loop net offer (concat (List.map sdp_line ls) @ rest) (CHR 0x00) [] cur sess =
    obind (decode_lines net offer ls cur sess) (\<lambda>(err, cur, sess).
      if err \<noteq> None then Inr (err, CHR 0x00, sess) else decode_loop net offer rest (CHR 0x00) [] cur sess)"
proof (induction ls arbitrary: cur sess)
  case (Cons l ls)
  then have "line_ok l" by simp
  from decode_loop_line [OF this] Cons show ?case
    by (cases "decode_line net offer (fst l) (snd l) cur sess") (auto split: prod.splits)
qed simp

text \<open>The start of reading, and the end.\<close>

definition fresh :: "sdp_session \<Rightarrow> sdp_session" where
  "fresh sess = (sdp_session_rreset sess)\<lparr>ss_medial := List.map sdp_media_rreset (ss_medial sess)\<rparr>"

definition aligned :: "bool \<Rightarrow> sdp_session \<Rightarrow> sdp_session" where
  "aligned offer sess = sess\<lparr>ss_medial := List.map (\<lambda>m. sdp_media_align_formats m offer) (ss_medial sess)\<rparr>"

lemma sdp_decode_lines:
  assumes "\<forall>l\<in>set ls. line_ok l"
  shows "sdp_decode net sess (concat (List.map sdp_line ls)) offer =
    obind (decode_lines net offer ls None (fresh sess)) (\<lambda>(err, cur, sess).
      Inr (err, if err = None then aligned offer sess else sess))"
proof -
  have "sdp_session_rreset sess\<lparr>ss_medial := List.map sdp_media_rreset (ss_medial (sdp_session_rreset sess))\<rparr> = fresh sess"
    by (simp add: fresh_def sdp_session_rreset_def)
  with decode_loop_lines [OF assms, of net offer "[]" None "fresh sess"] show ?thesis
    by (cases "decode_lines net offer ls None (fresh sess)") (auto simp: sdp_decode_def aligned_def Let_def split: prod.splits)
qed

text \<open>A last line that is not ended is refused, whatever it says.\<close>

lemma sdp_decode_unended:
  assumes "\<forall>l\<in>set ls. line_ok l" and "line_ok l"
    and "decode_lines net offer ls None (fresh sess) = Inr (None, cur, s)"
  shows "sdp_decode net sess (concat (List.map sdp_line ls) @ fst l # ''='' @ snd l) offer = Inr (Some EBADMSG, s)"
proof -
  have "sdp_session_rreset sess\<lparr>ss_medial := List.map sdp_media_rreset (ss_medial (sdp_session_rreset sess))\<rparr> = fresh sess"
    by (simp add: fresh_def sdp_session_rreset_def)
  moreover have "decode_loop net offer (fst l # ''='' @ snd l) (CHR 0x00) [] cur s = Inr (None, fst l, s)"
    using assms(2) decode_value [of "snd l" "fst l" net offer "[]" "[]" cur s] by (auto simp: line_ok_def eol_def)
  ultimately show ?thesis
    using decode_loop_lines [OF assms(1), of net offer "fst l # ''='' @ snd l" None "fresh sess"] assms(2,3)
    by (simp add: sdp_decode_def Let_def line_ok_def)
qed

section \<open>The expressions\<close>

lemma sdp_class_chars:
  "\<forall>x\<in>set '' ''. class_char x \<and> nonletter x" "\<forall>x\<in>set ''/''. class_char x \<and> nonletter x"
  "\<forall>x\<in>set '':''. class_char x \<and> nonletter x" "\<forall>x\<in>set ''46''. class_char x \<and> nonletter x"
  by code_simp+

text \<open>Digits, and letters.\<close>

lemma range_class:
  assumes q: "open_quant q" and len: "length (a @ b) < 2 ^ 32"
    and r: "class_char lo" "class_char hi" "tolower lo = lo" "tolower hi = hi"
    and a: "\<forall>c\<in>set a. chr_le lo (tolower c) \<and> chr_le (tolower c) hi"
    and b: "b = [] \<or> \<not> (chr_le lo (tolower (hd b)) \<and> chr_le (tolower (hd b)) hi)"
    and ne: "q = CHR ''+'' \<longrightarrow> a \<noteq> []"
  shows "re_try (CHR ''['' # lo # CHR ''-'' # hi # CHR '']'' # q # ep) (a @ b) False None k caps =
    re_try ep b False None (Suc k) (caps(k := Some a))"
proof -
  define cl where "cl = cls_init\<lparr>cls_ec := True, cls_chr := [(lo, hi)]\<rparr>"
  have m: "expr_match (cls_chr cl) (tolower c) (cls_neg cl) \<longleftrightarrow> chr_le lo (tolower c) \<and> chr_le (tolower c) hi" for c
    by (simp add: expr_match_def cl_def cls_init_def)
  have nq: "\<not> cls_qesc cl" by (simp add: cl_def cls_init_def)
  have "b = [] \<or> \<not> (\<lambda>c. expr_match (cls_chr cl) (tolower c) (cls_neg cl)) (hd b)" using b by (simp add: m)
  moreover have "\<forall>c\<in>set a. expr_match (cls_chr cl) (tolower c) (cls_neg cl)" using a by (simp add: m)
  ultimately have "cls_run cl False False (-1) (a @ b) = (a, b)"
    using cls_run_takeWhile [OF nq length_le_max [OF len]] by (simp only: while_split)
  note st = class_step [OF q len this _ nq, of ep k caps]
  have c: "class_char lo \<Longrightarrow> lo \<noteq> CHR 0x5C \<and> lo \<noteq> CHR '']'' \<and> lo \<noteq> CHR ''~'' \<and> lo \<noteq> CHR ''^'' \<and> lo \<noteq> CHR ''-''" for lo
    by (auto simp: class_char_def)
  have "re_try (CHR ''['' # lo # CHR ''-'' # hi # CHR '']'' # q # ep) (a @ b) False None k caps =
      re_try (q # ep) (a @ b) False (Some cl) k caps"
    using c [OF r(1)] c [OF r(2)] r(3,4)
    by (simp add: re_try.simps(2) [of "CHR ''[''"] re_try.simps(2) [of lo] re_try.simps(2) [of hi]
        re_try.simps(2) [of "CHR ''-''"] re_try.simps(2) [of "CHR '']''"] cls_char_def cls_add_def cls_init_def chrv_size_def cl_def)
  then show ?thesis using st ne by (auto simp: cl_def)
qed

lemma digit_run:
  assumes "open_quant q" and "length (a @ b) < 2 ^ 32" and "\<forall>c\<in>set a. is_digit c" and "b = [] \<or> \<not> is_digit (hd b)"
    and "q = CHR ''+'' \<longrightarrow> a \<noteq> []"
  shows "re_try (''[0-9]'' @ q # ep) (a @ b) False None k caps = re_try ep b False None (Suc k) (caps(k := Some a))"
proof -
  have d: "chr_le (CHR ''0'') (tolower c) \<and> chr_le (tolower c) (CHR ''9'') \<longleftrightarrow> is_digit c" for c
    by (auto simp: chr_le_def is_digit_def tolower_def Let_def)
  have "tolower (CHR ''0'') = CHR ''0''" "tolower (CHR ''9'') = CHR ''9''"
    "class_char (CHR ''0'')" "class_char (CHR ''9'')" by code_simp+
  from range_class [OF assms(1,2) this(3,4,1,2), unfolded d, OF assms(3,4,5)] show ?thesis by simp
qed

definition alpha :: "char \<Rightarrow> bool" where
  "alpha c \<longleftrightarrow> chr_le (CHR ''a'') (tolower c) \<and> chr_le (tolower c) (CHR ''z'')"

lemma alpha_run:
  assumes "open_quant q" and "length (a @ b) < 2 ^ 32" and "\<forall>c\<in>set a. alpha c" and "b = [] \<or> \<not> alpha (hd b)"
    and "q = CHR ''+'' \<longrightarrow> a \<noteq> []"
  shows "re_try (''[a-z]'' @ q # ep) (a @ b) False None k caps = re_try ep b False None (Suc k) (caps(k := Some a))"
proof -
  have "tolower (CHR ''a'') = CHR ''a''" "tolower (CHR ''z'') = CHR ''z''"
    "class_char (CHR ''a'')" "class_char (CHR ''z'')" by code_simp+
  from range_class [OF assms(1,2) this(3,4,1,2) _ _ assms(5)] assms(3,4) show ?thesis by (simp add: alpha_def)
qed

lemma not_alpha: "\<not> alpha (CHR '' '')"
  by code_simp

text \<open>The expressions for each line, on a text of their form.\<close>

lemma re_conn:
  assumes "v \<in> set ''46''" and "a \<noteq> []" and "CHR '' '' \<notin> set a" and "length a < 2 ^ 32"
  shows "re_regex (Some (''IN IP'' @ v # '' '' @ a)) ''IN IP[46]1 [^ ]+'' =
    Inr (None, (\<lambda>_. None)(0 := Some [v], 1 := Some a))"
proof -
  have 1: "re_try ''IN IP[46]1 [^ ]+'' (''IN IP'' @ v # '' '' @ a) False None 0 c =
      re_try ''[46]1 [^ ]+'' (v # '' '' @ a) False None 0 c" for c by (simp add: re_try_literal)
  have 2: "re_try ''[46]1 [^ ]+'' (v # '' '' @ a) False None 0 c =
      re_try '' [^ ]+'' ('' '' @ a) False None (Suc 0) (c(0 := Some [v]))" for c
    using one_class [OF sdp_class_chars(4) _ assms(1), of "'' [^ ]+''" "'' '' @ a" 0 c] by simp
  have 3: "re_try '' [^ ]+'' ('' '' @ a) False None (Suc 0) c = Done None (c(1 := Some a))" for c
    using neg_class_split [OF class_chars(3) sdp_class_chars(1), of a "[]" "[]" "Suc 0" c] assms(2-4)
    by (simp add: re_try_literal re_try.simps(1))
  have "re_search ''IN IP[46]1 [^ ]+'' (''IN IP'' @ v # '' '' @ a) (\<lambda>_. None) =
      Done None ((\<lambda>_. None)(0 := Some [v], 1 := Some a))"
    by (rule re_search_try) (simp_all only: 1 2 3, simp_all)
  then show ?thesis by (simp add: re_regex_def)
qed

lemma re_media:
  assumes n: "n \<noteq> []" "\<forall>c\<in>set n. alpha c" and p: "p \<noteq> []" "CHR '' '' \<notin> set p" and t: "t \<noteq> []" "CHR '' '' \<notin> set t"
    and f: "f = [] \<or> hd f = CHR '' ''" and len: "length (n @ '' '' @ p @ '' '' @ t @ f) < 2 ^ 32"
  shows "re_regex (Some (n @ '' '' @ p @ '' '' @ t @ f)) ''[a-z]+ [^ ]+ [^ ]+[^]*'' =
    Inr (None, (\<lambda>_. None)(0 := Some n, 1 := Some p, 2 := Some t, 3 := Some f))"
proof -
  have 1: "re_try ''[a-z]+ [^ ]+ [^ ]+[^]*'' (n @ '' '' @ p @ '' '' @ t @ f) False None 0 c =
      re_try '' [^ ]+ [^ ]+[^]*'' ('' '' @ p @ '' '' @ t @ f) False None (Suc 0) (c(0 := Some n))" for c
    using alpha_run [OF class_chars(3), of n "'' '' @ p @ '' '' @ t @ f" "'' [^ ]+ [^ ]+[^]*''" 0 c] n len not_alpha by simp
  have 2: "re_try '' [^ ]+ [^ ]+[^]*'' ('' '' @ p @ '' '' @ t @ f) False None (Suc 0) c =
      re_try '' [^ ]+[^]*'' ('' '' @ t @ f) False None (Suc (Suc 0)) (c(1 := Some p))" for c
    using neg_class_split [OF class_chars(3) sdp_class_chars(1), of p "'' '' @ t @ f" "'' [^ ]+[^]*''" "Suc 0" c] p len
    by (simp add: re_try_literal)
  have 3: "re_try '' [^ ]+[^]*'' ('' '' @ t @ f) False None (Suc (Suc 0)) c =
      re_try ''[^]*'' f False None (Suc (Suc (Suc 0))) (c(2 := Some t))" for c
    using neg_class_split [OF class_chars(3) sdp_class_chars(1), of t f "''[^]*''" "Suc (Suc 0)" c] t f len
    by (auto simp: re_try_literal numeral_2_eq_2)
  have 4: "re_try ''[^]*'' f False None (Suc (Suc (Suc 0))) c = Done None (c(3 := Some f))" for c
    using neg_class_split [OF class_chars(2), of "[]" f "[]" "[]" "Suc (Suc (Suc 0))" c] len
    by (simp add: re_try.simps(1) numeral_3_eq_3)
  have "re_search ''[a-z]+ [^ ]+ [^ ]+[^]*'' (n @ '' '' @ p @ '' '' @ t @ f) (\<lambda>_. None) =
      Done None ((\<lambda>_. None)(0 := Some n, 1 := Some p, 2 := Some t, 3 := Some f))"
    by (rule re_search_try) (simp_all only: 1 2 3 4, simp_all add: n)
  then show ?thesis by (simp add: re_regex_def)
qed

lemma re_attr:
  assumes "n \<noteq> []" and "CHR '':'' \<notin> set n" and "v \<noteq> []" and "length (n @ '':'' @ v) < 2 ^ 32"
  shows "re_regex (Some (n @ '':'' @ v)) ''[^:]+:[^]+'' = Inr (None, (\<lambda>_. None)(0 := Some n, 1 := Some v))"
proof -
  have 1: "re_try ''[^:]+:[^]+'' (n @ '':'' @ v) False None 0 c =
      re_try '':[^]+'' ('':'' @ v) False None (Suc 0) (c(0 := Some n))" for c
    using neg_class_split [OF class_chars(3) sdp_class_chars(3), of n "'':'' @ v" "'':[^]+''" 0 c] assms by simp
  have 2: "re_try '':[^]+'' ('':'' @ v) False None (Suc 0) c = Done None (c(1 := Some v))" for c
    using neg_class_split [OF class_chars(3), of "[]" v "[]" "[]" "Suc 0" c] assms
    by (simp add: re_try.simps(1) re_try_literal)
  have "re_search ''[^:]+:[^]+'' (n @ '':'' @ v) (\<lambda>_. None) = Done None ((\<lambda>_. None)(0 := Some n, 1 := Some v))"
    by (rule re_search_try) (simp_all only: 1 2, simp_all)
  then show ?thesis by (simp add: re_regex_def)
qed

lemma re_attr_flag:
  assumes "n \<noteq> []" and "CHR '':'' \<notin> set n" and "length n < 2 ^ 32"
  shows "\<exists>c. re_regex (Some n) ''[^:]+:[^]+'' = Inr (Some ENOENT, c)"
proof -
  have "re_try ''[^:]+:[^]+'' n False None 0 c = Done (Some ENOENT) (c(0 := Some n))" for c
    using neg_class_split [OF class_chars(3) sdp_class_chars(3), of n "[]" "'':[^]+''" 0 c] assms
    by (simp add: re_try.simps(2))
  then have "re_search ''[^:]+:[^]+'' n (\<lambda>_. None) = Done (Some ENOENT) ((\<lambda>_. None)(0 := Some n))"
    by (rule re_search_try [OF assms(1)])
  then show ?thesis by (simp add: re_regex_def)
qed

lemma re_fmtp:
  assumes "i \<noteq> []" and "CHR '' '' \<notin> set i" and "length (i @ '' '' @ v) < 2 ^ 32"
  shows "re_regex (Some (i @ '' '' @ v)) ''[^ ]+ [^]*'' = Inr (None, (\<lambda>_. None)(0 := Some i, 1 := Some v))"
proof -
  have 1: "re_try ''[^ ]+ [^]*'' (i @ '' '' @ v) False None 0 c =
      re_try '' [^]*'' ('' '' @ v) False None (Suc 0) (c(0 := Some i))" for c
    using neg_class_split [OF class_chars(3) sdp_class_chars(1), of i "'' '' @ v" "'' [^]*''" 0 c] assms by simp
  have 2: "re_try '' [^]*'' ('' '' @ v) False None (Suc 0) c = Done None (c(1 := Some v))" for c
    using neg_class_split [OF class_chars(2), of "[]" v "[]" "[]" "Suc 0" c] assms
    by (simp add: re_try.simps(1) re_try_literal)
  have "re_search ''[^ ]+ [^]*'' (i @ '' '' @ v) (\<lambda>_. None) = Done None ((\<lambda>_. None)(0 := Some i, 1 := Some v))"
    by (rule re_search_try) (simp_all only: 1 2, simp_all)
  then show ?thesis by (simp add: re_regex_def)
qed

lemma re_rtpmap:
  assumes i: "i \<noteq> []" "CHR '' '' \<notin> set i" and n: "n \<noteq> []" "CHR ''/'' \<notin> set n"
    and r: "r \<noteq> []" "\<forall>c\<in>set r. is_digit c"
    and sl: "sl = [] \<and> ch = [] \<or> sl = ''/'' \<and> (ch = [] \<or> hd ch \<noteq> CHR ''/'')"
    and len: "length (i @ '' '' @ n @ ''/'' @ r @ sl @ ch) < 2 ^ 32"
  shows "re_regex (Some (i @ '' '' @ n @ ''/'' @ r @ sl @ ch)) ''[^ ]+ [^/]+/[0-9]+[/]*[^]*'' =
    Inr (None, (\<lambda>_. None)(0 := Some i, 1 := Some n, 2 := Some r, 3 := Some sl, 4 := Some ch))"
proof -
  have nd: "\<not> is_digit (CHR ''/'')" by code_simp
  have 1: "re_try ''[^ ]+ [^/]+/[0-9]+[/]*[^]*'' (i @ '' '' @ n @ ''/'' @ r @ sl @ ch) False None 0 c =
      re_try '' [^/]+/[0-9]+[/]*[^]*'' ('' '' @ n @ ''/'' @ r @ sl @ ch) False None (Suc 0) (c(0 := Some i))" for c
    using neg_class_split [OF class_chars(3) sdp_class_chars(1), of i "'' '' @ n @ ''/'' @ r @ sl @ ch"
      "'' [^/]+/[0-9]+[/]*[^]*''" 0 c] i len by simp
  have 2: "re_try '' [^/]+/[0-9]+[/]*[^]*'' ('' '' @ n @ ''/'' @ r @ sl @ ch) False None (Suc 0) c =
      re_try ''/[0-9]+[/]*[^]*'' (''/'' @ r @ sl @ ch) False None (Suc (Suc 0)) (c(1 := Some n))" for c
    using neg_class_split [OF class_chars(3) sdp_class_chars(2), of n "''/'' @ r @ sl @ ch"
      "''/[0-9]+[/]*[^]*''" "Suc 0" c] n len by (simp add: re_try_literal)
  have 3: "re_try ''/[0-9]+[/]*[^]*'' (''/'' @ r @ sl @ ch) False None (Suc (Suc 0)) c =
      re_try ''[/]*[^]*'' (sl @ ch) False None (Suc (Suc (Suc 0))) (c(2 := Some r))" for c
    using digit_run [OF class_chars(3), of r "sl @ ch" "''[/]*[^]*''" "Suc (Suc 0)" c] r sl nd len
    by (auto simp: re_try_literal numeral_2_eq_2)
  have 4: "re_try ''[/]*[^]*'' (sl @ ch) False None (Suc (Suc (Suc 0))) c =
      re_try ''[^]*'' ch False None (Suc (Suc (Suc (Suc 0)))) (c(3 := Some sl))" for c
    using pos_class_split [OF class_chars(2) sdp_class_chars(2), of sl ch "''[^]*''" "Suc (Suc (Suc 0))" c] sl len
    by (auto simp: numeral_3_eq_3)
  have 5: "re_try ''[^]*'' ch False None (Suc (Suc (Suc (Suc 0)))) c = Done None (c(4 := Some ch))" for c
  proof -
    have l: "length (ch @ []) < 2 ^ 32" using len by simp
    have k: "Suc (Suc (Suc (Suc 0))) = 4" by simp
    show ?thesis
      using neg_class_split [OF class_chars(2) _ _ l, of "[]" "[]" 4 c] unfolding k by (simp add: re_try.simps(1))
  qed
  have "re_search ''[^ ]+ [^/]+/[0-9]+[/]*[^]*'' (i @ '' '' @ n @ ''/'' @ r @ sl @ ch) (\<lambda>_. None) =
      Done None ((\<lambda>_. None)(0 := Some i, 1 := Some n, 2 := Some r, 3 := Some sl, 4 := Some ch))"
    by (rule re_search_try) (simp_all only: 1 2 3 4 5, simp_all)
  then show ?thesis by (simp add: re_regex_def)
qed

text \<open>The formats of a media line.\<close>

definition word_ok :: "string \<Rightarrow> bool" where
  "word_ok i \<longleftrightarrow> i \<noteq> [] \<and> CHR '' '' \<notin> set i \<and> (\<forall>c\<in>set i. \<not> eol c)"

lemma media_formats_words:
  "\<forall>i\<in>set ids. word_ok i \<Longrightarrow> length (concat (List.map (\<lambda>i. '' '' @ i) ids)) < 2 ^ 32 \<Longrightarrow>
    media_formats (concat (List.map (\<lambda>i. '' '' @ i) ids)) = Inr ids"
proof (induction ids)
  case Nil
  then show ?case by (simp add: media_formats.simps re_regex_def)
next
  case (Cons i ids)
  define r where "r = concat (List.map (\<lambda>i. '' '' @ i) ids)"
  have i: "i \<noteq> []" "CHR '' '' \<notin> set i" using Cons.prems(1) by (simp_all add: word_ok_def)
  have r: "r = [] \<or> hd r = CHR '' ''" by (cases ids) (simp_all add: r_def)
  have len: "length ('' '' @ i @ r) < 2 ^ 32" using Cons.prems(2) by (simp add: r_def)
  have "re_try '' [^ ]+'' ('' '' @ i @ r) False None 0 c = Done None (c(0 := Some i))" for c
    using neg_class_split [OF class_chars(3) sdp_class_chars(1), of i r "[]" 0 c] i r len
    by (auto simp: re_try_literal re_try.simps(1))
  then have "re_regex (Some ('' '' @ i @ r)) '' [^ ]+'' = Inr (None, (\<lambda>_. None)(0 := Some i))"
    using re_search_try [of "'' '' @ i @ r"] by (simp add: re_regex_def)
  moreover have "space_word ('' '' @ i @ r) = 1" using i by (cases i) auto
  ultimately have "media_formats ('' '' @ i @ r) = obind (media_formats r) (\<lambda>fs. Inr (i # fs))"
    by (subst media_formats.simps) (simp add: pl_advance_def pl_l_def pl_text_def)
  then show ?case using Cons by (simp add: r_def)
qed

lemma re_bandwidth:
  assumes "n \<noteq> []" and "CHR '':'' \<notin> set n" and "r \<noteq> []" and "\<forall>c\<in>set r. is_digit c" and "length (n @ '':'' @ r) < 2 ^ 32"
  shows "re_regex (Some (n @ '':'' @ r)) ''[^:]+:[0-9]+'' = Inr (None, (\<lambda>_. None)(0 := Some n, 1 := Some r))"
proof -
  have 1: "re_try ''[^:]+:[0-9]+'' (n @ '':'' @ r) False None 0 c =
      re_try '':[0-9]+'' ('':'' @ r) False None (Suc 0) (c(0 := Some n))" for c
    using neg_class_split [OF class_chars(3) sdp_class_chars(3), of n "'':'' @ r" "'':[0-9]+''" 0 c] assms by simp
  have 2: "re_try '':[0-9]+'' ('':'' @ r) False None (Suc 0) c = Done None (c(1 := Some r))" for c
    using digit_run [OF class_chars(3), of r "[]" "[]" "Suc 0" c] assms by (simp add: re_try.simps(1) re_try_literal)
  have "re_search ''[^:]+:[0-9]+'' (n @ '':'' @ r) (\<lambda>_. None) = Done None ((\<lambda>_. None)(0 := Some n, 1 := Some r))"
    by (rule re_search_try) (simp_all only: 1 2, simp_all)
  then show ?thesis by (simp add: re_regex_def)
qed

section \<open>What a line does\<close>

lemma itoa_text: "itoa w \<noteq> [] \<and> (\<forall>c\<in>set (itoa w). is_digit c)"
  using local_itoa_10 [of "ucast w" False] unfolding itoa_def by blast

lemma digit_plain: "is_digit c \<Longrightarrow> \<not> eol c \<and> c \<noteq> CHR '' '' \<and> c \<noteq> CHR ''/'' \<and> c \<noteq> CHR '':''"
  by (auto simp: is_digit_def eol_def)

lemma itoa_plain: "c \<in> set (itoa w) \<Longrightarrow> \<not> eol c \<and> c \<noteq> CHR '' '' \<and> c \<noteq> CHR ''/'' \<and> c \<noteq> CHR '':''"
  using itoa_text digit_plain by blast

lemma pl_u32_itoa [simp]:
  "pl_u32 (Some (itoa (w :: u32))) = w" "(ucast (pl_u32 (Some (itoa (p :: u16)))) :: u16) = p"
  "(ucast (pl_u32 (Some (itoa (b :: u8)))) :: u8) = b"
  by (simp_all add: itoa_def pl_itoa_roundtrip(2)) (rule bit_word_eqI, auto simp: bit_simps)+

definition text_ok :: "string \<Rightarrow> bool" where
  "text_ok v \<longleftrightarrow> v \<noteq> [] \<and> (\<forall>c\<in>set v. \<not> eol c)"

text \<open>
  Lines behind a media line change that line only: reading \<open>ls\<close> turns the media line \<open>m\<close> into \<open>m'\<close>.
\<close>

definition reads :: "inet_lib \<Rightarrow> bool \<Rightarrow> (char \<times> string) list \<Rightarrow> sdp_media \<Rightarrow> sdp_media \<Rightarrow> bool" where
  "reads net offer ls m m' \<longleftrightarrow> (\<forall>sess i. i < length (ss_medial sess) \<and> ss_medial sess ! i = m \<longrightarrow>
     decode_lines net offer ls (Some i) sess = Inr (None, Some i, sess\<lparr>ss_medial := (ss_medial sess)[i := m']\<rparr>))"

lemma decode_lines_append:
  "decode_lines net offer (xs @ ys) cur sess =
    obind (decode_lines net offer xs cur sess) (\<lambda>(err, cur, sess).
      if err \<noteq> None then Inr (err, cur, sess) else decode_lines net offer ys cur sess)"
proof (induction xs arbitrary: cur sess)
  case (Cons l xs)
  then show ?case by (cases "decode_line net offer (fst l) (snd l) cur sess") (auto split: prod.splits)
qed simp

lemma reads_Nil [simp]: "reads net offer [] m m"
  by (auto simp: reads_def)

lemma reads_append: "reads net offer xs m m' \<Longrightarrow> reads net offer ys m' m'' \<Longrightarrow> reads net offer (xs @ ys) m m''"
  unfolding reads_def decode_lines_append by simp

lemma reads_line:
  assumes "\<And>sess i. i < length (ss_medial sess) \<Longrightarrow> ss_medial sess ! i = m \<Longrightarrow>
    decode_line net offer t v (Some i) sess = Inr (None, Some i, sess\<lparr>ss_medial := (ss_medial sess)[i := m']\<rparr>)"
  shows "reads net offer [(t, v)] m m'"
  using assms by (simp add: reads_def)

lemma reads_attr_line:
  assumes "\<And>sess. attr_decode net sess (Some m) v = Inr (None, sess, Some m')"
  shows "reads net offer [(CHR ''a'', v)] m m'"
  by (rule reads_line) (simp add: decode_line_def cur_media_def put_media_def assms)

text \<open>Attributes.\<close>

definition attr_names :: "string list" where
  "attr_names = [''fmtp'', ''inactive'', ''recvonly'', ''rtcp'', ''rtpmap'', ''sendonly'', ''sendrecv'']"

definition attr_ok :: "sdp_attr \<Rightarrow> bool" where
  "attr_ok a \<longleftrightarrow> text_ok (at_name a) \<and> CHR '':'' \<notin> set (at_name a) \<and> at_name a \<notin> set attr_names \<and>
     (\<forall>v. at_val a = Some v \<longrightarrow> text_ok v)"

definition attr_line :: "sdp_attr \<Rightarrow> char \<times> string" where
  "attr_line a = (CHR ''a'', at_name a @ (case at_val a of Some v \<Rightarrow> '':'' @ v | None \<Rightarrow> []))"

lemma attr_decode_other:
  assumes "attr_ok a" and "length (snd (attr_line a)) < 2 ^ 32"
  shows "attr_decode net sess m (snd (attr_line a)) = (case m of
      None \<Rightarrow> Inr (None, sess\<lparr>ss_rattrl := ss_rattrl sess @ [a]\<rparr>, None)
    | Some m \<Rightarrow> Inr (None, sess, Some (m\<lparr>md_rattrl := md_rattrl m @ [a]\<rparr>)))"
proof -
  have n: "at_name a \<noteq> []" "CHR '':'' \<notin> set (at_name a)" and o: "at_name a \<noteq> ''fmtp''" "at_name a \<noteq> ''inactive''"
    "at_name a \<noteq> ''recvonly''" "at_name a \<noteq> ''rtcp''" "at_name a \<noteq> ''rtpmap''" "at_name a \<noteq> ''sendonly''"
    "at_name a \<noteq> ''sendrecv''"
    using assms(1) by (auto simp: attr_ok_def text_ok_def attr_names_def)
  show ?thesis
  proof (cases "at_val a")
    case None
    then have "length (at_name a) < 2 ^ 32" using assms(2) by (simp add: attr_line_def)
    from re_attr_flag [OF n this] obtain c where c: "re_regex (Some (at_name a)) ''[^:]+:[^]+'' = Inr (Some ENOENT, c)" by blast
    have "\<lparr>at_name = at_name a, at_val = None\<rparr> = a" using None by (cases a) simp
    with None c o show ?thesis
      by (simp add: attr_decode_def attr_line_def Let_def sdp_attr_add_def pl_isset_def pl_text_def split: option.splits)
  next
    case (Some v)
    then have v: "v \<noteq> []" using assms(1) by (auto simp: attr_ok_def text_ok_def)
    have "length (at_name a @ '':'' @ v) < 2 ^ 32" using assms(2) Some by (simp add: attr_line_def)
    note c = re_attr [OF n v this]
    have "\<lparr>at_name = at_name a, at_val = Some v\<rparr> = a" using Some by (cases a) simp
    with Some c o v show ?thesis
      by (simp add: attr_decode_def attr_line_def Let_def sdp_attr_add_def pl_isset_def pl_text_def split: option.splits)
  qed
qed

lemma reads_attrs:
  "\<forall>a\<in>set as. attr_ok a \<and> length (snd (attr_line a)) < 2 ^ 32 \<Longrightarrow>
    reads net offer (List.map attr_line as) m (m\<lparr>md_rattrl := md_rattrl m @ as\<rparr>)"
proof (induction as arbitrary: m)
  case (Cons a as)
  have "fst (attr_line a) = CHR ''a''" by (simp add: attr_line_def)
  then have l: "attr_line a = (CHR ''a'', snd (attr_line a))" by (metis prod.collapse)
  have "reads net offer [attr_line a] m (m\<lparr>md_rattrl := md_rattrl m @ [a]\<rparr>)"
    by (subst l, rule reads_attr_line) (use Cons.prems attr_decode_other in simp)
  from reads_append [OF this Cons.IH] Cons.prems show ?case by simp
qed simp

text \<open>Directions change sides.\<close>

definition mirror :: "sdp_dir \<Rightarrow> sdp_dir" where
  "mirror d = dir_of (dir_send d) (dir_recv d)"

lemma reads_dir: "reads net offer [(CHR ''a'', sdp_dir_name d)] m (m\<lparr>md_rdir := mirror d\<rparr>)"
proof (rule reads_attr_line)
  fix sess
  have "sdp_dir_name d \<noteq> []" "CHR '':'' \<notin> set (sdp_dir_name d)" "length (sdp_dir_name d) < 2 ^ 32"
    by (cases d; simp add: sdp_dir_name_def)+
  from re_attr_flag [OF this] obtain c where "re_regex (Some (sdp_dir_name d)) ''[^:]+:[^]+'' = Inr (Some ENOENT, c)" by blast
  then show "attr_decode net sess (Some m) (sdp_dir_name d) = Inr (None, sess, Some (m\<lparr>md_rdir := mirror d\<rparr>))"
    by (cases d) (simp_all add: attr_decode_def set_rdir_def sdp_dir_name_def mirror_def dir_of_def)
qed

text \<open>Bandwidths.\<close>

definition bw_lines :: "bwv \<Rightarrow> (char \<times> string) list" where
  "bw_lines bw = List.map (\<lambda>t. (CHR ''b'', sdp_bandwidth_name t @ '':'' @ itoa (bw t))) (filter (\<lambda>t. \<not> bw t <s 0) bandwidths)"

definition remote_bw :: "bwv \<Rightarrow> bwv" where
  "remote_bw bw = (\<lambda>t. if bw t <s 0 then -1 else bw t)"

lemma itoa_length: "length (itoa (w :: u32)) \<le> 10"
proof -
  have "unat (ucast w :: u64) = unat w" by (simp add: unsigned_ucast_eq take_bit_nat_eq_self order_less_trans [OF unsigned_less])
  moreover have "unat w < 2 ^ 32" using unsigned_less [where 'a = nat and w = w] by simp
  ultimately show ?thesis using local_itoa_length [of "ucast w" 9 False] by (simp add: itoa_def)
qed

lemma bandwidth_decode_line: "bandwidth_decode bw (sdp_bandwidth_name t @ '':'' @ itoa v) = Inr (None, bw(t := v))"
proof -
  have "sdp_bandwidth_name t \<noteq> []" "CHR '':'' \<notin> set (sdp_bandwidth_name t)" "length (sdp_bandwidth_name t) \<le> 4"
    by (cases t; simp add: sdp_bandwidth_name_def)+
  moreover from this have "length (sdp_bandwidth_name t @ '':'' @ itoa v) < 2 ^ 32" using itoa_length [of v] by simp
  ultimately have "re_regex (Some (sdp_bandwidth_name t @ '':'' @ itoa v)) ''[^:]+:[0-9]+'' =
      Inr (None, (\<lambda>_. None)(0 := Some (sdp_bandwidth_name t), 1 := Some (itoa v)))"
    using re_bandwidth itoa_text by blast
  then show ?thesis by (cases t) (simp_all add: bandwidth_decode_def Let_def sdp_bandwidth_name_def)
qed

definition put_bw :: "bwv \<Rightarrow> sdp_bandwidth list \<Rightarrow> bwv \<Rightarrow> bwv" where
  "put_bw bw ts old = (\<lambda>t. if t \<in> set ts then bw t else old t)"

lemma put_bw_Cons: "put_bw bw (t # ts) old = put_bw bw ts (old(t := bw t))"
  by (auto simp: put_bw_def)

lemma reads_bws:
  "reads net offer (List.map (\<lambda>t. (CHR ''b'', sdp_bandwidth_name t @ '':'' @ itoa (bw t))) ts) m
    (m\<lparr>md_rbwv := put_bw bw ts (md_rbwv m)\<rparr>)"
proof (induction ts arbitrary: m)
  case Nil
  then show ?case by (simp add: put_bw_def)
next
  case (Cons t ts)
  have "reads net offer [(CHR ''b'', sdp_bandwidth_name t @ '':'' @ itoa (bw t))] m (m\<lparr>md_rbwv := (md_rbwv m)(t := bw t)\<rparr>)"
    by (rule reads_line) (simp add: decode_line_def cur_media_def put_media_def bandwidth_decode_line del: append.simps)
  from reads_append [OF this Cons.IH] show ?case by (simp add: put_bw_Cons fun_upd_def)
qed

lemma put_bw_all: "put_bw bw (filter (\<lambda>t. \<not> bw t <s 0) bandwidths) bw_none = remote_bw bw"
proof
  fix t
  have "t \<in> set bandwidths" by (cases t) (simp_all add: bandwidths_def)
  then show "put_bw bw (filter (\<lambda>t. \<not> bw t <s 0) bandwidths) bw_none t = remote_bw bw t"
    by (simp add: put_bw_def remote_bw_def bw_none_def)
qed

lemma reads_bw: "md_rbwv m = bw_none \<Longrightarrow> reads net offer (bw_lines bw) m (m\<lparr>md_rbwv := remote_bw bw\<rparr>)"
  using reads_bws [of net offer bw "filter (\<lambda>t. \<not> bw t <s 0) bandwidths" m] by (simp add: bw_lines_def put_bw_all)

lemma session_bws:
  "decode_lines net offer (List.map (\<lambda>t. (CHR ''b'', sdp_bandwidth_name t @ '':'' @ itoa (bw t))) ts) None sess =
    Inr (None, None, sess\<lparr>ss_rbwv := put_bw bw ts (ss_rbwv sess)\<rparr>)"
proof (induction ts arbitrary: sess)
  case Nil
  then show ?case by (simp add: put_bw_def)
next
  case (Cons t ts)
  have "decode_line net offer (CHR ''b'') (sdp_bandwidth_name t @ '':'' @ itoa (bw t)) None sess =
      Inr (None, None, sess\<lparr>ss_rbwv := (ss_rbwv sess)(t := bw t)\<rparr>)"
    by (simp add: decode_line_def cur_media_def bandwidth_decode_line del: append.simps)
  with Cons.IH show ?case by (simp add: put_bw_Cons fun_upd_def del: append.simps)
qed

lemma session_attrs:
  "\<forall>a\<in>set as. attr_ok a \<and> length (snd (attr_line a)) < 2 ^ 32 \<Longrightarrow>
    decode_lines net offer (List.map attr_line as) None sess = Inr (None, None, sess\<lparr>ss_rattrl := ss_rattrl sess @ as\<rparr>)"
proof (induction as arbitrary: sess)
  case (Cons a as)
  have "fst (attr_line a) = CHR ''a''" by (simp add: attr_line_def)
  then have "decode_line net offer (fst (attr_line a)) (snd (attr_line a)) None sess =
      Inr (None, None, sess\<lparr>ss_rattrl := ss_rattrl sess @ [a]\<rparr>)"
    using Cons.prems attr_decode_other [of a net sess None] by (simp add: decode_line_def cur_media_def put_media_def)
  with Cons show ?case by simp
qed simp

text \<open>Formats.\<close>

definition format_ok :: "sdp_format \<Rightarrow> bool" where
  "format_ok f \<longleftrightarrow> word_ok (fm_id f) \<and>
     (pl_isset (fm_name f) \<longrightarrow> text_ok (pl_text (fm_name f)) \<and> CHR ''/'' \<notin> set (pl_text (fm_name f))) \<and>
     (pl_isset (fm_params f) \<longrightarrow> text_ok (pl_text (fm_params f)))"

definition format_lines :: "sdp_format \<Rightarrow> (char \<times> string) list" where
  "format_lines f =
    (if \<not> fm_sup f \<or> \<not> pl_isset (fm_name f) then []
     else (CHR ''a'', ''rtpmap:'' @ fm_id f @ '' '' @ pl_text (fm_name f) @ ''/'' @ itoa (fm_srate f) @
         (if fm_ch f > 1 then ''/'' @ itoa (fm_ch f) else [])) #
       (if pl_isset (fm_params f) then [(CHR ''a'', ''fmtp:'' @ fm_id f @ '' '' @ pl_text (fm_params f))] else []))"

text \<open>What a format is on the other side: a format without a name is its identifier only.\<close>

definition remote_format :: "sdp_format \<Rightarrow> sdp_format" where
  "remote_format f =
    (if \<not> pl_isset (fm_name f) then format_zero (fm_id f)
     else (format_zero (fm_id f))\<lparr>fm_name := fm_name f, fm_srate := fm_srate f,
       fm_ch := if fm_ch f > 1 then fm_ch f else 1, fm_params := if pl_isset (fm_params f) then fm_params f else None\<rparr>)"

lemma format_zero_id [simp]: "fm_id (format_zero i) = i"
  by (simp add: format_zero_def)

lemma remote_format_id [simp]: "fm_id (remote_format f) = fm_id f"
  by (simp add: remote_format_def)

lemma format_find: "fm_id f = i \<Longrightarrow> i \<notin> fm_id ` set ds \<Longrightarrow> sdp_format_find (ds @ f # es) (Some i) = Some (length ds)"
  by (induction ds) auto

lemma pl_isset_text: "pl_isset p \<Longrightarrow> p = Some (pl_text p) \<and> pl_text p \<noteq> []"
  by (auto simp: pl_isset_def pl_text_def split: option.splits)

lemma reads_rtpmap:
  assumes f: "format_ok f" "pl_isset (fm_name f)" and fm: "md_rfmtl m = ds @ g # es" "fm_id g = fm_id f" "fm_id f \<notin> fm_id ` set ds"
    and len: "length (''rtpmap:'' @ fm_id f @ '' '' @ pl_text (fm_name f) @ ''/'' @ itoa (fm_srate f) @
      (if fm_ch f > 1 then ''/'' @ itoa (fm_ch f) else [])) < 2 ^ 32" (is "length ?v < _")
  shows "reads net offer [(CHR ''a'', ?v)] m (m\<lparr>md_rfmtl := ds @ g\<lparr>fm_name := fm_name f, fm_srate := fm_srate f,
    fm_ch := if fm_ch f > 1 then fm_ch f else 1\<rparr> # es\<rparr>)"
proof (rule reads_attr_line)
  fix sess
  define sl ch where "sl = (if fm_ch f > 1 then ''/'' else [])" and "ch = (if fm_ch f > 1 then itoa (fm_ch f) else [])"
  define n where "n = pl_text (fm_name f)"
  have nm: "fm_name f = Some n" "n \<noteq> []" using pl_isset_text [OF f(2)] by (simp_all add: n_def)
  have i: "fm_id f \<noteq> []" "CHR '' '' \<notin> set (fm_id f)" "CHR ''/'' \<notin> set n"
    using f by (auto simp: format_ok_def word_ok_def n_def)
  define w where "w = fm_id f @ '' '' @ n @ ''/'' @ itoa (fm_srate f) @ sl @ ch"
  have v: "?v = ''rtpmap'' @ '':'' @ w" by (simp add: w_def sl_def ch_def n_def)
  have w: "w \<noteq> []" "length (''rtpmap'' @ '':'' @ w) < 2 ^ 32" using len unfolding v by (simp_all add: w_def)
  have 1: "re_regex (Some (''rtpmap'' @ '':'' @ w)) ''[^:]+:[^]+'' = Inr (None, (\<lambda>_. None)(0 := Some ''rtpmap'', 1 := Some w))"
    by (rule re_attr [OF _ _ w]) simp_all
  have slch: "sl = [] \<and> ch = [] \<or> sl = ''/'' \<and> (ch = [] \<or> hd ch \<noteq> CHR ''/'')"
    using itoa_text [of "fm_ch f"] itoa_plain [of "hd (itoa (fm_ch f))" "fm_ch f"] by (auto simp: sl_def ch_def)
  have r: "itoa (fm_srate f) \<noteq> []" "\<forall>c\<in>set (itoa (fm_srate f)). is_digit c" using itoa_text by blast+
  have lw: "length (fm_id f @ '' '' @ n @ ''/'' @ itoa (fm_srate f) @ sl @ ch) < 2 ^ 32" using w(2) by (simp add: w_def)
  have 2: "re_regex (Some w) ''[^ ]+ [^/]+/[0-9]+[/]*[^]*'' = Inr (None, (\<lambda>_. None)(0 := Some (fm_id f), 1 := Some n,
      2 := Some (itoa (fm_srate f)), 3 := Some sl, 4 := Some ch))"
    unfolding w_def by (rule re_rtpmap [OF i(1,2) nm(2) i(3) r slch lw])
  have ch: "pl_l (Some ch) \<noteq> 0 \<longleftrightarrow> fm_ch f > 1" using itoa_text [of "fm_ch f"] by (simp add: ch_def pl_l_def)
  have cv: "fm_ch f > 1 \<Longrightarrow> ucast (pl_u32 (Some ch)) = fm_ch f" by (simp add: ch_def)
  have g: "(ds @ g # es) ! length ds = g" "(ds @ g # es)[length ds := x] = ds @ x # es" for x by simp_all
  have 3: "attr_decode_rtpmap (Some m) (Some w) = Inr (None, Some (m\<lparr>md_rfmtl := ds @ g\<lparr>fm_name := fm_name f,
      fm_srate := fm_srate f, fm_ch := if fm_ch f > 1 then fm_ch f else 1\<rparr> # es\<rparr>))"
    using format_find [OF fm(2,3)] ch cv by (simp add: attr_decode_rtpmap_def 2 fm(1) g nm(1) Let_def)
  show "attr_decode net sess (Some m) ?v = Inr (None, sess, Some (m\<lparr>md_rfmtl := ds @ g\<lparr>fm_name := fm_name f,
      fm_srate := fm_srate f, fm_ch := if fm_ch f > 1 then fm_ch f else 1\<rparr> # es\<rparr>))"
    unfolding v attr_decode_def 1 by (simp add: Let_def 3)
qed

lemma reads_fmtp:
  assumes f: "format_ok f" "pl_isset (fm_params f)" and fm: "md_rfmtl m = ds @ g # es" "fm_id g = fm_id f" "fm_id f \<notin> fm_id ` set ds"
    and len: "length (''fmtp:'' @ fm_id f @ '' '' @ pl_text (fm_params f)) < 2 ^ 32"
  shows "reads net offer [(CHR ''a'', ''fmtp:'' @ fm_id f @ '' '' @ pl_text (fm_params f))] m
    (m\<lparr>md_rfmtl := ds @ g\<lparr>fm_params := fm_params f\<rparr> # es\<rparr>)"
proof (rule reads_attr_line)
  fix sess
  define n where "n = pl_text (fm_params f)"
  have nm: "fm_params f = Some n" using pl_isset_text [OF f(2)] by (simp add: n_def)
  have i: "fm_id f \<noteq> []" "CHR '' '' \<notin> set (fm_id f)" using f by (auto simp: format_ok_def word_ok_def)
  define w where "w = fm_id f @ '' '' @ n"
  have v: "''fmtp:'' @ fm_id f @ '' '' @ pl_text (fm_params f) = ''fmtp'' @ '':'' @ w" by (simp add: w_def n_def)
  have w: "w \<noteq> []" "length (''fmtp'' @ '':'' @ w) < 2 ^ 32" using len unfolding v by (simp_all add: w_def)
  have 1: "re_regex (Some (''fmtp'' @ '':'' @ w)) ''[^:]+:[^]+'' = Inr (None, (\<lambda>_. None)(0 := Some ''fmtp'', 1 := Some w))"
    by (rule re_attr [OF _ _ w]) simp_all
  have 2: "re_regex (Some w) ''[^ ]+ [^]*'' = Inr (None, (\<lambda>_. None)(0 := Some (fm_id f), 1 := Some n))"
    unfolding w_def by (rule re_fmtp [OF i]) (use w(2) in \<open>simp add: w_def\<close>)
  have g: "(ds @ g # es) ! length ds = g" "(ds @ g # es)[length ds := x] = ds @ x # es" for x by simp_all
  have 3: "attr_decode_fmtp (Some m) (Some w) = Inr (None, Some (m\<lparr>md_rfmtl := ds @ g\<lparr>fm_params := fm_params f\<rparr> # es\<rparr>))"
    using format_find [OF fm(2,3)] by (simp add: attr_decode_fmtp_def 2 fm(1) g nm Let_def)
  show "attr_decode net sess (Some m) (''fmtp:'' @ fm_id f @ '' '' @ pl_text (fm_params f)) =
      Inr (None, sess, Some (m\<lparr>md_rfmtl := ds @ g\<lparr>fm_params := fm_params f\<rparr> # es\<rparr>))"
    unfolding v attr_decode_def 1 by (simp add: Let_def 3)
qed

lemma reads_format:
  assumes f: "format_ok f" "fm_sup f" and fm: "md_rfmtl m = ds @ format_zero (fm_id f) # es" "fm_id f \<notin> fm_id ` set ds"
    and len: "\<forall>l\<in>set (format_lines f). length (snd l) < 2 ^ 32"
  shows "reads net offer (format_lines f) m (m\<lparr>md_rfmtl := ds @ remote_format f # es\<rparr>)"
proof (cases "pl_isset (fm_name f)")
  case False
  have "m\<lparr>md_rfmtl := ds @ format_zero (fm_id f) # es\<rparr> = m" by (simp add: fm(1) [symmetric])
  with False f show ?thesis by (simp add: format_lines_def remote_format_def)
next
  case True
  let ?g = "(format_zero (fm_id f))\<lparr>fm_name := fm_name f, fm_srate := fm_srate f,
    fm_ch := if fm_ch f > 1 then fm_ch f else 1\<rparr>"
  let ?l = "(CHR ''a'', ''rtpmap:'' @ fm_id f @ '' '' @ pl_text (fm_name f) @ ''/'' @ itoa (fm_srate f) @
    (if fm_ch f > 1 then ''/'' @ itoa (fm_ch f) else []))"
  have "?l \<in> set (format_lines f)" using True f by (simp add: format_lines_def)
  with len have "length (snd ?l) < 2 ^ 32" by blast
  then have 1: "reads net offer [?l] m (m\<lparr>md_rfmtl := ds @ ?g # es\<rparr>)"
    by (intro reads_rtpmap [OF f(1) True fm(1) _ fm(2)]) simp_all
  show ?thesis
  proof (cases "pl_isset (fm_params f)")
    case False
    have "remote_format f = ?g" using True False by (simp add: remote_format_def format_zero_def)
    with 1 show ?thesis using True f False by (simp add: format_lines_def)
  next
    case p: True
    let ?q = "(CHR ''a'', ''fmtp:'' @ fm_id f @ '' '' @ pl_text (fm_params f))"
    have "?q \<in> set (format_lines f)" using True f p by (simp add: format_lines_def)
    with len have "length (snd ?q) < 2 ^ 32" by blast
    then have "reads net offer [?q] (m\<lparr>md_rfmtl := ds @ ?g # es\<rparr>)
        ((m\<lparr>md_rfmtl := ds @ ?g # es\<rparr>)\<lparr>md_rfmtl := ds @ ?g\<lparr>fm_params := fm_params f\<rparr> # es\<rparr>)"
      by (intro reads_fmtp [OF f(1) p _ _ fm(2)]) simp_all
    from reads_append [OF 1 this] have "reads net offer [?l, ?q] m (m\<lparr>md_rfmtl := ds @ ?g\<lparr>fm_params := fm_params f\<rparr> # es\<rparr>)"
      by simp
    moreover have "?g\<lparr>fm_params := fm_params f\<rparr> = remote_format f" using True p by (simp add: remote_format_def)
    moreover have "format_lines f = [?l, ?q]" using True p f by (simp add: format_lines_def)
    ultimately show ?thesis by simp
  qed
qed

lemma reads_formats:
  "\<forall>f\<in>set fs. format_ok f \<and> fm_sup f \<and> (\<forall>l\<in>set (format_lines f). length (snd l) < 2 ^ 32) \<Longrightarrow>
    distinct (List.map fm_id (ds @ fs)) \<Longrightarrow> md_rfmtl m = ds @ List.map (format_zero \<circ> fm_id) fs \<Longrightarrow>
    reads net offer (concat (List.map format_lines fs)) m (m\<lparr>md_rfmtl := ds @ List.map remote_format fs\<rparr>)"
proof (induction fs arbitrary: ds m)
  case Nil
  then have "m\<lparr>md_rfmtl := ds\<rparr> = m" by (metis append_Nil2 list.simps(8) sdp_media.surjective sdp_media.update_convs(2))
  then show ?case by simp
next
  case (Cons f fs)
  let ?m = "m\<lparr>md_rfmtl := (ds @ [remote_format f]) @ List.map (format_zero \<circ> fm_id) fs\<rparr>"
  have "reads net offer (format_lines f) m (m\<lparr>md_rfmtl := ds @ remote_format f # List.map (format_zero \<circ> fm_id) fs\<rparr>)"
    by (rule reads_format) (use Cons.prems in auto)
  then have 1: "reads net offer (format_lines f) m ?m" by simp
  have "reads net offer (concat (List.map format_lines fs)) ?m (?m\<lparr>md_rfmtl := (ds @ [remote_format f]) @ List.map remote_format fs\<rparr>)"
    by (rule Cons.IH) (use Cons.prems in auto)
  from reads_append [OF 1 this] show ?case by simp
qed

section \<open>A message is the lines of its session\<close>

definition addr_ok :: "sa \<Rightarrow> bool" where
  "addr_ok s \<longleftrightarrow> sa_family s = AF_INET \<and> length (sa_sin_addr s) = 4"

definition media_printable :: "sdp_media \<Rightarrow> bool" where
  "media_printable m \<longleftrightarrow> md_name m \<noteq> [] \<and> (\<forall>c\<in>set (md_name m). alpha c) \<and> word_ok (md_proto m) \<and>
     (\<forall>f\<in>set (filter fm_sup (md_lfmtl m)). format_ok f) \<and> distinct (List.map fm_id (filter fm_sup (md_lfmtl m))) \<and>
     (\<forall>a\<in>set (md_lattrl m). attr_ok a) \<and> addr_ok (md_laddr m) \<and> sa_port (md_laddr_rtcp m) = 0"

definition supported :: "sdp_media \<Rightarrow> sdp_format list" where
  "supported m = filter fm_sup (md_lfmtl m)"

definition conn_line :: "sa \<Rightarrow> string \<Rightarrow> char \<times> string" where
  "conn_line s a = (CHR ''c'', ''IN IP'' @ ipver s @ '' '' @ a)"

definition media_line :: "sdp_media \<Rightarrow> string" where
  "media_line m = md_name m @ '' '' @ itoa (sa_port (md_laddr m)) @ '' '' @ md_proto m @
     concat (List.map (\<lambda>i. '' '' @ i) (List.map fm_id (supported m)))"

definition media_lines :: "(char \<times> string) list \<Rightarrow> sdp_media \<Rightarrow> sdp_dir \<Rightarrow> (char \<times> string) list" where
  "media_lines conn m d = (CHR ''m'', media_line m) # conn @ bw_lines (md_lbwv m) @
     concat (List.map format_lines (supported m)) @ [(CHR ''a'', sdp_dir_name d)] @ List.map attr_line (md_lattrl m)"

definition session_lines :: "sdp_session \<Rightarrow> string \<Rightarrow> (char \<times> string) list" where
  "session_lines s a = [(CHR ''v'', ''0''),
     (CHR ''o'', ''- '' @ itoa (ss_id s) @ '' '' @ itoa (ss_ver s) @ '' IN IP'' @ ipver (ss_laddr s) @ '' '' @ a),
     (CHR ''s'', ''-''), conn_line (ss_laddr s) a] @ bw_lines (ss_lbwv s) @ [(CHR ''t'', ''0 0'')] @
     List.map attr_line (ss_lattrl s)"

lemma bandwidth_encode_lines: "bandwidth_encode bw = concat (List.map sdp_line (bw_lines bw))"
proof -
  have "concat (List.map (\<lambda>t. if bw t <s 0 then [] else ''b='' @ sdp_bandwidth_name t @ '':'' @ itoa (bw t) @ crlf) ts) =
      concat (List.map sdp_line (List.map (\<lambda>t. (CHR ''b'', sdp_bandwidth_name t @ '':'' @ itoa (bw t)))
        (filter (\<lambda>t. \<not> bw t <s 0) ts)))" for ts
    by (induction ts) (simp_all add: sdp_line_def)
  then show ?thesis by (simp only: bandwidth_encode_def bw_lines_def)
qed

lemma format_encode_lines: "format_encode f = concat (List.map sdp_line (format_lines f))"
  by (simp add: format_encode_def format_lines_def sdp_line_def)

lemma attrs_encode_lines: "concat (List.map sdp_attr_print as) = concat (List.map sdp_line (List.map attr_line as))"
  by (induction as) (simp_all add: sdp_attr_print_def attr_line_def sdp_line_def split: option.splits)

lemma formats_encode_lines:
  "concat (List.map format_encode fs) = concat (List.map sdp_line (concat (List.map format_lines (filter fm_sup fs))))"
  by (induction fs) (simp_all add: format_encode_lines, simp add: format_lines_def)

lemma media_encode_lines:
  assumes "\<not> md_disabled m" and "supported m \<noteq> []" and "offer \<or> sa_port (md_raddr m) \<noteq> 0" and "sa_port (md_laddr_rtcp m) = 0"
    and "print_addr net (md_laddr m) = Inr a"
  shows "media_encode net m offer = Inr (concat (List.map sdp_line (media_lines
    (if sa_isset (md_laddr m) True False then [conn_line (md_laddr m) a] else []) m
    (if offer then md_ldir m else dir_and (md_ldir m) (md_rdir m)))))"
proof -
  have r: "rtcp_encode net (md_laddr_rtcp m) = Inr []"
    using assms(4) by (auto simp: rtcp_encode_def sa_isset_def sa_port_def)
  have "concat (List.map (\<lambda>fmt. '' '' @ fm_id fmt) fs) = concat (List.map (\<lambda>i. '' '' @ i) (List.map fm_id fs))" for fs
    by (simp add: o_def)
  with assms r show ?thesis
    by (auto simp: media_encode_def supported_def media_lines_def media_line_def sdp_line_def conn_encode_def conn_line_def
        bandwidth_encode_lines formats_encode_lines attrs_encode_lines Let_def)
qed

lemma sdp_encode_lines:
  assumes m: "\<not> md_disabled m" "supported m \<noteq> []" "offer \<or> sa_port (md_raddr m) \<noteq> 0" "sa_port (md_laddr_rtcp m) = 0"
    and a: "print_addr net (md_laddr m) = Inr a" "print_addr net (ss_laddr s) = Inr b"
    and one: "(if offer then ss_medial s @ filter (\<lambda>m. \<not> md_disabled m) (ss_lmedial s) else ss_medial s) = [m]"
  shows "sdp_encode net s offer = Inr (concat (List.map sdp_line (session_lines s b @ media_lines
      (if sa_isset (md_laddr m) True False then [conn_line (md_laddr m) a] else []) m
      (if offer then md_ldir m else dir_and (md_ldir m) (md_rdir m)))),
    if offer then s\<lparr>ss_ver := ss_ver s + 1, ss_lmedial := filter md_disabled (ss_lmedial s), ss_medial := [m]\<rparr>
    else s\<lparr>ss_ver := ss_ver s + 1\<rparr>)"
proof -
  note enc = media_encode_lines [OF m a(1)]
  have head: "''v=0'' @ crlf @ ''o=- '' @ itoa (ss_id s) @ '' '' @ itoa (ss_ver s) @ '' IN IP'' @
      ipver (ss_laddr s) @ '' '' @ b @ crlf @ ''s=-'' @ crlf @ (''c=IN IP'' @ ipver (ss_laddr s) @ '' '' @ b @ crlf) @
      bandwidth_encode (ss_lbwv s) @ ''t=0 0'' @ crlf @ concat (List.map sdp_attr_print (ss_lattrl s)) =
      concat (List.map sdp_line (session_lines s b))"
    by (simp add: session_lines_def sdp_line_def conn_line_def bandwidth_encode_lines attrs_encode_lines)
  show ?thesis
  proof (cases offer)
    case True
    with one have o: "ss_medial s @ filter (\<lambda>m. \<not> md_disabled m) (ss_lmedial s) = [m]" by simp
    show ?thesis using enc True by (simp add: sdp_encode_def conn_encode_def a(2) Let_def o) (simp add: head [simplified])
  next
    case False
    with one have o: "ss_medial s = [m]" by simp
    show ?thesis using enc False by (simp add: sdp_encode_def conn_encode_def a(2) Let_def o) (simp add: head [simplified])
  qed
qed

section \<open>The other side\<close>

definition no_eol :: "string \<Rightarrow> bool" where
  "no_eol s \<longleftrightarrow> (\<forall>c\<in>set s. \<not> eol c)"

lemma no_eol_simps [simp]:
  "no_eol []" "no_eol (c # s) \<longleftrightarrow> \<not> eol c \<and> no_eol s" "no_eol (s @ t) \<longleftrightarrow> no_eol s \<and> no_eol t" "no_eol (itoa w)"
  using itoa_plain by (auto simp: no_eol_def)

lemma line_ok_no_eol: "line_ok (t, v) \<longleftrightarrow> t \<noteq> CHR 0x00 \<and> \<not> eol t \<and> no_eol v"
  by (simp add: line_ok_def no_eol_def)

lemma not_eol [simp]:
  "\<not> eol (CHR '' '')" "\<not> eol (CHR '':'')" "\<not> eol (CHR ''/'')" "\<not> eol (CHR ''-'')" "\<not> eol (CHR ''a'')" "\<not> eol (CHR ''b'')"
  "\<not> eol (CHR ''c'')" "\<not> eol (CHR ''m'')" "\<not> eol (CHR ''v'')" "\<not> eol (CHR ''o'')" "\<not> eol (CHR ''s'')" "\<not> eol (CHR ''t'')"
  "\<not> eol (CHR ''0'')" "\<not> eol (CHR ''I'')" "\<not> eol (CHR ''N'')" "\<not> eol (CHR ''P'')" "\<not> eol (CHR ''4'')" "\<not> eol (CHR ''6'')"
  "\<not> eol (CHR ''r'')" "\<not> eol (CHR ''p'')" "\<not> eol (CHR ''f'')"
  by (simp_all add: eol_def)

lemma alpha_no_eol: "\<forall>c\<in>set s. alpha c \<Longrightarrow> no_eol s"
proof -
  have "\<not> alpha (CHR 0x0D)" "\<not> alpha (CHR 0x0A)" by code_simp+
  then show "\<forall>c\<in>set s. alpha c \<Longrightarrow> ?thesis" by (auto simp: no_eol_def eol_def)
qed

lemma bw_lines_ok: "\<forall>l\<in>set (bw_lines bw). line_ok l"
proof -
  have "no_eol (sdp_bandwidth_name t)" for t by (cases t) (simp_all add: sdp_bandwidth_name_def no_eol_def eol_def)
  then show ?thesis by (auto simp: bw_lines_def line_ok_no_eol)
qed

lemma attr_line_ok: "attr_ok a \<Longrightarrow> line_ok (attr_line a)"
  by (cases "at_val a") (auto simp: attr_ok_def attr_line_def line_ok_no_eol text_ok_def no_eol_def)

lemma format_lines_ok: "format_ok f \<Longrightarrow> \<forall>l\<in>set (format_lines f). line_ok l"
  by (auto simp: format_ok_def format_lines_def line_ok_no_eol text_ok_def word_ok_def simp flip: no_eol_def)

lemma dir_line_ok: "line_ok (CHR ''a'', sdp_dir_name d)"
  by (cases d) (simp_all add: line_ok_no_eol sdp_dir_name_def no_eol_def eol_def)

lemma conn_line_ok: "no_eol a \<Longrightarrow> line_ok (conn_line s a)"
  by (simp add: conn_line_def line_ok_no_eol ipver_def)

lemma words_no_eol: "\<forall>i\<in>set ids. word_ok i \<Longrightarrow> no_eol (concat (List.map (\<lambda>i. '' '' @ i) ids))"
  by (induction ids) (auto simp: word_ok_def no_eol_def)

lemma media_lines_ok:
  assumes "media_printable m" and "\<forall>l\<in>set conn. line_ok l"
  shows "\<forall>l\<in>set (media_lines conn m d). line_ok l"
proof -
  have f: "\<forall>f\<in>set (supported m). format_ok f" using assms(1) by (simp add: media_printable_def supported_def)
  define ids where "ids = List.map fm_id (supported m)"
  from f have "\<forall>i\<in>set ids. word_ok i" by (auto simp: ids_def format_ok_def)
  note w = words_no_eol [OF this]
  have p: "no_eol (md_proto m)" "no_eol (md_name m)"
    using assms(1) alpha_no_eol [of "md_name m"] by (auto simp: media_printable_def word_ok_def no_eol_def)
  have "line_ok (CHR ''m'', media_line m)"
    unfolding line_ok_no_eol media_line_def ids_def [symmetric]
    by (simp only: no_eol_simps not_eol p w char.inject) simp
  moreover have "\<forall>l\<in>set (concat (List.map format_lines (supported m))). line_ok l" using f format_lines_ok by auto
  moreover have "\<forall>l\<in>set (List.map attr_line (md_lattrl m)). line_ok l" using assms(1) attr_line_ok by (auto simp: media_printable_def)
  ultimately show ?thesis using assms(2) bw_lines_ok dir_line_ok by (auto simp: media_lines_def)
qed

lemma session_lines_ok:
  assumes "no_eol a" and "\<forall>a\<in>set (ss_lattrl s). attr_ok a"
  shows "\<forall>l\<in>set (session_lines s a). line_ok l"
  using assms bw_lines_ok attr_line_ok conn_line_ok [OF assms(1)]
  by (auto simp: session_lines_def line_ok_no_eol ipver_def)

lemma line_length: "l \<in> set ls \<Longrightarrow> length (snd l) \<le> length (concat (List.map sdp_line ls))"
  by (induction ls) (auto simp: sdp_line_def)

context inet
begin

lemma print_addr_inet:
  assumes "addr_ok s"
  obtains a where "print_addr net s = Inr a" "a \<noteq> []" "length a < 16" "CHR '' '' \<notin> set a" "no_eol a"
    "\<And>s0. conn_decode net s0 (''IN IP'' @ ipver s @ '' '' @ a) =
      Inr (None, s0\<lparr>sa_sin_addr := sa_sin_addr s, sa_family := AF_INET, sa_sin_port := sa_port s0\<rparr>)"
proof -
  obtain a where a: "sa_ntop net s 64 = Inr (Inr a)" "a \<noteq> []" "length a < 16" "\<forall>c\<in>set a. is_digit c \<or> c = CHR ''.''"
    "\<And>port s'. sa_set net (Some a) port s' = Inr (None, s'\<lparr>sa_sin_addr := sa_sin_addr s, sa_family := AF_INET, sa_sin_port := port\<rparr>)"
    by (rule sa_ntop_inet [of s 64]) (use assms in \<open>auto simp: addr_ok_def\<close>)
  have p: "CHR '' '' \<notin> set a" "no_eol a" using a(4) by (auto simp: no_eol_def eol_def is_digit_def)
  have "ipver s = ''4''" using assms by (simp add: ipver_def addr_ok_def sa_af_def)
  moreover have "re_regex (Some (''IN IP'' @ CHR ''4'' # '' '' @ a)) ''IN IP[46]1 [^ ]+'' =
      Inr (None, (\<lambda>_. None)(0 := Some ''4'', 1 := Some a))"
    by (rule re_conn) (use a p in simp_all)
  ultimately have "conn_decode net s0 (''IN IP'' @ ipver s @ '' '' @ a) =
      Inr (None, s0\<lparr>sa_sin_addr := sa_sin_addr s, sa_family := AF_INET, sa_sin_port := sa_port s0\<rparr>)" for s0
    using a(5) by (simp add: conn_decode_def)
  with a p show ?thesis using that by (simp add: print_addr_def)
qed

end

text \<open>The media line is found, or moved from the local list.\<close>

definition receiver :: "bool \<Rightarrow> sdp_session \<Rightarrow> sdp_media \<Rightarrow> sdp_media list \<Rightarrow> bool" where
  "receiver offer t lm L \<longleftrightarrow>
     (\<exists>m. ss_medial t = [m] \<and> lm = sdp_media_rreset m \<and> L = ss_lmedial t) \<or>
     (offer \<and> ss_medial t = [] \<and> ss_lmedial t = [lm] \<and> L = [] \<and> lm = sdp_media_rreset lm)"

lemma decode_media_line:
  assumes m: "media_printable m" and len: "length (media_line m) < 2 ^ 32"
    and r: "ss_medial t = [lm] \<and> L = ss_lmedial t \<or> offer \<and> ss_medial t = [] \<and> ss_lmedial t = [lm] \<and> L = []"
    and lm: "md_name lm = md_name m" "md_proto lm = md_proto m" "md_rfmtl lm = []"
  shows "media_decode t None offer (media_line m) = Inr (None, Some 0, t\<lparr>ss_lmedial := L, ss_medial :=
    [lm\<lparr>md_rfmtl := List.map (format_zero \<circ> fm_id) (supported m),
      md_raddr := sa_set_port (sa_port (md_laddr m)) (ss_raddr t), md_rdir := ss_rdir t\<rparr>]\<rparr>)"
proof -
  define ids where "ids = List.map fm_id (supported m)"
  define f where "f = concat (List.map (\<lambda>i. '' '' @ i) ids)"
  have w: "\<forall>i\<in>set ids. word_ok i" using m by (auto simp: ids_def supported_def media_printable_def format_ok_def)
  have ml: "media_line m = md_name m @ '' '' @ itoa (sa_port (md_laddr m)) @ '' '' @ md_proto m @ f"
    by (simp add: media_line_def f_def ids_def)
  have fs: "media_formats f = Inr ids" unfolding f_def by (rule media_formats_words [OF w]) (use len in \<open>simp add: ml f_def\<close>)
  have p: "itoa (sa_port (md_laddr m)) \<noteq> []" "CHR '' '' \<notin> set (itoa (sa_port (md_laddr m)))" using itoa_text itoa_plain by blast+
  have hd: "f = [] \<or> hd f = CHR '' ''" by (cases ids) (simp_all add: f_def)
  have re: "re_regex (Some (media_line m)) ''[a-z]+ [^ ]+ [^ ]+[^]*'' = Inr (None, (\<lambda>_. None)(0 := Some (md_name m),
      1 := Some (itoa (sa_port (md_laddr m))), 2 := Some (md_proto m), 3 := Some f))"
    unfolding ml by (rule re_media) (use m p hd len in \<open>auto simp: media_printable_def word_ok_def ml\<close>)
  have add: "fold (\<lambda>i m. sdp_format_radd m i) is x = x\<lparr>md_rfmtl := md_rfmtl x @ List.map format_zero is\<rparr>" for "is" x
    by (induction "is" arbitrary: x) (simp_all add: sdp_format_radd_def)
  have enter: "media_enter s 0 (Some (itoa (sa_port (md_laddr m)))) (Some f) = Inr (None, Some 0, s\<lparr>ss_medial :=
      [lm\<lparr>md_rfmtl := List.map (format_zero \<circ> fm_id) (supported m),
        md_raddr := sa_set_port (sa_port (md_laddr m)) (ss_raddr s), md_rdir := ss_rdir s\<rparr>]\<rparr>)"
    if "ss_medial s = [lm]" for s
    using that lm(3) by (simp add: media_enter_def pl_text_def fs add ids_def)
  from r show ?thesis
  proof
    assume "ss_medial t = [lm] \<and> L = ss_lmedial t"
    then show ?thesis using lm enter [of t] by (simp add: media_decode_def re)
  next
    assume a: "offer \<and> ss_medial t = [] \<and> ss_lmedial t = [lm] \<and> L = []"
    then have "sdp_media_find t (Some (md_name m)) (Some (md_proto m)) = Some 0" using lm by (simp add: sdp_media_find_def)
    with a show ?thesis using enter [of "t\<lparr>ss_lmedial := [], ss_medial := [lm]\<rparr>"] by (simp add: media_decode_def re)
  qed
qed

lemma sdp_media_rreset_fields:
  "md_rfmtl (sdp_media_rreset m) = []" "md_rbwv (sdp_media_rreset m) = bw_none" "md_rattrl (sdp_media_rreset m) = []"
  by (simp_all add: sdp_media_rreset_def)

text \<open>What the other side has got to know.\<close>

definition remote_addr :: "sdp_session \<Rightarrow> sdp_media \<Rightarrow> sa" where
  "remote_addr s m = (sa_init AF_INET)\<lparr>sa_sin_addr := if sa_isset (md_laddr m) True False then sa_sin_addr (md_laddr m)
     else sa_sin_addr (ss_laddr s), sa_sin_port := sa_port (md_laddr m)\<rparr>"

definition remote_media :: "sdp_session \<Rightarrow> sdp_media \<Rightarrow> sdp_dir \<Rightarrow> sdp_media \<Rightarrow> sdp_media" where
  "remote_media s m d lm = lm\<lparr>md_rfmtl := List.map remote_format (supported m), md_raddr := remote_addr s m,
     md_rbwv := remote_bw (md_lbwv m), md_rdir := mirror d, md_rattrl := md_lattrl m\<rparr>"

definition received :: "sdp_session \<Rightarrow> sdp_media \<Rightarrow> sdp_dir \<Rightarrow> sdp_session \<Rightarrow> sdp_media \<Rightarrow> sdp_media list \<Rightarrow> sdp_session" where
  "received s m d t lm L = (fresh t)\<lparr>ss_lmedial := L, ss_medial := [remote_media s m d lm],
     ss_raddr := (sa_init AF_INET)\<lparr>sa_sin_addr := sa_sin_addr (ss_laddr s)\<rparr>, ss_rbwv := remote_bw (ss_lbwv s),
     ss_rattrl := ss_lattrl s\<rparr>"

context inet
begin

lemma decode_session_lines:
  assumes a: "print_addr net (ss_laddr s) = Inr a" "addr_ok (ss_laddr s)" and at: "\<forall>a\<in>set (ss_lattrl s). attr_ok a"
    and len: "length (concat (List.map sdp_line (session_lines s a))) < 2 ^ 32"
    and t: "ss_raddr t = sa_init AF_INET" "ss_rbwv t = bw_none" "ss_rattrl t = []"
  shows "decode_lines net offer (session_lines s a) None t = Inr (None, None, t\<lparr>ss_raddr := (sa_init AF_INET)\<lparr>sa_sin_addr :=
    sa_sin_addr (ss_laddr s)\<rparr>, ss_rbwv := remote_bw (ss_lbwv s), ss_rattrl := ss_lattrl s\<rparr>)"
proof -
  obtain a' where a': "print_addr net (ss_laddr s) = Inr a'"
    "\<And>s0. conn_decode net s0 (''IN IP'' @ ipver (ss_laddr s) @ '' '' @ a') =
      Inr (None, s0\<lparr>sa_sin_addr := sa_sin_addr (ss_laddr s), sa_family := AF_INET, sa_sin_port := sa_port s0\<rparr>)"
    by (rule print_addr_inet [OF a(2)]) blast
  let ?s0 = "(sa_init AF_INET)\<lparr>sa_sin_addr := sa_sin_addr (ss_laddr s)\<rparr>"
  have s0: "(sa_init AF_INET)\<lparr>sa_sin_addr := sa_sin_addr (ss_laddr s), sa_family := AF_INET, sa_sin_port := sa_port (sa_init AF_INET)\<rparr> = ?s0"
    by (simp add: sa_init_def sa_port_def)
  have c: "decode_line net offer (CHR ''c'') (''IN IP'' @ ipver (ss_laddr s) @ '' '' @ a) None t =
      Inr (None, None, t\<lparr>ss_raddr := ?s0\<rparr>)"
    using a' a(1) s0 t(1) by (simp add: decode_line_def cur_media_def del: append.simps)
  have head: "decode_lines net offer [(CHR ''v'', ''0''),
      (CHR ''o'', ''- '' @ itoa (ss_id s) @ '' '' @ itoa (ss_ver s) @ '' IN IP'' @ ipver (ss_laddr s) @ '' '' @ a),
      (CHR ''s'', ''-''), conn_line (ss_laddr s) a] None t = Inr (None, None, t\<lparr>ss_raddr := ?s0\<rparr>)"
    using c by (simp add: conn_line_def decode_line_def [of net offer "CHR ''v''"] decode_line_def [of net offer "CHR ''o''"]
        decode_line_def [of net offer "CHR ''s''"] version_decode_def del: append.simps)
  have bw: "decode_lines net offer (bw_lines (ss_lbwv s)) None u = Inr (None, None, u\<lparr>ss_rbwv := remote_bw (ss_lbwv s)\<rparr>)"
    if "ss_rbwv u = bw_none" for u
    using session_bws [of net offer "ss_lbwv s" "filter (\<lambda>t. \<not> ss_lbwv s t <s 0) bandwidths" u] that
    by (simp add: bw_lines_def put_bw_all del: append.simps)
  have tl: "decode_lines net offer [(CHR ''t'', ''0 0'')] None u = Inr (None, None, u)" for u by (simp add: decode_line_def)
  have al: "\<forall>x\<in>set (ss_lattrl s). attr_ok x \<and> length (snd (attr_line x)) < 2 ^ 32"
  proof
    fix x assume x: "x \<in> set (ss_lattrl s)"
    then have "attr_line x \<in> set (session_lines s a)" by (simp add: session_lines_def)
    from line_length [OF this] len at x show "attr_ok x \<and> length (snd (attr_line x)) < 2 ^ 32" by auto
  qed
  let ?u = "t\<lparr>ss_raddr := ?s0\<rparr>"
  let ?w = "?u\<lparr>ss_rbwv := remote_bw (ss_lbwv s)\<rparr>"
  have at: "decode_lines net offer (List.map attr_line (ss_lattrl s)) None ?w =
      Inr (None, None, ?w\<lparr>ss_rattrl := ss_rattrl ?w @ ss_lattrl s\<rparr>)"
    by (rule session_attrs [OF al])
  have b: "ss_rbwv ?u = bw_none" using t(2) by simp
  have "decode_lines net offer (session_lines s a) None t = Inr (None, None, ?w\<lparr>ss_rattrl := ss_rattrl ?w @ ss_lattrl s\<rparr>)"
    unfolding session_lines_def decode_lines_append head bw [OF b] tl at
    by (simp only: obind.simps prod.case tl at bw [OF b] if_False simp_thms)
  moreover have "ss_rattrl ?w @ ss_lattrl s = ss_lattrl s" by (simp add: t(3))
  ultimately show ?thesis by (simp only:)
qed

lemma reads_media_lines:
  assumes m: "media_printable m" and a: "print_addr net (md_laddr m) = Inr a"
    and len: "length (concat (List.map sdp_line (media_lines
      (if sa_isset (md_laddr m) True False then [conn_line (md_laddr m) a] else []) m d))) < 2 ^ 32" (is "length (concat (List.map _ ?ls)) < _")
    and x: "md_rfmtl x = List.map (format_zero \<circ> fm_id) (supported m)" "md_rbwv x = bw_none" "md_rattrl x = []"
      "md_raddr x = (sa_init AF_INET)\<lparr>sa_sin_addr := sa_sin_addr (ss_laddr s), sa_sin_port := sa_port (md_laddr m)\<rparr>"
  shows "reads net offer (tl ?ls) x (remote_media s m d x)"
proof -
  have ok: "addr_ok (md_laddr m)" using m by (simp add: media_printable_def)
  obtain a' where a': "print_addr net (md_laddr m) = Inr a'"
    "\<And>s0. conn_decode net s0 (''IN IP'' @ ipver (md_laddr m) @ '' '' @ a') =
      Inr (None, s0\<lparr>sa_sin_addr := sa_sin_addr (md_laddr m), sa_family := AF_INET, sa_sin_port := sa_port s0\<rparr>)"
    by (rule print_addr_inet [OF ok]) blast
  let ?conn = "if sa_isset (md_laddr m) True False then [conn_line (md_laddr m) a] else []"
  have p: "sa_port (md_raddr x) = sa_port (md_laddr m)" by (simp add: x(4) sa_port_def has_port_def sa_init_def)
  have c: "reads net offer ?conn x (x\<lparr>md_raddr := remote_addr s m\<rparr>)"
  proof (cases "sa_isset (md_laddr m) True False")
    case True
    have "(md_raddr x)\<lparr>sa_sin_addr := sa_sin_addr (md_laddr m), sa_family := AF_INET, sa_sin_port := sa_port (md_raddr x)\<rparr> = remote_addr s m"
      unfolding p by (simp add: x(4) remote_addr_def True sa_init_def)
    then have "reads net offer [(CHR ''c'', ''IN IP'' @ ipver (md_laddr m) @ '' '' @ a)] x (x\<lparr>md_raddr := remote_addr s m\<rparr>)"
      using a' a by (intro reads_line) (simp add: decode_line_def cur_media_def put_media_def del: append.simps)
    then show ?thesis using True by (simp add: conn_line_def)
  next
    case False
    have "x\<lparr>md_raddr := remote_addr s m\<rparr> = x" using x(4) False by (simp add: remote_addr_def)
    with False show ?thesis by simp
  qed
  have mem: "l \<in> set ?ls \<Longrightarrow> length (snd l) < 2 ^ 32" for l using line_length [of l ?ls] len by simp
  let ?x1 = "x\<lparr>md_raddr := remote_addr s m\<rparr>"
  let ?x2 = "?x1\<lparr>md_rbwv := remote_bw (md_lbwv m)\<rparr>"
  let ?x3 = "?x2\<lparr>md_rfmtl := [] @ List.map remote_format (supported m)\<rparr>"
  let ?x4 = "?x3\<lparr>md_rdir := mirror d\<rparr>"
  have b: "reads net offer (bw_lines (md_lbwv m)) ?x1 ?x2" by (rule reads_bw) (simp add: x(2))
  have f: "reads net offer (concat (List.map format_lines (supported m))) ?x2 ?x3"
  proof (rule reads_formats)
    have "\<forall>f\<in>set (supported m). format_ok f \<and> fm_sup f" using m by (simp add: media_printable_def supported_def)
    moreover have "l \<in> set ?ls" if "f \<in> set (supported m)" "l \<in> set (format_lines f)" for f l
      unfolding media_lines_def using that by auto
    ultimately show "\<forall>f\<in>set (supported m). format_ok f \<and> fm_sup f \<and> (\<forall>l\<in>set (format_lines f). length (snd l) < 2 ^ 32)"
      using mem by blast
    show "distinct (List.map fm_id ([] @ supported m))" using m by (simp add: media_printable_def supported_def)
  qed (simp add: x(1))
  have e: "reads net offer (List.map attr_line (md_lattrl m)) ?x4 (?x4\<lparr>md_rattrl := md_rattrl ?x4 @ md_lattrl m\<rparr>)"
  proof (rule reads_attrs)
    have "\<forall>a\<in>set (md_lattrl m). attr_ok a" using m by (simp add: media_printable_def)
    moreover have "attr_line a \<in> set ?ls" if "a \<in> set (md_lattrl m)" for a
      unfolding media_lines_def using that by auto
    ultimately show "\<forall>a\<in>set (md_lattrl m). attr_ok a \<and> length (snd (attr_line a)) < 2 ^ 32" using mem by blast
  qed
  have "reads net offer (?conn @ bw_lines (md_lbwv m) @ concat (List.map format_lines (supported m)) @
      [(CHR ''a'', sdp_dir_name d)] @ List.map attr_line (md_lattrl m)) x (?x4\<lparr>md_rattrl := md_rattrl ?x4 @ md_lattrl m\<rparr>)"
    by (rule reads_append [OF c reads_append [OF b reads_append [OF f reads_append [OF reads_dir e]]]])
  moreover have "?x4\<lparr>md_rattrl := md_rattrl ?x4 @ md_lattrl m\<rparr> = remote_media s m d x"
    by (rule sdp_media.equality) (simp_all add: remote_media_def x(3))
  ultimately show ?thesis by (simp only: media_lines_def list.sel)
qed

lemma decode_session_parts:
  assumes one: "(if offer then ss_medial s @ filter (\<lambda>m. \<not> md_disabled m) (ss_lmedial s) else ss_medial s) = [m]"
    and m: "\<not> md_disabled m" "supported m \<noteq> []" "offer \<or> sa_port (md_raddr m) \<noteq> 0" "media_printable m"
    and s: "addr_ok (ss_laddr s)" "\<forall>a\<in>set (ss_lattrl s). attr_ok a"
    and enc: "sdp_encode net s offer = Inr (msg, s')" "length msg < 2 ^ 32"
    and t: "receiver offer' t lm L" "md_name lm = md_name m" "md_proto lm = md_proto m"
  defines "d \<equiv> if offer then md_ldir m else dir_and (md_ldir m) (md_rdir m)"
  obtains ls ms x v where "msg = concat (List.map sdp_line (ls @ ms))" "\<forall>l\<in>set (ls @ ms). line_ok l" "ms \<noteq> []"
    "\<forall>l\<in>set ms. fst l \<noteq> CHR ''m''" "decode_lines net offer' ls None (fresh t) = Inr (None, Some 0, v)"
    "v = (fresh t)\<lparr>ss_raddr := (sa_init AF_INET)\<lparr>sa_sin_addr := sa_sin_addr (ss_laddr s)\<rparr>, ss_rbwv := remote_bw (ss_lbwv s),
      ss_rattrl := ss_lattrl s, ss_lmedial := L, ss_medial := [x]\<rparr>"
    "reads net offer' ms x (remote_media s m d lm)" "sdp_media_rreset x = sdp_media_rreset lm"
proof -
  have ok: "addr_ok (md_laddr m)" "sa_port (md_laddr_rtcp m) = 0" using m(4) by (simp_all add: media_printable_def)
  obtain a where a: "print_addr net (md_laddr m) = Inr a" "no_eol a" by (rule print_addr_inet [OF ok(1)]) blast
  obtain b where b: "print_addr net (ss_laddr s) = Inr b" "no_eol b" by (rule print_addr_inet [OF s(1)]) blast
  define conn where "conn = (if sa_isset (md_laddr m) True False then [conn_line (md_laddr m) a] else [])"
  define ms where "ms = media_lines conn m d"
  define ss where "ss = session_lines s b"
  have msg: "msg = concat (List.map sdp_line (ss @ ms))"
    using enc(1) sdp_encode_lines [OF m(1-3) ok(2) a(1) b(1) one] unfolding ss_def ms_def conn_def d_def by simp
  have lok: "\<forall>l\<in>set (ss @ ms). line_ok l"
  proof -
    have "\<forall>l\<in>set conn. line_ok l" using conn_line_ok [OF a(2)] by (simp add: conn_def)
    then show ?thesis
      using session_lines_ok [OF b(2) s(2)] media_lines_ok [OF m(4), of conn d] unfolding ss_def ms_def by auto
  qed
  have len: "length (concat (List.map sdp_line ss)) < 2 ^ 32" "length (concat (List.map sdp_line ms)) < 2 ^ 32"
    using enc(2) unfolding msg by simp_all
  let ?s0 = "(sa_init AF_INET)\<lparr>sa_sin_addr := sa_sin_addr (ss_laddr s)\<rparr>"
  define u where "u = (fresh t)\<lparr>ss_raddr := ?s0, ss_rbwv := remote_bw (ss_lbwv s), ss_rattrl := ss_lattrl s\<rparr>"
  have 1: "decode_lines net offer' ss None (fresh t) = Inr (None, None, u)"
    unfolding ss_def u_def
    by (rule decode_session_lines [OF b(1) s len(1) [unfolded ss_def]]) (simp_all add: fresh_def sdp_session_rreset_def)
  have lm: "md_rfmtl lm = []" "md_rbwv lm = bw_none" "md_rattrl lm = []"
    using t(1) unfolding receiver_def by (metis sdp_media_rreset_fields)+
  have r: "ss_medial u = [lm] \<and> L = ss_lmedial u \<or> offer' \<and> ss_medial u = [] \<and> ss_lmedial u = [lm] \<and> L = []"
    using t(1) unfolding receiver_def by (auto simp: u_def fresh_def sdp_session_rreset_def)
  define x where "x = lm\<lparr>md_rfmtl := List.map (format_zero \<circ> fm_id) (supported m),
      md_raddr := sa_set_port (sa_port (md_laddr m)) (ss_raddr u), md_rdir := ss_rdir u\<rparr>"
  define v where "v = u\<lparr>ss_lmedial := L, ss_medial := [x]\<rparr>"
  have lml: "length (media_line m) < 2 ^ 32"
    using line_length [of "(CHR ''m'', media_line m)" ms] len(2) by (simp add: ms_def media_lines_def)
  have 2: "decode_lines net offer' [(CHR ''m'', media_line m)] None u = Inr (None, Some 0, v)"
    using decode_media_line [OF m(4) lml r t(2,3) lm(1)] by (simp add: decode_line_def v_def x_def)
  have "reads net offer' (tl ms) x (remote_media s m d x)" unfolding ms_def conn_def
    by (rule reads_media_lines [OF m(4) a(1) len(2) [unfolded ms_def conn_def]])
      (simp_all add: x_def lm u_def sa_set_port_def has_port_def sa_init_def)
  moreover have "remote_media s m d x = remote_media s m d lm" by (simp add: x_def remote_media_def)
  ultimately have 3: "reads net offer' (tl ms) x (remote_media s m d lm)" by simp
  have mt: "ss @ ms = (ss @ [(CHR ''m'', media_line m)]) @ tl ms" by (simp add: ms_def media_lines_def)
  have 4: "decode_lines net offer' (ss @ [(CHR ''m'', media_line m)]) None (fresh t) = Inr (None, Some 0, v)"
    by (simp only: decode_lines_append 1 2 obind.simps prod.case simp_thms if_False)
  have 5: "tl ms \<noteq> []" "\<forall>l\<in>set (tl ms). fst l \<noteq> CHR ''m''"
    by (auto simp: ms_def media_lines_def conn_def conn_line_def bw_lines_def format_lines_def attr_line_def)
  have 6: "sdp_media_rreset x = sdp_media_rreset lm" by (simp add: x_def sdp_media_rreset_def)
  show thesis
    by (rule that [OF msg [unfolded mt] lok [unfolded mt] 5 4 _ 3 6]) (simp add: v_def u_def)
qed

lemma decode_session:
  assumes one: "(if offer then ss_medial s @ filter (\<lambda>m. \<not> md_disabled m) (ss_lmedial s) else ss_medial s) = [m]"
    and m: "\<not> md_disabled m" "supported m \<noteq> []" "offer \<or> sa_port (md_raddr m) \<noteq> 0" "media_printable m"
    and s: "addr_ok (ss_laddr s)" "\<forall>a\<in>set (ss_lattrl s). attr_ok a"
    and enc: "sdp_encode net s offer = Inr (msg, s')" "length msg < 2 ^ 32"
    and t: "receiver offer' t lm L" "md_name lm = md_name m" "md_proto lm = md_proto m"
  shows "sdp_decode net t msg offer' = Inr (None, aligned offer'
    (received s m (if offer then md_ldir m else dir_and (md_ldir m) (md_rdir m)) t lm L))"
proof -
  define d where "d = (if offer then md_ldir m else dir_and (md_ldir m) (md_rdir m))"
  obtain ls ms x v where msg: "msg = concat (List.map sdp_line (ls @ ms))" and ok: "\<forall>l\<in>set (ls @ ms). line_ok l"
    and 1: "decode_lines net offer' ls None (fresh t) = Inr (None, Some 0, v)"
    and v: "v = (fresh t)\<lparr>ss_raddr := (sa_init AF_INET)\<lparr>sa_sin_addr := sa_sin_addr (ss_laddr s)\<rparr>,
      ss_rbwv := remote_bw (ss_lbwv s), ss_rattrl := ss_lattrl s, ss_lmedial := L, ss_medial := [x]\<rparr>"
    and 2: "reads net offer' ms x (remote_media s m d lm)"
    unfolding d_def by (rule decode_session_parts [OF one m s enc t]) blast
  have "decode_lines net offer' ms (Some 0) v = Inr (None, Some 0, v\<lparr>ss_medial := [remote_media s m d lm]\<rparr>)"
    using 2 unfolding reads_def by (simp add: v)
  then have "decode_lines net offer' (ls @ ms) None (fresh t) = Inr (None, Some 0, v\<lparr>ss_medial := [remote_media s m d lm]\<rparr>)"
    by (simp only: decode_lines_append 1 obind.simps prod.case simp_thms if_False)
  moreover have "v\<lparr>ss_medial := [remote_media s m d lm]\<rparr> = received s m d t lm L" by (simp add: v received_def)
  ultimately show ?thesis using sdp_decode_lines [OF ok, of net t offer'] by (simp add: msg d_def [symmetric])
qed

end

text \<open>An offer, and what the answerer knows then.\<close>

lemma sdp_offer_read:
  assumes "inet net" and one: "ss_medial s @ filter (\<lambda>m. \<not> md_disabled m) (ss_lmedial s) = [m]"
    and m: "\<not> md_disabled m" "supported m \<noteq> []" "media_printable m" "sa_port (md_laddr m) \<noteq> 0"
    and s: "addr_ok (ss_laddr s)" "\<forall>a\<in>set (ss_lattrl s). attr_ok a"
    and enc: "sdp_encode net s True = Inr (msg, s')" "length msg < 2 ^ 32"
    and t: "ss_medial t = []" "ss_lmedial t = [lm]" "lm = sdp_media_rreset lm" "\<not> md_disabled lm"
      "md_name lm = md_name m" "md_proto lm = md_proto m"
    and id: "one_id (List.map remote_format (supported m)) (md_lfmtl lm)"
  shows "\<exists>t' m'. sdp_decode net t msg True = Inr (None, t') \<and> ss_medial t' = [m'] \<and> ss_lmedial t' = [] \<and>
    sdp_media_raddr (Some m') = Some (remote_addr s m) \<and> sdp_media_rdir (Some m') = mirror (md_ldir m) \<and>
    rel_option same_remote
      (List.find (\<lambda>r. \<exists>l\<in>set (md_lfmtl lm). sdp_format_cmp l r) (List.map remote_format (supported m)))
      (sdp_media_rformat (Some m') None)"
proof -
  let ?r = "remote_media s m (md_ldir m) lm"
  let ?m = "sdp_media_align_formats ?r True"
  have "receiver True t lm []" using t by (simp add: receiver_def)
  from inet.decode_session [OF assms(1), of True s m msg s' True t lm "[]"] one m s enc t(5,6) this
  have dec: "sdp_decode net t msg True = Inr (None, aligned True (received s m (md_ldir m) t lm []))" by simp
  have port: "sa_port (md_raddr ?r) \<noteq> 0" "\<not> md_disabled ?r"
    using m(4) t(4) by (simp_all add: remote_media_def remote_addr_def sa_port_def has_port_def sa_init_def)
  have "rel_option same_remote
      (List.find (\<lambda>r. \<exists>l\<in>set (md_lfmtl lm). sdp_format_cmp l r) (List.map remote_format (supported m)))
      (sdp_media_rformat (Some ?m) None)"
    using agreed_format [OF port(2,1), of True] id by (simp add: remote_media_def)
  moreover have "md_raddr ?m = remote_addr s m" "md_rdir ?m = mirror (md_ldir m)"
    by (simp_all add: sdp_media_align_formats_def remote_media_def split: prod.split)
  ultimately show ?thesis using dec
    by (simp add: aligned_def received_def sdp_media_raddr_def sdp_media_rdir_def)
qed

end
