(* ===== verification/App_Incall.thy ===== *)
theory App_Incall
  imports App_Media Re_Sdp_Trip
begin

text \<open>
  Incoming calls (\<open>src/src/in_call.c\<close>): a session that offers three formats is built and the offer
  of the caller read, the call rings for seven seconds, is answered, and ends after a random number
  of minutes; a thread plays a file or, without one, silence.

  The only media line of a call is pointed at by the call; here it is the line of its session that
  is local, or enabled. The variable \<open>list\<close> is a pointer that is never set, so that calls are in no
  list. The SIP stack, the memory for a call, random numbers and the file system are arguments.

  The lemmas say that an offer whose last line is not ended is read as if it were, and bound the
  duration of a call.
\<close>

section \<open>Calls\<close>

record in_call =
  ic_sess :: bool
  ic_sdp :: sdp_session
  ic_rs :: "unit rtp_sock option"
  ic_dest :: sa
  ic_ts :: u32
  ic_thrd :: bool
  ic_timer :: "int option"
  ic_established :: bool
  ic_ended :: bool

text \<open>What has become of a call: freed, lost to everyone, or waiting for its timer.\<close>

datatype fate = Freed | Lost in_call | Waiting in_call

definition own_media :: "sdp_session \<Rightarrow> sdp_media option" where
  "own_media sdp = (case ss_lmedial sdp of m # _ \<Rightarrow> Some m | [] \<Rightarrow> List.find (\<lambda>m. \<not> md_disabled m) (ss_medial sdp))"

definition in_auth_handler :: "string \<times> string" where
  "in_auth_handler = (''1002'', ''1234'')"

definition in_establish_handler :: "in_call \<Rightarrow> in_call" where
  "in_establish_handler call = (if ic_established call then call else call\<lparr>ic_established := True\<rparr>)"

definition in_close_handler :: "in_call \<Rightarrow> fate" where
  "in_close_handler call = Freed"

section \<open>The offer\<close>

text \<open>An offer that cannot be read is read again with the end of a line behind it.\<close>

definition decode_sdp_offer :: "inet_lib \<Rightarrow> sdp_session \<Rightarrow> string \<Rightarrow> bool \<Rightarrow> ub + errno option \<times> sdp_session" where
  "decode_sdp_offer net sdp mb offer =
    obind (sdp_decode net sdp mb True) (\<lambda>(err, sdp).
      if err = None then Inr (None, sdp) else sdp_decode net sdp (mb @ crlf) offer)"

definition incoming_formats :: "sdp_media \<Rightarrow> sdp_media" where
  "incoming_formats m =
    (let m = snd (sdp_format_add m False (Some ''18'') (Some ''G729'') 8000 1 None None False None);
         m = snd (sdp_format_add m False (Some ''4'') (Some ''G723'') 8000 1 None None False None)
     in snd (sdp_format_add m False (Some ''101'') (Some ''telephone-event'') 8000 1 None None False None))"

definition incoming_sdp :: "sa \<Rightarrow> u32 \<Rightarrow> u32 \<Rightarrow> sdp_session" where
  "incoming_sdp loc rid rver =
    (let sdp = sdp_media_add (sdp_session_alloc loc rid rver) ''audio'' (sa_port loc) ''RTP/AVP''
     in sdp\<lparr>ss_lmedial := List.map incoming_formats (ss_lmedial sdp)\<rparr>)"

text \<open>
  The result of \<open>sipsess_accept\<close>, given as whether there is a session then, is not looked at. Without
  a common format the call is left behind without a timer, and the result is success.
\<close>

definition incoming_call_alloc ::
  "inet_lib \<Rightarrow> sa \<Rightarrow> bool \<Rightarrow> u32 \<Rightarrow> u32 \<Rightarrow> bool \<Rightarrow> errno + unit rtp_sock \<Rightarrow> string \<Rightarrow> ub + errno option \<times> fate" where
  "incoming_call_alloc net loc mem rid rver accept rs mb =
    (if \<not> mem then Inr (Some (Sys_err 1), Freed)
     else obind (decode_sdp_offer net (incoming_sdp loc rid rver) mb True) (\<lambda>(err, sdp).
       if err \<noteq> None then Inr (err, Freed)
       else obind (deref (sdp_media_raddr (own_media sdp))) (\<lambda>dest.
         let call = \<lparr>ic_sess = False, ic_sdp = sdp, ic_rs = None, ic_dest = dest, ic_ts = 0, ic_thrd = False,
               ic_timer = None, ic_established = False, ic_ended = False\<rparr>
         in if sdp_media_rformat (own_media sdp) None = None then Inr (None, Lost call)
            else let call = call\<lparr>ic_sess := accept, ic_timer := Some 7000\<rparr>
              in (case rs of Inl e \<Rightarrow> Inr (Some e, Freed)
                    | Inr rs \<Rightarrow> Inr (None, Waiting (call\<lparr>ic_rs := Some rs\<rparr>))))))"

section \<open>The timer\<close>

definition get_max_duration :: "int \<Rightarrow> int \<Rightarrow> int \<Rightarrow> int \<Rightarrow> int" where
  "get_max_duration rand_max rand mn mx = mn + rand div (rand_max div (mx - mn + 1) + 1)"

text \<open>Answering: the result has the message of the answer. The second random number is for the timestamp.\<close>

definition in_call_tmr_handler ::
  "inet_lib \<Rightarrow> int \<Rightarrow> int \<Rightarrow> int \<Rightarrow> bool \<Rightarrow> in_call \<Rightarrow> ub + string option \<times> fate" where
  "in_call_tmr_handler net rand_max r1 r2 thrd call =
    (if \<not> ic_established call then
       obind (sdp_encode net (ic_sdp call) False) (\<lambda>(buf, sdp).
         Inr (Some buf, Waiting (call\<lparr>ic_sdp := sdp, ic_established := True,
           ic_timer := Some (get_max_duration rand_max r1 7 15 * 1000 * 60), ic_ts := word_of_int r2,
           ic_thrd := thrd\<rparr>)))
     else Inr (None, Freed))"

section \<open>The thread\<close>

text \<open>\<open>silence\<close> is the buffer of silence, if there is one.\<close>

definition in_silence :: "allocator \<Rightarrow> mbuf option \<Rightarrow> unit rtp_sock \<Rightarrow> u32 \<Rightarrow> ub + u8 list \<times> unit rtp_sock \<times> u32" where
  "in_silence A silence rs ts = (case mbuf_alloc A (40 + 12) of
      None \<Rightarrow> Inl Null_deref
    | Some mb \<Rightarrow>
        obind (rtp_encode A rs False 18 ts (mbuf_set_pos mb 0)) (\<lambda>(_, rs, mb).
          let bs = map_option (\<lambda>s. take 40 (drop (mb_pos s) (mb_buf s))) silence;
              mb = snd (mbuf_write_mem A mb bs)
          in Inr (dgram (mbuf_set_pos mb 0), rs, ts + 320)))"

definition in_frame :: "allocator \<Rightarrow> unit rtp_sock \<Rightarrow> u32 \<Rightarrow> mbuf \<Rightarrow> u8 list \<Rightarrow> ub + u8 list \<times> unit rtp_sock \<times> u32" where
  "in_frame A rs ts mb serial =
    (let mb = snd (mbuf_write_mem A (mbuf_set_pos mb 12) (Some serial))
     in obind (rtp_encode A rs False 18 ts (mbuf_set_pos mb 0)) (\<lambda>(_, rs, mb).
          Inr (dgram (mbuf_set_pos mb 0), rs, ts + 320)))"

text \<open>\<open>ended k\<close> is whether the call has ended when the thread looks for the \<open>k\<close>th time.\<close>

fun in_play ::
  "allocator \<Rightarrow> (nat \<Rightarrow> bool) \<Rightarrow> nat \<Rightarrow> unit rtp_sock \<Rightarrow> u32 \<Rightarrow> mbuf \<Rightarrow> u8 list list \<Rightarrow>
    ub + nat \<times> u8 list list \<times> unit rtp_sock \<times> u32" where
  "in_play A ended k rs ts mb [] = Inr (k, [], rs, ts)"
| "in_play A ended k rs ts mb (f # fs) =
    obind (in_frame A rs ts mb f) (\<lambda>(dg, rs, ts).
      if ended k then Inr (Suc k, [dg], rs, ts)
      else obind (in_play A ended (Suc k) rs ts (mbuf_reset mb) fs) (\<lambda>(k, dgs, rs, ts). Inr (k, dg # dgs, rs, ts)))"

fun in_loop ::
  "allocator \<Rightarrow> (nat \<Rightarrow> bool) \<Rightarrow> (nat \<Rightarrow> audio_source) \<Rightarrow> mbuf option \<Rightarrow> nat \<Rightarrow> nat \<Rightarrow> unit rtp_sock \<Rightarrow> u32 \<Rightarrow>
    ub + bool \<times> u8 list list \<times> unit rtp_sock \<times> u32" where
  "in_loop A ended file silence 0 k rs ts = Inr (False, [], rs, ts)"
| "in_loop A ended file silence (Suc n) k rs ts =
    (let continue = (\<lambda>(k, dgs, rs, ts).
           if ended k then Inr (True, dgs, rs, ts)
           else obind (in_loop A ended file silence n (Suc k) rs ts) (\<lambda>(r, dgs', rs, ts). Inr (r, dgs @ dgs', rs, ts)))
     in case file n of
          No_file \<Rightarrow> obind (in_silence A silence rs ts) (\<lambda>(dg, rs, ts). continue (k, [dg], rs, ts))
        | Unreadable \<Rightarrow> Inr (True, [], rs, ts)
        | Content bs \<Rightarrow>
            (case mbuf_alloc A (40 + 12) of
               None \<Rightarrow> if frames 40 bs = [] then continue (k, [], rs, ts) else Inl Null_deref
             | Some mb \<Rightarrow> obind (in_play A ended k rs ts mb (frames 40 bs)) continue))"

text \<open>Without a UDP socket the thread ends at once.\<close>

definition in_rtpThread ::
  "allocator \<Rightarrow> (nat \<Rightarrow> bool) \<Rightarrow> (nat \<Rightarrow> audio_source) \<Rightarrow> mbuf option \<Rightarrow> bool \<Rightarrow> nat \<Rightarrow> in_call \<Rightarrow>
    ub + bool \<times> u8 list list \<times> in_call" where
  "in_rtpThread A ended file silence udpsock n call =
    (if \<not> udpsock then Inr (True, [], call)
     else obind (deref (ic_rs call)) (\<lambda>rs.
       obind (in_loop A ended file silence n 0 rs (ic_ts call)) (\<lambda>(r, dgs, rs, ts).
         Inr (r, dgs, call\<lparr>ic_rs := Some rs, ic_ts := ts\<rparr>))))"

section \<open>Received packets\<close>

text \<open>The key of a telephone event is printed, and nothing else; the result has it.\<close>

definition in_rtp_recv_handler :: "rtp_header \<Rightarrow> telev option \<Rightarrow> mbuf \<Rightarrow> int option \<times> telev option" where
  "in_rtp_recv_handler hdr telev mb = (case rtp_hdr_decode hdr mb of
      (Inl e, mb) \<Rightarrow> (None, telev)
    | (Inr hdr, mb) \<Rightarrow>
        if hdr_pt hdr \<noteq> 101 then (None, telev)
        else (case telev of
            None \<Rightarrow> (None, None)
          | Some tel \<Rightarrow> (case telev_recv tel (mbuf_set_pos mb RTP_HEADER_SIZE) of
                (Inl e, tel, _) \<Rightarrow> (None, Some tel)
              | (Inr (event, end), tel, _) \<Rightarrow> (Some (telev_code2digit (uint event)), Some tel))))"

section \<open>The duration\<close>

lemma duration_bounds:
  assumes "0 \<le> r" and "r \<le> m" and "mn \<le> mx"
  shows "mn \<le> get_max_duration m r mn mx \<and> get_max_duration m r mn mx \<le> mx"
proof -
  let ?n = "mx - mn + 1"
  have n: "0 < ?n" using assms(3) by simp
  have q: "0 \<le> m div ?n" using assms by (simp add: pos_imp_zdiv_nonneg_iff)
  have "m < ?n * (m div ?n + 1)"
    using div_mult_mod_eq [of m ?n] pos_mod_bound [OF n, of m] by (simp add: algebra_simps)
  with assms(2) have "r < ?n * (m div ?n + 1)" by simp
  moreover have "?n * k \<le> r" if "?n \<le> r div k" "0 < k" for k
    using mult_right_mono [OF that(1), of k] div_mult_mod_eq [of r k] pos_mod_sign [OF that(2), of r] that(2) by linarith
  ultimately have "r div (m div ?n + 1) < ?n" using q by (meson linorder_not_less zero_less_one add_nonneg_pos)
  moreover have "0 \<le> r div (m div ?n + 1)" using assms(1) q by (simp add: pos_imp_zdiv_nonneg_iff)
  ultimately show ?thesis by (simp add: get_max_duration_def)
qed

section \<open>An offer that is not ended\<close>

text \<open>Lines other than media lines change the remote side only, which reading starts from afresh.\<close>

definition keeps :: "sdp_session \<Rightarrow> sdp_media option \<Rightarrow> (ub + errno option \<times> sdp_session \<times> sdp_media option) \<Rightarrow> bool" where
  "keeps sess m x \<longleftrightarrow> (\<forall>err sess' m'. x = Inr (err, sess', m') \<longrightarrow> fresh sess' = fresh sess \<and>
     length (ss_medial sess') = length (ss_medial sess) \<and> ss_medial sess' = ss_medial sess \<and>
     map_option sdp_media_rreset m' = map_option sdp_media_rreset m)"

lemma keeps_if: "keeps sess m x \<Longrightarrow> keeps sess m y \<Longrightarrow> keeps sess m (if b then x else y)"
  by simp

lemma keeps_bind:
  assumes "\<And>e n. x = Inr (e, n) \<Longrightarrow> map_option sdp_media_rreset n = map_option sdp_media_rreset m"
  shows "keeps sess m (obind x (\<lambda>(err, m). Inr (err, sess, m)))"
  using assms by (auto simp: keeps_def obind_Inr_iff)

lemma rreset_updates [simp]:
  "sdp_media_rreset (x\<lparr>md_rdir := d\<rparr>) = sdp_media_rreset x" "sdp_media_rreset (x\<lparr>md_rattrl := as\<rparr>) = sdp_media_rreset x"
  "sdp_media_rreset (x\<lparr>md_rfmtl := fs\<rparr>) = sdp_media_rreset x" "sdp_media_rreset (x\<lparr>md_raddr_rtcp := a\<rparr>) = sdp_media_rreset x"
  "sdp_media_rreset (x\<lparr>md_raddr := a\<rparr>) = sdp_media_rreset x" "sdp_media_rreset (x\<lparr>md_rbwv := bw\<rparr>) = sdp_media_rreset x"
  by (simp_all add: sdp_media_rreset_def)

lemma fresh_updates [simp]:
  "fresh (sess\<lparr>ss_rdir := d\<rparr>) = fresh sess" "fresh (sess\<lparr>ss_rattrl := as\<rparr>) = fresh sess"
  "fresh (sess\<lparr>ss_raddr := a\<rparr>) = fresh sess" "fresh (sess\<lparr>ss_rbwv := bw\<rparr>) = fresh sess"
  by (simp_all add: fresh_def sdp_session_rreset_def)

lemma attr_decode_keeps: "keeps sess m (attr_decode net sess m v)"
proof (cases "re_regex (Some v) ''[^:]+:[^]+''")
  case (Inr r)
  obtain err c where r: "r = (err, c)" by fastforce
  have dir: "keeps sess m (Inr (None, set_rdir d sess m))" for d by (cases m) (simp_all add: keeps_def set_rdir_def)
  show ?thesis
    unfolding attr_decode_def Inr r Let_def obind.simps prod.case
  proof (intro keeps_if keeps_bind dir)
    fix e n
    show "attr_decode_fmtp m w = Inr (e, n) \<Longrightarrow> map_option sdp_media_rreset n = map_option sdp_media_rreset m" for w
      by (auto simp: attr_decode_fmtp_def Let_def obind_Inr_iff split: option.splits if_splits)
    show "attr_decode_rtcp net m w = Inr (e, n) \<Longrightarrow> map_option sdp_media_rreset n = map_option sdp_media_rreset m" for w
      by (auto simp: attr_decode_rtcp_def Let_def obind_Inr_iff split: option.splits if_splits)
    show "attr_decode_rtpmap m w = Inr (e, n) \<Longrightarrow> map_option sdp_media_rreset n = map_option sdp_media_rreset m" for w
      by (auto simp: attr_decode_rtpmap_def Let_def obind_Inr_iff split: option.splits if_splits)
  qed (auto simp: keeps_def split: option.splits)
qed (simp add: attr_decode_def keeps_def)

lemma fresh_put:
  assumes "i < length (ss_medial sess)" and "sdp_media_rreset m = sdp_media_rreset (ss_medial sess ! i)"
  shows "fresh (sess\<lparr>ss_medial := (ss_medial sess)[i := m]\<rparr>) = fresh sess"
proof -
  have "List.map sdp_media_rreset ((ss_medial sess)[i := m]) = List.map sdp_media_rreset (ss_medial sess)"
    using assms by (simp add: map_update list_update_same_conv)
  then show ?thesis by (simp add: fresh_def sdp_session_rreset_def)
qed

lemma decode_line_keeps:
  assumes "decode_line net offer ty v (Some i) sess = Inr (err, cur, sess')" and "ty \<noteq> CHR ''m''" and "i < length (ss_medial sess)"
  shows "cur = Some i \<and> fresh sess' = fresh sess \<and> length (ss_medial sess') = length (ss_medial sess)"
proof -
  let ?m = "ss_medial sess ! i"
  consider "ty = CHR ''a''" | "ty = CHR ''b''" | "ty = CHR ''c''" | "ty \<notin> {CHR ''a'', CHR ''b'', CHR ''c''}" by blast
  then show ?thesis
  proof cases
    case 1
    with assms obtain m' sess1 where a: "attr_decode net sess (Some ?m) v = Inr (err, sess1, m')"
      and r: "cur = Some i" "sess' = put_media sess1 (Some i) m'"
      by (auto simp: decode_line_def cur_media_def obind_Inr_iff)
    from attr_decode_keeps [of sess "Some ?m" net v] a obtain m1 where k: "fresh sess1 = fresh sess" "ss_medial sess1 = ss_medial sess"
      "m' = Some m1" "sdp_media_rreset m1 = sdp_media_rreset ?m" by (auto simp: keeps_def)
    then show ?thesis using r assms(3) fresh_put [of i sess1 m1] by (simp add: put_media_def)
  next
    case 2
    with assms show ?thesis using fresh_put [OF assms(3)]
      by (auto simp: decode_line_def cur_media_def put_media_def obind_Inr_iff)
  next
    case 3
    with assms show ?thesis using fresh_put [OF assms(3)]
      by (auto simp: decode_line_def cur_media_def put_media_def obind_Inr_iff)
  next
    case 4
    with assms show ?thesis by (auto simp: decode_line_def split: if_splits)
  qed
qed

lemma decode_lines_keeps:
  "decode_lines net offer ls (Some i) sess = Inr (err, cur, sess') \<Longrightarrow> \<forall>l\<in>set ls. fst l \<noteq> CHR ''m'' \<Longrightarrow>
    i < length (ss_medial sess) \<Longrightarrow> fresh sess' = fresh sess"
proof (induction ls arbitrary: sess)
  case (Cons l ls)
  from Cons.prems(1) obtain e c s where 1: "decode_line net offer (fst l) (snd l) (Some i) sess = Inr (e, c, s)"
    and 2: "(if e \<noteq> None then Inr (e, c, s) else decode_lines net offer ls c s) = Inr (err, cur, sess')"
    by (auto simp: obind_Inr_iff)
  have k: "c = Some i \<and> fresh s = fresh sess \<and> length (ss_medial s) = length (ss_medial sess)"
    using decode_line_keeps [OF 1] Cons.prems by simp
  show ?case
  proof (cases e)
    case None
    with 2 k Cons.IH [of s] Cons.prems show ?thesis by simp
  qed (use 2 k in simp)
qed simp

text \<open>The first reading stops at the end and leaves its media line behind, which the second one finds.\<close>

lemma take_unended: "take (length (concat (List.map sdp_line ls) @ sdp_line l) - 2) (concat (List.map sdp_line ls) @ sdp_line l) =
    concat (List.map sdp_line ls) @ fst l # ''='' @ snd l"
  by (simp add: sdp_line_def crlf_def)

lemma rreset_idem [simp]: "sdp_media_rreset (sdp_media_rreset m) = sdp_media_rreset m"
  by (simp add: sdp_media_rreset_def)

lemma received_cong:
  assumes "fresh t' = (fresh t)\<lparr>ss_lmedial := L', ss_medial := M'\<rparr>"
  shows "received s m d t' lm L = received s m d t lm L"
  using assms by (simp add: received_def)

lemma unended_offer:
  assumes net: "inet net"
    and s: "(if offer then ss_medial s @ filter (\<lambda>m. \<not> md_disabled m) (ss_lmedial s) else ss_medial s) = [m]"
      "\<not> md_disabled m" "supported m \<noteq> []" "offer \<or> sa_port (md_raddr m) \<noteq> 0" "media_printable m"
      "addr_ok (ss_laddr s)" "\<forall>a\<in>set (ss_lattrl s). attr_ok a"
      "sdp_encode net s offer = Inr (msg, s')" "length msg < 2 ^ 32"
    and t: "receiver True t lm L" "md_name lm = md_name m" "md_proto lm = md_proto m"
  shows "decode_sdp_offer net t (take (length msg - 2) msg) True = sdp_decode net t msg True"
proof -
  define d where "d = (if offer then md_ldir m else dir_and (md_ldir m) (md_rdir m))"
  obtain ls ms x v where msg: "msg = concat (List.map sdp_line (ls @ ms))" and ok: "\<forall>l\<in>set (ls @ ms). line_ok l" and ne: "ms \<noteq> []"
    and nm: "\<forall>l\<in>set ms. fst l \<noteq> CHR ''m''" and 1: "decode_lines net True ls None (fresh t) = Inr (None, Some 0, v)"
    and v: "v = (fresh t)\<lparr>ss_raddr := (sa_init AF_INET)\<lparr>sa_sin_addr := sa_sin_addr (ss_laddr s)\<rparr>,
      ss_rbwv := remote_bw (ss_lbwv s), ss_rattrl := ss_lattrl s, ss_lmedial := L, ss_medial := [x]\<rparr>"
    and 2: "reads net True ms x (remote_media s m d lm)" and x: "sdp_media_rreset x = sdp_media_rreset lm"
    unfolding d_def by (rule inet.decode_session_parts [OF net s t]) blast
  obtain bs l where ms: "ms = bs @ [l]" using ne by (metis rev_exhaust)
  have "decode_lines net True ms (Some 0) v = Inr (None, Some 0, v\<lparr>ss_medial := [remote_media s m d lm]\<rparr>)"
    using 2 unfolding reads_def by (simp add: v)
  then obtain cur w where w: "decode_lines net True bs (Some 0) v = Inr (None, cur, w)"
    by (auto simp: ms decode_lines_append obind_Inr_iff split: if_splits)
  have fw: "fresh w = fresh v" by (rule decode_lines_keeps [OF w]) (use nm in \<open>simp_all add: ms v\<close>)
  have "decode_lines net True (ls @ bs) None (fresh t) = Inr (None, cur, w)"
    by (simp only: decode_lines_append 1 w obind.simps prod.case simp_thms if_False)
  moreover have "\<forall>k\<in>set (ls @ bs). line_ok k" "line_ok l" using ok by (simp_all add: ms)
  ultimately have u: "sdp_decode net t (concat (List.map sdp_line (ls @ bs)) @ fst l # ''='' @ snd l) True = Inr (Some EBADMSG, w)"
    by (intro sdp_decode_unended)
  have m1: "msg = concat (List.map sdp_line (ls @ bs)) @ sdp_line l" by (simp add: msg ms)
  have m2: "take (length msg - 2) msg = concat (List.map sdp_line (ls @ bs)) @ fst l # ''='' @ snd l"
    unfolding m1 by (rule take_unended)
  have m3: "take (length msg - 2) msg @ crlf = msg" unfolding m2 by (simp add: m1 sdp_line_def)
  have fv: "fresh v = (fresh t)\<lparr>ss_lmedial := L, ss_medial := [sdp_media_rreset lm]\<rparr>"
    by (simp add: v fresh_def sdp_session_rreset_def x)
  have lm: "sdp_media_rreset lm = lm" using t(1) unfolding receiver_def by (metis rreset_idem)
  have "ss_lmedial w = L" "List.map sdp_media_rreset (ss_medial w) = [lm]"
    using arg_cong [OF fw, of ss_lmedial] arg_cong [OF fw, of ss_medial] lm x
    by (simp_all add: v fresh_def sdp_session_rreset_def)
  then have "receiver True w lm L" by (cases "ss_medial w") (auto simp: receiver_def)
  from inet.decode_session [OF net s this t(2,3)] inet.decode_session [OF net s t]
  have "sdp_decode net w msg True = sdp_decode net t msg True"
    using received_cong [OF fw [unfolded fv]] by (simp add: d_def)
  then show ?thesis unfolding decode_sdp_offer_def m3 unfolding m2 u by simp
qed

section \<open>A call comes in\<close>

text \<open>The media line of an incoming call, and whether it shares a format with a media line of an offer.\<close>

definition incoming_media :: "sa \<Rightarrow> sdp_media" where
  "incoming_media loc = hd (ss_lmedial (incoming_sdp loc 0 0))"

definition common_format :: "sdp_media \<Rightarrow> sdp_media \<Rightarrow> bool" where
  "common_format m lm \<longleftrightarrow> (\<exists>f\<in>set (supported m). \<exists>l\<in>set (md_lfmtl lm). sdp_format_cmp l (remote_format f))"

lemma incoming_sdp_lines:
  "ss_lmedial (incoming_sdp loc rid rver) = [incoming_media loc]" "ss_medial (incoming_sdp loc rid rver) = []"
  "md_name (incoming_media loc) = ''audio''" "md_proto (incoming_media loc) = ''RTP/AVP''" "\<not> md_disabled (incoming_media loc)"
  "sdp_media_rreset (incoming_media loc) = incoming_media loc"
  by (simp_all add: incoming_media_def incoming_sdp_def sdp_media_add_def sdp_session_alloc_def incoming_formats_def
      sdp_format_add_def media_alloc_def Let_def sdp_media_rreset_def)

lemma rel_option_None: "rel_option R x y \<Longrightarrow> y = None \<longleftrightarrow> x = None"
  by (cases x; cases y) simp_all

lemma incoming_call_offer:
  assumes "inet net" and one: "ss_medial s @ filter (\<lambda>m. \<not> md_disabled m) (ss_lmedial s) = [m]"
    and m: "\<not> md_disabled m" "supported m \<noteq> []" "media_printable m" "sa_port (md_laddr m) \<noteq> 0"
      "md_name m = ''audio''" "md_proto m = ''RTP/AVP''"
    and s: "addr_ok (ss_laddr s)" "\<forall>a\<in>set (ss_lattrl s). attr_ok a"
    and enc: "sdp_encode net s True = Inr (msg, s')" "length msg < 2 ^ 32"
    and id: "one_id (List.map remote_format (supported m)) (md_lfmtl (incoming_media loc))"
    and mb: "mb = msg \<or> mb = take (length msg - 2) msg"
  shows "\<exists>call. incoming_call_alloc net loc True rid rver acc (Inr rs) mb =
      Inr (None, if common_format m (incoming_media loc) then Waiting call else Lost call) \<and> ic_dest call = remote_addr s m"
proof -
  let ?t = "incoming_sdp loc rid rver" and ?lm = "incoming_media loc"
  have lm: "md_name ?lm = md_name m" "md_proto ?lm = md_proto m" using m incoming_sdp_lines by simp_all
  have r: "receiver True ?t ?lm []" by (simp add: receiver_def incoming_sdp_lines)
  have one': "(if True then ss_medial s @ filter (\<lambda>m. \<not> md_disabled m) (ss_lmedial s) else ss_medial s) = [m]"
    and o: "True \<or> sa_port (md_raddr m) \<noteq> 0" using one by simp_all
  have dec: "sdp_decode net ?t msg True = Inr (None, aligned True (received s m (md_ldir m) ?t ?lm []))"
    using inet.decode_session [OF assms(1) one' m(1,2) o m(3) s enc r lm] by simp
  then have "decode_sdp_offer net ?t msg True = sdp_decode net ?t msg True" by (simp add: decode_sdp_offer_def)
  moreover have "decode_sdp_offer net ?t (take (length msg - 2) msg) True = sdp_decode net ?t msg True"
    by (rule unended_offer [OF assms(1) one' m(1,2) o m(3) s enc r lm])
  ultimately have d: "decode_sdp_offer net ?t mb True = Inr (None, aligned True (received s m (md_ldir m) ?t ?lm []))"
    using mb dec by auto
  let ?r = "remote_media s m (md_ldir m) ?lm"
  let ?m = "sdp_media_align_formats ?r True"
  have al: "md_disabled ?m = md_disabled ?r" "md_raddr ?m = md_raddr ?r"
    by (simp_all add: sdp_media_align_formats_def split: prod.split)
  have own: "own_media (aligned True (received s m (md_ldir m) ?t ?lm [])) = Some ?m"
    by (simp add: own_media_def aligned_def received_def al) (simp add: remote_media_def incoming_sdp_lines)
  have dest: "md_raddr ?m = remote_addr s m" unfolding al by (simp add: remote_media_def)
  have port: "sa_port (md_raddr ?r) \<noteq> 0" "\<not> md_disabled ?r"
    using m(4) by (simp_all add: remote_media_def remote_addr_def sa_port_def has_port_def sa_init_def incoming_sdp_lines)
  have "rel_option same_remote
      (List.find (\<lambda>r. \<exists>l\<in>set (md_lfmtl ?lm). sdp_format_cmp l r) (List.map remote_format (supported m)))
      (sdp_media_rformat (Some ?m) None)"
    using agreed_format [OF port(2,1), of True] id by (simp add: remote_media_def)
  then have "sdp_media_rformat (Some ?m) None = None \<longleftrightarrow>
      List.find (\<lambda>r. \<exists>l\<in>set (md_lfmtl ?lm). sdp_format_cmp l r) (List.map remote_format (supported m)) = None"
    by (rule rel_option_None)
  then have "sdp_media_rformat (Some ?m) None = None \<longleftrightarrow> \<not> common_format m ?lm"
    by (auto simp: find_None_iff common_format_def)
  moreover have "sdp_media_raddr (Some ?m) = Some (remote_addr s m)" by (simp add: sdp_media_raddr_def dest)
  moreover define sd where "sd = aligned True (received s m (md_ldir m) ?t ?lm [])"
  moreover define a where "a = ?m"
  ultimately have f: "own_media sd = Some a" "sdp_media_raddr (Some a) = Some (remote_addr s m)"
    "decode_sdp_offer net ?t mb True = Inr (None, sd)" "sdp_media_rformat (Some a) None = None \<longleftrightarrow> \<not> common_format m ?lm"
    using own d by simp_all
  show ?thesis
    by (cases "common_format m ?lm") (simp_all add: incoming_call_alloc_def f Let_def)
qed

end
