(* ===== verification/Spec2Isabelle.thy ===== *)
theory Spec2Isabelle
  imports Samples Re_Tmr Re_Sip_Trip Re_Strans App_Main App_Incall
begin

text \<open>
  A verification development for autodialer-core, a predictive dialler in C: the application
  under \<^verbatim>\<open>src/src\<close> and the parts of the libre library under \<^verbatim>\<open>src/re/src\<close> that its own logic runs on.

  \<^bold>\<open>The program.\<close> A database thread (\<^verbatim>\<open>DbThread\<close>) alternates between \<^verbatim>\<open>db_sync\<close>, which sends the
  queued SQL statements, and \<^verbatim>\<open>pull_groups\<close>, which reads gateways, campaigns, destinations and key
  actions from their tables and posts each campaign that is not running to the main thread. There
  \<^verbatim>\<open>campaign_service_handler\<close> starts it: every ten seconds \<^verbatim>\<open>start_fake_calling\<close> moves destinations
  into the process list up to the call limit and places a call for each with \<^verbatim>\<open>call_alloc\<close>; every
  second \<^verbatim>\<open>on_call_end\<close> looks at each call and ends it, forwards it to a PBX, records it, and then
  drops its destination or queues it for another try. The SIP stack calls back into \<^verbatim>\<open>call.c\<close>; once a
  call is answered the thread \<^verbatim>\<open>rtpThread\<close> plays an audio file to it and \<^verbatim>\<open>rtp_recv_handler\<close> listens
  for pressed keys.

  \<^bold>\<open>The theories.\<close>
  \<^item> \<open>Prelude\<close>: machine integers, error numbers, undefined behaviour as a value, list lemmas.
  \<^item> \<open>Re_List\<close> (\<^verbatim>\<open>list.c\<close>): linked lists on a store of pointers, shown to be sequences; the locale
    \<open>linked_list\<close> is the interface its clients use.
  \<^item> \<open>Re_Tmr\<close> (\<^verbatim>\<open>tmr.c\<close>): the ordered list of timers, on top of \<open>Re_List\<close>.
  \<^item> \<open>Re_Mbuf\<close> (\<^verbatim>\<open>mbuf.c\<close>): buffers with position, end and growth.
  \<^item> \<open>Re_Telev\<close> (\<^verbatim>\<open>telev.c\<close>): sender and receiver of telephone events, with an abstract sender.
  \<^item> \<open>Re_Rtp\<close> (\<^verbatim>\<open>rtp.c\<close>): the header codec, sending, receiving and the choice of ports.
  \<^item> \<open>Re_Pl\<close> (\<^verbatim>\<open>pl.c\<close>, \<^verbatim>\<open>str.c\<close>, \<^verbatim>\<open>ch.c\<close>, numbers of \<^verbatim>\<open>print.c\<close>), \<open>Re_Regex\<close> (\<^verbatim>\<open>regex.c\<close>),
    \<open>Re_Uri\<close> (\<^verbatim>\<open>uri.c\<close>, \<^verbatim>\<open>uric.c\<close>, \<^verbatim>\<open>ucmp.c\<close>): texts, the matcher, addresses. \<open>Re_Print\<close> (\<^verbatim>\<open>print.c\<close>): the format language, with the locale
    \<open>print_sink\<close> for the handlers that receive the text. \<open>Re_Conf\<close> (\<^verbatim>\<open>conf.c\<close>): configuration files.
  \<^item> \<open>Re_Sa\<close> (\<^verbatim>\<open>sa.c\<close>, \<^verbatim>\<open>pton.c\<close>, \<^verbatim>\<open>ntop.c\<close>): socket addresses and their texts; the locale \<open>inet\<close> is what is
    expected of \<open>inet_pton\<close> and \<open>inet_ntop\<close>, interpreted by the implementation the library brings along.
  \<^item> \<open>Re_Sdp\<close> (\<^verbatim>\<open>sdp/attr.c\<close>, \<^verbatim>\<open>format.c\<close>, \<^verbatim>\<open>media.c\<close>, \<^verbatim>\<open>session.c\<close>), \<open>Re_Sdp_Msg\<close> (\<^verbatim>\<open>sdp/msg.c\<close>): session descriptions,
    the choice of a codec, messages printed and read. \<open>Re_Sdp_Trip\<close>: what one side prints, the other reads.
  \<^item> \<open>Re_Hash\<close> (\<^verbatim>\<open>hash.c\<close>, \<^verbatim>\<open>func.c\<close>): keys of texts, and tables, shown to be lists; the locale \<open>table\<close> is what their
    clients rely on. \<open>Re_Sip_Msg\<close> (\<^verbatim>\<open>sip/msg.c\<close>, \<^verbatim>\<open>via.c\<close>, \<^verbatim>\<open>cseq.c\<close>, \<^verbatim>\<open>addr.c\<close>, \<^verbatim>\<open>param.c\<close>): SIP messages and their
    headers. \<open>Re_Sip_Trip\<close>: printed messages are read header by header.
  \<^item> \<open>Re_Ctrans\<close> (\<^verbatim>\<open>sip/ctrans.c\<close>), \<open>Re_Strans\<close> (\<^verbatim>\<open>sip/strans.c\<close>), \<open>Re_Reply\<close> (\<^verbatim>\<open>sip/reply.c\<close>): the transactions of
    SIP on both sides, as step relations with timers that may fire late, and responses.
  \<^item> \<open>App_Types\<close> (\<^verbatim>\<open>call.h\<close>): the records of the application and the state its campaigns share.
  \<^item> \<open>App_Call\<close> (\<^verbatim>\<open>call.c\<close>): the pool of RTP sessions, calls, the handlers of the SIP stack.
  \<^item> \<open>App_Campaign\<close> (\<^verbatim>\<open>main.c\<close>): rounds and checks. \<open>App_Media\<close> (\<^verbatim>\<open>call.c\<close>): audio and keys.
  \<^item> \<open>App_Incall\<close> (\<^verbatim>\<open>in_call.c\<close>): incoming calls.
  \<^item> \<open>App_Db\<close> (\<^verbatim>\<open>db.c\<close>): the queue of statements; the locale \<open>fifo\<close> is what two threads expect of it.
  \<^item> \<open>App_System\<close>: a campaign with everything that happens to it, as a step relation.
  \<^item> \<open>App_Pull\<close> (\<^verbatim>\<open>pull_groups\<close> of \<^verbatim>\<open>main.c\<close>). \<open>App_Main\<close>: the start of the process. \<open>Samples\<close>: concrete objects for the witnesses.

  \<^bold>\<open>How code becomes definitions.\<close> Each C function is a definition of the same name that takes and
  returns the state it changes. An \<open>int\<close> error is an \<open>errno option\<close>, with a value \<open>errno + 'a\<close>. What C
  leaves undefined and the code can run into (a NULL pointer followed, a freed structure used, an
  index out of bounds, an unset variable) is \<open>Inl\<close> of type \<open>ub\<close>. Integers have their width as
  words, except the sizes of buffers, which are naturals with their wrap-around at 64 bits written
  out, and times, which are integers. Structures with one owner are components of their owner;
  gateways, actions and sessions, which are shared, are referred to by address or number. The
  results of system calls, of allocation, and of the SIP and MySQL libraries are arguments
  (\<open>env\<close>, \<open>allocator\<close>, functions); nothing is assumed of them but what a hypothesis says.

  \<^bold>\<open>Loops.\<close> Loops over pointers, sorting and polling are partial functions with results of option
  type, and are shown to return. \<open>rtp_loop\<close> takes the number of rounds of its endless loop as an
  argument: the statements hold for every number, and the theorem on the audio gives the number
  of rounds in which the file has been played as often as asked. The other recursions are total.

  \<^bold>\<open>What the theorems show.\<close> C1 to C7: campaigns, their invariant in all reachable states, the choice
  of destinations, time limits, the accounting for RTP sessions, and two faults. C8 to C12: keys
  and audio. C13 and C14: RTP. C15 to C17: the statement queue between its two threads. C18 to C21:
  timers and lists. C22 and C28: SIP messages. C23: addresses. C24 to C26: the pull. C27: formatted
  printing. C29 to C31: the configuration file and the state at the start. C32: the offer of
  a session is understood by the other side. C33: incoming calls. C34 to C40: SIP transactions: how their users are told of
  the outcome, that their timers are safe, how often messages are sent, and that messages find them.

  \<^bold>\<open>Not modelled.\<close> SIP dialogs and transports, DNS, TLS, ICE, STUN and other protocol stacks of the library below the
  calls the application makes, and RTCP; reference counts and locks, except where they order the
  two threads of the queue; log output; the command line, the
  release of everything at the end of the process; the start of \<^verbatim>\<open>in_call.c\<close>, which writes over the end of a variable.
\<close>

section \<open>Campaigns\<close>

text \<open>C1. In every state that a campaign can reach by rounds, checks of its calls, answers and hang-ups
  of the SIP stack, received packets and the audio thread: no destination is in two lists or twice
  in one, a destination has a running timer exactly while it has a call, no destination has been
  tried more often than the campaign allows, no RTP session is in two places, the process list
  never grows beyond the call limit, and no destination or session comes out of nowhere.\<close>

theorem campaign_invariant:
  assumes "camp_step\<^sup>*\<^sup>* (cp, g) (cp', g')"
    and "camp_inv cp" and "pool_ok g (dests_rtp (cp_processl cp) @ held)"
  shows "camp_inv cp' \<and> pool_ok g' (dests_rtp (cp_processl cp') @ held) \<and>
    length (cp_processl cp') \<le> max (length (cp_processl cp)) (unat (cp_call_limit cp)) \<and>
    mset (camp_ids cp') \<subseteq># mset (camp_ids cp) \<and>
    sessions g' (dests_rtp (cp_processl cp') @ held) \<subseteq># sessions g (dests_rtp (cp_processl cp) @ held)"
  using camp_reach_ok [of "(cp, g)" "(cp', g')" held] assms by (simp add: sys_inv_def sys_le_def)

lemma campaign_invariant_witness:
  "\<exists>cp' g'. camp_step\<^sup>*\<^sup>* (s_campaign [s_dest 7 0 None] [], s_shared [0, 1]) (cp', g') \<and>
    length (cp_processl cp') = 1 \<and> sh_rtp_free g' = [1] \<and> camp_inv cp' \<and>
    pool_ok g' (dests_rtp (cp_processl cp') @ [])"
proof -
  let ?cp = "s_campaign [s_dest 7 0 None] []" and ?g = "s_shared [0, 1]"
  have "case start_fake_calling (s_env 10) (\<lambda>_. s_env 10) ''/a'' ?cp ?g of
      Inr (cp, g) \<Rightarrow> length (cp_processl cp) = 1 \<and> sh_rtp_free g = [1] | Inl _ \<Rightarrow> False"
    by code_simp
  then obtain cp' g' where run: "start_fake_calling (s_env 10) (\<lambda>_. s_env 10) ''/a'' ?cp ?g = Inr (cp', g')"
    and r: "length (cp_processl cp') = 1" "sh_rtp_free g' = [1]" by (auto split: sum.splits)
  have step: "camp_step\<^sup>*\<^sup>* (?cp, ?g) (cp', g')" by (rule r_into_rtranclp) (rule camp_step.round [OF run])
  have "camp_inv ?cp" "pool_ok ?g (dests_rtp (cp_processl ?cp) @ [])"
    by (simp_all add: s_defs camp_inv_def camp_ids_def dest_inv_def tries_ok_def dest_call_ok_def pool_ok_def)
  with campaign_invariant [OF step] step r show ?thesis by blast
qed

text \<open>C2. A round takes into the process list only destinations that may be tried now, those with the
  fewest tries first, until the call limit is reached or none is left that may be tried; none is
  lost.\<close>

theorem round_selection:
  "\<exists>added. cp_processl (fill_round ev cp) = cp_processl cp @ added \<and>
    mset (cp_destinations cp) = mset (cp_destinations (fill_round ev cp)) + mset added \<and>
    (\<forall>d\<in>set added. \<not> too_early ev cp d) \<and>
    length (cp_processl (fill_round ev cp)) \<le> max (length (cp_processl cp)) (unat (cp_call_limit cp)) \<and>
    (length (cp_processl (fill_round ev cp)) < unat (cp_call_limit cp) \<longrightarrow>
      (\<forall>d\<in>set (cp_destinations (fill_round ev cp)). too_early ev cp d)) \<and>
    (\<forall>a\<in>set added. \<forall>w\<in>set (cp_destinations (fill_round ev cp)).
      too_early ev cp w \<or> d_try_count a \<le> d_try_count w)"
  by (rule fill_round_ok)

lemma round_selection_witness:
  "\<exists>a b. cp_processl (fill_round (s_env 100) (s_campaign [s_dest 1 2 None, s_dest 2 1 None, s_dest 3 0 None] [])) = [a, b] \<and>
    d_try_count a \<le> 2 \<and> d_try_count b \<le> 2"
proof -
  let ?cp = "s_campaign [s_dest 1 2 None, s_dest 2 1 None, s_dest 3 0 None] []"
  have d: "cp_destinations (fill_round (s_env 100) ?cp) = [s_dest 1 2 None]"
    "length (cp_processl (fill_round (s_env 100) ?cp)) = 2" by code_simp+
  from round_selection [of "s_env 100" ?cp] obtain added where
    "cp_processl (fill_round (s_env 100) ?cp) = cp_processl ?cp @ added"
    "\<forall>a\<in>set added. \<forall>w\<in>set (cp_destinations (fill_round (s_env 100) ?cp)).
      too_early (s_env 100) ?cp w \<or> d_try_count a \<le> d_try_count w" by blast
  moreover have "\<not> too_early (s_env 100) ?cp (s_dest 1 2 None)" by code_simp
  ultimately show ?thesis using d by (cases added; cases "tl added") (auto simp: s_defs)
qed

text \<open>C3. A call that nobody answers does not occupy a line for ever: if its destination is checked once
  40 seconds after the call was placed, it has left the process list by then, destroyed when its
  tries are used up and queued for another try otherwise.\<close>

theorem unanswered_call_ends:
  assumes "d_call d = Some c" and "c_status c < CALL_ESTABLISHED" and "c_pbx_call c = None" and "\<not> c_ended c"
    and "d_tmr d" and "\<exists>ev\<in>set evs. e_now ev - c_connect_tm c > 40"
  shows "\<exists>g'. check_until evs cp d g =
    Inr (if cp_max_try cp > 0 \<and> d_try_count d \<ge> cp_max_try cp then Destroy
         else Requeue (d\<lparr>d_call := None, d_tmr := False\<rparr>), g')"
  using assms by (rule check_until_timeout)

lemma unanswered_call_ends_witness:
  "\<exists>g'. check_until [s_env 1, s_env 30, s_env 41] (s_campaign [] []) (s_dest 7 3 (Some (s_call 0))) (s_shared [1]) =
    Inr (Destroy, g')"
proof -
  have "\<exists>g'. check_until [s_env 1, s_env 30, s_env 41] (s_campaign [] []) (s_dest 7 3 (Some (s_call 0))) (s_shared [1]) =
    Inr (if cp_max_try (s_campaign [] []) > 0 \<and> d_try_count (s_dest 7 3 (Some (s_call 0))) \<ge> cp_max_try (s_campaign [] []) then Destroy
         else Requeue ((s_dest 7 3 (Some (s_call 0)))\<lparr>d_call := None, d_tmr := False\<rparr>), g')"
    by (rule unanswered_call_ends [where c = "s_call 0"]) (simp_all add: s_defs call_zero_def less_call_status_def)
  then show ?thesis by (simp add: s_campaign_def s_dest_def)
qed

text \<open>C4. What a check does to a call that has waited 40 seconds for an answer: the end is recorded with
  duration 0 and the RTP session goes back to the pool.\<close>

theorem timeout_effect:
  assumes "d_call d = Some c" and "c_status c < CALL_ESTABLISHED" and "c_pbx_call c = None"
    and "e_now ev - c_connect_tm c > 40"
  shows "on_call_end ev cp d g =
    Inr (if cp_max_try cp > 0 \<and> d_try_count d \<ge> cp_max_try cp then Destroy
         else Requeue (d\<lparr>d_call := None, d_tmr := False\<rparr>),
      release_opt (c_rtp_sess c) (queue_sql (Q_end (d_id d) (d_try_count d) CALL_DISCONNECTED 0 (c_connect_tm c)
        (c_establish_tm c) (e_now ev) 1 (c_action_key c) (c_action_type c) (c_event_received c)) g))"
  using assms by (rule on_call_end_timeout)

lemma timeout_effect_witness:
  "case on_call_end (s_env 41) (s_campaign [] []) (s_dest 7 2 (Some (s_call 0))) (s_shared [1]) of
     Inr (Requeue d, g) \<Rightarrow> d_call d = None \<and> sh_rtp_free g = [1, 0] | _ \<Rightarrow> False"
proof -
  note t = timeout_effect [of "s_dest 7 2 (Some (s_call 0))" "s_call 0" "s_env 41" "s_campaign [] []" "s_shared [1]"]
  show ?thesis
    by (subst t) (simp_all add: s_defs call_zero_def less_call_status_def release_opt_def release_rtp_session_def
        queue_sql_def)
qed

text \<open>C5. Accounting for the RTP sessions when a call is allocated: on success the call holds exactly one
  more session than before, taken from the pool; on an error the pool is as before unless the SDP
  stack failed, and then at most one session is lost.\<close>

theorem call_alloc_sessions:
  assumes "pool_ok g held" and "call_alloc ev tel gateway pbx_pt g = Inr (r, g')"
  shows "case r of
      Inr c \<Rightarrow> pool_ok g' (own_rtp c @ held) \<and> sessions g' (own_rtp c @ held) = sessions g held \<and>
        c_status c = CALL_CONNECTING \<and> \<not> c_ended c \<and> c_connect_tm c = e_now ev
    | Inl e \<Rightarrow> pool_ok g' held \<and> sessions g' held \<subseteq># sessions g held \<and>
        size (sessions g held) \<le> size (sessions g' held) + 1 \<and>
        (e_sdp_media ev = None \<and> e_sdp_format ev = None \<and> e_sdp_telev ev = None \<longrightarrow>
          sessions g' held = sessions g held)"
proof (cases r)
  case (Inl e)
  with call_alloc_err [OF assms(1) assms(2) [unfolded Inl]] show ?thesis by simp
next
  case (Inr c)
  with call_alloc_ok [OF assms(1) assms(2) [unfolded Inr]] show ?thesis by simp
qed

lemma call_alloc_sessions_witness:
  "\<exists>c g'. call_alloc (s_env 5) (Some ''555'') s_uri None (s_shared [0, 1]) = Inr (Inr (c :: call), g') \<and>
    c_rtp_sess c = Some 0 \<and> c_pt c = 18 \<and> sessions g' (own_rtp c @ []) = sessions (s_shared [0, 1]) []"
proof -
  have "case call_alloc (s_env 5) (Some ''555'') s_uri None (s_shared [0, 1]) of
      Inr (Inr c, g') \<Rightarrow> c_rtp_sess (c :: call) = Some 0 \<and> c_pt c = 18 | _ \<Rightarrow> False" by code_simp
  then obtain c :: call and g' where
    1: "call_alloc (s_env 5) (Some ''555'') s_uri None (s_shared [0, 1]) = Inr (Inr c, g')"
    "c_rtp_sess c = Some 0" "c_pt c = 18" by (auto split: sum.splits)
  have "pool_ok (s_shared [0, 1]) []" by (simp add: s_defs pool_ok_def)
  from call_alloc_sessions [OF this 1(1)] 1 show ?thesis by auto
qed

text \<open>C6. A code bug: when no RTP session is free, placing a call follows the list element of a
  destination that was just released.\<close>

theorem no_session_use_after_free:
  assumes "d_call d = None" and "cp_gateway cp = Some a" and "gw_deref g a = Inr gw" and "e_call_mem ev"
    and "call_codec (gw_sip_uri gw) None = Inr codec" and "\<forall>i\<in>set (sh_rtp_free g). rts_in_use (sh_rtp g i)"
  shows "place_call ev path cp d g = Inl Use_after_free"
  using assms by (rule place_call_exhausted)

lemma no_session_use_after_free_witness:
  "place_call (s_env 5) ''/a'' (s_campaign [] []) (s_dest 7 0 None) (s_shared []) = Inl Use_after_free"
proof -
  have "call_codec s_uri None = Inr (18, Some ''18'')" by code_simp
  then have "call_codec (gw_sip_uri s_gateway) None = Inr (18, Some ''18'')" by (simp add: s_gateway_def)
  then show ?thesis
    by (intro no_session_use_after_free [where gw = s_gateway and a = 1]) (simp_all add: s_defs gw_deref_def)
qed

text \<open>C7. A code bug: a call that was answered is dialled again when the call it was forwarded to was
  not answered, although the duration just recorded for it is that of the whole call.\<close>

theorem answered_call_redialled:
  assumes "d_call d = Some c" and "c_ended c" and "c_status c = CALL_ESTABLISHED"
    and "c_pbx_call c = Some p" and "c_status p \<noteq> CALL_ESTABLISHED"
    and "\<not> (cp_max_try cp > 0 \<and> d_try_count d \<ge> cp_max_try cp)"
    and "on_call_end ev cp d g = Inr (f, g')"
  shows "f = Requeue (d\<lparr>d_call := None, d_tmr := False\<rparr>) \<and>
    (\<exists>q. sh_sqllist g' = sh_sqllist g @ [Q_end (d_id d) (d_try_count d) CALL_DISCONNECTED
        (e_now ev - c_establish_tm c) (c_connect_tm c) (c_establish_tm c) (e_now ev) 1
        (c_action_key c) (c_action_type c) (c_event_received c), q])"
  using assms by (rule on_call_end_redial)

definition s_forwarded :: call where
  "s_forwarded = (s_call 0)\<lparr>c_ended := True, c_status := CALL_ESTABLISHED, c_establish_tm := 10,
     c_join_pbx := True, c_forwarded := True, c_pbx_call := Some ((s_call 1)\<lparr>c_ispbxcall := True\<rparr>)\<rparr>"

lemma answered_call_redialled_witness:
  "\<exists>d' g' q. on_call_end (s_env 100) (s_campaign [] []) (s_dest 7 2 (Some s_forwarded)) (s_shared []) = Inr (Requeue d', g') \<and>
    sh_sqllist g' = [Q_end 7 2 CALL_DISCONNECTED 90 0 10 100 1 0 0 False, q]"
proof -
  let ?d = "s_dest 7 2 (Some s_forwarded)"
  have "case on_call_end (s_env 100) (s_campaign [] []) ?d (s_shared []) of Inr _ \<Rightarrow> True | Inl _ \<Rightarrow> False"
    by code_simp
  then obtain f g' where r: "on_call_end (s_env 100) (s_campaign [] []) ?d (s_shared []) = Inr (f, g')"
    by (auto split: sum.splits)
  from answered_call_redialled [OF _ _ _ _ _ _ r, of s_forwarded "(s_call 1)\<lparr>c_ispbxcall := True\<rparr>"] r show ?thesis
    by (auto simp: s_defs s_forwarded_def call_zero_def)
qed

section \<open>Media\<close>

text \<open>C8. A key pressed by the callee has the effect of its action exactly once, however many of its
  packets get lost or repeated, as long as one packet of the held key and one of its end arrive.\<close>

theorem key_press_action:
  assumes "listening g i tel" and "tel_rx_event tel = -1" and "\<not> c_event_received c"
    and "helds \<noteq> []" and "\<forall>p\<in>set helds. event_hdr (fst p) \<and> (\<exists>m d. snd p = (m, e, False, d))"
    and "ends \<noteq> []" and "\<forall>p\<in>set ends. event_hdr (fst p) \<and> (\<exists>m d. snd p = (m, e, True, d))"
  shows "\<exists>g'. rtp_recvs cp i (List.map event_dgram (helds @ ends)) c g = Inr (event_action cp e c, g')"
  using assms by (rule rtp_recvs_key)

definition s_hdr :: "u16 \<Rightarrow> rtp_header" where
  "s_hdr n = rtp_hdr_zero\<lparr>hdr_ver := 2, hdr_pt := 101, hdr_seq := n\<rparr>"

definition s_listening :: "telev \<Rightarrow> shared" where
  "s_listening tel = (s_shared [1])\<lparr>sh_rtp := (\<lambda>_. (s_session True)\<lparr>rts_telev := Some tel, rts_telev_recv := True\<rparr>)\<rparr>"

definition s_telev :: telev where
  "s_telev = \<lparr>tel_mb = mbuf_of [], tel_ptime = 50, tel_state = IDLE, tel_event = 0, tel_dur = 0, tel_txc = 0,
     tel_rx_event = -1, tel_rx_end = False\<rparr>"

lemma key_press_action_witness:
  "\<exists>c' g'. rtp_recvs (s_campaign [] []) 0
      (List.map event_dgram [(s_hdr 1, (True, 5, False, 400)), (s_hdr 3, (False, 5, True, 800))])
      (s_call 0 :: call) (s_listening s_telev) = Inr (c', g') \<and> c_action c' = Some 3 \<and> c_ended c'"
proof -
  have hdr: "event_hdr (s_hdr n)" for n
    by (simp add: event_hdr_def rtp_hdr_ok_def s_hdr_def rtp_hdr_zero_def word_le_nat_alt)
  have "\<exists>g'. rtp_recvs (s_campaign [] []) 0
      (List.map event_dgram ([(s_hdr 1, (True, 5, False, 400))] @ [(s_hdr 3, (False, 5, True, 800))]))
      (s_call 0 :: call) (s_listening s_telev) = Inr (event_action (s_campaign [] []) 5 (s_call 0), g')"
    by (rule key_press_action [where tel = s_telev])
      (auto simp: hdr listening_def s_listening_def s_telev_def s_defs call_zero_def)
  moreover have "c_action (event_action (s_campaign [] []) 5 (s_call 0 :: call)) = Some 3"
    "c_ended (event_action (s_campaign [] []) 5 (s_call 0 :: call))" by code_simp+
  ultimately show ?thesis by auto
qed

text \<open>C9. While the call goes on, the audio thread sends the frames of the file as often as the campaign
  says and then packets without a payload; the receiver of the stream gets them in order, with
  consecutive sequence numbers and timestamps one frame apart.\<close>

theorem audio_played:
  assumes "\<And>n. al_ok A n" and "codec \<le> 127" and "\<And>j. \<not> stop j" and "\<And>n. src n = Content bs"
    and "c_rs c = Some rs" and "unat max_play = unat (c_num_play c) + m" and "\<not> rs_rtcp_mux rx"
  shows "\<exists>dgs c' ps. rtp_loop A stop src codec max_play (m + s) k c = Inr (False, dgs, c') \<and>
    c_num_play c' = max_play \<and> ps = concat (replicate m (frames (fsize_of codec) bs)) @ replicate s [] \<and>
    List.map (rx_frame rx) dgs = List.map (\<lambda>i. Some (codec, rs_seq rs + of_nat i,
      c_ts c + of_nat i * fts_of codec, ps ! i)) [0..<length ps]"
proof -
  define ps where "ps = concat (replicate m (frames (fsize_of codec) bs)) @ replicate s []"
  have "\<exists>c'. rtp_loop A stop src codec max_play (m + s) k c =
      Inr (False, rtp_stream rs codec (c_ts c) (fts_of codec) ps, c') \<and> c_num_play c' = max_play"
    unfolding ps_def by (rule rtp_loop_plays) (fact assms)+
  then obtain c' where 1: "rtp_loop A stop src codec max_play (m + s) k c =
      Inr (False, rtp_stream rs codec (c_ts c) (fts_of codec) ps, c')" "c_num_play c' = max_play"
    by blast
  have "fsize_of codec < 2 ^ 32" by (simp add: fsize_of_def codec_params_def)
  then have "\<forall>p\<in>set ps. length p < 2 ^ 32" by (auto simp: ps_def dest!: frames_length)
  from rx_frames_stream [OF assms(7,2) this] 1 show ?thesis unfolding ps_def by blast
qed

definition s_rx :: "unit rtp_sock" where
  "s_rx = \<lparr>rs_seq = 0, rs_ssrc = 0, rs_rtcp = None, rs_rtcp_mux = False\<rparr>"

lemma g729_frames: "fsize_of 18 = 40" "fts_of 18 = 320"
  by code_simp+

lemma audio_played_witness:
  "\<exists>dgs c'. rtp_loop mem_all (\<lambda>_. False) (\<lambda>_. Content (replicate 85 1)) 18 2 3 0 (s_call 0 :: call) = Inr (False, dgs, c') \<and>
    List.map (rx_frame s_rx) dgs = [Some (18, 7, 0, replicate 40 1), Some (18, 8, 320, replicate 40 1),
      Some (18, 9, 640, replicate 40 1), Some (18, 10, 960, replicate 40 1), Some (18, 11, 1280, [])]"
proof -
  define bs :: "u8 list" where "bs = replicate 85 1"
  define ps where "ps = concat (replicate 2 (frames (fsize_of 18) bs)) @ replicate 1 []"
  have fs: "frames 40 bs = [replicate 40 1, replicate 40 1]"
    unfolding bs_def by (simp add: frames.simps [of 40])
  then have ps: "ps = [replicate 40 1, replicate 40 1, replicate 40 1, replicate 40 1, []]"
    by (simp add: ps_def g729_frames numeral_2_eq_2)
  have "\<exists>dgs c' qs. rtp_loop mem_all (\<lambda>_. False) (\<lambda>_. Content bs) 18 2 (2 + 1) 0 (s_call 0 :: call) = Inr (False, dgs, c') \<and>
    c_num_play c' = 2 \<and> qs = concat (replicate 2 (frames (fsize_of 18) bs)) @ replicate 1 [] \<and>
    List.map (rx_frame s_rx) dgs = List.map (\<lambda>i. Some (18, rs_seq (s_rx\<lparr>rs_seq := 7, rs_ssrc := 99\<rparr>) + of_nat i,
      c_ts (s_call 0 :: call) + of_nat i * fts_of 18, qs ! i)) [0..<length qs]"
    by (rule audio_played) (simp_all add: s_defs s_rx_def call_zero_def word_le_nat_alt)
  then obtain dgs c' where 1: "rtp_loop mem_all (\<lambda>_. False) (\<lambda>_. Content bs) 18 2 (2 + 1) 0 (s_call 0 :: call) = Inr (False, dgs, c')"
    "List.map (rx_frame s_rx) dgs = List.map (\<lambda>i. Some (18, rs_seq (s_rx\<lparr>rs_seq := 7, rs_ssrc := 99\<rparr>) + of_nat i,
      c_ts (s_call 0 :: call) + of_nat i * fts_of 18, ps ! i)) [0..<length ps]"
    unfolding ps_def by blast
  have "[0..<length ps] = [0, 1, 2, 3, 4]" by (simp add: ps upt_rec)
  then have "List.map (rx_frame s_rx) dgs = [Some (18, 7, 0, replicate 40 1), Some (18, 8, 320, replicate 40 1),
      Some (18, 9, 640, replicate 40 1), Some (18, 10, 960, replicate 40 1), Some (18, 11, 1280, [])]"
    by (simp only: 1(2)) (simp add: ps s_defs call_zero_def g729_frames s_rx_def)
  with 1(1) show ?thesis by (simp add: bs_def)
qed

text \<open>C10. Whatever the file and whenever the call ends, the audio thread sends one RTP stream, of frames
  of the codec's size and packets without a payload, and does nothing undefined while there is memory.\<close>

theorem audio_stream:
  assumes "\<And>n. al_ok A n" and "codec \<le> 127" and "c_rs c = Some rs"
  shows "\<exists>r ps c'. rtp_loop A stop src codec max_play n k c =
      Inr (r, rtp_stream rs codec (c_ts c) (fts_of codec) ps, c') \<and>
    sent c rs (fts_of codec) (length ps) c' \<and> (\<forall>p\<in>set ps. p = [] \<or> length p = fsize_of codec)"
  using assms by (rule rtp_loop_stream)

lemma audio_stream_witness:
  "\<exists>r ps c'. rtp_loop mem_all (\<lambda>k. k = 2) (\<lambda>n. if n = 1 then No_file else Content (replicate 90 3)) 0 9 4 0 (s_call 0 :: call) =
      Inr (r, rtp_stream (s_rx\<lparr>rs_seq := 7, rs_ssrc := 99\<rparr>) 0 0 160 ps, c')"
proof -
  have "\<exists>r ps c'. rtp_loop mem_all (\<lambda>k. k = 2) (\<lambda>n. if n = 1 then No_file else Content (replicate 90 3)) 0 9 4 0 (s_call 0 :: call) =
      Inr (r, rtp_stream (s_rx\<lparr>rs_seq := 7, rs_ssrc := 99\<rparr>) 0 (c_ts (s_call 0 :: call)) (fts_of 0) ps, c') \<and>
    sent (s_call 0) (s_rx\<lparr>rs_seq := 7, rs_ssrc := 99\<rparr>) (fts_of 0) (length ps) c' \<and>
    (\<forall>p\<in>set ps. p = [] \<or> length p = fsize_of 0)"
    by (rule audio_stream) (simp_all add: s_defs s_rx_def call_zero_def)
  then show ?thesis by (auto simp: fts_of_def codec_params_def s_call_def call_zero_def)
qed

text \<open>C11. The telephone event sender of \<open>telev.c\<close> refines a machine over the queue of keys: polled often
  enough it sends, key by key, the packets that RFC 4733 asks for, and leaves the later keys queued.\<close>

theorem telev_sender_refines:
  fixes tel :: telev
  assumes "mbuf_ok (tel_mb tel)" and "tel_abs tel = (Idle_p, key_queue es @ q)"
  shows "\<exists>tel'. telev_polls A tel (12 * length es) =
      (List.map wire (concat (List.map (key_packets (tel_step tel)) es)), tel') \<and>
    mbuf_ok (tel_mb tel') \<and> tel_abs tel' = (Idle_p, q)"
  using assms by (rule telev_polls_keys)

lemma telev_sender_refines_witness:
  "\<exists>tel'. telev_polls mem_all (s_telev\<lparr>tel_mb := mbuf_of [5, 255]\<rparr>) 12 = (List.map wire (key_packets 400 5), tel') \<and>
    tel_abs tel' = (Idle_p, [])"
proof -
  let ?t = "s_telev\<lparr>tel_mb := mbuf_of [5, 255]\<rparr>"
  have "mbuf_ok (tel_mb ?t)" "tel_abs ?t = (Idle_p, key_queue [5] @ [])"
    by (simp_all add: mbuf_of_ok tel_abs_def tel_phase_def s_telev_def key_queue_def)
  from telev_sender_refines [OF this, of mem_all] show ?thesis by (auto simp: tel_step_def s_telev_def)
qed

text \<open>C12. Keys sent by the sender are reported by the receiver: press and release of each, in order.\<close>

theorem telev_end_to_end:
  fixes tel rx :: telev
  assumes "mbuf_ok (tel_mb tel)" and "tel_abs tel = (Idle_p, key_queue es @ q)" and "tel_rx_event rx = -1"
  shows "\<exists>pkts tel' rx'. telev_polls A tel (12 * length es) = (List.map (\<lambda>(m, bs). Inr (m, bs)) pkts, tel') \<and>
    telev_recvs rx (List.map snd pkts) = (concat (List.map (\<lambda>e. [(e, False), (e, True)]) es), rx')"
proof -
  define pks where "pks = concat (List.map (key_packets (tel_step tel)) es)"
  define pkts where "pkts = List.map (\<lambda>pk. (fst pk, packet_bytes pk)) pks"
  from telev_polls_keys [OF assms(1,2), of A] obtain tel' where
    1: "telev_polls A tel (12 * length es) = (List.map wire pks, tel')" unfolding pks_def by blast
  from telev_recvs_keys [OF assms(3), of "tel_step tel" es] obtain rx' where
    2: "telev_recvs rx (List.map packet_bytes pks) = (concat (List.map (\<lambda>e. [(e, False), (e, True)]) es), rx')"
    unfolding pks_def by blast
  have "List.map wire pks = List.map (\<lambda>(m, bs). Inr (m, bs)) pkts" "List.map packet_bytes pks = List.map snd pkts"
    by (simp_all add: pkts_def wire_def)
  with 1 2 show ?thesis by auto
qed

lemma telev_end_to_end_witness:
  "\<exists>pkts tel' rx'. telev_polls mem_all (s_telev\<lparr>tel_mb := mbuf_of [5, 255, 11, 255]\<rparr>) 24 =
      (List.map (\<lambda>(m, bs). Inr (m, bs)) pkts, tel') \<and>
    telev_recvs s_telev (List.map snd pkts) = ([(5, False), (5, True), (11, False), (11, True)], rx')"
proof -
  let ?t = "s_telev\<lparr>tel_mb := mbuf_of [5, 255, 11, 255]\<rparr>"
  have "mbuf_ok (tel_mb ?t)" "tel_abs ?t = (Idle_p, key_queue [5, 11] @ [])" "tel_rx_event s_telev = -1"
    by (simp_all add: mbuf_of_ok tel_abs_def tel_phase_def s_telev_def key_queue_def)
  from telev_end_to_end [OF this, of mem_all] show ?thesis by simp
qed

section \<open>RTP\<close>



text \<open>C14. A packet sent from a buffer with room for a header arrives: the receiver's handler gets the
  payload type, timestamp, sequence number and payload, and the sender's sequence number moves on by one.\<close>

theorem rtp_send_receive:
  assumes "mbuf_ok mb" and "12 \<le> mb_pos mb" and "pt \<le> 127" and "\<not> rs_rtcp_mux rx" and "length (mb_rest mb) < 2 ^ 32"
  shows "\<exists>d rs' mb'. rtp_send A tx udp rs False pt ts mb = Inr (udp d, Some d, rs', mb') \<and>
    rx_frame rx d = Some (pt, rs_seq rs, ts, mb_rest mb) \<and> rs_seq rs' = rs_seq rs + 1"
  using rtp_send_datagram [OF assms(1-3), of A tx udp rs False ts] rx_frame_packet [OF assms(4,3,5), of rs ts]
  by blast

definition s_packet :: mbuf where
  "s_packet = \<lparr>mb_buf = replicate 12 0 @ [1, 2, 3], mb_size = 15, mb_pos = 12, mb_end = 15\<rparr>"

lemma rtp_send_receive_witness:
  "\<exists>d rs' mb'. rtp_send mem_all (\<lambda>_ _. id) (\<lambda>_. None) s_rx False 8 160 s_packet = Inr (None, Some d, rs', mb') \<and>
    rx_frame s_rx d = Some (8, 0, 160, [1, 2, 3])"
proof -
  have "mbuf_ok s_packet" "12 \<le> mb_pos s_packet" "mb_rest s_packet = [1, 2, 3]"
    by (simp_all add: s_packet_def mbuf_ok_def mb_rest_def)
  with rtp_send_receive [of s_packet 8 s_rx mem_all "\<lambda>_ _. id" "\<lambda>_. None" s_rx 160] show ?thesis
    by (auto simp: s_rx_def word_le_nat_alt)
qed

text \<open>The port chosen for an RTP and RTCP pair is even and in the range, for every random number.\<close>

theorem pick_port_bounds:
  assumes "lo < hi" and "even (unat lo)"
  shows "lo \<le> pick_port lo hi r \<and> pick_port lo hi r < hi \<and> even (unat (pick_port lo hi r))"
  using pick_port_range [OF assms] by blast

lemma pick_port_bounds_witness:
  "8000 \<le> pick_port 8000 20000 12345 \<and> pick_port 8000 20000 12345 < 20000 \<and> even (unat (pick_port 8000 20000 12345))"
  by (rule pick_port_bounds) (simp_all add: word_less_nat_alt)

section \<open>Database\<close>



text \<open>C16. A code bug: when the server is gone and cannot be reached again, the statements taken from the
  queue are dropped, and the next use of the connection is a use of a handle that is closed or NULL.\<close>

theorem db_sync_loses:
  assumes "db_con s = Open" and "\<not> ping" and "db_credentials cfg = Inr cred" and "\<not> init \<or> \<not> conn cred"
  shows "\<exists>s'. db_sync ping init conn cfg s = Inr s' \<and> db_sqllist s' = [] \<and> db_sent s' = db_sent s \<and>
    (\<exists>u. db_sync p i c f s' = Inl u) \<and> (\<exists>u. get_results fl res s' = Inl u)"
  using db_sync_lost [of s ping cfg cred init conn] assms by blast

lemma db_sync_loses_witness:
  "\<exists>s'. db_sync False True (\<lambda>_. False) \<lparr>cfg_user = Some ''u'', cfg_pass = Some ''p'', cfg_db = Some ''d'', cfg_host = Some ''h''\<rparr>
      \<lparr>db_con = Open, db_sqllist = [''update''], db_sent = []\<rparr> = Inr s' \<and> db_sqllist s' = [] \<and> db_sent s' = []"
  using db_sync_loses [of "\<lparr>db_con = Open, db_sqllist = [''update''], db_sent = []\<rparr>" False
      "\<lparr>cfg_user = Some ''u'', cfg_pass = Some ''p'', cfg_db = Some ''d'', cfg_host = Some ''h''\<rparr>" "[''u'', ''p'', ''d'', ''h'']"
      True "\<lambda>_. False" True True "\<lambda>_. False" undefined True None]
  by (auto simp: db_credentials_def)

text \<open>C17. \<open>db_sync\<close> as a whole is a run of the steps of the database thread.\<close>

theorem db_sync_refines:
  assumes "th_batch t = []" and "db_sync ping init conn cfg (th_db t) = Inr s"
  shows "\<exists>t'. th_step\<^sup>*\<^sup>* t t' \<and> th_db t' = s \<and> th_batch t' = [] \<and> th_log t' = th_log t"
  using assms by (rule db_sync_steps)

lemma db_sync_refines_witness:
  "\<exists>t'. th_step\<^sup>*\<^sup>* ((th_init :: nat threads)\<lparr>th_db := \<lparr>db_con = Open, db_sqllist = [4, 5], db_sent = []\<rparr>\<rparr>) t' \<and>
    db_sent (th_db t') = [4, 5]"
proof -
  let ?t = "(th_init :: nat threads)\<lparr>th_db := \<lparr>db_con = Open, db_sqllist = [4, 5], db_sent = []\<rparr>\<rparr>"
  have "th_batch ?t = []" "db_sync True True (\<lambda>_. True) \<lparr>cfg_user = None, cfg_pass = None, cfg_db = None, cfg_host = None\<rparr>
      (th_db ?t) = Inr \<lparr>db_con = Open, db_sqllist = [], db_sent = [4, 5]\<rparr>"
    by (simp_all add: th_init_def db_sync_def db_detach_def db_check_def use_handle_def)
  from db_sync_refines [OF this] show ?thesis by auto
qed


section \<open>Timers and lists\<close>

text \<open>A thread with no timers; the list of its timers is at address 0.\<close>

definition s_timers :: tmrst where
  "s_timers = \<lparr>theap = \<lparr>les = (\<lambda>_. \<lparr>le_prev = None, le_next = None, le_list = None, le_data = None\<rparr>),
       lists = (\<lambda>_. \<lparr>l_head = None, l_tail = None\<rparr>)\<rparr>,
     tjfs = (\<lambda>_. 0), tth = (\<lambda>_. None), targ = (\<lambda>_. None)\<rparr>"

lemma s_timers_inv: "tmr_inv 0 s_timers []"
  by (simp add: tmr_inv_def s_timers_def lrep_def)

text \<open>C18. Starting a timer, which may be active already, keeps the list of timers sorted by expiry and
  holding exactly the active timers: the timer goes behind all those that do not expire later.\<close>

theorem timer_start_sorted:
  assumes "tmr_inv tm s xs"
  shows "\<exists>s'. tmr_start tm (Some t) delay (Some f) arg now s = Some s' \<and>
    tmr_inv tm s' (insert_by (tjfs s) (delay + now) t (remove1 t xs)) \<and>
    tjfs s' = (tjfs s)(t := delay + now) \<and> tth s' = (tth s)(t := Some f)"
  using tmr_start_inv [OF assms, of t delay f arg now] by blast

lemma timer_start_sorted_witness:
  "\<exists>s'. tmr_start 0 (Some 7) 100 (Some 3) None 1000 s_timers = Some s' \<and> tmr_inv 0 s' [7] \<and> tjfs s' 7 = 1100"
  using timer_start_sorted [OF s_timers_inv, of 7 100 3 None 1000] by (auto simp: insert_by_def)

text \<open>C19. The poll loop of the timers ends: with handlers that never make more timers due than they
  found, the call returns, and no timer that has expired is left.\<close>

theorem timer_poll_ends:
  assumes "handler_ok tm jfs run" and "tmr_inv tm s xs"
  shows "\<exists>s' u' ys. tmr_poll tm run jfs (s, u) = Some (s', u') \<and> tmr_inv tm s' ys \<and> (\<forall>t\<in>set ys. jfs < tjfs s' t)"
  using tmr_poll_returns [OF assms, of u] by (fastforce simp: due_def filter_empty_conv not_le)

lemma timer_poll_ends_witness:
  "\<exists>s s' u' ys. tmr_start 0 (Some 7) 100 (Some 3) None 1000 s_timers = Some s \<and>
    tmr_poll 0 (\<lambda>f a su. su) 2000 (s, ()) = Some (s', u') \<and> tmr_inv 0 s' ys \<and> (\<forall>t\<in>set ys. 2000 < tjfs s' t)"
proof -
  from tmr_start_inv [OF s_timers_inv, of 7 100 3 None 1000] obtain s where
    s: "tmr_start 0 (Some 7) 100 (Some 3) None 1000 s_timers = Some s" "tmr_inv 0 s [7]"
    by (auto simp: insert_by_def)
  have "handler_ok 0 2000 (\<lambda>(f :: nat) (a :: nat option) (su :: tmrst \<times> unit). su)" by (auto simp: handler_ok_def)
  from timer_poll_ends [OF this s(2)] s(1) show ?thesis by blast
qed



text \<open>C21. Sorting a linked list in place returns, for every list and every order by a key: the list holds
  the same elements, sorted stably, and no other list of the store changes.\<close>

theorem list_sort_sorts:
  fixes key :: "nat \<Rightarrow> 'k::linorder"
  assumes "lrep h l xs"
  shows "\<exists>h'. list_sort l (\<lambda>x y. key x \<le> key y) h = Some h' \<and> lrep h' l (sort_key key xs) \<and>
    (\<forall>k ys. k \<noteq> l \<longrightarrow> lrep h k ys \<longrightarrow> lrep h' k ys)"
  using assms by (rule list_sort_rep)

lemma list_sort_sorts_witness:
  "\<exists>h h'. lrep h 0 [9, 5] \<and> list_sort 0 (\<lambda>x y. x \<le> y) h = Some h' \<and> lrep h' 0 [5, 9]"
proof -
  let ?h = "list_append (Some 0) (Some 9) None (theap s_timers)"
  have a: "lrep (theap s_timers) 0 []" using s_timers_inv by (simp add: tmr_inv_def)
  have b: "lrep ?h 0 [9]" using list_append_rep [OF a] by (simp add: s_timers_def)
  have "lrep (list_append (Some 0) (Some 5) None ?h) 0 [9, 5]"
    using list_append_rep [OF b, of 5 None] by (simp add: list_append_owner s_timers_def)
  with list_sort_sorts [OF this, of id] show ?thesis by (auto simp: insort_key.simps)
qed

section \<open>Buffers and texts\<close>

text \<open>C22. A request is taken apart piece by piece: the decoder, which goes once over all characters, does
  to the text of a request line and headers what reading the address and then the headers one after the
  other does, the first error included.\<close>

theorem sip_request_read:
  assumes "sip_word met" and "sip_word ruri" and "hs \<noteq> []" and "list_all hdr_ok hs"
    and "length (sip_head (req_line met ruri) hs @ body) < 2 ^ 32"
  shows "sip_msg_decode net rnd (sip_head (req_line met ruri) hs @ body) =
    obind (uri_decode (pton_af net) (Some ruri)) (\<lambda>(err, uri).
      if err \<noteq> None then Inr (Inl EBADMSG)
      else read_headers net ((msg_start rnd)\<lparr>sm_req := True, sm_met := Some met, sm_ruri := Some ruri,
        sm_ver := Some ''SIP/2.0'', sm_uri := uri\<rparr>) hs (length (sip_head (req_line met ruri) hs)))"
  using assms by (rule request_decode)

definition s_headers :: "(string \<times> string) list" where
  "s_headers = [(''Subject'', ''a b''), (''Max-Forwards'', ''70'')]"

lemma s_headers_ok: "s_headers \<noteq> []" "list_all hdr_ok s_headers"
  by (simp_all add: s_headers_def hdr_ok_def ws4_def)

lemma s_headers_hash: "hdr_hash ''Subject'' = 1043" "hdr_hash ''Max-Forwards'' = 3549"
  by (simp_all add: hdr_hash_def unsigned_and_eq joaat_eval)

definition s_target :: string where
  "s_target = ''sip:u@h:5060;prefix=9;codec=18''"

lemma s_target_uri: "uri_decode pton (Some s_target) = Inr (None, uri_decoded pton s_uri)"
  unfolding s_target_def
proof (rule uri_decode_encode)
  show "uri_printable s_uri" by (simp add: uri_printable_def s_uri_def pl_text_def pl_isset_def AF_UNSPEC_def AF_INET6_def)
  show "uri_encode s_uri = Inr ''sip:u@h:5060;prefix=9;codec=18''" by code_simp
qed simp

lemma s_request_ok:
  "sip_word ''OPTIONS''" "sip_word s_target" "length (sip_head (req_line ''OPTIONS'' s_target) s_headers @ ''x'') < 2 ^ 32"
  by (simp_all add: sip_word_def ws4_def s_target_def sip_head_def req_line_def s_headers_def hdr_line_def crlf_def)

lemma s_request_all:
  "\<exists>msg'. add_all net msg s_headers = Inr (None, msg') \<and> sm_maxfwd msg' = Some ''70''"
  by (simp add: s_headers_def hdr_add_def hdr_parse_def hdr_lists_def s_headers_hash parsed_ids Let_def)

lemma sip_request_read_witness:
  "\<exists>msg. sip_msg_decode own_net 7 (sip_head (req_line ''OPTIONS'' s_target) s_headers @ ''x'') =
    Inr (Inr (msg, length (sip_head (req_line ''OPTIONS'' s_target) s_headers))) \<and> sm_maxfwd msg = Some ''70''"
  using sip_request_read [OF s_request_ok(1,2) s_headers_ok s_request_ok(3), of own_net 7]
    s_request_all [of own_net "(msg_start 7)\<lparr>sm_req := True, sm_met := Some ''OPTIONS'', sm_ruri := Some s_target,
        sm_ver := Some ''SIP/2.0'', sm_uri := uri_decoded (pton_af own_net) s_uri\<rparr>"]
  by (auto simp: s_target_uri read_headers_def)

text \<open>What a write into a buffer stores is what a read from the same position returns; a write that
  fails for lack of memory changes nothing.\<close>

theorem mbuf_write_read:
  assumes "mbuf_ok mb" and "mb_pos mb + length ys < 2 ^ 64"
  shows "case mbuf_write_mem A mb (Some ys) of
      (None, mb') \<Rightarrow> mbuf_ok mb' \<and> mb_before mb' = mb_before mb @ ys \<and>
        fst (mbuf_read_mem (mbuf_set_pos mb' (mb_pos mb)) (length ys)) = Inr ys
    | (Some e, mb') \<Rightarrow> e = ENOMEM \<and> mb' = mb"
  using mbuf_write_mem_cursor [OF assms, of A]
proof (elim disjE exE conjE)
  fix mb' assume w: "mbuf_write_mem A mb (Some ys) = (None, mb')" "mbuf_ok mb'" "mb_before mb' = mb_before mb @ ys"
  have "length (mb_before mb') = mb_pos mb + length ys" using length_mb_before [OF assms(1)] w(3) by simp
  then have p: "mb_pos mb \<le> mb_end mb'" using length_mb_before [OF w(2)] w(2) by (simp add: mbuf_ok_def)
  have "mb_rest (mbuf_set_pos mb' (mb_pos mb)) = ys @ mb_rest mb'"
    using mbuf_set_pos_cursor(3) [OF w(2) p] w(3) length_mb_before [OF assms(1)] by (simp add: mb_content_split [OF w(2)])
  with mbuf_read_mem_cursor [OF mbuf_set_pos_cursor(1) [OF w(2) p], of "length ys"] w show ?thesis by auto
qed auto

lemma mbuf_write_read_witness:
  "case mbuf_write_mem mem_all mbuf_init (Some [1, 2]) of
      (None, mb') \<Rightarrow> mb_before mb' = [1, 2] \<and> fst (mbuf_read_mem (mbuf_set_pos mb' 0) 2) = Inr [1, 2]
    | (Some e, mb') \<Rightarrow> e = ENOMEM"
proof -
  have p: "mb_pos mbuf_init = 0" by (simp add: mbuf_init_def)
  have "mb_pos mbuf_init + length [1, 2 :: u8] < 2 ^ 64" by (simp add: p)
  from mbuf_write_read [OF mbuf_init_ok this, of mem_all] show ?thesis
    by (simp add: p numeral_2_eq_2 split: prod.splits option.splits)
qed

text \<open>Numbers survive printing in base 10 and reading back.\<close>

theorem number_print_parse:
  "pl_u64 (Some (local_itoa n 10 uc)) = n \<and> pl_u32 (Some (local_itoa n 10 uc)) = ucast n"
  using pl_itoa_roundtrip [of n uc] by blast

text \<open>The identifiers of headers in the enumeration of the library are the keys of their names, so that
  a name is turned into its identifier without a table; no two are equal, and a compact name of one letter
  has the identifier of the name it stands for.\<close>

theorem header_identifiers:
  "list_all (\<lambda>(n, i). SIP_HDR n = i \<and> hdr_hash (hdrid_name n) = i) sip_hdrid \<and> distinct (List.map snd sip_hdrid) \<and>
   list_all (\<lambda>(c, n). hdr_hash [c] = SIP_HDR n) compact_hdr"
  using SIP_HDR_hash hdrid_distinct(1) compact_hash by (auto simp: list_all_iff)

text \<open>Every text a regular expression captures is a part of the text that was searched.\<close>

theorem regex_captures_sub:
  assumes "re_regex (Some s) expr = Inr (err, caps)" and "caps k = Some t"
  shows "sublist t s"
  using assms by (rule re_regex_captures)

lemma regex_captures_sub_witness:
  "\<exists>err caps t. re_regex (Some ''a=42;'') ''a=[0-9]+'' = Inr (err, caps) \<and> caps 0 = Some t \<and> t = ''42'' \<and> sublist t ''a=42;''"
proof -
  have c: "case re_regex (Some ''a=42;'') ''a=[0-9]+'' of Inl u \<Rightarrow> False | Inr (err, caps) \<Rightarrow> caps 0 = Some ''42''"
    by code_simp
  then obtain err caps where r: "re_regex (Some ''a=42;'') ''a=[0-9]+'' = Inr (err, caps)"
    by (auto split: sum.splits)
  with c have "caps 0 = Some ''42''" by simp
  with regex_captures_sub [OF r this] r show ?thesis by blast
qed

text \<open>An expression without classes or escapes finds exactly the texts that contain it, up to the
  case of letters.\<close>

theorem regex_literal:
  assumes "plain ep" and "ep \<noteq> []"
  shows "re_regex (Some s) ep = Inr (if \<exists>a b c. s = a @ b @ c \<and> List.map tolower b = List.map tolower ep
      then None else Some ENOENT, \<lambda>_. None)"
  using assms by (rule re_regex_plain)

lemma regex_literal_witness:
  "re_regex (Some ''xABy'') ''ab'' = Inr (None, \<lambda>_. None)"
proof -
  have "\<exists>a b c. ''xABy'' = a @ b @ c \<and> List.map tolower b = List.map tolower ''ab''"
    by (rule exI [of _ "''x''"], rule exI [of _ "''AB''"], rule exI [of _ "''y''"]) code_simp
  with regex_literal [of "''ab''" "''xABy''"] show ?thesis by (simp add: plain_def)
qed

section \<open>Addresses\<close>



text \<open>Escaping a part of an address and unescaping it gives the text back, for every escape rule
  that escapes the percent sign and every ASCII text.\<close>

theorem escape_roundtrip:
  assumes "\<not> eh (CHR ''%'')" and "\<forall>c\<in>set s. (of_char c :: nat) < 128"
  shows "comp_unescape eh (comp_escape eh s) = Inr (None, s)"
  using assms by (rule comp_unescape_escape)

lemma escape_roundtrip_witness:
  "uri_user_unescape (uri_user_escape ''a b%'') = Inr (None, ''a b%'')"
  using escape_roundtrip [of is_user "''a b%''"]
  by (simp add: uri_user_unescape_def uri_user_escape_def) (simp add: is_user_def is_unreserved_def is_user_unreserved_def
      isalnum_def is_mark_def)

section \<open>The configuration\<close>

definition s_row :: row where
  "s_row = [Some ''4'', Some ''h'', Some ''5060'', Some ''u'', None, Some ''9'', Some ''18'']"


text \<open>The parameters a campaign gets from its row are in the ranges the dialler relies on.\<close>

theorem campaign_parameters:
  assumes "campaign_row g row cp = Some cp'"
  shows "1 \<le> cp_call_limit cp' \<and> cp_max_call_duration cp' \<le> 600 \<and> 1 \<le> cp_max_play cp'"
  using campaign_row_ranges [OF assms] by blast

definition s_camp_row :: row where
  "s_camp_row = [Some ''1'', Some ''1'', Some ''0'', Some ''900'', None, None, Some ''2'', Some ''5'', Some ''3'',
     Some ''0'', Some ''4'', Some ''4'', Some ''100'']"

lemma campaign_parameters_witness:
  "\<exists>cp'. campaign_row (s_shared [0]) s_camp_row campaign_zero = Some cp' \<and> 1 \<le> cp_call_limit cp' \<and>
    cp_max_call_duration cp' \<le> 600 \<and> 1 \<le> cp_max_play cp'"
proof (cases "campaign_row (s_shared [0]) s_camp_row campaign_zero")
  case None
  moreover have "parseInt (s_camp_row ! 6) = 2" unfolding s_camp_row_def by code_simp
  ultimately show ?thesis by (simp add: campaign_row_def Let_def split: if_splits)
next
  case (Some cp')
  with campaign_parameters [OF this] show ?thesis by blast
qed

text \<open>A row of the gateway table becomes the gateway it describes: the address built from its columns
  parses to the user, host, port and parameters of the row.\<close>

theorem gateway_row_uri:
  assumes "uri_printable u" and "uri_scheme u = Some ''sip''" and "uri_user u = Some us" and "us \<noteq> []"
    and "uri_host u = Some h" and "h \<noteq> []" and "uri_port u \<noteq> 0" and "uri_headers u = None"
    and "uri_params u = Some ('';prefix='' @ pfx @ '';codec='' @ concat (fmt_d (parseInt (row ! 6))))"
    and "row ! 1 = Some h" and "row ! 2 = Some (local_itoa (ucast (uri_port u)) 10 False)" and "row ! 3 = Some us"
    and "row ! 4 = uri_password u" and "row ! 5 = Some pfx" and "uri_encode u = Inr s" and "length s < 1024"
    and "gateway_find (parseInt (row ! 0)) g = None" and "\<forall>gw\<in>set (sh_gateways g). gw_addr gw \<noteq> sh_next g"
  shows "pull_gateway pton row g = Inr (g\<lparr>sh_gateways := sh_gateways g @ [\<lparr>gw_addr = sh_next g,
      gw_id = parseInt (row ! 0), gw_uri_str = Some s, gw_sip_uri = uri_decoded pton u\<rparr>], sh_next := sh_next g + 1\<rparr>)"
proof -
  have "uri_af u \<noteq> AF_INET6" using assms(1) by (simp add: uri_printable_def)
  then have "gateway_uristr row = s" by (rule gateway_uristr_encode [OF assms(2-6) _ assms(7-16)])
  moreover have "uri_decode pton (Some s) = Inr (None, uri_decoded pton u)"
    by (rule uri_decode_encode) (use assms in auto)
  ultimately show ?thesis by (rule pull_gateway_new [OF assms(17,18)])
qed

lemma gateway_row_uri_witness:
  "\<exists>g' gw. pull_gateway (\<lambda>_. None) s_row ((s_shared [0])\<lparr>sh_gateways := []\<rparr>) = Inr g' \<and> sh_gateways g' = [gw] \<and>
    gw_id gw = 4 \<and> uri_host (gw_sip_uri gw) = Some ''h'' \<and> uri_port (gw_sip_uri gw) = 5060"
proof -
  let ?g = "(s_shared [0])\<lparr>sh_gateways := []\<rparr>"
  have "uri_printable s_uri" by (simp add: uri_printable_def s_uri_def pl_text_def pl_isset_def AF_UNSPEC_def AF_INET6_def)
  moreover have "uri_encode s_uri = Inr ''sip:u@h:5060;prefix=9;codec=18''" by code_simp
  moreover have "concat (fmt_d (parseInt (s_row ! 6))) = ''18''" unfolding s_row_def by code_simp
  moreover have "local_itoa (ucast (uri_port s_uri)) 10 False = ''5060''" by code_simp
  moreover have i: "parseInt (s_row ! 0) = 4" unfolding s_row_def by code_simp
  moreover have "gateway_find (parseInt (s_row ! 0)) ?g = None" by (simp add: gateway_find_def)
  ultimately have "pull_gateway (\<lambda>_. None) s_row ?g = Inr (?g\<lparr>sh_gateways := sh_gateways ?g @ [\<lparr>gw_addr = sh_next ?g,
      gw_id = parseInt (s_row ! 0), gw_uri_str = Some ''sip:u@h:5060;prefix=9;codec=18'',
      gw_sip_uri = uri_decoded (\<lambda>_. None) s_uri\<rparr>], sh_next := sh_next ?g + 1\<rparr>)"
    by (intro gateway_row_uri [where us = "''u''" and h = "''h''" and pfx = "''9''"]) (simp_all add: s_uri_def s_row_def)
  with i show ?thesis by (simp add: uri_decoded_def s_uri_def)
qed

text \<open>C25. A code bug: when a paused campaign with calls under way runs out of waiting destinations, the
  pull fetches its destinations again, and one that is being called is queued a second time, with no tries.\<close>

theorem pull_duplicates:
  assumes "pull_service calls actions cp g = Inr (True, cp', g')" and "cp_destinations cp = []"
    and "calls (cp_id cp) = Some rows" and "row \<in> set rows" and "d \<in> set (cp_processl cp)"
    and "parseInt (row ! 0) = d_id d"
  shows "\<not> camp_inv cp' \<and> d \<in> set (cp_processl cp') \<and>
    (\<exists>d'\<in>set (cp_destinations cp'). d_id d' = d_id d \<and> d_try_count d' = 0)"
  using assms by (rule pull_service_duplicate)

lemma pull_duplicates_witness:
  "\<exists>cp' g'. pull_service (\<lambda>_. Some [[Some ''12'', Some ''555'']]) (\<lambda>_. Some [])
      ((s_campaign [] [s_dest 12 2 None])\<lparr>cp_is_running := False\<rparr>) (s_shared [0]) = Inr (True, cp', g') \<and> \<not> camp_inv cp'"
proof -
  let ?cp = "(s_campaign [] [s_dest 12 2 None])\<lparr>cp_is_running := False\<rparr>"
  obtain cp' g' where r: "pull_service (\<lambda>_. Some [[Some ''12'', Some ''555'']]) (\<lambda>_. Some []) ?cp (s_shared [0]) =
      Inr (True, cp', g')" by (simp add: pull_service_def s_campaign_def deref_def)
  have "parseInt ([Some ''12'', Some ''555''] ! 0) = 12" by code_simp
  with pull_duplicates [OF r, of "[[Some ''12'', Some ''555'']]" "[Some ''12'', Some ''555'']" "s_dest 12 2 None"] r show ?thesis
    by (simp add: s_campaign_def s_dest_def)
qed




section \<open>Printing\<close>



text \<open>C28. The headers of a request that was read are those of its text, in order, the rest of the text is
  the body, and a header is found: by a name the first one of that name up to the case of letters, by an
  identifier the first one whose name has that key.\<close>

theorem sip_headers_found:
  assumes "sip_word met" and "sip_word ruri" and "hs \<noteq> []" and "list_all hdr_ok hs" and "list_all (\<lambda>h. CHR 0x00 \<notin> set (fst h)) hs"
    and "length (sip_head (req_line met ruri) hs @ body) < 2 ^ 32"
    and "sip_msg_decode net rnd (sip_head (req_line met ruri) hs @ body) = Inr (Inr (msg, n))"
  shows "sm_req msg \<and> sm_met msg = Some met \<and> sm_ruri msg = Some ruri \<and> drop n (sip_head (req_line met ruri) hs @ body) = body \<and>
    List.map (\<lambda>h. (hdr_name h, hdr_val h)) (sm_hdrl msg) = hs \<and>
    map_option (\<lambda>h. (hdr_name h, hdr_val h)) (sip_msg_xhdr msg name) =
      List.find (\<lambda>h. List.map tolower (fst h) = List.map tolower name) hs \<and>
    map_option (\<lambda>h. (hdr_name h, hdr_val h)) (sip_msg_hdr msg i) = List.find (\<lambda>h. hdr_hash (fst h) = i) hs"
proof -
  obtain uri m where m: "add_all net m hs = Inr (None, msg)" "n = length (sip_head (req_line met ruri) hs)"
      "m = (msg_start rnd)\<lparr>sm_req := True, sm_met := Some met, sm_ruri := Some ruri, sm_ver := Some ''SIP/2.0'', sm_uri := uri\<rparr>"
    using assms(7) unfolding request_decode [OF assms(1-4,6)] read_headers_def
    by (auto simp: obind_Inr_iff split: if_splits option.splits)
  have "hash_rep hdr_key (sm_hdrht m) (sm_hdrl m)" "sm_hdrl m = []"
    using msg_start_rep [of rnd] by (simp_all add: m(3)) (simp add: msg_start_def msg_zero_def)
  note all = add_all_lists [OF m(1) this(1)] and nil = this(2)
  then have msg: "sm_hdrl msg = List.map mk_hdr hs" "sm_req msg" "sm_met msg = Some met" "sm_ruri msg = Some ruri"
    by (simp_all add: m(3))
  have rep: "hash_rep hdr_key (sm_hdrht msg) (sm_hdrl msg)" using all by blast
  have x: "sip_msg_xhdr msg name = List.find (\<lambda>h. List.map tolower (hdr_name h) = List.map tolower name) (sm_hdrl msg)"
    by (rule xhdr_found [OF rep]) (use assms(5) in \<open>auto simp: msg(1) mk_hdr_def list_all_iff\<close>)
  have f: "map_option f (List.find p (List.map mk_hdr hs)) = List.find (p \<circ> mk_hdr) hs" if "\<And>h. f (mk_hdr h) = h" for f :: "sip_hdr \<Rightarrow> string \<times> string" and p
    using that by (induction hs) simp_all
  show ?thesis using msg m(2) by (simp add: x hdr_found [OF rep] f mk_hdr_def o_def)
qed

lemma sip_headers_found_witness:
  "\<exists>msg. sip_msg_decode own_net 7 (sip_head (req_line ''OPTIONS'' s_target) s_headers @ ''x'') =
      Inr (Inr (msg, length (sip_head (req_line ''OPTIONS'' s_target) s_headers))) \<and>
    map_option (\<lambda>h. (hdr_name h, hdr_val h)) (sip_msg_xhdr msg ''max-forwards'') = Some (''Max-Forwards'', ''70'') \<and>
    map_option (\<lambda>h. (hdr_name h, hdr_val h)) (sip_msg_hdr msg (SIP_HDR ''MAX_FORWARDS'')) = Some (''Max-Forwards'', ''70'')"
proof -
  let ?t = "sip_head (req_line ''OPTIONS'' s_target) s_headers"
  obtain msg where msg: "sip_msg_decode own_net 7 (?t @ ''x'') = Inr (Inr (msg, length ?t))"
    using request_decode [OF s_request_ok(1,2) s_headers_ok s_request_ok(3), of own_net 7]
      s_request_all [of own_net "(msg_start 7)\<lparr>sm_req := True, sm_met := Some ''OPTIONS'', sm_ruri := Some s_target,
        sm_ver := Some ''SIP/2.0'', sm_uri := uri_decoded (pton_af own_net) s_uri\<rparr>"]
    by (auto simp: s_target_uri read_headers_def)
  have n: "list_all (\<lambda>h. CHR 0x00 \<notin> set (fst h)) s_headers" by (simp add: s_headers_def)
  have c: "List.map tolower ''Subject'' \<noteq> List.map tolower ''max-forwards''"
    "List.map tolower ''Max-Forwards'' = List.map tolower ''max-forwards''" by code_simp+
  show ?thesis
    using msg c sip_headers_found [OF s_request_ok(1,2) s_headers_ok n s_request_ok(3) msg, of "''max-forwards''" "SIP_HDR ''MAX_FORWARDS''"]
    by (intro exI [of _ msg]) (simp add: s_headers_def s_headers_hash parsed_ids)
qed

text \<open>The three formats with which the pull prints the address of a gateway put the pieces of its row
  behind each other, cut to the size of the array.\<close>

theorem gateway_address_printed:
  "\<exists>n. re_vsnprintf 1024 (Some (fst (gateway_printf row))) (snd (gateway_printf row)) = Inr (n, gateway_uristr row)"
  by (rule gateway_uristr_printf)

section \<open>Starting up\<close>

text \<open>C29. Looking a name up in a configuration of lines with a name and a value finds the first line with
  that name, up to the case of letters, and no other: not one of which the name is a part, and not
  a value.\<close>

theorem conf_lookup:
  assumes "conf_text conf = CHR 0x0A # concat (List.map entry_line es)" and "\<forall>e\<in>set es. entry_ok e"
    and "name_ok name" and "length (conf_text conf) < 2 ^ 32"
  shows "conf_get conf name pl = Inr (case List.find (\<lambda>e. List.map tolower (fst e) = List.map tolower name) es of
      None \<Rightarrow> (Some ENOENT, pl) | Some e \<Rightarrow> (None, Some (snd e)))"
  using assms by (rule conf_get_lookup)

definition s_conf :: mbuf where
  "s_conf = \<lparr>mb_buf = bytes_of [CHR 0x0A] @ bytes_of ''servers x'' @ bytes_of [CHR 0x0A] @ bytes_of ''Server y'' @
     bytes_of [CHR 0x0A], mb_size = 20, mb_pos = 20, mb_end = 20\<rparr>"

lemma conf_lookup_witness: "conf_get s_conf ''server'' None = Inr (None, Some ''y'')"
proof -
  have t: "conf_text s_conf = CHR 0x0A # concat (List.map entry_line [(''servers'', ''x''), (''Server'', ''y'')])"
    unfolding s_conf_def by code_simp
  have "\<forall>e\<in>set [(''servers'', ''x''), (''Server'', ''y'')]. entry_ok e" by (simp add: entry_ok_def blank_def)
  moreover have "length (conf_text s_conf) < 2 ^ 32" by (simp add: t entry_line_def)
  moreover have "List.map tolower ''servers'' \<noteq> List.map tolower ''server''"
    "List.map tolower ''Server'' = List.map tolower ''server''" by code_simp+
  ultimately show ?thesis by (subst conf_lookup [OF t _ names_ok(2)]) simp_all
qed

text \<open>C30. The dialler connects to the database whose address is in its configuration file, with the user,
  password, name and host of that address, and goes on with the address of its server; when the
  connection fails it gives up, with the exit status of success.\<close>

theorem settings_from_file:
  assumes "\<And>n. al_ok A n" and "string_of (concat chunks) = concat (List.map entry_line es)"
    and "\<forall>e\<in>set es. entry_ok e" and "length (concat chunks) < 2 ^ 32 - 1"
    and "entry_of ''mysql'' es = Some s" and "uri_printable u" and "uri_encode u = Inr s"
    and "entry_of ''server'' es = Some t" and "uri_printable v" and "uri_encode v = Inr t"
    and "uri_host v = Some h" and "length h < 64" and "net_inet_pton net h (sa_init AF_INET) = (None, s0)"
  shows "main_settings A True net init conn (Inr (chunks, None)) = Inr
    (if init \<and> conn [pl_text (uri_user u), pl_text (uri_password u), pl_text (uri_scheme u), pl_text (uri_host u)]
     then Inr \<lparr>set_db = \<lparr>db_con = Open, db_sqllist = [], db_sent = []\<rparr>, set_server = uri_decoded (pton_af net) v,
       set_sa = s0\<lparr>sa_sin_port := uri_port v\<rparr>, set_audio = entry_of ''audio_path'' es\<rparr>
     else Inl None)"
  using assms by (rule main_settings_printed)

definition s_db_uri :: uri where
  "s_db_uri = \<lparr>uri_scheme = Some ''db'', uri_user = Some ''u'', uri_password = Some ''p'', uri_host = Some ''h'',
     uri_af = AF_UNSPEC, uri_port = 0, uri_params = None, uri_headers = None\<rparr>"

definition s_server_uri :: uri where
  "s_server_uri = \<lparr>uri_scheme = Some ''sip'', uri_user = Some ''u'', uri_password = None, uri_host = Some ''1.2.3.4'',
     uri_af = AF_UNSPEC, uri_port = 5060, uri_params = None, uri_headers = None\<rparr>"

definition s_chunks :: "u8 list list" where
  "s_chunks = [bytes_of ''mysql db:u:p@h'', bytes_of [CHR 0x0A], bytes_of ''server sip:u@1.2.3.4:5060'',
     bytes_of [CHR 0x0A]]"

lemma settings_from_file_witness:
  "\<exists>st :: query settings. main_settings mem_all True own_net True (\<lambda>cred. cred = [''u'', ''p'', ''db'', ''h''])
      (Inr (s_chunks, None)) = Inr (Inr st) \<and> db_con (set_db st) = Open \<and> sa_port (set_sa st) = 5060 \<and>
    sa_sin_addr (set_sa st) = [1, 2, 3, 4] \<and> set_audio st = None"
proof -
  let ?es = "[(''mysql'', ''db:u:p@h''), (''server'', ''sip:u@1.2.3.4:5060'')]"
  let ?s0 = "(sa_init AF_INET)\<lparr>sa_sin_addr := [1, 2, 3, 4]\<rparr>"
  have t: "string_of (concat s_chunks) = concat (List.map entry_line ?es)" unfolding s_chunks_def by code_simp
  have e: "\<forall>e\<in>set ?es. entry_ok e" by (simp add: entry_ok_def blank_def)
  have "length (string_of (concat s_chunks)) < 2 ^ 32 - 1" unfolding t by (simp add: entry_line_def)
  then have l: "length (concat s_chunks) < 2 ^ 32 - 1" by (simp add: string_of_def)
  have es: "entry_of ''mysql'' ?es = Some ''db:u:p@h''" "entry_of ''server'' ?es = Some ''sip:u@1.2.3.4:5060''"
    and a: "entry_of ''audio_path'' ?es = None" by code_simp+
  have enc: "uri_encode s_db_uri = Inr ''db:u:p@h''" "uri_encode s_server_uri = Inr ''sip:u@1.2.3.4:5060''"
    by code_simp+
  have pr: "uri_printable s_db_uri" "uri_printable s_server_uri"
    by (simp_all add: uri_printable_def s_db_uri_def s_server_uri_def pl_text_def pl_isset_def AF_UNSPEC_def AF_INET6_def)
  have p4: "inet_pton4 ''1.2.3.4'' = Some [1, 2, 3, 4]" by code_simp
  have n: "net_inet_pton own_net ''1.2.3.4'' (sa_init AF_INET) = (None, ?s0)"
    by (simp add: net_inet_pton_def own_net_def p4) (simp add: sa_init_def)
  have "al_ok mem_all n" for n by (simp add: mem_all_def)
  then have "main_settings mem_all True own_net True (\<lambda>cred. cred = [''u'', ''p'', ''db'', ''h''])
      (Inr (s_chunks, None)) = Inr (Inr \<lparr>set_db = \<lparr>db_con = Open, db_sqllist = [], db_sent = []\<rparr>,
        set_server = uri_decoded (pton_af own_net) s_server_uri, set_sa = ?s0\<lparr>sa_sin_port := uri_port s_server_uri\<rparr>,
        set_audio = entry_of ''audio_path'' ?es\<rparr> :: errno option + query settings)"
    by (subst settings_from_file [OF _ t e l es(1) pr(1) enc(1) es(2) pr(2) enc(2) _ _ n])
      (simp_all add: s_db_uri_def s_server_uri_def pl_text_def)
  with a show ?thesis by (simp add: s_server_uri_def sa_port_def has_port_def) (simp add: sa_init_def)
qed

text \<open>C31. With the sessions that can be created at the start, however many, a campaign whose calls all lie
  ahead never has more than a hundred in use or free, and none of them in two places.\<close>

theorem sessions_from_start:
  assumes "camp_step\<^sup>*\<^sup>* (cp, rtp_session_allocate mem rnd udp g) (cp', g')" and "camp_inv cp" and "cp_processl cp = []"
  shows "distinct (sh_rtp_free g' @ dests_rtp (cp_processl cp')) \<and>
    set (sh_rtp_free g' @ dests_rtp (cp_processl cp')) \<subseteq> {i. i < 100 \<and> mem i} \<and>
    (\<forall>i\<in>set (sh_rtp_free g'). \<not> rts_in_use (sh_rtp g' i)) \<and> (\<forall>i\<in>set (dests_rtp (cp_processl cp')). rts_in_use (sh_rtp g' i))"
proof -
  have "sys_inv [] (cp, rtp_session_allocate mem rnd udp g)"
    using assms(2,3) rtp_session_allocate_pool by (simp add: sys_inv_def)
  from camp_reach_ok [OF assms(1) this] have 1: "pool_ok g' (dests_rtp (cp_processl cp'))"
    and 2: "sessions g' (dests_rtp (cp_processl cp')) \<subseteq># sessions (rtp_session_allocate mem rnd udp g) []"
    by (simp_all add: sys_inv_def sys_le_def assms(3))
  from set_mset_mono [OF 2] rtp_session_allocate_free [of mem rnd udp g]
  have "set (sh_rtp_free g' @ dests_rtp (cp_processl cp')) \<subseteq> {i. i < 100 \<and> mem i}" by (auto simp: sessions_def)
  with 1 show ?thesis by (auto simp: pool_ok_def)
qed

lemma sessions_from_start_witness:
  "\<exists>cp' g'. camp_step\<^sup>*\<^sup>* (s_campaign [s_dest 7 0 None] [], rtp_session_allocate (\<lambda>i. i < 3) (\<lambda>_ _. 0)
      (\<lambda>i _ _. if i = 1 then Some EINVAL else None) (s_shared [])) (cp', g') \<and>
    sh_rtp_free g' = [2] \<and> dests_rtp (cp_processl cp') = [0] \<and>
    distinct (sh_rtp_free g' @ dests_rtp (cp_processl cp'))"
proof -
  let ?cp = "s_campaign [s_dest 7 0 None] []"
  let ?g = "rtp_session_allocate (\<lambda>i. i < 3) (\<lambda>_ _. 0) (\<lambda>i _ _. if i = 1 then Some EINVAL else None) (s_shared [])"
  have "case start_fake_calling (s_env 10) (\<lambda>_. s_env 10) ''/a'' ?cp ?g of
      Inr (cp, g) \<Rightarrow> dests_rtp (cp_processl cp) = [0] \<and> sh_rtp_free g = [2] | Inl _ \<Rightarrow> False"
    by code_simp
  then obtain cp' g' where run: "start_fake_calling (s_env 10) (\<lambda>_. s_env 10) ''/a'' ?cp ?g = Inr (cp', g')"
    and r: "dests_rtp (cp_processl cp') = [0]" "sh_rtp_free g' = [2]" by (auto split: sum.splits)
  have step: "camp_step\<^sup>*\<^sup>* (?cp, ?g) (cp', g')" by (rule r_into_rtranclp) (rule camp_step.round [OF run])
  have "camp_inv ?cp" "cp_processl ?cp = []"
    by (simp_all add: s_defs camp_inv_def camp_ids_def dest_inv_def tries_ok_def dest_call_ok_def)
  with sessions_from_start [OF step] step r show ?thesis by blast
qed

section \<open>Session descriptions\<close>

text \<open>C32. What a session with one media line prints as its offer is read by the answerer, when it has a
  media line of the same name and protocol: it gets to know the address and the direction of the
  offerer, and agrees on the first format of the offer for which it has one that compares equal.\<close>

theorem sdp_offer_understood:
  assumes "inet net" and "ss_medial s @ filter (\<lambda>m. \<not> md_disabled m) (ss_lmedial s) = [m]"
    and "\<not> md_disabled m" and "supported m \<noteq> []" and "media_printable m" and "sa_port (md_laddr m) \<noteq> 0"
    and "addr_ok (ss_laddr s)" and "\<forall>a\<in>set (ss_lattrl s). attr_ok a"
    and "sdp_encode net s True = Inr (msg, s')" and "length msg < 2 ^ 32"
    and "ss_medial t = []" and "ss_lmedial t = [lm]" and "lm = sdp_media_rreset lm" and "\<not> md_disabled lm"
    and "md_name lm = md_name m" and "md_proto lm = md_proto m"
    and "one_id (List.map remote_format (supported m)) (md_lfmtl lm)"
  shows "\<exists>t' m'. sdp_decode net t msg True = Inr (None, t') \<and> ss_medial t' = [m'] \<and> ss_lmedial t' = [] \<and>
    sdp_media_raddr (Some m') = Some (remote_addr s m) \<and> sdp_media_rdir (Some m') = mirror (md_ldir m) \<and>
    rel_option same_remote
      (List.find (\<lambda>r. \<exists>l\<in>set (md_lfmtl lm). sdp_format_cmp l r) (List.map remote_format (supported m)))
      (sdp_media_rformat (Some m') None)"
  using sdp_offer_read [OF assms] .

definition s_offerer :: sdp_session where
  "s_offerer = (let a = (sa_init AF_INET)\<lparr>sa_sin_addr := [10, 0, 0, 1]\<rparr>;
       s = sdp_media_add (sdp_session_alloc a 7 1) ''audio'' 4000 ''RTP/AVP'';
       m = hd (ss_lmedial s);
       m = snd (sdp_format_add m False (Some ''18'') (Some ''G729'') 8000 1 None None False None);
       m = snd (sdp_format_add m False (Some ''4'') (Some ''G723'') 8000 1 None None False None)
     in s\<lparr>ss_lmedial := [m]\<rparr>)"

definition s_answerer :: sdp_session where
  "s_answerer = (let s = sdp_media_add (sdp_session_alloc (sa_init AF_INET) 8 1) ''audio'' 4242 ''RTP/AVP'';
       m = snd (sdp_format_add (hd (ss_lmedial s)) False (Some ''4'') (Some ''G723'') 8000 1 None None False None)
     in s\<lparr>ss_lmedial := [m]\<rparr>)"

definition s_offer :: string where
  "s_offer = concat (List.map (\<lambda>l. l @ crlf) [''v=0'', ''o=- 7 1 IN IP4 10.0.0.1'', ''s=-'', ''c=IN IP4 10.0.0.1'', ''t=0 0'',
     ''m=audio 4000 RTP/AVP 18 4'', ''a=rtpmap:18 G729/8000'', ''a=rtpmap:4 G723/8000'', ''a=sendrecv''])"

lemmas s_sdp_defs = s_offerer_def s_answerer_def sdp_media_add_def sdp_session_alloc_def sdp_format_add_def media_alloc_def
  sa_set_port_def sa_init_def has_port_def Let_def format_zero_def supported_def addr_ok_def sa_port_def sdp_media_rreset_def

lemma s_offerer_printable: "media_printable (hd (ss_lmedial s_offerer))"
  by (simp add: media_printable_def s_sdp_defs format_ok_def word_ok_def text_ok_def eol_def alpha_def
      pl_isset_def pl_text_def chr_le_def tolower_def)

lemma s_offer_printed:
  "sdp_encode own_net s_offerer True = Inr (s_offer, snd (projr (sdp_encode own_net s_offerer True)))"
  "length s_offer < 2 ^ 32"
proof -
  have "case sdp_encode own_net s_offerer True of Inr (msg, _) \<Rightarrow> msg = s_offer | Inl _ \<Rightarrow> False" by code_simp
  then show "sdp_encode own_net s_offerer True = Inr (s_offer, snd (projr (sdp_encode own_net s_offerer True)))"
    by (auto split: sum.splits)
  show "length s_offer < 2 ^ 32" by (simp add: s_offer_def crlf_def)
qed

lemma sdp_offer_understood_witness:
  "\<exists>t' m' f. sdp_decode own_net s_answerer s_offer True = Inr (None, t') \<and> ss_medial t' = [m'] \<and>
    sa_sin_port (md_raddr m') = 4000 \<and> sa_sin_addr (md_raddr m') = [10, 0, 0, 1] \<and> md_rdir m' = SDP_SENDRECV \<and>
    sdp_media_rformat (Some m') None = Some f \<and> fm_name f = Some ''G723''"
proof -
  let ?m = "hd (ss_lmedial s_offerer)" and ?lm = "hd (ss_lmedial s_answerer)"
  let ?g = "\<lparr>fm_id = ''4'', fm_params = None, fm_name = Some ''G723'', fm_cmph = None, fm_data = None, fm_ref = False,
    fm_sup = False, fm_pt = 4, fm_srate = 8000, fm_ch = 1\<rparr>"
  have fs: "supported ?m = md_lfmtl ?m" "List.map fm_id (md_lfmtl ?m) = [''18'', ''4'']" by (simp_all add: s_sdp_defs)
  have at: "atoi ''4'' = 4" "atoi ''18'' = 18" by code_simp+
  have rf: "List.map remote_format (supported ?m) = [?g\<lparr>fm_id := ''18'', fm_name := Some ''G729'', fm_pt := 18\<rparr>, ?g]"
    unfolding fs by (simp add: s_sdp_defs remote_format_def pl_isset_def at)
  have lf: "md_lfmtl ?lm = [?g\<lparr>fm_sup := True\<rparr>]" by (simp add: s_sdp_defs at)
  have cmp: "\<not> sdp_format_cmp (?g\<lparr>fm_sup := True\<rparr>) (?g\<lparr>fm_id := ''18'', fm_name := Some ''G729'', fm_pt := 18\<rparr>)"
    "sdp_format_cmp (?g\<lparr>fm_sup := True\<rparr>) ?g" by (simp_all add: sdp_format_cmp_def RTP_DYNPT_START_def)
  have one: "one_id (List.map remote_format (supported ?m)) (md_lfmtl ?lm)"
    unfolding rf lf using cmp at by (simp add: one_id_def)
  have raddr: "remote_addr s_offerer ?m = (sa_init AF_INET)\<lparr>sa_sin_addr := [10, 0, 0, 1], sa_sin_port := 4000\<rparr>"
    by (simp add: remote_addr_def s_sdp_defs sa_isset_def)
  have "\<exists>t' m'. sdp_decode own_net s_answerer s_offer True = Inr (None, t') \<and> ss_medial t' = [m'] \<and> ss_lmedial t' = [] \<and>
    sdp_media_raddr (Some m') = Some (remote_addr s_offerer ?m) \<and> sdp_media_rdir (Some m') = mirror (md_ldir ?m) \<and>
    rel_option same_remote
      (List.find (\<lambda>r. \<exists>l\<in>set (md_lfmtl ?lm). sdp_format_cmp l r) (List.map remote_format (supported ?m)))
      (sdp_media_rformat (Some m') None)"
    by (rule sdp_offer_understood [OF own_inet _ _ _ s_offerer_printable _ _ _ s_offer_printed(1) s_offer_printed(2) _ _ _ _ _ _ one])
      (simp_all add: s_sdp_defs)
  then obtain t' m' where t: "sdp_decode own_net s_answerer s_offer True = Inr (None, t')" "ss_medial t' = [m']"
    "md_raddr m' = remote_addr s_offerer ?m" "md_rdir m' = mirror (md_ldir ?m)"
    "rel_option same_remote (Some ?g) (sdp_media_rformat (Some m') None)"
    unfolding rf lf using cmp by (auto simp: sdp_media_raddr_def sdp_media_rdir_def)
  from t(5) obtain f where f: "sdp_media_rformat (Some m') None = Some f" "same_remote ?g f" by (cases "sdp_media_rformat (Some m') None") auto
  from same_remote_id [OF f(2)] have n: "fm_name f = Some ''G723''" by simp
  have dir: "md_ldir ?m = SDP_SENDRECV" by (simp add: s_sdp_defs)
  show ?thesis using t(1,2,3,4) f(1) n by (auto simp: raddr dir sa_init_def mirror_def dir_of_def)
qed



section \<open>SIP transactions\<close>

text \<open>C34. The user of a client transaction is told at most one final outcome, a final response or an error,
  whatever responses come in, however late timers fire, and whatever happens to the transport; and
  unless the user gave the transaction up it is told one as soon as the transaction is over.\<close>

theorem ctrans_one_outcome:
  assumes "ct_reach net R s" and "i < sp_next s"
  shows "finals i s \<le> 1 \<and> (i \<notin> R \<longrightarrow> (finals i s = 1 \<longleftrightarrow> (case sp_ct s i of
      None \<Rightarrow> True | Some ct \<Rightarrow> ct_state ct = COMPLETED)))"
proof -
  have "local_ok R i s" using ct_reach_inv [OF assms(1)] by (simp add: ct_inv_def)
  then show ?thesis using assms(2) by (auto simp: local_ok_def split: option.splits if_splits)
qed

definition s_stack :: ct_stack where
  "s_stack = \<lparr>sp_ht = \<lparr>h_bucket = [[], []], h_bsize = 2\<rparr>, sp_ct = (\<lambda>_. None), sp_next = 0, sp_software = None, sp_now = 10,
     sp_log = []\<rparr>"

definition s_invited :: ct_stack where
  "s_invited = snd (sip_ctrans_request SIP_TRANSP_UDP (sa_init AF_INET) ''INVITE'' ''z9hG4bK01'' ''INVITE ...'' None s_stack)"

lemma s_invited_request:
  "sip_ctrans_request SIP_TRANSP_UDP (sa_init AF_INET) ''INVITE'' ''z9hG4bK01'' ''INVITE ...'' None s_stack = (Inr 0, s_invited)"
  by (simp add: s_invited_def sip_ctrans_request_def s_stack_def Let_def)

lemma s_stack_init: "ct_init s_stack"
proof -
  have "replicate 2 ([] :: nat list) = [[], []]" by (simp add: numeral_2_eq_2)
  then have "hash_alloc 2 = Inr (sp_ht s_stack)" by (simp add: hash_alloc_def s_stack_def)
  then show ?thesis unfolding ct_init_def by (auto simp: s_stack_def)
qed

lemma s_invited_reach: "ct_reach net {} s_invited"
  by (rule ct_reach.Step [OF ct_reach.Start [OF s_stack_init] ct_step.Request [OF s_invited_request]])

lemma s_invited_ct:
  "\<exists>ct. sp_ct s_invited 0 = Some ct \<and> ct_state ct = CALLING \<and> ct_tmre ct = Some 510 \<and> ct_tmr ct = Some 32010 \<and>
    ct_branch ct = ''z9hG4bK01'' \<and> ct_met ct = ''INVITE'' \<and> ct_invite ct"
  "sp_next s_invited = 1" "sp_ct s_invited (Suc j) = None" "sp_now s_invited = 10"
  by (simp_all add: s_invited_def sip_ctrans_request_def s_stack_def Let_def sip_transp_reliable_def SIP_T1_def)

lemma ctrans_one_outcome_witness:
  "0 < sp_next s_invited \<and> finals 0 s_invited = 0"
  using ctrans_one_outcome [OF s_invited_reach [of own_net], of 0] s_invited_ct by auto

text \<open>C35. The timers of client transactions are safe: when the timer for sending again fires, however
  late, but not later than another one that is due before it, the transaction is there and
  no shift of the interval overflows; and a transaction without the timer that ends it is an
  INVITE for which there was a provisional response.\<close>

theorem ctrans_timers_safe:
  assumes "ct_reach net R s" and "sp_ct s i = Some ct"
  shows "(ct_tmr ct = None \<longrightarrow> ct_invite ct \<and> ct_state ct = PROCEEDING) \<and>
    (\<forall>t e. ct_tmre ct = Some t \<and> first_due s t \<longrightarrow>
      (\<exists>s'. ct_retransmit_handler e i (put_ct i (ct\<lparr>ct_tmre := None\<rparr>) s) = Inr s' \<and> ct_reach net R s'))"
proof -
  note inv = ct_reach_inv [OF assms(1)]
  have "\<exists>s'. ct_retransmit_handler e i (put_ct i (ct\<lparr>ct_tmre := None\<rparr>) s) = Inr s' \<and> ct_reach net R s'"
    if t: "ct_tmre ct = Some t" "first_due s t" for t e
  proof -
    obtain s' where s': "ct_retransmit_handler e i (put_ct i (ct\<lparr>ct_tmre := None\<rparr>) s) = Inr s'"
      using again_inv [OF inv assms(2) t, of e] by blast
    then show ?thesis using ct_reach.Step [OF assms(1) ct_step.Again [OF assms(2) t s']] by blast
  qed
  then show ?thesis using ct_invD [OF inv assms(2)] by (auto simp: ct_ok_def)
qed

lemma ctrans_timers_safe_witness:
  "\<exists>ct. sp_ct s_invited 0 = Some ct \<and> ct_tmr ct \<noteq> None \<and> ct_tmre ct = Some 510"
proof -
  obtain ct where ct: "sp_ct s_invited 0 = Some ct" "ct_state ct = CALLING" "ct_tmre ct = Some 510"
    using s_invited_ct(1) by blast
  from ctrans_timers_safe [OF s_invited_reach [of own_net] ct(1)] ct show ?thesis by auto
qed

text \<open>C36. A request over an unreliable transport for which there is no response is sent at growing
  distances: an INVITE seven times, each distance double the one before, another request eleven times, at most
  four seconds apart. After 32 seconds its user is told that the time is over, and the
  transaction is gone.\<close>

theorem ctrans_unanswered:
  assumes "sip_ctrans_request tp dst met branch mb None s = (Inr i, s0)" and "\<not> sip_transp_reliable tp"
  shows "\<exists>s'. ct_wakes (if met = ''INVITE'' then 7 else 11) i s0 = Inr s' \<and> sp_ct s' i = None \<and>
    sp_log s' = sp_log s @ List.map (\<lambda>t. (sp_now s + t, Sent tp dst mb))
        (if met = ''INVITE'' then [0, 500, 1500, 3500, 7500, 15500, 31500]
         else [0, 500, 1500, 3500, 7500, 11500, 15500, 19500, 23500, 27500, 31500]) @
      [(sp_now s + 32000, Told i (Some ETIMEDOUT) None)]"
  using assms by (rule request_unanswered)

lemma ctrans_unanswered_witness:
  "\<exists>s'. ct_wakes 7 0 s_invited = Inr s' \<and> sp_ct s' 0 = None \<and>
    sp_log s' = List.map (\<lambda>t. (10 + t, Sent SIP_TRANSP_UDP (sa_init AF_INET) ''INVITE ...'')) [0, 500, 1500, 3500, 7500, 15500, 31500] @
      [(32010, Told 0 (Some ETIMEDOUT) None)]"
  using ctrans_unanswered [OF s_invited_request] by (simp add: s_stack_def sip_transp_reliable_def)

text \<open>C37. A response whose Via branch and CSeq method are those of one transaction, with a branch of ASCII
  characters, reaches that transaction, in whatever bucket of the table and behind whatever other transactions
  it is, and no freed transaction is looked at on the way.\<close>

theorem ctrans_response_found:
  assumes "ct_reach net R s" and "sp_ct s i = Some ct" and "via_branch (sm_via msg) = Some (ct_branch ct)" and "ascii (ct_branch ct)"
    and "cs_met (sm_cseq msg) = Some (ct_met ct)"
    and "\<forall>j c. sp_ct s j = Some c \<and> ct_branch c = ct_branch ct \<and> ct_met c = ct_met ct \<longrightarrow> j = i"
  shows "ct_response_handler net rnd e msg s =
    (if ct_invite ct then obind (invite_response net rnd e i ct msg s) (\<lambda>s. Inr (True, s)) else Inr (True, other_response i ct msg s))"
  by (rule response_found [OF ct_reach_inv [OF assms(1)] assms(2-5)]) (use assms(6) in blast)

definition s_ringing :: sip_msg where
  "s_ringing = (msg_start 3)\<lparr>sm_scode := 180, sm_via := via_zero\<lparr>via_branch := Some ''z9hG4bK01''\<rparr>,
     sm_cseq := \<lparr>cs_met = Some ''INVITE'', cs_num = 1\<rparr>\<rparr>"

lemma ctrans_response_found_witness:
  "\<exists>s' ct. ct_response_handler own_net 5 None s_ringing s_invited = Inr (True, s') \<and> sp_ct s' 0 = Some ct \<and>
    ct_state ct = PROCEEDING \<and> ct_tmre ct = None"
proof -
  obtain ct where ct: "sp_ct s_invited 0 = Some ct" "ct_state ct = CALLING" "ct_branch ct = ''z9hG4bK01''" "ct_met ct = ''INVITE''"
    "ct_invite ct" using s_invited_ct(1) by blast
  have one: "\<forall>j c. sp_ct s_invited j = Some c \<and> ct_branch c = ct_branch ct \<and> ct_met c = ct_met ct \<longrightarrow> j = 0"
  proof (intro allI impI)
    fix j c assume "sp_ct s_invited j = Some c \<and> ct_branch c = ct_branch ct \<and> ct_met c = ct_met ct"
    then show "j = 0" using s_invited_ct(3) by (cases j) simp_all
  qed
  have "ct_response_handler own_net 5 None s_ringing s_invited =
      obind (invite_response own_net 5 None 0 ct s_ringing s_invited) (\<lambda>s. Inr (True, s))"
    using ctrans_response_found [OF s_invited_reach [of own_net] ct(1) _ _ _ one, of s_ringing 5 None] ct
    by (simp add: s_ringing_def ascii_def)
  then show ?thesis using ct by (simp add: invite_response_def s_ringing_def Let_def)
qed

text \<open>C38. A server transaction is held by its user, with no timer running, exactly until it has been answered;
  from then on a timer runs that ends it. So no response of the application finds its
  transaction freed, and none stays behind. Only a negative response to an INVITE that came over an unreliable
  transport and was not acknowledged is being sent again, and then the timer for it never overflows.\<close>

theorem strans_held_or_timed:
  assumes "st_reach net (H, s)"
  shows "H \<subseteq> st_alive s \<and> (\<forall>i st. ss_st s i = Some st \<longrightarrow>
    (if i \<in> H then st_state st \<in> {TRYING_S, PROCEEDING_S} \<and> st_tmr st = None \<and> st_tmrg st = None
     else st_state st \<notin> {TRYING_S, PROCEEDING_S} \<and> st_tmr st \<noteq> None) \<and>
    (st_tmrg st \<noteq> None \<longleftrightarrow> st_state st = COMPLETED_S \<and> st_invite st \<and> \<not> sip_transp_reliable (sm_tp (st_msg st))) \<and>
    (\<forall>t e. st_tmrg st = Some t \<and> st_due s t \<longrightarrow>
      (\<exists>s'. st_retransmit_handler e i (put_st i (st\<lparr>st_tmrg := None\<rparr>) s) = Inr s' \<and> st_reach net (H, s'))))"
proof -
  have inv: "st_inv H s" using st_reach_inv [OF assms] by simp
  have again: "\<exists>s'. st_retransmit_handler e i (put_st i (st\<lparr>st_tmrg := None\<rparr>) s) = Inr s' \<and> st_reach net (H, s')"
    if st: "ss_st s i = Some st" "st_tmrg st = Some t" "st_due s t" for i st t e
  proof -
    obtain s' where s': "st_retransmit_handler e i (put_st i (st\<lparr>st_tmrg := None\<rparr>) s) = Inr s'"
      using st_again [OF inv st, of e] by blast
    then show ?thesis using st_reach.Step [OF assms st_step.Again [OF st s']] by blast
  qed
  have ok: "(if i \<in> H then st_state st \<in> {TRYING_S, PROCEEDING_S} \<and> st_tmr st = None \<and> st_tmrg st = None
     else st_state st \<notin> {TRYING_S, PROCEEDING_S} \<and> st_tmr st \<noteq> None) \<and>
    (st_tmrg st \<noteq> None \<longleftrightarrow> st_state st = COMPLETED_S \<and> st_invite st \<and> \<not> sip_transp_reliable (sm_tp (st_msg st)))"
    if "ss_st s i = Some st" for i st
    using st_invD [OF inv that] by (auto simp: st_ok_def)
  have sub: "H \<subseteq> st_alive s" using inv by (simp add: st_inv_def)
  show ?thesis by (rule conjI [OF sub], intro allI impI, rule conjI [OF conjunct1 [OF ok]], assumption,
    rule conjI [OF conjunct2 [OF ok]], assumption) (use again in blast)
qed

definition s_server :: st_stack where
  "s_server = \<lparr>ss_ht = \<lparr>h_bucket = [[], []], h_bsize = 2\<rparr>, ss_st = (\<lambda>_. None), ss_next = 0, ss_software = None, ss_now = 10,
     ss_log = []\<rparr>"

definition s_invite :: sip_msg where
  "s_invite = (msg_start 3)\<lparr>sm_req := True, sm_met := Some ''INVITE'', sm_via := via_zero\<lparr>via_branch := Some ''z9hG4bK01'',
     via_sentby := Some ''h''\<rparr>, sm_cseq := \<lparr>cs_met = Some ''INVITE'', cs_num = 1\<rparr>\<rparr>"

definition s_taken :: st_stack where
  "s_taken = snd (sip_strans_alloc s_invite s_server)"

lemma s_taken_alloc: "sip_strans_alloc s_invite s_server = (0, s_taken)"
  by (simp add: s_taken_def sip_strans_alloc_def s_server_def Let_def)

lemma s_server_reach: "st_reach net ({}, s_server)"
proof (rule st_reach.Start)
  have "replicate 2 ([] :: nat list) = [[], []]" by (simp add: numeral_2_eq_2)
  then have "hash_alloc 2 = Inr (ss_ht s_server)" by (simp add: hash_alloc_def s_server_def)
  then show "st_init s_server" unfolding st_init_def by (auto simp: s_server_def)
qed

lemma s_taken_reach: "st_reach net ({0}, s_taken)"
  by (rule st_reach.Step [OF s_server_reach st_step.Take [OF s_taken_alloc]])

definition s_transaction :: sip_strans where
  "s_transaction = \<lparr>st_tmr = None, st_tmrg = None, st_dst = sa_zero, st_msg = s_invite, st_mb = None, st_state = TRYING_S, st_txc = 0,
     st_invite = True\<rparr>"

lemma s_taken_st: "ss_st s_taken 0 = Some s_transaction" "ss_st s_taken (Suc j) = None" "ss_now s_taken = 10" "ss_log s_taken = []"
  by (simp_all add: s_taken_def sip_strans_alloc_def s_server_def s_transaction_def s_invite_def pl_strcmp_eq Let_def)

lemma strans_held_or_timed_witness: "st_state s_transaction = TRYING_S \<and> st_tmr s_transaction = None"
  using strans_held_or_timed [OF s_taken_reach [of own_net]] s_taken_st(1) by (auto simp: s_transaction_def)





text \<open>C40. A negative response to an INVITE over an unreliable transport is sent eleven times within 32 seconds while
  there is no ACK, and then the transaction is gone.\<close>

theorem strans_until_ack:
  assumes "st_reach net (H, s)" and "i \<in> H" and "ss_st s i = Some st" and "st_invite st" and "\<not> sip_transp_reliable (sm_tp (st_msg st))"
    and "300 \<le> scode" and "sip_strans_reply (Some (Some i)) msg dst scode mb None s = Inr (err, stp, s0)"
  shows "\<exists>s'. st_wakes 11 i s0 = Inr s' \<and> ss_st s' i = None \<and>
    ss_log s' = ss_log s @ List.map (\<lambda>t. (ss_now s + t, Reply_sent (sm_tp (st_msg st)) dst mb))
      [0, 500, 1500, 3500, 7500, 11500, 15500, 19500, 23500, 27500, 31500]"
proof -
  have inv: "st_inv H s" using st_reach_inv [OF assms(1)] by simp
  show ?thesis by (rule unacknowledged [OF inv assms(3,2,4-7)])
qed

lemma strans_until_ack_witness:
  "\<exists>s0 s'. sip_strans_reply (Some (Some 0)) s_invite sa_zero 486 ''busy'' None s_taken = Inr (None, Some None, s0) \<and>
    st_wakes 11 0 s0 = Inr s' \<and> ss_st s' 0 = None \<and> length (ss_log s') = 11"
proof -
  let ?r = "sip_strans_reply (Some (Some 0)) s_invite sa_zero 486 ''busy'' None s_taken"
  obtain s0 where r: "?r = Inr (None, Some None, s0)"
    unfolding strans_reply_code [OF s_taken_st(1)] by simp
  have tp: "\<not> sip_transp_reliable (sm_tp (st_msg s_transaction))"
    by (simp add: s_transaction_def s_invite_def msg_start_def msg_zero_def sip_transp_reliable_def)
  obtain s' where s': "st_wakes 11 0 s0 = Inr s'" "ss_st s' 0 = None"
    "ss_log s' = ss_log s_taken @ List.map (\<lambda>t. (ss_now s_taken + t, Reply_sent (sm_tp (st_msg s_transaction)) sa_zero ''busy''))
      [0, 500, 1500, 3500, 7500, 11500, 15500, 19500, 23500, 27500, 31500]"
    using strans_until_ack [OF s_taken_reach [of own_net] _ s_taken_st(1) _ tp _ r] by (auto simp: s_transaction_def)
  have "length (ss_log s') = 11" by (simp add: s'(3) s_taken_st)
  with r s'(1,2) show ?thesis by blast
qed
end
